(* ===== verification/Ulp_Prelude.thy ===== *)
theory Ulp_Prelude
  imports Main "HOL-Library.Word"
begin

unbundle bit_operations_syntax

text \<open>
  Shared vocabulary of the libpulp development: machine words, byte strings, little-endian
  encodings, C strings, the byte-addressed memory of a process and the byte-indexed buffers the
  library keeps. Everything a component proof needs about them is proved here once and declared
  \<open>[simp]\<close> or put into one of the collections \<open>bytes_simps\<close> (encodings), \<open>mem_simps\<close>
  (memory and buffer reads after writes) and \<open>ulp_defs\<close> (definitions a component unfolds).
\<close>

named_theorems bytes_simps \<open>little-endian encodings and C strings\<close>
named_theorems mem_simps \<open>reads of memories and buffers after writes\<close>
named_theorems ulp_defs \<open>operation definitions unfolded by the component proofs\<close>

subsection \<open>Machine types\<close>

type_synonym u8 = "8 word"
type_synonym u16 = "16 word"
type_synonym u32 = "32 word"
type_synonym u64 = "64 word"
type_synonym bytes = "u8 list"
type_synonym mem = "u64 \<Rightarrow> u8"
type_synonym buf = "nat \<Rightarrow> u8"

subsection \<open>C strings\<close>

text \<open>
  A \<open>char *\<close> points into a byte buffer; the string is the part before the first NUL byte.
  \<open>str\<close> turns a literal into its bytes.
\<close>

definition str :: "string \<Rightarrow> bytes" where
  "str s = map of_char s"

definition cstr :: "bytes \<Rightarrow> bytes" where
  "cstr bs = takeWhile (\<lambda>b. b \<noteq> 0) bs"

definition no_nul :: "bytes \<Rightarrow> bool" where
  "no_nul bs \<longleftrightarrow> 0 \<notin> set bs"

lemma cstr_append_nul [simp, bytes_simps]: "no_nul s \<Longrightarrow> cstr (s @ 0 # rest) = s"
  unfolding cstr_def no_nul_def
  by (subst takeWhile_append2) auto

lemma no_nul_cstr [simp]: "no_nul (cstr bs)"
  unfolding cstr_def no_nul_def by (auto dest: set_takeWhileD)

lemma cstr_no_nul [simp]: "no_nul s \<Longrightarrow> cstr s = s"
  unfolding cstr_def no_nul_def by (auto simp: takeWhile_eq_all_conv)

lemma cstr_idem [simp]: "cstr (cstr bs) = cstr bs"
  by simp

subsection \<open>Little-endian encodings\<close>

text \<open>
  \<open>le_bytes n x\<close> are the \<open>n\<close> low bytes of \<open>x\<close>, least significant first, as a store of an
  \<open>n\<close>-byte integer leaves them in memory on the two supported targets (both little endian).
\<close>

primrec le_bytes :: "nat \<Rightarrow> nat \<Rightarrow> bytes" where
  "le_bytes 0 x = []"
| "le_bytes (Suc n) x = of_nat (x mod 256) # le_bytes n (x div 256)"

primrec of_le :: "bytes \<Rightarrow> nat" where
  "of_le [] = 0"
| "of_le (b # bs) = unat b + 256 * of_le bs"

lemma length_le_bytes [simp]: "length (le_bytes n x) = n"
  by (induction n arbitrary: x) auto

lemma of_le_bound: "of_le bs < 256 ^ length bs"
proof (induction bs)
  case (Cons b bs)
  have "unat b < 256" using unsigned_less [of b] by simp
  with Cons show ?case by simp
qed simp

lemma of_le_le_bytes [bytes_simps]: "of_le (le_bytes n x) = x mod 256 ^ n"
proof (induction n arbitrary: x)
  case (Suc n)
  have "x mod 256 ^ Suc n = 256 * (x div 256 mod 256 ^ n) + x mod 256"
    by (simp add: mod_mult2_eq)
  then show ?case
    using Suc by (simp add: unat_of_nat)
qed simp

lemma le_bytes_of_le [bytes_simps]: "le_bytes (length bs) (of_le bs) = bs"
proof (induction bs)
  case (Cons b bs)
  have "unat b < 256" using unsigned_less [of b] by simp
  then show ?case using Cons by simp
qed simp

lemma le_bytes_inj: "x < 256 ^ n \<Longrightarrow> y < 256 ^ n \<Longrightarrow> le_bytes n x = le_bytes n y \<Longrightarrow> x = y"
  by (metis mod_less of_le_le_bytes)

definition u32_bytes :: "u32 \<Rightarrow> bytes" where
  "u32_bytes w = le_bytes 4 (unat w)"

definition u64_bytes :: "u64 \<Rightarrow> bytes" where
  "u64_bytes w = le_bytes 8 (unat w)"

definition bytes_u32 :: "bytes \<Rightarrow> u32" where
  "bytes_u32 bs = of_nat (of_le bs)"

definition bytes_u64 :: "bytes \<Rightarrow> u64" where
  "bytes_u64 bs = of_nat (of_le bs)"

lemma length_u32_bytes [simp]: "length (u32_bytes w) = 4"
  and length_u64_bytes [simp]: "length (u64_bytes v) = 8"
  by (simp_all add: u32_bytes_def u64_bytes_def)

lemma bytes_u32_u32_bytes [simp, bytes_simps]: "bytes_u32 (u32_bytes w) = w"
proof -
  have "unat w < 256 ^ 4" using unsigned_less [of w] by simp
  then show ?thesis
    by (simp add: bytes_u32_def u32_bytes_def of_le_le_bytes del: power_numeral_even)
qed

lemma bytes_u64_u64_bytes [simp, bytes_simps]: "bytes_u64 (u64_bytes w) = w"
proof -
  have "unat w < 256 ^ 8" using unsigned_less [of w] by simp
  then show ?thesis
    by (simp add: bytes_u64_def u64_bytes_def of_le_le_bytes del: power_numeral_even)
qed

lemma u64_bytes_inj [simp]: "u64_bytes v = u64_bytes w \<longleftrightarrow> v = w"
  by (metis bytes_u64_u64_bytes)

lemma u32_bytes_inj [simp]: "u32_bytes v = u32_bytes w \<longleftrightarrow> v = w"
  by (metis bytes_u32_u32_bytes)

subsection \<open>Byte-indexed buffers\<close>

text \<open>
  A static \<open>char buffer[MAX]\<close> is a function from positions to bytes; the code that indexes it is
  responsible for staying below \<open>MAX\<close>, and the component models check that.
\<close>

primrec buf_write :: "buf \<Rightarrow> nat \<Rightarrow> bytes \<Rightarrow> buf" where
  "buf_write b i [] = b"
| "buf_write b i (x # xs) = buf_write (b(i := x)) (Suc i) xs"

definition buf_read :: "buf \<Rightarrow> nat \<Rightarrow> nat \<Rightarrow> bytes" where
  "buf_read b i n = map b [i..<i + n]"

lemma length_buf_read [simp]: "length (buf_read b i n) = n"
  by (simp add: buf_read_def)

lemma buf_write_apply [mem_simps]:
  "buf_write b i xs j = (if i \<le> j \<and> j < i + length xs then xs ! (j - i) else b j)"
proof (induction xs arbitrary: b i)
  case (Cons x xs)
  show ?case
    unfolding buf_write.simps Cons.IH by (auto simp: nth_Cons' Suc_diff_Suc)
qed auto

lemma buf_read_write_same [simp, mem_simps]: "buf_read (buf_write b i xs) i (length xs) = xs"
  by (rule nth_equalityI) (auto simp: buf_read_def buf_write_apply)

lemma buf_read_write_disjoint [mem_simps]:
  "j + n \<le> i \<or> i + length xs \<le> j \<Longrightarrow> buf_read (buf_write b i xs) j n = buf_read b j n"
  by (rule nth_equalityI) (auto simp: buf_read_def buf_write_apply)

lemma buf_read_append: "buf_read b i (m + n) = buf_read b i m @ buf_read b (i + m) n"
  using upt_add_eq_append [of i "i + m" n] by (simp add: buf_read_def add.assoc)

lemma buf_write_append:
  "buf_write b i (xs @ ys) = buf_write (buf_write b i xs) (i + length xs) ys"
  by (rule ext) (auto simp: buf_write_apply nth_append)

subsection \<open>Process memory\<close>

text \<open>
  The memory of the live-patched process is a total function on 64-bit addresses; address
  arithmetic wraps as pointer arithmetic does on the targets.
\<close>

primrec mem_write :: "mem \<Rightarrow> u64 \<Rightarrow> bytes \<Rightarrow> mem" where
  "mem_write m a [] = m"
| "mem_write m a (x # xs) = mem_write (m(a := x)) (a + 1) xs"

definition mem_read :: "mem \<Rightarrow> u64 \<Rightarrow> nat \<Rightarrow> bytes" where
  "mem_read m a n = map (\<lambda>i. m (a + of_nat i)) [0..<n]"

lemma length_mem_read [simp]: "length (mem_read m a n) = n"
  by (simp add: mem_read_def)

lemma mem_read_nth [simp]: "i < n \<Longrightarrow> mem_read m a n ! i = m (a + of_nat i)"
  by (simp add: mem_read_def)

lemma mem_read_Suc: "mem_read m a (Suc n) = m a # mem_read m (a + 1) n"
  unfolding mem_read_def
  by (subst upt_conv_Cons, simp, simp only: list.map)
     (auto simp: map_Suc_upt [symmetric] comp_def add.assoc simp del: upt.simps)

lemma unat_minus_Suc: "(b :: u64) \<noteq> a \<Longrightarrow> unat (b - a) = Suc (unat (b - (a + 1)))"
proof -
  assume "b \<noteq> a"
  then have "b - a \<noteq> 0" by simp
  then have "unat (b - a) = Suc (unat (b - a - 1))"
    by (simp add: unat_minus_one unat_gt_0)
  then show ?thesis by (simp add: diff_diff_eq)
qed

lemma mem_write_apply [mem_simps]:
  "length xs \<le> 2 ^ 64 \<Longrightarrow>
   mem_write m a xs b = (if unat (b - a) < length xs then xs ! unat (b - a) else m b)"
proof (induction xs arbitrary: m a)
  case (Cons x xs)
  show ?case
  proof (cases "b = a")
    case True
    have "a - (a + 1) = (- 1 :: u64)" by simp
    then have "unat (a - (a + 1)) = 2 ^ 64 - 1" by (simp add: unsigned_minus_1_eq_mask mask_eq_exp_minus_1)
    with Cons True show ?thesis by (simp del: diff_add_cancel)
  next
    case False
    then have "unat (b - a) = Suc (unat (b - (a + 1)))" by (rule unat_minus_Suc)
    with Cons False show ?thesis by simp
  qed
qed simp

lemma unat_add_mod64: "unat ((x :: u64) + y) = (unat x + unat y) mod 2 ^ 64"
  by (simp add: unat_word_ariths)

text \<open>Two address ranges that share no byte.\<close>

definition apart :: "u64 \<Rightarrow> nat \<Rightarrow> u64 \<Rightarrow> nat \<Rightarrow> bool" where
  "apart a n b k \<longleftrightarrow> n \<le> unat (b - a) \<and> k \<le> unat (a - b)"

lemma apart_sym: "apart a n b k \<longleftrightarrow> apart b k a n"
  by (auto simp: apart_def)

lemma apart_byte: "apart a n b k \<Longrightarrow> j < k \<Longrightarrow> n \<le> unat (b + of_nat j - a)"
proof -
  assume ap: "apart a n b k" and j: "j < k"
  show ?thesis
  proof (cases "a = b")
    case False
    have k: "k \<le> unat (a - b)" and n: "n \<le> unat (b - a)" using ap by (auto simp: apart_def)
    have ab: "b - a = - (a - b)" "a - b \<noteq> 0" using False by auto
    have lt: "unat (a - b) < 2 ^ 64" "unat (b - a) < 2 ^ 64"
      using unsigned_less [of "a - b", where 'a = nat] unsigned_less [of "b - a", where 'a = nat]
      by simp_all
    have "(a - b) + (b - a) = 0" by simp
    then have "unat ((a - b) + (b - a)) = 0" by (simp only: unsigned_0)
    then have "(unat (a - b) + unat (b - a)) mod 2 ^ 64 = 0"
      by (simp only: unat_add_mod64)
    then obtain q where q: "unat (a - b) + unat (b - a) = 2 ^ 64 * q" by auto
    have "0 < unat (a - b)" using ab(2) by (simp add: unat_gt_0)
    then have "0 < q" "q < 2" using q lt by auto
    then have sum: "unat (b - a) = 2 ^ 64 - unat (a - b)" using q by simp
    have uj: "unat (of_nat j :: u64) = j" using j k lt by (simp add: unat_of_nat)
    have "unat (b - a) + unat (of_nat j :: u64) < 2 ^ 64" using sum uj j k lt by linarith
    then have "unat (b - a + of_nat j) = unat (b - a) + j"
      using uj by (simp add: unat_word_ariths)
    with n show ?thesis by (simp add: algebra_simps)
  qed (use ap j in \<open>auto simp: apart_def\<close>)
qed

lemma apart_part:
  assumes "apart a n b l" and "i + j \<le> n" and "0 < j"
  shows "apart (a + of_nat i) j b l"
proof -
  have n: "n \<le> unat (b - a)" using assms(1) by (simp add: apart_def)
  have "unat (b - a) < 2 ^ 64" using unsigned_less [of "b - a", where 'a = nat] by simp
  then have i: "unat (of_nat i :: u64) = i" using n assms(2) by (simp add: unat_of_nat)
  then have "of_nat i \<le> b - a" using n assms(2) by (simp add: word_le_nat_alt)
  then have "unat (b - a - of_nat i) = unat (b - a) - i" using i by (simp add: unat_sub)
  then have "j \<le> unat (b - (a + of_nat i))" using n assms(2) by (simp add: diff_diff_eq)
  moreover have "l \<le> unat (a + of_nat i - b)"
    using apart_byte [of b l a n i] assms by (simp add: apart_sym)
  ultimately show ?thesis by (simp add: apart_def)
qed

lemma mem_read_write_same [mem_simps]:
  assumes "length xs \<le> 2 ^ 64"
  shows "mem_read (mem_write m a xs) a (length xs) = xs"
proof (rule nth_equalityI)
  fix i assume i: "i < length (mem_read (mem_write m a xs) a (length xs))"
  then have "unat (of_nat i :: u64) = i" using assms by (simp add: unat_of_nat)
  with i assms show "mem_read (mem_write m a xs) a (length xs) ! i = xs ! i"
    by (simp add: mem_write_apply)
qed simp

lemma mem_read_write_apart [mem_simps]:
  assumes "apart a (length xs) b n" and "length xs \<le> 2 ^ 64"
  shows "mem_read (mem_write m a xs) b n = mem_read m b n"
proof (rule nth_equalityI)
  fix i assume "i < length (mem_read (mem_write m a xs) b n)"
  then show "mem_read (mem_write m a xs) b n ! i = mem_read m b n ! i"
    using apart_byte [OF assms(1), of i] assms(2) by (simp add: mem_write_apply)
qed simp

lemma mem_read_append: "mem_read m a (n + k) = mem_read m a n @ mem_read m (a + of_nat n) k"
  by (rule nth_equalityI) (auto simp: nth_append algebra_simps)

lemma mem_read_write_mid:
  assumes "length (xs @ ys @ zs) \<le> 2 ^ 64" and "b = a + of_nat (length xs)" and "n = length ys"
  shows "mem_read (mem_write m a (xs @ ys @ zs)) b n = ys"
proof -
  have "mem_read (mem_write m a (xs @ ys @ zs)) a (length xs + (length ys + length zs)) = xs @ ys @ zs"
    using mem_read_write_same [OF assms(1), of m a] by simp
  then show ?thesis using assms(2,3) by (simp add: mem_read_append)
qed

lemma mem_write_append:
  "mem_write m a (xs @ ys) = mem_write (mem_write m a xs) (a + of_nat (length xs)) ys"
  by (induction xs arbitrary: m a) (auto simp: algebra_simps)

lemma mem_write_read: "mem_write m a (mem_read m a n) = m"
proof (induction n arbitrary: m a)
  case (Suc n)
  have "m(a := m a) = m" by simp
  with Suc show ?case by (simp add: mem_read_Suc)
qed (simp add: mem_read_def)

lemma mem_write_same: "mem_read m a (length xs) = xs \<Longrightarrow> mem_write m a xs = m"
  by (metis mem_write_read)

lemma mem_write_overwrite:
  "length ys = length xs \<Longrightarrow> length xs \<le> 2 ^ 64 \<Longrightarrow>
   mem_write (mem_write m a xs) a ys = mem_write m a ys"
  by (rule ext) (simp add: mem_write_apply)

subsection \<open>Masking\<close>

lemma and_not_mask_int: "(x :: int) AND NOT (mask n) = x - x mod 2 ^ n"
proof -
  have "x AND NOT (mask n) = push_bit n (drop_bit n x)"
    by (rule bit_eqI) (auto simp: bit_simps)
  then show ?thesis
    by (simp add: push_bit_eq_mult drop_bit_eq_div minus_mod_eq_div_mult)
qed

lemma buf_read_sub:
  "k + l \<le> n \<Longrightarrow> buf_read b (pc + k) l = take l (drop k (buf_read b pc n))"
  by (rule nth_equalityI) (auto simp: buf_read_def algebra_simps)

end
