(* ===== verification/Ulp_Error.thy ===== *)
theory Ulp_Error
  imports Ulp_Prelude
begin

text \<open>
  Error codes and the error state of libpulp: \<open>src/include/error_common.h\<close> (the codes and the
  message table), \<open>libpulp_strerror\<close> of \<open>src/common/common.c\<close>, the error-state routines of
  \<open>src/lib/error.c\<close> and the user switch \<open>ulp_enable_or_disable_patching\<close> of \<open>src/lib/ulp.c\<close>.

  \<open>ulp_error_t\<close> is a C \<open>int\<close>: values up to 255 are errno values of the system, the others are
  libpulp's own. The functions that only log (\<open>msgq_push\<close> of a formatted message) and then change
  the error state are modelled by the change of the state; the log itself is the subject of the
  theory of the message queue.
\<close>

subsection \<open>Error codes\<close>

type_synonym ulp_error = int

abbreviation (input) "EPERM \<equiv> (1 :: ulp_error)"
abbreviation (input) "ENOENT \<equiv> (2 :: ulp_error)"
abbreviation (input) "ESRCH \<equiv> (3 :: ulp_error)"
abbreviation (input) "EAGAIN \<equiv> (11 :: ulp_error)"
abbreviation (input) "ENOMEM \<equiv> (12 :: ulp_error)"
abbreviation (input) "EINVAL \<equiv> (22 :: ulp_error)"
abbreviation (input) "ENOSYS \<equiv> (38 :: ulp_error)"
abbreviation (input) "EOVERFLOW \<equiv> (75 :: ulp_error)"

abbreviation (input) "ENONE \<equiv> (0 :: ulp_error)"
abbreviation (input) "EUNKNOWN \<equiv> (256 :: ulp_error)"
abbreviation (input) "EBUILDID \<equiv> (257 :: ulp_error)"
abbreviation (input) "ETARGETHOOK \<equiv> (258 :: ulp_error)"
abbreviation (input) "ENODEBUGTAG \<equiv> (259 :: ulp_error)"
abbreviation (input) "ENOLINKMAP \<equiv> (260 :: ulp_error)"
abbreviation (input) "ENOPHDR \<equiv> (261 :: ulp_error)"
abbreviation (input) "ENOPENTRY \<equiv> (262 :: ulp_error)"
abbreviation (input) "ENOLIBPULP \<equiv> (263 :: ulp_error)"
abbreviation (input) "ETHRDATTACH \<equiv> (264 :: ulp_error)"
abbreviation (input) "ETHRDDETTACH \<equiv> (265 :: ulp_error)"
abbreviation (input) "EINVALIDULP \<equiv> (266 :: ulp_error)"
abbreviation (input) "ENOOLDFUNC \<equiv> (267 :: ulp_error)"
abbreviation (input) "ENONEWFUNC \<equiv> (268 :: ulp_error)"
abbreviation (input) "ENOMETA \<equiv> (269 :: ulp_error)"
abbreviation (input) "ESTATE \<equiv> (270 :: ulp_error)"
abbreviation (input) "ENOSTATE \<equiv> (271 :: ulp_error)"
abbreviation (input) "ENOTAPPLIED \<equiv> (272 :: ulp_error)"
abbreviation (input) "EDEPEND \<equiv> (273 :: ulp_error)"
abbreviation (input) "ENOADDRESS \<equiv> (274 :: ulp_error)"
abbreviation (input) "EAPPLIED \<equiv> (275 :: ulp_error)"
abbreviation (input) "ENOTARGETLIB \<equiv> (276 :: ulp_error)"
abbreviation (input) "EHOOKNOTRUN \<equiv> (277 :: ulp_error)"
abbreviation (input) "ENOPATCHABLE \<equiv> (278 :: ulp_error)"
abbreviation (input) "EWILDNOMATCH \<equiv> (279 :: ulp_error)"
abbreviation (input) "EUSRBLOCKED \<equiv> (280 :: ulp_error)"
abbreviation (input) "EOLDLIBPULP \<equiv> (281 :: ulp_error)"
abbreviation (input) "EINITFAIL \<equiv> (282 :: ulp_error)"
abbreviation (input) "MPROTFAIL \<equiv> (283 :: ulp_error)"
abbreviation (input) "ENOPATCH \<equiv> (284 :: ulp_error)"
abbreviation (input) "EINSNQ \<equiv> (285 :: ulp_error)"
abbreviation (input) "EOLDULP \<equiv> (286 :: ulp_error)"
abbreviation (input) "EDLOPEN \<equiv> (287 :: ulp_error)"
abbreviation (input) "ENOLIBDL \<equiv> (288 :: ulp_error)"
abbreviation (input) "ENOLIBC \<equiv> (289 :: ulp_error)"

text \<open>
  The message table \<open>__ULP_ERRLIST\<close>. Its last two string literals have no comma between them, so
  the C compiler concatenates them into one element: the table has 33 entries for 34 codes.
\<close>

definition ulp_errlist :: "string list" where
  "ulp_errlist =
    [''Unknown error'',
     ''Build ID mismatch'',
     ''Error attaching to process'',
     ''Process without debug tag'',
     ''No link map in object'',
     ''Invalid program header'',
     ''Unable to find process entry address'',
     ''Libpulp not found in target process'',
     ''Thread attach failure'',
     ''Thread dettach failure'',
     ''Invalid .ulp file'',
     ''To be patched function not found'',
     ''New function not found'',
     ''No metadata in .so'',
     ''State update failure'',
     ''Unable to retrieve ulp state'',
     ''Patch not applied'',
     ''Dependency failure'',
     ''Address read error'',
     ''Patch already applied'',
     ''Target library not loaded'',
     ''libpulp.so hook routine not run'',
     ''Function is not livepatchable'',
     ''No file matched wildcard'',
     ''Livepatching blocked by user request'',
     ''Libpulp version is too old'',
     ''Libpulp initialization failure'',
     ''Page permission error'',
     ''No patches installed'',
     ''Instruction queue in inconsistent state'',
     ''ULP tool is too old'',
     ''Failure in dlopen'',
     ''Libdl not found.'' @ ''Libc not found or unsupported.'']"

text \<open>\<open>strerror\<close> of the C library is a parameter.\<close>

definition libpulp_strerror :: "(int \<Rightarrow> string) \<Rightarrow> ulp_error \<Rightarrow> string" where
  "libpulp_strerror strerror errnum =
     (if 0xFF < errnum \<and> errnum < EUNKNOWN + int (length ulp_errlist)
      then ulp_errlist ! nat (errnum mod 256)
      else strerror errnum)"

subsection \<open>The error state\<close>

definition libpulp_is_in_error_state :: "ulp_error \<Rightarrow> bool" where
  "libpulp_is_in_error_state st \<longleftrightarrow> \<not> (st = ENONE)"

definition set_libpulp_error_state :: "ulp_error \<Rightarrow> ulp_error \<Rightarrow> ulp_error" where
  "set_libpulp_error_state st old = st"

definition libpulp_assert_func :: "bool \<Rightarrow> ulp_error \<Rightarrow> ulp_error" where
  "libpulp_assert_func expression st =
     (if expression then st else set_libpulp_error_state EUNKNOWN st)"

definition libpulp_errx_func :: "int \<Rightarrow> ulp_error \<Rightarrow> ulp_error" where
  "libpulp_errx_func eval st = set_libpulp_error_state EUNKNOWN st"

definition libpulp_exit_func :: "int \<Rightarrow> ulp_error \<Rightarrow> ulp_error" where
  "libpulp_exit_func val st = set_libpulp_error_state EUNKNOWN st"

text \<open>The switch of \<open>ulp set_patchable\<close>: its result is also the value it returns.\<close>

definition ulp_enable_or_disable_patching :: "ulp_error \<Rightarrow> ulp_error" where
  "ulp_enable_or_disable_patching st =
     (if st = ENONE then set_libpulp_error_state EUSRBLOCKED st
      else if st = EUSRBLOCKED then set_libpulp_error_state ENONE st
      else st)"

lemmas error_state_defs [ulp_defs] =
  libpulp_is_in_error_state_def set_libpulp_error_state_def libpulp_assert_func_def
  libpulp_errx_func_def libpulp_exit_func_def

subsection \<open>Properties\<close>

lemma length_ulp_errlist: "length ulp_errlist = 33"
  by (simp add: ulp_errlist_def)

lemma libpulp_strerror_own:
  assumes "EUNKNOWN \<le> e" and "e \<le> ENOLIBDL"
  shows "libpulp_strerror strerror e = ulp_errlist ! nat (e - EUNKNOWN)"
proof -
  have "e mod 256 = e - EUNKNOWN"
    using assms by (intro mod_pos_pos_trivial [of "e - 256" 256, simplified mod_diff_right_eq
          [symmetric] mod_self diff_0_right mod_mod_trivial]) auto
  with assms show ?thesis by (simp add: libpulp_strerror_def length_ulp_errlist)
qed

text \<open>
  \<open>libpulp_strerror\<close> maps each of libpulp's own codes but the last two to its own entry of
  the message table (the entry at the code's distance from \<open>EUNKNOWN\<close>), and leaves every code
  outside the table to \<open>strerror\<close>. The two last codes are where the table is one entry short:
  \<open>ENOLIBDL\<close> prints the texts of both codes and \<open>ENOLIBC\<close>, although a libpulp code, is handed to
  the system's \<open>strerror\<close>.
\<close>

theorem libpulp_strerror_table:
  "(EUNKNOWN \<le> e \<and> e \<le> EDLOPEN \<longrightarrow>
      libpulp_strerror strerror e = ulp_errlist ! nat (e - EUNKNOWN)) \<and>
   libpulp_strerror strerror ENOLIBDL = ''Libdl not found.Libc not found or unsupported.'' \<and>
   libpulp_strerror strerror ENOLIBC = strerror ENOLIBC \<and>
   (e < EUNKNOWN \<or> ENOLIBC \<le> e \<longrightarrow> libpulp_strerror strerror e = strerror e)"
proof (intro conjI impI)
  show "libpulp_strerror strerror e = ulp_errlist ! nat (e - 256)" if "256 \<le> e \<and> e \<le> 287"
    using that by (intro libpulp_strerror_own) auto
qed (auto simp: libpulp_strerror_def length_ulp_errlist, simp add: ulp_errlist_def)

theorem libpulp_strerror_table_witness:
  "libpulp_strerror (\<lambda>_. ''sys'') EAPPLIED = ''Patch already applied'' \<and>
   libpulp_strerror (\<lambda>_. ''sys'') EAGAIN = ''sys''"
  using libpulp_strerror_table [of EAPPLIED "\<lambda>_. ''sys''"]
    libpulp_strerror_table [of EAGAIN "\<lambda>_. ''sys''"]
  by (simp add: ulp_errlist_def)

text \<open>
  The user switch toggles between the unblocked and the user-blocked state, undoes itself
  there, and never clears a real error state: from any other state it changes nothing.
\<close>

theorem enable_disable_involution:
  "ulp_enable_or_disable_patching ENONE = EUSRBLOCKED \<and>
   ulp_enable_or_disable_patching EUSRBLOCKED = ENONE \<and>
   ulp_enable_or_disable_patching (ulp_enable_or_disable_patching st) = st \<and>
   (libpulp_is_in_error_state st \<and> st \<noteq> EUSRBLOCKED \<longleftrightarrow>
      ulp_enable_or_disable_patching st = st)"
  by (auto simp: ulp_enable_or_disable_patching_def error_state_defs)

end
