(* ===== verification/Ulp_Common.thy ===== *)
theory Ulp_Common
  imports Ulp_Error
begin

text \<open>
  The string helpers of \<open>src/common/common.c\<close> that both libpulp.so and the tools link:
  \<open>get_basename\<close>, \<open>buildid_to_string\<close>, \<open>isnumber\<close>, the version triplets
  (\<open>ulp_version_from_string\<close>, \<open>ulp_version_as_string\<close>) and \<open>create_path_to_tmp_file\<close>. The C
  library's \<open>strrchr\<close>, \<open>strtok\<close>, \<open>atoi\<close> and \<open>printf\<close> conversions they use are written out.
\<close>

subsection \<open>Base names\<close>

abbreviation (input) "slash \<equiv> (0x2F :: u8)"
abbreviation (input) "dot \<equiv> (0x2E :: u8)"
abbreviation (input) "colon \<equiv> (0x3A :: u8)"
abbreviation (input) "newline \<equiv> (0x0A :: u8)"

text \<open>\<open>strrchr s c\<close>: the offset of the last \<open>c\<close> in the string, \<open>None\<close> for \<open>NULL\<close>.\<close>

fun strrchr :: "bytes \<Rightarrow> u8 \<Rightarrow> nat option" where
  "strrchr [] c = None"
| "strrchr (x # xs) c =
     (case strrchr xs c of Some i \<Rightarrow> Some (Suc i) | None \<Rightarrow> if x = c then Some 0 else None)"

definition get_basename :: "bytes \<Rightarrow> bytes" where
  "get_basename name = (case strrchr name slash of Some i \<Rightarrow> drop (i + 1) name | None \<Rightarrow> name)"

text \<open>The pointer version: \<open>NULL\<close> stays \<open>NULL\<close>.\<close>

definition get_basename_ptr :: "bytes option \<Rightarrow> bytes option" where
  "get_basename_ptr = map_option get_basename"

lemma strrchr_None_iff: "strrchr s c = None \<longleftrightarrow> c \<notin> set s"
  by (induction s) (auto split: option.splits)

lemma strrchr_Some:
  "strrchr s c = Some i \<Longrightarrow> i < length s \<and> s ! i = c \<and> c \<notin> set (drop (Suc i) s)"
  by (induction s arbitrary: i) (auto split: option.splits if_splits simp: strrchr_None_iff)

lemma get_basename_cases:
  "(slash \<notin> set name \<and> get_basename name = name) \<or>
   (\<exists>dir. name = dir @ slash # get_basename name \<and> slash \<notin> set (get_basename name))"
proof (cases "strrchr name slash")
  case (Some i)
  from strrchr_Some [OF Some] have "i < length name" "name ! i = slash"
    "slash \<notin> set (drop (Suc i) name)" by auto
  with id_take_nth_drop [of i name] show ?thesis
    by (metis Some get_basename_def Suc_eq_plus1 option.simps(5))
next
  case None
  with strrchr_None_iff [of name slash] show ?thesis by (simp add: get_basename_def)
qed

lemma get_basename_no_slash: "slash \<notin> set (get_basename name)"
  using get_basename_cases [of name] by auto

lemma get_basename_id: "slash \<notin> set name \<Longrightarrow> get_basename name = name"
  using strrchr_None_iff [of name slash] by (simp add: get_basename_def)

lemma get_basename_dir: "get_basename (dir @ slash # base) = get_basename (slash # base)"
proof (induction dir)
  case (Cons x dir)
  have "strrchr (dir @ slash # base) slash \<noteq> None" by (simp add: strrchr_None_iff)
  with Cons show ?case by (auto simp: get_basename_def split: option.splits)
qed simp

text \<open>
  The base name is the part after the last slash: it holds no slash, it is a suffix of the
  path cut right after a slash (or the whole path when there is none), any directory in front
  leaves it unchanged, and taking it again changes nothing.
\<close>

theorem get_basename_spec:
  "slash \<notin> set (get_basename name) \<and>
   (name = get_basename name \<or> (\<exists>dir. name = dir @ slash # get_basename name)) \<and>
   get_basename (get_basename name) = get_basename name \<and>
   (slash \<notin> set base \<longrightarrow> get_basename (dir @ slash # base) = base)"
proof (intro conjI impI)
  assume "slash \<notin> set base"
  then show "get_basename (dir @ slash # base) = base"
    unfolding get_basename_dir
    by (simp add: get_basename_def strrchr_None_iff [THEN iffD2])
qed (use get_basename_cases [of name] get_basename_no_slash get_basename_id in auto)

theorem get_basename_spec_witness:
  "get_basename (str ''../libs/.lib'' @ slash # str ''libpulp.so'') = str ''libpulp.so''"
  using get_basename_spec [of "[]" "str ''libpulp.so''" "str ''../libs/.lib''"]
  by (simp add: str_def)

subsection \<open>Build ids in hexadecimal\<close>

definition hex_digit :: "nat \<Rightarrow> u8" where
  "hex_digit d = (if d < 10 then of_nat (0x30 + d) else of_nat (0x57 + d))"

text \<open>\<open>buildid_to_string\<close>: \<open>%02x\<close> of each of the \<open>BUILDID_LEN\<close> bytes.\<close>

definition buildid_to_string :: "bytes \<Rightarrow> bytes" where
  "buildid_to_string build_id =
     concat (map (\<lambda>b. [hex_digit (unat b div 16), hex_digit (unat b mod 16)]) build_id)"

lemma length_buildid_to_string [simp]: "length (buildid_to_string bs) = 2 * length bs"
  by (induction bs) (simp_all add: buildid_to_string_def)

lemma buildid_to_string_Cons:
  "buildid_to_string (b # bs) =
     hex_digit (unat b div 16) # hex_digit (unat b mod 16) # buildid_to_string bs"
  by (simp add: buildid_to_string_def)

subsection \<open>Numbers and versions\<close>

definition isdigit :: "u8 \<Rightarrow> bool" where
  "isdigit c \<longleftrightarrow> 0x30 \<le> c \<and> c \<le> 0x39"

text \<open>\<open>isnumber\<close> gets a pointer that may be \<open>NULL\<close>.\<close>

definition isnumber :: "bytes option \<Rightarrow> bool" where
  "isnumber s = (case s of None \<Rightarrow> False | Some cs \<Rightarrow> cs \<noteq> [] \<and> list_all isdigit cs)"

text \<open>
  \<open>strtok(s, "d")\<close>: skip delimiters, then the token up to the next delimiter; \<open>None\<close> (no token)
  when only delimiters are left. The second component is what the next \<open>strtok(NULL, "d")\<close> scans.
\<close>

definition strtok :: "u8 \<Rightarrow> bytes \<Rightarrow> bytes option \<times> bytes" where
  "strtok d s =
     (let s' = dropWhile (\<lambda>c. c = d) s
      in if s' = [] then (None, [])
         else (Some (takeWhile (\<lambda>c. c \<noteq> d) s'), drop 1 (dropWhile (\<lambda>c. c \<noteq> d) s')))"

text \<open>
  \<open>atoi\<close> of a string of digits, as the C library defines it: \<open>strtol\<close>, which saturates at
  \<open>LONG_MAX\<close>, cut to an \<open>int\<close>.
\<close>

fun digits_val :: "nat \<Rightarrow> bytes \<Rightarrow> nat" where
  "digits_val acc [] = acc"
| "digits_val acc (c # cs) = digits_val (10 * acc + unat (c - 0x30)) cs"

definition atoi_digits :: "bytes \<Rightarrow> int" where
  "atoi_digits cs = sint (of_nat (min (digits_val 0 cs) (2 ^ 63 - 1)) :: u32)"

definition hex_val :: "u8 \<Rightarrow> nat option" where
  "hex_val c = (let n = unat c in
     if 48 \<le> n \<and> n \<le> 57 then Some (n - 48)
     else if 97 \<le> n \<and> n \<le> 102 then Some (n - 87)
     else if 65 \<le> n \<and> n \<le> 70 then Some (n - 55) else None)"

text \<open>\<open>strtoul\<close> with base 16 on a string that starts with hexadecimal digits; the value and the rest.\<close>

fun strtoul16 :: "u64 \<Rightarrow> bytes \<Rightarrow> u64 \<times> bytes" where
  "strtoul16 n [] = (n, [])"
| "strtoul16 n (c # cs) = (case hex_val c of None \<Rightarrow> (n, c # cs) | Some d \<Rightarrow> strtoul16 (16 * n + of_nat d) cs)"

definition ULP_VERSION_TRIPLET :: "u64 \<Rightarrow> u64 \<Rightarrow> u64 \<Rightarrow> u64" where
  "ULP_VERSION_TRIPLET a b c = c + push_bit 16 b + push_bit 32 a"

fun version_fields :: "nat \<Rightarrow> bytes \<Rightarrow> u64 list option" where
  "version_fields 0 s = Some []"
| "version_fields (Suc k) s =
     (case strtok dot s of (number, rest) \<Rightarrow>
        if \<not> isnumber number then None
        else let ver = (of_int (atoi_digits (the number)) :: u64)
             in if 0xFFFF < ver then None
                else map_option ((#) ver) (version_fields k rest))"

definition ulp_version_from_string :: "bytes \<Rightarrow> u64" where
  "ulp_version_from_string s =
     (case version_fields 3 s of
        Some [a, b, c] \<Rightarrow> ULP_VERSION_TRIPLET a b c
      | _ \<Rightarrow> 0)"

fun dec :: "nat \<Rightarrow> bytes" where
  "dec n = (if n < 10 then [of_nat (0x30 + n)] else dec (n div 10) @ [of_nat (0x30 + n mod 10)])"

declare dec.simps [simp del]

definition ulp_version_as_string :: "u64 \<Rightarrow> bytes" where
  "ulp_version_as_string ver =
     (let a = drop_bit 32 (ver AND 0x0000FFFF00000000);
          b = drop_bit 16 (ver AND 0x00000000FFFF0000);
          c = ver AND 0x000000000000FFFF
      in dec (unat a) @ [dot] @ dec (unat b) @ [dot] @ dec (unat c))"

subsubsection \<open>Printed numbers are read back\<close>

lemma dec_digit: "d < 10 \<Longrightarrow> isdigit (of_nat (0x30 + d)) \<and> unat (of_nat (0x30 + d) - 0x30 :: u8) = d"
proof -
  assume d: "d < 10"
  have "unat (of_nat (0x30 + d) :: u8) = 0x30 + d" using d by (simp add: unat_of_nat del: of_nat_add)
  with d show ?thesis by (simp add: isdigit_def word_le_nat_alt unat_of_nat del: of_nat_add)
     (simp add: unat_of_nat)
qed

lemma digits_val_append: "digits_val acc (xs @ ys) = digits_val (digits_val acc xs) ys"
  by (induction xs arbitrary: acc) auto

lemma dec_isdigit: "list_all isdigit (dec n)"
  and dec_nonempty [simp]: "dec n \<noteq> []"
  and digits_val_dec: "digits_val 0 (dec n) = n"
proof (induction n rule: dec.induct)
  case (1 n)
  {
    case 1
    show ?case using "1.IH"(1) dec_digit [of n] dec_digit [of "n mod 10"]
      by (simp add: dec.simps [of n])
  next
    case 2
    show ?case by (simp add: dec.simps [of n])
  next
    case 3
    show ?case using "1.IH"(3) dec_digit [of n] dec_digit [of "n mod 10"]
      by (simp add: dec.simps [of n] digits_val_append)
  }
qed

lemma isdigit_not_dot: "isdigit c \<Longrightarrow> c \<noteq> dot"
  by (auto simp: isdigit_def)

lemma dec_no_dot: "dot \<notin> set (dec n)"
  using dec_isdigit [of n] isdigit_not_dot by (auto simp: list_all_iff)

lemma isnumber_dec: "isnumber (Some (dec n))"
  using dec_isdigit by (simp add: isnumber_def)

lemma strtok_token:
  assumes "d \<notin> set tok" and "tok \<noteq> []"
  shows "strtok d (tok @ d # rest) = (Some tok, rest)" and "strtok d tok = (Some tok, [])"
proof -
  from assms obtain x xs where tok: "tok = x # xs" and x: "x \<noteq> d" by (cases tok) auto
  have tw: "takeWhile (\<lambda>c. c \<noteq> d) (tok @ d # rest) = tok" "takeWhile (\<lambda>c. c \<noteq> d) tok = tok"
    "dropWhile (\<lambda>c. c \<noteq> d) (tok @ d # rest) = d # rest" "dropWhile (\<lambda>c. c \<noteq> d) tok = []"
    using assms(1) by (induction tok) auto
  have dw: "dropWhile (\<lambda>c. c = d) (tok @ d # rest) = tok @ d # rest"
    "dropWhile (\<lambda>c. c = d) tok = tok"
    using x by (simp_all add: tok)
  show "strtok d (tok @ d # rest) = (Some tok, rest)" "strtok d tok = (Some tok, [])"
    unfolding strtok_def Let_def dw tw using assms(2) by simp_all
qed

lemma atoi_dec: "n \<le> 0xFFFF \<Longrightarrow> atoi_digits (dec n) = int n"
proof -
  assume n: "n \<le> 0xFFFF"
  have "uint (of_nat n :: u32) = int n"
    using n by (simp add: uint_nat unat_of_nat)
  moreover have "sint (of_nat n :: u32) = signed_take_bit 31 (uint (of_nat n :: u32))"
    by (simp add: sint_uint)
  moreover have "signed_take_bit 31 (int n) = int n"
    using n by (simp add: signed_take_bit_int_eq_self)
  ultimately show ?thesis using n by (simp add: atoi_digits_def digits_val_dec min_def)
qed

lemma version_field_step:
  assumes "n \<le> 0xFFFF"
  shows "version_fields (Suc k) (dec n @ dot # rest) =
           map_option ((#) (of_nat n)) (version_fields k rest)"
    and "version_fields (Suc 0) (dec n) = Some [of_nat n]"
proof -
  have "\<not> (0xFFFF < (of_nat n :: u64))"
    using assms by (simp add: word_less_nat_alt unat_of_nat)
  then show "version_fields (Suc k) (dec n @ dot # rest) =
      map_option ((#) (of_nat n)) (version_fields k rest)"
    "version_fields (Suc 0) (dec n) = Some [of_nat n]"
    using assms
    by (auto simp: strtok_token dec_no_dot isnumber_dec atoi_dec Let_def)
qed

lemma from_string_dec:
  assumes "a \<le> 0xFFFF" "b \<le> 0xFFFF" "c \<le> 0xFFFF"
  shows "ulp_version_from_string (dec a @ [dot] @ dec b @ [dot] @ dec c) =
           ULP_VERSION_TRIPLET (of_nat a) (of_nat b) (of_nat c)"
  using assms
  by (simp add: ulp_version_from_string_def numeral_3_eq_3 version_field_step
      del: version_fields.simps(2))

lemma version_parts:
  fixes v :: u64
  shows "drop_bit 32 (v AND 0x0000FFFF00000000) = take_bit 16 (drop_bit 32 v)"
    and "drop_bit 16 (v AND 0x00000000FFFF0000) = take_bit 16 (drop_bit 16 v)"
    and "v AND 0x000000000000FFFF = take_bit 16 v"
proof -
  have m: "(0x0000FFFF00000000 :: u64) = push_bit 32 (mask 16)"
    "(0x00000000FFFF0000 :: u64) = push_bit 16 (mask 16)" "(0xFFFF :: u64) = mask 16"
    by (simp_all add: mask_eq_exp_minus_1)
  show "drop_bit 32 (v AND 0x0000FFFF00000000) = take_bit 16 (drop_bit 32 v)"
    unfolding m(1) by (rule bit_word_eqI) (auto simp: bit_simps)
  show "drop_bit 16 (v AND 0x00000000FFFF0000) = take_bit 16 (drop_bit 16 v)"
    unfolding m(2) by (rule bit_word_eqI) (auto simp: bit_simps)
  show "v AND 0xFFFF = take_bit 16 v"
    unfolding m(3) by (simp add: take_bit_eq_mask)
qed

lemma unat_take16: "unat (take_bit 16 (w :: u64)) \<le> 0xFFFF"
proof -
  have "unat (take_bit 16 w) = take_bit 16 (unat w)" by (simp add: unsigned_take_bit_eq)
  also have "\<dots> < 2 ^ 16" by (rule take_bit_nat_less_exp)
  finally show ?thesis by simp
qed

text \<open>
  A version below \<open>65536.65536.65536\<close> survives printing and parsing:
  \<open>ulp_version_from_string\<close> reads back exactly the number \<open>ulp_version_as_string\<close> printed, and what
  is printed depends only on the three 16-bit fields.
\<close>

theorem version_roundtrip:
  assumes "ver < 2 ^ 48"
  shows "ulp_version_from_string (ulp_version_as_string ver) = ver"
proof -
  let ?a = "take_bit 16 (drop_bit 32 ver)" and ?b = "take_bit 16 (drop_bit 16 ver)"
    and ?c = "take_bit 16 ver"
  have "ulp_version_from_string (ulp_version_as_string ver) = ULP_VERSION_TRIPLET ?a ?b ?c"
    unfolding ulp_version_as_string_def version_parts Let_def
    by (subst from_string_dec) (auto intro: unat_take16)
  also have "\<dots> = ver"
  proof -
    have a: "?a = drop_bit 32 ver"
    proof (rule bit_word_eqI)
      fix n assume "n < LENGTH(64)"
      have "ver = take_bit 48 ver" using assms
        by (simp add: word_unat_eq_iff unsigned_take_bit_eq word_less_nat_alt take_bit_nat_eq_self)
      then have "\<not> bit ver k" if "48 \<le> k" for k using that by (metis bit_take_bit_iff not_le)
      from this [of "32 + n"] show "bit ?a n \<longleftrightarrow> bit (drop_bit 32 ver) n"
        by (cases "n < 16") (auto simp: bit_simps)
    qed
    have "?c + push_bit 16 ?b = take_bit 32 ver"
      by (subst disjunctive_add; (rule bit_word_eqI)?) (auto simp: bit_simps)
    moreover have "take_bit 32 ver + push_bit 32 (drop_bit 32 ver) = ver"
      using bits_ident [of 32 ver] by (simp add: add.commute)
    ultimately show ?thesis by (simp add: ULP_VERSION_TRIPLET_def a)
  qed
  finally show ?thesis .
qed

theorem version_roundtrip_witness:
  "ulp_version_from_string (ulp_version_as_string (ULP_VERSION_TRIPLET 0 3 1)) =
     ULP_VERSION_TRIPLET 0 3 1"
  by (rule version_roundtrip) (simp add: ULP_VERSION_TRIPLET_def push_bit_eq_mult)

subsection \<open>Temporary files\<close>

text \<open>
  \<open>create_path_to_tmp_file\<close> draws random tokens until no file has the path built from one. The
  random source is a parameter giving the result of the \<open>i\<close>-th \<open>getrandom\<close> call (\<open>None\<close> for a
  failure) and \<open>exists\<close> says which paths can be opened for reading. The flag \<open>conflict\<close> of the
  loop is set on a clash and never cleared. The result of a finished loop is \<open>Some None\<close> for the
  \<open>NULL\<close> return and \<open>Some (Some path)\<close> for a path; \<open>None\<close> is a loop that does not end.
\<close>

definition tmp_path :: "u32 \<Rightarrow> bytes" where
  "tmp_path token = take 23 (str ''/tmp/ulp-'' @ dec (unat token))"

partial_function (option) tmp_file_loop ::
  "(nat \<Rightarrow> u32 option) \<Rightarrow> (bytes \<Rightarrow> bool) \<Rightarrow> nat \<Rightarrow> bool \<Rightarrow> bytes option option" where
  "tmp_file_loop getrandom exists i conflict =
     (case getrandom i of
        None \<Rightarrow> Some None
      | Some token \<Rightarrow>
          (let conflict' = (if exists (tmp_path token) then True else conflict)
           in if conflict' then tmp_file_loop getrandom exists (Suc i) conflict'
              else Some (Some (tmp_path token))))"

definition create_path_to_tmp_file ::
  "(nat \<Rightarrow> u32 option) \<Rightarrow> (bytes \<Rightarrow> bool) \<Rightarrow> bytes option option" where
  "create_path_to_tmp_file getrandom exists = tmp_file_loop getrandom exists 0 False"

lemma tmp_file_loop_conflict:
  assumes ret: "tmp_file_loop getrandom exists i conflict = Some r" and "conflict"
  shows "r = None"
proof -
  have "conflict \<longrightarrow> r = None"
    by (rule tmp_file_loop.raw_induct [where P = "\<lambda>g e i c r. c \<longrightarrow> r = None", OF _ ret])
       (auto split: option.splits if_splits simp: Let_def)
  with assms(2) show ?thesis by simp
qed

text \<open>
  A returned temporary path is one built from the first random token, and that path was
  not in use. When the first token clashes with a file that exists, the flag that is never cleared
  keeps the loop going whatever the later tokens are: it returns no path ever, and with a random
  source that never fails it does not return at all.
\<close>

theorem create_path_to_tmp_file_first_token:
  "(\<forall>p. create_path_to_tmp_file getrandom exists = Some (Some p) \<longrightarrow>
     (\<exists>token. getrandom 0 = Some token \<and> p = tmp_path token \<and> \<not> exists p)) \<and>
   ((\<exists>token. getrandom 0 = Some token \<and> exists (tmp_path token)) \<longrightarrow>
     (\<forall>i. getrandom i \<noteq> None) \<longrightarrow> create_path_to_tmp_file getrandom exists = None)"
proof (intro conjI allI impI)
  fix p assume "create_path_to_tmp_file getrandom exists = Some (Some p)"
  then show "\<exists>token. getrandom 0 = Some token \<and> p = tmp_path token \<and> \<not> exists p"
    unfolding create_path_to_tmp_file_def
    by (subst (asm) tmp_file_loop.simps)
       (auto split: option.splits if_splits dest: tmp_file_loop_conflict)
next
  assume clash: "\<exists>token. getrandom 0 = Some token \<and> exists (tmp_path token)"
    and total: "\<forall>i. getrandom i \<noteq> None"
  have never: "tmp_file_loop getrandom exists i True = Some r \<Longrightarrow> False" for i r
  proof -
    assume ret: "tmp_file_loop getrandom exists i True = Some r"
    have "\<not> ((\<forall>i. getrandom i \<noteq> None) \<and> True)"
    proof (rule tmp_file_loop.raw_induct
        [where P = "\<lambda>g e i c r. \<not> ((\<forall>i. g i \<noteq> None) \<and> c)", OF _ ret])
      fix f :: "(nat \<Rightarrow> u32 option) \<Rightarrow> (bytes \<Rightarrow> bool) \<Rightarrow> nat \<Rightarrow> bool \<Rightarrow> bytes option option"
        and g e i c r
      assume IH: "\<And>g e i c r. f g e i c = Some r \<Longrightarrow> \<not> ((\<forall>i. g i \<noteq> None) \<and> c)"
        and eq: "(case g i of None \<Rightarrow> Some None
           | Some token \<Rightarrow> let conflict' = if e (tmp_path token) then True else c
               in if conflict' then f g e (Suc i) conflict' else Some (Some (tmp_path token))) = Some r"
      show "\<not> ((\<forall>i. g i \<noteq> None) \<and> c)"
        using eq IH [of g e "Suc i" True r] by (cases "g i") (auto simp: Let_def split: if_splits)
    qed
    with total show False by simp
  qed
  from clash have "create_path_to_tmp_file getrandom exists = tmp_file_loop getrandom exists 1 True"
    unfolding create_path_to_tmp_file_def by (subst tmp_file_loop.simps) (auto simp: Let_def)
  with never [of 1] show "create_path_to_tmp_file getrandom exists = None"
    by (cases "tmp_file_loop getrandom exists 1 True") auto
qed

theorem create_path_to_tmp_file_witness:
  "create_path_to_tmp_file (\<lambda>i. Some (if i = 0 then 7 else 8)) (\<lambda>p. p = tmp_path 7) = None"
  using create_path_to_tmp_file_first_token
    [of "\<lambda>i. Some (if i = 0 then 7 else 8)" "\<lambda>p. p = tmp_path 7"] by simp

end
