(* ===== verification/Insn_Queue.thy ===== *)
theory Insn_Queue
  imports Ulp_Common
begin

text \<open>
  The instruction queue through which libpulp.so asks the \<open>ulp\<close> tool to write into its own,
  possibly write-protected, memory: \<open>src/include/insn_queue.h\<close> (layout),
  \<open>src/lib/insn_queue.c\<close> (insertion, and the in-process interpreter of the gdb interface) and
  \<open>src/common/insn_queue.c\<close> (the interpreter loop both sides share). The tool's side of a write is
  in the theory of the ptrace layer.

  The queue's buffer is modelled byte by byte: a one-byte opcode, a 24-bit size, and for a write
  the 32-bit count, the 64-bit address and the data; alignment padding keeps whatever the buffer
  held before. C \<open>int\<close> values are \<open>int\<close>: the queue never holds more than \<open>INSN_BUFFER_MAX\<close> bytes,
  far below the range of a C \<open>int\<close>, and every caller passes fewer than \<open>2 ^ 31 - 24\<close> bytes. An access outside the buffer is
  the result \<open>None\<close> of the interpreter.
\<close>

subsection \<open>Layout\<close>

definition INSN_BUFFER_MAX :: nat where
  "INSN_BUFFER_MAX = 2 * 1024 * 1024"

definition INSNQ_CURR_VERSION :: int where
  "INSNQ_CURR_VERSION = 1"

record insn_queue =
  version :: int
  num_insns :: int
  qsize :: int
  buffer :: buf

abbreviation (input) "ULP_INSN_NOP \<equiv> (0 :: u8)"
abbreviation (input) "ULP_INSN_PRINT \<equiv> (1 :: u8)"
abbreviation (input) "ULP_INSN_WRITE \<equiv> (2 :: u8)"

definition ulp_insn_valid :: "u8 \<Rightarrow> bool" where
  "ulp_insn_valid type \<longleftrightarrow>
     type = ULP_INSN_NOP \<or> type = ULP_INSN_PRINT \<or> type = ULP_INSN_WRITE"

text \<open>Field reads of \<open>struct ulp_insn\<close>, \<open>struct ulp_insn_write\<close> and \<open>struct ulp_insn_print\<close>.\<close>

definition insn_size_at :: "buf \<Rightarrow> nat \<Rightarrow> int" where
  "insn_size_at b pc = signed_take_bit 23 (int (of_le (buf_read b (pc + 1) 3)))"

definition winsn_n :: "buf \<Rightarrow> nat \<Rightarrow> nat" where
  "winsn_n b pc = of_le (buf_read b (pc + 4) 4)"

definition winsn_address :: "buf \<Rightarrow> nat \<Rightarrow> u64" where
  "winsn_address b pc = bytes_u64 (buf_read b (pc + 8) 8)"

definition winsn_bytes :: "buf \<Rightarrow> nat \<Rightarrow> bytes" where
  "winsn_bytes b pc = buf_read b (pc + 16) (winsn_n b pc)"

function buf_str :: "buf \<Rightarrow> nat \<Rightarrow> bytes option" where
  "buf_str b i =
     (if INSN_BUFFER_MAX \<le> i then None
      else if b i = 0 then Some []
      else map_option ((#) (b i)) (buf_str b (Suc i)))"
  by pat_completeness auto
termination
  by (relation "measure (\<lambda>(b, i). INSN_BUFFER_MAX - i)") auto

declare buf_str.simps [simp del]

subsection \<open>Insertion\<close>

definition align_to :: "int \<Rightarrow> int \<Rightarrow> int" where
  "align_to val bytes = (let mask = bytes - 1 in (val + mask) AND (NOT mask))"

text \<open>The reserved area is given by its offset in the buffer.\<close>

definition insnq_get_writable_area :: "insn_queue \<Rightarrow> nat \<Rightarrow> (nat \<times> insn_queue) option" where
  "insnq_get_writable_area queue msg_size =
     (if msg_size = 0 then None
      else if int msg_size + qsize queue > int INSN_BUFFER_MAX then None
      else Some (nat (qsize queue),
                 queue\<lparr>num_insns := num_insns queue + 1, qsize := qsize queue + int msg_size\<rparr>))"

definition insnq_insert_print :: "bytes \<Rightarrow> insn_queue \<times> ulp_error \<Rightarrow> ulp_error \<times> insn_queue \<times> ulp_error" where
  "insnq_insert_print string = (\<lambda>(queue, st).
     (let string_size = length string + 1;
          insn_size = align_to (4 + int string_size) 4
      in case insnq_get_writable_area queue (nat insn_size) of
           None \<Rightarrow> (EINSNQ, queue, set_libpulp_error_state EINSNQ st)
         | Some (off, queue') \<Rightarrow>
             (ENONE,
              queue'\<lparr>buffer := buf_write (buffer queue') off
                 ([ULP_INSN_PRINT] @ le_bytes 3 (nat insn_size) @ string @ [0])\<rparr>,
              st)))"

definition insnq_insert_write ::
  "u64 \<Rightarrow> bytes \<Rightarrow> insn_queue \<times> ulp_error \<Rightarrow> ulp_error \<times> insn_queue \<times> ulp_error" where
  "insnq_insert_write addr bytes = (\<lambda>(queue, st).
     (let n = length bytes;
          insn_size = align_to (16 + int n) 8
      in case insnq_get_writable_area queue (nat insn_size) of
           None \<Rightarrow> (EINSNQ, queue, set_libpulp_error_state EINSNQ st)
         | Some (off, queue') \<Rightarrow>
             (ENONE,
              queue'\<lparr>buffer := buf_write (buffer queue') off
                 ([ULP_INSN_WRITE] @ le_bytes 3 (nat insn_size) @ le_bytes 4 n @ u64_bytes addr @ bytes)\<rparr>,
              st)))"

definition insnq_ensure_emptiness :: "insn_queue \<times> ulp_error \<Rightarrow> int \<times> ulp_error" where
  "insnq_ensure_emptiness = (\<lambda>(queue, st).
     if num_insns queue > 0 \<or> qsize queue > 0
     then (1, set_libpulp_error_state EINSNQ st) else (0, st))"

subsection \<open>Interpretation\<close>

text \<open>
  The effects of an instruction are on a world \<open>'w\<close> through two parameters: \<open>pr\<close> prints a string,
  and \<open>wr\<close> is the \<open>insn_interpret_write\<close> the program was linked with, which gets the address, the
  bytes and the instruction's size and returns the \<open>int\<close> the interpreter adds to its program counter.
\<close>

type_synonym 'w print_fn = "bytes \<Rightarrow> 'w \<Rightarrow> 'w"
type_synonym 'w write_fn = "u64 \<Rightarrow> bytes \<Rightarrow> int \<Rightarrow> 'w \<Rightarrow> int \<times> 'w"

definition insn_interpret_nop :: "'w \<Rightarrow> int \<times> 'w" where
  "insn_interpret_nop w = (4, w)"

definition insn_interpret_print :: "'w print_fn \<Rightarrow> buf \<Rightarrow> nat \<Rightarrow> 'w \<Rightarrow> (int \<times> 'w) option" where
  "insn_interpret_print pr b pc w =
     (case buf_str b (pc + 4) of None \<Rightarrow> None | Some s \<Rightarrow> Some (insn_size_at b pc, pr s w))"

definition insn_interpret ::
  "'w print_fn \<Rightarrow> 'w write_fn \<Rightarrow> buf \<Rightarrow> nat \<Rightarrow> 'w \<Rightarrow> (int \<times> 'w) option" where
  "insn_interpret pr wr b pc w =
     (if b pc = ULP_INSN_NOP then Some (insn_interpret_nop w)
      else if b pc = ULP_INSN_PRINT then insn_interpret_print pr b pc w
      else if pc + 16 + winsn_n b pc > INSN_BUFFER_MAX then None
      else Some (wr (winsn_address b pc) (winsn_bytes b pc) (insn_size_at b pc) w))"

fun interpret_loop ::
  "'w print_fn \<Rightarrow> 'w write_fn \<Rightarrow> buf \<Rightarrow> nat \<Rightarrow> int \<Rightarrow> 'w \<Rightarrow> (ulp_error \<times> int \<times> 'w) option" where
  "interpret_loop pr wr b 0 pc w = Some (ENONE, pc, w)"
| "interpret_loop pr wr b (Suc k) pc w =
     (if pc < 0 \<or> int INSN_BUFFER_MAX < pc + 4 then None
      else if ulp_insn_valid (b (nat pc)) then
        (case insn_interpret pr wr b (nat pc) w of
           None \<Rightarrow> None
         | Some (d, w') \<Rightarrow> interpret_loop pr wr b k (pc + d) w')
      else Some (EINSNQ, pc, w))"

definition insnq_interpret ::
  "'w print_fn \<Rightarrow> 'w write_fn \<Rightarrow> insn_queue \<Rightarrow> 'w \<Rightarrow> (ulp_error \<times> 'w) option" where
  "insnq_interpret pr wr queue w =
     (case interpret_loop pr wr (buffer queue) (nat (num_insns queue)) 0 w of
        None \<Rightarrow> None
      | Some (e, pc, w') \<Rightarrow>
          Some (if e \<noteq> ENONE then e
                else if pc \<noteq> qsize queue then EINSNQ
                else if int (nat (num_insns queue)) \<noteq> num_insns queue then EINSNQ
                else ENONE, w'))"

subsection \<open>The abstract queue: a list of instructions\<close>

datatype insn = IPrint bytes | IWrite u64 bytes

fun isize :: "insn \<Rightarrow> int" where
  "isize (IPrint s) = align_to (4 + int (length s + 1)) 4"
| "isize (IWrite a bs) = align_to (16 + int (length bs)) 8"

fun iencode :: "insn \<Rightarrow> bytes" where
  "iencode (IPrint s) = [ULP_INSN_PRINT] @ le_bytes 3 (nat (isize (IPrint s))) @ s @ [0]"
| "iencode (IWrite a bs) =
     [ULP_INSN_WRITE] @ le_bytes 3 (nat (isize (IWrite a bs))) @ le_bytes 4 (length bs) @
       u64_bytes a @ bs"

fun iwf :: "insn \<Rightarrow> bool" where
  "iwf (IPrint s) = no_nul s"
| "iwf (IWrite a bs) = True"

fun holds :: "buf \<Rightarrow> int \<Rightarrow> insn list \<Rightarrow> bool" where
  "holds b off [] = True"
| "holds b off (i # is) =
     (buf_read b (nat off) (length (iencode i)) = iencode i \<and> holds b (off + isize i) is)"

definition queue_repr :: "insn_queue \<Rightarrow> insn list \<Rightarrow> bool" where
  "queue_repr q is \<longleftrightarrow>
     holds (buffer q) 0 is \<and> list_all iwf is \<and> num_insns q = int (length is) \<and>
     qsize q = sum_list (map isize is) \<and> qsize q \<le> int INSN_BUFFER_MAX"

fun exec_insn :: "'w print_fn \<Rightarrow> (u64 \<Rightarrow> bytes \<Rightarrow> 'w \<Rightarrow> 'w) \<Rightarrow> insn \<Rightarrow> 'w \<Rightarrow> 'w" where
  "exec_insn pr eff (IPrint s) w = pr s w"
| "exec_insn pr eff (IWrite a bs) w = eff a bs w"

lemma align_to_4: "0 \<le> v \<Longrightarrow> v \<le> align_to v 4 \<and> align_to v 4 < v + 4 \<and> 4 dvd align_to v 4"
  and align_to_8: "0 \<le> v \<Longrightarrow> v \<le> align_to v 8 \<and> align_to v 8 < v + 8 \<and> 8 dvd align_to v 8"
proof -
  have "x AND NOT 3 = x - x mod 4" and "x AND NOT 7 = x - x mod 8" for x :: int
    using and_not_mask_int [of x 2] and_not_mask_int [of x 3]
    by (simp_all add: mask_eq_exp_minus_1)
  then show "0 \<le> v \<Longrightarrow> v \<le> align_to v 4 \<and> align_to v 4 < v + 4 \<and> 4 dvd align_to v 4"
    and "0 \<le> v \<Longrightarrow> v \<le> align_to v 8 \<and> align_to v 8 < v + 8 \<and> 8 dvd align_to v 8"
    unfolding align_to_def Let_def by (simp; presburger)+
qed

lemmas align_to_bounds = align_to_4 align_to_8

lemma isize_bounds:
  "int (length (iencode i)) \<le> isize i" "isize i < int (length (iencode i)) + 8" "4 dvd isize i"
  using align_to_4 [of "4 + int (case i of IPrint s \<Rightarrow> length s + 1 | _ \<Rightarrow> 0)"]
    align_to_8 [of "16 + int (case i of IWrite a bs \<Rightarrow> length bs | _ \<Rightarrow> 0)"]
  by (cases i; auto dest: dvd_trans [of 4 8, rotated])+

lemma isize_pos: "5 \<le> isize i"
  using isize_bounds(1) [of i] by (cases i) auto

lemma sum_isize_nonneg: "0 \<le> sum_list (map isize is)"
  by (rule sum_list_nonneg) (use isize_pos in \<open>auto intro: order_trans [of 0 5]\<close>)

lemma holds_write_beyond:
  "holds b off is \<Longrightarrow> 0 \<le> off \<Longrightarrow> off + sum_list (map isize is) \<le> int j \<Longrightarrow>
   holds (buf_write b j xs) off is"
proof (induction "is" arbitrary: off)
  case (Cons i "is")
  have "nat off + length (iencode i) \<le> j"
    using Cons.prems isize_bounds(1) [of i] sum_isize_nonneg [of "is"] by simp
  then have "buf_read (buf_write b j xs) (nat off) (length (iencode i)) = iencode i"
    using Cons.prems(1) by (simp add: buf_read_write_disjoint)
  then show ?case using Cons isize_pos [of i] by simp
qed simp

lemma holds_cong:
  "holds b off is \<Longrightarrow> 0 \<le> off \<Longrightarrow> (\<And>j. int j < off + sum_list (map isize is) \<Longrightarrow> b' j = b j) \<Longrightarrow>
   holds b' off is"
proof (induction "is" arbitrary: off)
  case (Cons i "is")
  have "buf_read b' (nat off) (length (iencode i)) = buf_read b (nat off) (length (iencode i))"
    unfolding buf_read_def
    using Cons.prems(2) isize_bounds(1) [of i] sum_isize_nonneg [of "is"]
    by (intro map_cong refl Cons.prems(3)) auto
  then show ?case using Cons isize_pos [of i] by simp
qed simp

lemma holds_append:
  "holds b off (is @ js) \<longleftrightarrow> holds b off is \<and> holds b (off + sum_list (map isize is)) js"
  by (induction "is" arbitrary: off) (auto simp: algebra_simps)

subsubsection \<open>Insertion appends\<close>

lemma queue_repr_insert:
  assumes "queue_repr q is" and "iwf i" and "qsize q + isize i \<le> int INSN_BUFFER_MAX"
  shows "queue_repr (q\<lparr>num_insns := num_insns q + 1, qsize := qsize q + isize i,
            buffer := buf_write (buffer q) (nat (qsize q)) (iencode i)\<rparr>) (is @ [i])"
proof -
  have "0 \<le> qsize q" using assms(1) sum_isize_nonneg [of "is"] by (simp add: queue_repr_def)
  then have "holds (buf_write (buffer q) (nat (qsize q)) (iencode i)) 0 is"
    using assms(1) by (intro holds_write_beyond) (auto simp: queue_repr_def)
  then show ?thesis using assms by (auto simp: queue_repr_def holds_append)
qed

lemma insnq_insert_write_eq:
  "insnq_insert_write a bs (q, st) =
     (if qsize q + isize (IWrite a bs) > int INSN_BUFFER_MAX
      then (EINSNQ, q, EINSNQ)
      else (ENONE, q\<lparr>num_insns := num_insns q + 1, qsize := qsize q + isize (IWrite a bs),
              buffer := buf_write (buffer q) (nat (qsize q)) (iencode (IWrite a bs))\<rparr>, st))"
  using isize_pos [of "IWrite a bs"]
  by (auto simp: insnq_insert_write_def insnq_get_writable_area_def set_libpulp_error_state_def
      Let_def add.commute)

lemma insnq_insert_print_eq:
  "insnq_insert_print s (q, st) =
     (if qsize q + isize (IPrint s) > int INSN_BUFFER_MAX
      then (EINSNQ, q, EINSNQ)
      else (ENONE, q\<lparr>num_insns := num_insns q + 1, qsize := qsize q + isize (IPrint s),
              buffer := buf_write (buffer q) (nat (qsize q)) (iencode (IPrint s))\<rparr>, st))"
  using isize_pos [of "IPrint s"]
  by (auto simp: insnq_insert_print_def insnq_get_writable_area_def set_libpulp_error_state_def
      Let_def add.commute)

text \<open>The state of the queue when the library starts, and after the tool has reset it.\<close>

definition insnq_init :: insn_queue where
  "insnq_init = \<lparr>version = INSNQ_CURR_VERSION, num_insns = 0, qsize = 0, buffer = (\<lambda>_. 0)\<rparr>"

lemma queue_repr_Nil: "queue_repr q [] \<longleftrightarrow> num_insns q = 0 \<and> qsize q = 0"
  by (auto simp: queue_repr_def)

lemma insnq_ensure_emptiness_iff:
  "queue_repr q is \<Longrightarrow> fst (insnq_ensure_emptiness (q, st)) = 0 \<longleftrightarrow> is = []"
  using sum_isize_nonneg [of "is"]
  by (cases "is") (auto simp: insnq_ensure_emptiness_def queue_repr_def)

subsubsection \<open>Decoding reads back what was inserted\<close>

lemma le_bytes_3: "nat v < 2 ^ 23 \<Longrightarrow> 0 \<le> v \<Longrightarrow> signed_take_bit 23 (int (of_le (le_bytes 3 (nat v)))) = v"
  by (simp add: of_le_le_bytes signed_take_bit_int_eq_self)

lemma decode_common:
  assumes "buf_read b pc (length (iencode i)) = iencode i" and "isize i \<le> int INSN_BUFFER_MAX"
  shows "b pc = (case i of IPrint _ \<Rightarrow> ULP_INSN_PRINT | IWrite _ _ \<Rightarrow> ULP_INSN_WRITE)"
    and "insn_size_at b pc = isize i"
proof -
  have len: "4 \<le> length (iencode i)" by (cases i) auto
  have "buf_read b (pc + 0) 1 = take 1 (drop 0 (iencode i))"
    using len assms(1) buf_read_sub [of 0 1 "length (iencode i)" b pc] by simp
  then show "b pc = (case i of IPrint _ \<Rightarrow> ULP_INSN_PRINT | IWrite _ _ \<Rightarrow> ULP_INSN_WRITE)"
    by (cases i) (simp_all add: buf_read_def)
  have "buf_read b (pc + 1) 3 = take 3 (drop 1 (iencode i))"
    using len assms(1) buf_read_sub [of 1 3 "length (iencode i)" b pc] by simp
  also have "\<dots> = le_bytes 3 (nat (isize i))" by (cases i) simp_all
  finally show "insn_size_at b pc = isize i"
    unfolding insn_size_at_def using assms(2) isize_pos [of i]
    by (simp add: le_bytes_3 INSN_BUFFER_MAX_def)
qed

lemma decode_write:
  assumes "buf_read b pc (length (iencode (IWrite a bs))) = iencode (IWrite a bs)"
    and "isize (IWrite a bs) \<le> int INSN_BUFFER_MAX"
  shows "winsn_n b pc = length bs" and "winsn_address b pc = a" and "winsn_bytes b pc = bs"
proof -
  let ?e = "iencode (IWrite a bs)"
  have len: "length ?e = 16 + length bs" by simp
  have sub: "k + l \<le> 16 + length bs \<Longrightarrow> buf_read b (pc + k) l = take l (drop k ?e)" for k l
    using assms(1) len buf_read_sub [of k l "16 + length bs" b pc] by metis
  have "length bs < 2 ^ 32"
    using assms(2) isize_bounds(1) [of "IWrite a bs"] by (simp add: INSN_BUFFER_MAX_def)
  then show n: "winsn_n b pc = length bs"
    unfolding winsn_n_def using sub [of 4 4] by (simp add: of_le_le_bytes)
  show "winsn_address b pc = a"
    unfolding winsn_address_def using sub [of 8 8] by simp
  show "winsn_bytes b pc = bs"
    unfolding winsn_bytes_def n using sub [of 16 "length bs"] by simp
qed

lemma buf_str_read:
  "buf_read b i (length s + 1) = s @ [0] \<Longrightarrow> no_nul s \<Longrightarrow> i + length s < INSN_BUFFER_MAX \<Longrightarrow>
   buf_str b i = Some s"
proof (induction s arbitrary: i)
  case Nil
  then show ?case by (simp add: buf_read_def buf_str.simps [of b i])
next
  case (Cons c s)
  have "b i = c" "buf_read b (Suc i) (length s + 1) = s @ [0]"
    using Cons.prems(1) buf_read_append [of b i 1 "length s + 1"] by (auto simp: buf_read_def)
  then show ?case
    using Cons by (simp add: buf_str.simps [of b i] no_nul_def)
qed

lemma insn_interpret_holds:
  assumes "buf_read b pc (length (iencode i)) = iencode i" and "iwf i"
    and "int pc + isize i \<le> int INSN_BUFFER_MAX"
  shows "insn_interpret pr wr b pc w =
           Some (case i of IPrint s \<Rightarrow> (isize i, pr s w) | IWrite a bs \<Rightarrow> wr a bs (isize i) w)"
    and "ulp_insn_valid (b pc)"
proof -
  have le: "isize i \<le> int INSN_BUFFER_MAX" using assms(3) by simp
  note common = decode_common [OF assms(1) le]
  show "ulp_insn_valid (b pc)" using common(1) by (cases i) (simp_all add: ulp_insn_valid_def)
  show "insn_interpret pr wr b pc w =
     Some (case i of IPrint s \<Rightarrow> (isize i, pr s w) | IWrite a bs \<Rightarrow> wr a bs (isize i) w)"
  proof (cases i)
    case (IPrint s)
    have "buf_read b (pc + 4) (length s + 1) = take (length s + 1) (drop 4 (iencode i))"
      using assms(1) IPrint buf_read_sub [of 4 "length s + 1" "length (iencode i)" b pc] by simp
    moreover have "pc + 4 + length s < INSN_BUFFER_MAX"
      using assms(3) isize_bounds(1) [of i] IPrint by simp
    ultimately have "buf_str b (pc + 4) = Some s"
      using assms(2) IPrint by (intro buf_str_read) auto
    then show ?thesis
      using common IPrint by (simp add: insn_interpret_def insn_interpret_print_def del: isize.simps)
  next
    case (IWrite a bs)
    have "pc + 16 + length bs \<le> INSN_BUFFER_MAX"
      using assms(3) isize_bounds(1) [of i] IWrite by simp
    then show ?thesis
      using common decode_write [of b pc a bs] assms(1) le IWrite
      by (simp add: insn_interpret_def del: isize.simps iencode.simps)
  qed
qed

text \<open>
  A write function that succeeds on the writes of \<open>is\<close>: it returns the size and has the effect \<open>eff\<close>, as long as the state has
  a property \<open>I\<close> that the instructions keep (\<open>write_ok_on\<close>), or in every state (\<open>write_ok\<close>).
\<close>

definition write_ok_on :: "('w \<Rightarrow> bool) \<Rightarrow> 'w print_fn \<Rightarrow> 'w write_fn \<Rightarrow> (u64 \<Rightarrow> bytes \<Rightarrow> 'w \<Rightarrow> 'w) \<Rightarrow> insn list \<Rightarrow> bool" where
  "write_ok_on I pr wr eff is \<longleftrightarrow>
     (\<forall>a bs n w. IWrite a bs \<in> set is \<longrightarrow> I w \<longrightarrow> wr a bs n w = (n, eff a bs w)) \<and>
     (\<forall>i w. i \<in> set is \<longrightarrow> I w \<longrightarrow> I (exec_insn pr eff i w))"

lemma interpret_loop_holds:
  "write_ok_on I pr wr eff is \<Longrightarrow> I w \<Longrightarrow> holds b off is \<Longrightarrow> list_all iwf is \<Longrightarrow> 0 \<le> off \<Longrightarrow>
    off + sum_list (map isize is) \<le> int INSN_BUFFER_MAX \<Longrightarrow>
    interpret_loop pr wr b (length is) off w =
      Some (ENONE, off + sum_list (map isize is), fold (exec_insn pr eff) is w)"
proof (induction "is" arbitrary: off w)
  case (Cons i "is")
  have fits: "int (nat off) + isize i \<le> int INSN_BUFFER_MAX"
    using Cons.prems sum_isize_nonneg [of "is"] by simp
  have step: "insn_interpret pr wr b (nat off) w = Some (isize i, exec_insn pr eff i w)"
    "ulp_insn_valid (b (nat off))"
    using insn_interpret_holds(1) [OF _ _ fits, of b pr wr w]
      insn_interpret_holds(2) [OF _ _ fits, of b] Cons.prems
    by (cases i; simp add: write_ok_on_def del: isize.simps iencode.simps)+
  have "off + 4 \<le> int INSN_BUFFER_MAX" using fits isize_pos [of i] Cons.prems(5) by simp
  moreover have "interpret_loop pr wr b (length is) (off + isize i) (exec_insn pr eff i w) =
      Some (ENONE, off + isize i + sum_list (map isize is), fold (exec_insn pr eff) is (exec_insn pr eff i w))"
    using Cons.prems isize_pos [of i] by (intro Cons.IH) (auto simp: write_ok_on_def)
  ultimately show ?case using step Cons.prems(5) by (simp add: algebra_simps)
qed simp

lemma insnq_interpret_keeps:
  assumes "queue_repr q is" and "write_ok_on I pr wr eff is" and "I w"
  shows "insnq_interpret pr wr q w = Some (ENONE, fold (exec_insn pr eff) is w)"
proof -
  have "interpret_loop pr wr (buffer q) (length is) 0 w =
      Some (ENONE, 0 + sum_list (map isize is), fold (exec_insn pr eff) is w)"
    using assms(1) by (intro interpret_loop_holds [OF assms(2,3)]) (auto simp: queue_repr_def)
  with assms(1) show ?thesis by (simp add: queue_repr_def insnq_interpret_def)
qed

definition write_ok :: "'w write_fn \<Rightarrow> (u64 \<Rightarrow> bytes \<Rightarrow> 'w \<Rightarrow> 'w) \<Rightarrow> insn list \<Rightarrow> bool" where
  "write_ok wr eff is \<longleftrightarrow>
     (\<forall>a bs n w. IWrite a bs \<in> set is \<longrightarrow> wr a bs n w = (n, eff a bs w))"

lemma insnq_interpret_repr:
  assumes "queue_repr q is" and "write_ok wr eff is"
  shows "insnq_interpret pr wr q w = Some (ENONE, fold (exec_insn pr eff) is w)"
  using assms by (intro insnq_interpret_keeps [where I = "\<lambda>_. True"]) (simp_all add: write_ok_on_def write_ok_def)

subsection \<open>The interface the rest of the library relies on: deferred writes to memory\<close>

text \<open>
  \<open>memwrite\<close> of \<open>src/lib/ulp.c\<close>: queue a write; the flag says that the destination pointer was
  returned (and not \<open>NULL\<close>).
\<close>

definition memwrite :: "u64 \<Rightarrow> bytes \<Rightarrow> insn_queue \<times> ulp_error \<Rightarrow> bool \<times> insn_queue \<times> ulp_error" where
  "memwrite dest src s = (case insnq_insert_write dest src s of (e, s') \<Rightarrow> (e = ENONE, s'))"

definition apply_writes :: "(u64 \<times> bytes) list \<Rightarrow> mem \<Rightarrow> mem" where
  "apply_writes ws = fold (\<lambda>(a, bs) m. mem_write m a bs) ws"

lemma apply_writes_simps [simp]:
  "apply_writes [] m = m"
  "apply_writes ((a, bs) # ws) m = apply_writes ws (mem_write m a bs)"
  "apply_writes (ws @ vs) m = apply_writes vs (apply_writes ws m)"
  by (simp_all add: apply_writes_def)

text \<open>
  The contract: a successful \<open>memwrite\<close> adds the write at the end of the pending ones, a refused
  one leaves the pending writes alone, and \<open>flush\<close> performs the pending writes in order.
\<close>

locale deferred_memory =
  fixes mwrite :: "u64 \<Rightarrow> bytes \<Rightarrow> 's \<Rightarrow> bool \<times> 's"
    and pending :: "'s \<Rightarrow> (u64 \<times> bytes) list \<Rightarrow> bool"
    and flush :: "'s \<Rightarrow> mem \<Rightarrow> mem option"
  assumes mwrite_queued:
      "pending s ws \<Longrightarrow> mwrite a bs s = (True, s') \<Longrightarrow> pending s' (ws @ [(a, bs)])"
    and mwrite_refused: "pending s ws \<Longrightarrow> mwrite a bs s = (False, s') \<Longrightarrow> pending s' ws"
    and flush_pending: "pending s ws \<Longrightarrow> flush s m = Some (apply_writes ws m)"
begin

lemma mwrite_flush:
  assumes "pending s ws" and "mwrite a bs s = (True, s')"
  shows "flush s' m = Some (mem_write (apply_writes ws m) a bs)"
  using mwrite_queued [OF assms] flush_pending by simp

lemma mwrite_flush_read:
  assumes "pending s ws" and "mwrite a bs s = (True, s')" and "length bs \<le> 2 ^ 64"
  shows "map_option (\<lambda>m. mem_read m a (length bs)) (flush s' m) = Some bs"
  using mwrite_flush [OF assms(1,2)] assms(3) by (simp add: mem_read_write_same)

lemma mwrite_refused_flush:
  assumes "pending s ws" and "mwrite a bs s = (False, s')"
  shows "flush s' m = flush s m"
  using mwrite_refused [OF assms] flush_pending assms(1) by simp

lemma mwrite_pending_cases:
  assumes "pending s ws"
  shows "pending (snd (mwrite a bs s)) (if fst (mwrite a bs s) then ws @ [(a, bs)] else ws)"
  using assms mwrite_queued mwrite_refused by (cases "mwrite a bs s") (auto split: if_splits)

end

abbreviation writes_insns :: "(u64 \<times> bytes) list \<Rightarrow> insn list" where
  "writes_insns ws \<equiv> map (\<lambda>(a, bs). IWrite a bs) ws"

definition q_pending :: "insn_queue \<times> ulp_error \<Rightarrow> (u64 \<times> bytes) list \<Rightarrow> bool" where
  "q_pending s ws \<longleftrightarrow> queue_repr (fst s) (writes_insns ws)"

text \<open>Interpretation of the queue on a memory, every write succeeding.\<close>

definition mem_writer :: "mem write_fn" where
  "mem_writer a bs n m = (n, mem_write m a bs)"

definition q_flush :: "insn_queue \<times> ulp_error \<Rightarrow> mem \<Rightarrow> mem option" where
  "q_flush s m =
     (case insnq_interpret (\<lambda>_ m. m) mem_writer (fst s) m of
        Some (e, m') \<Rightarrow> if e = ENONE then Some m' else None
      | None \<Rightarrow> None)"

lemma fold_exec_writes:
  "fold (exec_insn pr (\<lambda>a bs m. mem_write m a bs)) (writes_insns ws) m = apply_writes ws m"
  by (induction ws arbitrary: m) auto

interpretation insnq: deferred_memory memwrite q_pending q_flush
proof
  show "q_pending s' (ws @ [(a, bs)])"
    if "q_pending s ws" "memwrite a bs s = (True, s')" for s ws a bs s'
    using that queue_repr_insert [of "fst s" "writes_insns ws" "IWrite a bs"]
    by (cases s) (auto simp: q_pending_def memwrite_def insnq_insert_write_eq split: if_splits)
  show "q_pending s' ws" if "q_pending s ws" "memwrite a bs s = (False, s')" for s ws a bs s'
    using that
    by (cases s) (auto simp: q_pending_def memwrite_def insnq_insert_write_eq split: if_splits)
  show "q_flush s m = Some (apply_writes ws m)" if "q_pending s ws" for s ws m
  proof -
    have "write_ok mem_writer (\<lambda>a bs m. mem_write m a bs) (writes_insns ws)"
      by (simp add: write_ok_def mem_writer_def)
    with that show ?thesis
      by (simp add: q_pending_def q_flush_def insnq_interpret_repr fold_exec_writes)
  qed
qed

subsection \<open>Properties\<close>

text \<open>
  Claim C16. Queue refinement. A queue that holds a list of instructions keeps doing so: an
  insertion either appends its instruction at the end and leaves the error state alone, or, exactly
  when the encoded instruction does not fit, changes nothing in the queue, returns \<open>EINSNQ\<close> and puts
  libpulp into the error state \<open>EINSNQ\<close>. The byte count never passes \<open>INSN_BUFFER_MAX\<close>.
\<close>

theorem insnq_insert_refines:
  assumes "queue_repr q is" and "no_nul s"
  shows "(case insnq_insert_write a bs (q, st) of (e, q', st') \<Rightarrow>
           if qsize q + isize (IWrite a bs) \<le> int INSN_BUFFER_MAX
           then e = ENONE \<and> st' = st \<and> queue_repr q' (is @ [IWrite a bs]) \<and>
                qsize q' \<le> int INSN_BUFFER_MAX
           else e = EINSNQ \<and> st' = EINSNQ \<and> q' = q) \<and>
         (case insnq_insert_print s (q, st) of (e, q', st') \<Rightarrow>
           if qsize q + isize (IPrint s) \<le> int INSN_BUFFER_MAX
           then e = ENONE \<and> st' = st \<and> queue_repr q' (is @ [IPrint s]) \<and>
                qsize q' \<le> int INSN_BUFFER_MAX
           else e = EINSNQ \<and> st' = EINSNQ \<and> q' = q)"
  using queue_repr_insert [OF assms(1), of "IWrite a bs"] queue_repr_insert [OF assms(1), of "IPrint s"]
    assms(2)
  by (auto simp: insnq_insert_write_eq insnq_insert_print_eq not_le simp del: isize.simps)

theorem insnq_insert_refines_witness:
  "queue_repr insnq_init [] \<and> no_nul (str ''hi'') \<and>
   (case insnq_insert_write 0x1000 [0xEB, 0xF0] (insnq_init, ENONE) of (e, q', st') \<Rightarrow>
      e = ENONE \<and> queue_repr q' [IWrite 0x1000 [0xEB, 0xF0]])"
proof -
  have repr: "queue_repr insnq_init []" by (simp add: queue_repr_Nil insnq_init_def)
  have nn: "no_nul (str ''hi'')" by (simp add: no_nul_def str_def)
  have fits: "qsize insnq_init + isize (IWrite 0x1000 [0xEB, 0xF0]) \<le> int INSN_BUFFER_MAX"
    by (simp add: insnq_init_def align_to_def INSN_BUFFER_MAX_def)
  show ?thesis
    using repr nn fits insnq_insert_refines [OF repr nn, of "0x1000" "[0xEB, 0xF0]" ENONE]
    by (auto split: prod.splits)
qed

text \<open>
  Interpreting a queue performs the queued instructions, each once and in the order of
  their insertion, and returns 0: decoding the bytes gives back exactly what the insertions encoded.
\<close>

theorem insnq_interpret_in_order:
  assumes "queue_repr q is" and "write_ok wr eff is"
  shows "insnq_interpret pr wr q w = Some (ENONE, fold (exec_insn pr eff) is w)"
  by (rule insnq_interpret_repr [OF assms])

theorem insnq_interpret_in_order_witness:
  "case insnq_insert_write 0x1000 [0xEB, 0xF0] (insnq_init, ENONE) of (e, q, st) \<Rightarrow>
     insnq_interpret (\<lambda>_ m. m) mem_writer q (\<lambda>_. 0) =
       Some (ENONE, (\<lambda>_. 0)(0x1000 := 0xEB, 0x1001 := 0xF0))"
proof -
  have ok: "write_ok mem_writer (\<lambda>a bs m. mem_write m a bs) [IWrite 0x1000 [0xEB, 0xF0]]"
    by (simp add: write_ok_def mem_writer_def)
  have repr: "queue_repr insnq_init []" by (simp add: queue_repr_Nil insnq_init_def)
  have fits: "qsize insnq_init + isize (IWrite 0x1000 [0xEB, 0xF0]) \<le> int INSN_BUFFER_MAX"
    by (simp add: insnq_init_def align_to_def INSN_BUFFER_MAX_def)
  from queue_repr_insert [OF repr _ fits]
  have r: "queue_repr (fst (snd (insnq_insert_write 0x1000 [0xEB, 0xF0] (insnq_init, ENONE))))
      [IWrite 0x1000 [0xEB, 0xF0]]"
    using fits by (simp add: insnq_insert_write_eq del: isize.simps iencode.simps)
  show ?thesis
    using insnq_interpret_in_order [OF r ok, of "\<lambda>_ m. m" "\<lambda>_. 0"] by (auto split: prod.splits)
qed

text \<open>
  The interpreter does not look for a failed write: a write function that reports a
  failure with \<open>-1\<close> (as the tool's does) on the first of two or more instructions makes the program
  counter negative, and the next fetch is at \<open>buffer[-1]\<close>, outside the buffer.
\<close>

theorem insnq_interpret_failed_write:
  assumes "queue_repr q (IWrite a bs # i # is)"
    and "fst (wr a bs (isize (IWrite a bs)) w) = -1"
  shows "insnq_interpret pr wr q w = None"
proof -
  let ?i = "IWrite a bs"
  have h: "buf_read (buffer q) 0 (length (iencode ?i)) = iencode ?i" and n: "num_insns q = int (Suc (Suc (length is)))"
    and le: "int 0 + isize ?i \<le> int INSN_BUFFER_MAX"
    using assms(1) sum_isize_nonneg [of "i # is"]
    by (auto simp: queue_repr_def simp del: isize.simps iencode.simps)
  have "int INSN_BUFFER_MAX \<ge> 4" by (simp add: INSN_BUFFER_MAX_def)
  moreover obtain w' where "wr a bs (isize ?i) w = (-1, w')" using assms(2) by (cases "wr a bs (isize ?i) w") auto
  ultimately have "interpret_loop pr wr (buffer q) (Suc (Suc (length is))) 0 w = None"
    using insn_interpret_holds(1) [OF h _ le, of pr wr w] insn_interpret_holds(2) [OF h _ le] by (simp del: isize.simps iencode.simps)
  then show ?thesis unfolding insnq_interpret_def n nat_int by simp
qed

theorem insnq_interpret_failed_write_witness:
  "\<exists>q. queue_repr q [IWrite 0 [1], IWrite 8 [2]] \<and>
       insnq_interpret (\<lambda>_ m. m) (\<lambda>a bs n m. (-1, m)) q (\<lambda>_. 0) = None"
proof -
  let ?q1 = "insnq_init\<lparr>num_insns := 1, qsize := 24,
      buffer := buf_write (buffer insnq_init) 0 (iencode (IWrite 0 [1]))\<rparr>"
  let ?q2 = "?q1\<lparr>num_insns := 2, qsize := 48,
      buffer := buf_write (buffer ?q1) 24 (iencode (IWrite 8 [2]))\<rparr>"
  have s: "isize (IWrite 0 [1]) = 24" "isize (IWrite 8 [2]) = 24" by (simp_all add: align_to_def)
  have "queue_repr insnq_init []" by (simp add: queue_repr_Nil insnq_init_def)
  from queue_repr_insert [OF this, of "IWrite 0 [1]"] have "queue_repr ?q1 [IWrite 0 [1]]"
    by (simp add: s insnq_init_def INSN_BUFFER_MAX_def del: isize.simps iencode.simps)
  from queue_repr_insert [OF this, of "IWrite 8 [2]"] have r: "queue_repr ?q2 [IWrite 0 [1], IWrite 8 [2]]"
    by (simp add: s insnq_init_def INSN_BUFFER_MAX_def del: isize.simps iencode.simps)
  show ?thesis
    by (rule exI, rule conjI [OF r], rule insnq_interpret_failed_write [OF r]) simp
qed

end
