(* ===== verification/Arch_X86.thy ===== *)
theory Arch_X86
  imports Insn_Queue
begin

text \<open>
  Redirection of a function on x86_64, \<open>src/lib/arch/x86_64/patch.c\<close>: the jump templates put over
  the nops before and at a function's entry, and the checks of \<open>ulp_patch_addr\<close>. The functions read
  the process memory \<open>m\<close> directly and write it through \<open>memwrite\<close>, that is by queueing
  instructions; the state is the queue together with libpulp's error state.

  What the bytes do is said by a decoder for the few x86 instructions involved, \<open>x86_step\<close>, which is
  not part of the program: it is the specification the patched bytes are checked against.
\<close>

definition PRE_NOPS_LEN :: nat where
  "PRE_NOPS_LEN = 14"

definition ULP_NOPS_LEN :: nat where
  "ULP_NOPS_LEN = 16"

definition ULP_NOPS_LEN_ENDBR64 :: nat where
  "ULP_NOPS_LEN_ENDBR64 = ULP_NOPS_LEN + 4"

definition ULP_DATA_OFFSET :: nat where
  "ULP_DATA_OFFSET = 6"

definition insn_endbr64 :: bytes where
  "insn_endbr64 = [0xf3, 0x0f, 0x1e, 0xfa]"

definition ulp_prologue :: bytes where
  "ulp_prologue =
     [0xff, 0x25, 0, 0, 0, 0,
      0, 0, 0, 0, 0, 0, 0, 0,
      0xeb, - of_nat (PRE_NOPS_LEN + 2)]"

definition ulp_prologue_endbr64 :: bytes where
  "ulp_prologue_endbr64 =
     [0xff, 0x25, 0, 0, 0, 0,
      0, 0, 0, 0, 0, 0, 0, 0] @ insn_endbr64 @ [0xeb, - of_nat (PRE_NOPS_LEN + 2 + 4)]"

definition ulp_patch_prologue_layout ::
  "u64 \<Rightarrow> bytes \<Rightarrow> nat \<Rightarrow> insn_queue \<times> ulp_error \<Rightarrow> insn_queue \<times> ulp_error" where
  "ulp_patch_prologue_layout old_fentry prologue len s = snd (memwrite old_fentry (take len prologue) s)"

definition ulp_skip_prologue :: "mem \<Rightarrow> u64 \<Rightarrow> insn_queue \<times> ulp_error \<Rightarrow> insn_queue \<times> ulp_error" where
  "ulp_skip_prologue m fentry s =
     (let insn_nop2 = [0x66, 0x90];
          bias = (if mem_read m fentry 4 = insn_endbr64 then 4 else 0)
      in snd (memwrite (fentry + bias) insn_nop2 s))"

definition ulp_patch_addr ::
  "mem \<Rightarrow> u64 \<Rightarrow> u64 \<Rightarrow> bool \<Rightarrow> insn_queue \<times> ulp_error \<Rightarrow> ulp_error \<times> insn_queue \<times> ulp_error" where
  "ulp_patch_addr m old_faddr new_faddr enable s =
     (let endbr = (mem_read m old_faddr 4 = insn_endbr64);
          (ulp_nops_len, prologue, as_bytes) =
            (if endbr then (ULP_NOPS_LEN_ENDBR64, ulp_prologue_endbr64, old_faddr + 4)
             else (ULP_NOPS_LEN, ulp_prologue, old_faddr))
      in if \<not> (m as_bytes = 0xEB \<or>
                (m (as_bytes + 1) = 0x90 \<and> (m as_bytes = 0x90 \<or> m as_bytes = 0x66)))
         then (ENOPATCHABLE, s)
         else let addr = old_faddr - of_nat PRE_NOPS_LEN
              in if enable then
                   let patched_prologue =
                         take ULP_DATA_OFFSET prologue @ u64_bytes new_faddr @
                         drop (ULP_DATA_OFFSET + 8) prologue
                   in (ENONE, ulp_patch_prologue_layout addr patched_prologue ulp_nops_len s)
                 else (ENONE, ulp_skip_prologue m old_faddr s))"

subsection \<open>What the processor does with these bytes\<close>

text \<open>
  One step from address \<open>pc\<close>: \<open>endbr64\<close>, the two-byte nops \<open>66 90\<close> and \<open>90\<close>, the short jump
  \<open>EB rel8\<close> and the indirect jump \<open>FF 25 rel32\<close> through memory. Other bytes are \<open>None\<close>: the body of
  a function starts there.
\<close>

definition x86_step :: "mem \<Rightarrow> u64 \<Rightarrow> u64 option" where
  "x86_step m pc =
     (if mem_read m pc 4 = [0xf3, 0x0f, 0x1e, 0xfa] then Some (pc + 4)
      else if mem_read m pc 2 = [0x66, 0x90] then Some (pc + 2)
      else if m pc = 0x90 then Some (pc + 1)
      else if m pc = 0xEB then Some (pc + 2 + scast (m (pc + 1)))
      else if mem_read m pc 2 = [0xff, 0x25] then
        Some (bytes_u64 (mem_read m (pc + 6 + scast (bytes_u32 (mem_read m (pc + 2) 4))) 8))
      else None)"

inductive x86_reaches :: "mem \<Rightarrow> u64 \<Rightarrow> u64 \<Rightarrow> bool" for m where
  x86_refl: "x86_reaches m a a"
| x86_trans: "x86_step m a = Some b \<Longrightarrow> x86_reaches m b c \<Longrightarrow> x86_reaches m a c"

inductive_cases x86_reachesE: "x86_reaches m a c"

text \<open>Where the two bytes that \<open>ulp_patch_addr\<close> inspects and rewrites are.\<close>

definition entry :: "mem \<Rightarrow> u64 \<Rightarrow> u64" where
  "entry m a = (if mem_read m a 4 = insn_endbr64 then a + 4 else a)"

definition patchable :: "mem \<Rightarrow> u64 \<Rightarrow> bool" where
  "patchable m a \<longleftrightarrow>
     m (entry m a) = 0xEB \<or>
     (m (entry m a + 1) = 0x90 \<and> (m (entry m a) = 0x90 \<or> m (entry m a) = 0x66))"

definition redirect_bytes :: "mem \<Rightarrow> u64 \<Rightarrow> u64 \<Rightarrow> bytes" where
  "redirect_bytes m old new =
     [0xff, 0x25, 0, 0, 0, 0] @ u64_bytes new @
     (if mem_read m old 4 = insn_endbr64 then insn_endbr64 @ [0xEB, - 20] else [0xEB, - 16])"

lemma ulp_patch_addr_eq:
  "ulp_patch_addr m old new en s =
     (if \<not> patchable m old then (ENOPATCHABLE, s)
      else (ENONE, snd (if en then memwrite (old - 14) (redirect_bytes m old new) s
                        else memwrite (entry m old) [0x66, 0x90] s)))"
  by (auto simp: ulp_patch_addr_def Let_def patchable_def entry_def redirect_bytes_def
      ulp_patch_prologue_layout_def ulp_skip_prologue_def PRE_NOPS_LEN_def ULP_NOPS_LEN_def
      ULP_NOPS_LEN_ENDBR64_def ULP_DATA_OFFSET_def ulp_prologue_def ulp_prologue_endbr64_def
      insn_endbr64_def)

lemma length_insn_endbr64 [simp]: "length insn_endbr64 = 4"
  by (simp add: insn_endbr64_def)

lemma length_redirect_bytes:
  "length (redirect_bytes m old new) = (if mem_read m old 4 = insn_endbr64 then 20 else 16)"
  by (simp add: redirect_bytes_def insn_endbr64_def)

text \<open>The layout of a redirected function: the parts of \<open>redirect_bytes\<close> at their addresses.\<close>

definition redirected :: "mem \<Rightarrow> bool \<Rightarrow> u64 \<Rightarrow> u64 \<Rightarrow> bool" where
  "redirected m endbr old new \<longleftrightarrow>
     mem_read m (old - 14) 6 = [0xff, 0x25, 0, 0, 0, 0] \<and>
     mem_read m (old - 8) 8 = u64_bytes new \<and>
     (if endbr then mem_read m old 4 = insn_endbr64 \<and> mem_read m (old + 4) 2 = [0xEB, - 20]
      else mem_read m old 2 = [0xEB, - 16])"

lemma redirected_write:
  "redirected (mem_write m' (old - 14) (redirect_bytes m old new)) (mem_read m old 4 = insn_endbr64) old new"
proof -
  let ?j = "[0xff, 0x25, 0, 0, 0, 0] :: bytes"
  let ?e = "if mem_read m old 4 = insn_endbr64 then insn_endbr64 @ [0xEB, - 20] else [0xEB, - 16 :: u8]"
  let ?m = "mem_write m' (old - 14) (redirect_bytes m old new)"
  have len: "length ?e \<le> 6" "length insn_endbr64 = 4" by (simp_all add: insn_endbr64_def)
  have r: "redirect_bytes m old new = ?j @ u64_bytes new @ ?e" by (simp add: redirect_bytes_def)
  have 1: "mem_read ?m (old - 14) 6 = ?j" unfolding r
    using len by (intro mem_read_write_mid [where xs = "[]", simplified append_Nil]) auto
  have 2: "mem_read ?m (old - 8) 8 = u64_bytes new" unfolding r
    using len by (intro mem_read_write_mid) auto
  have 3: "mem_read ?m old (length ?e) = ?e"
    unfolding r append_assoc [symmetric]
    using len by (intro mem_read_write_mid [where zs = "[]", simplified append_Nil2]) auto
  show ?thesis
  proof (cases "mem_read m old 4 = insn_endbr64")
    case True
    then have "mem_read ?m old (4 + 2) = insn_endbr64 @ [0xEB, - 20]" using 3 len by simp
    then have "mem_read ?m old 4 = insn_endbr64 \<and> mem_read ?m (old + 4) 2 = [0xEB, - 20]"
      unfolding mem_read_append using len by simp
    with 1 2 True show ?thesis by (simp add: redirected_def)
  next
    case False
    then have "mem_read ?m old 2 = [0xEB, - 16]" using 3 by (simp add: numeral_2_eq_2)
    with 1 2 False show ?thesis by (simp add: redirected_def)
  qed
qed

lemma mem_read_2: "mem_read m a 2 = [x, y] \<longleftrightarrow> m a = x \<and> m (a + 1) = y"
  by (simp add: mem_read_def numeral_2_eq_2)

lemma mem_read_4: "mem_read m a 4 = [m a, m (a + 1), m (a + 2), m (a + 3)]"
  by (simp add: mem_read_def numeral_eq_Suc)

lemma mem_read_4_first: "mem_read m a 4 = x # xs \<Longrightarrow> m a = x"
  by (simp add: mem_read_4)

lemma scast_jumps: "scast (- 20 :: u8) = (- 20 :: u64)" "scast (- 16 :: u8) = (- 16 :: u64)"
  by (simp_all add: scast_eq)

lemma mem_read_6:
  "mem_read m a 6 = [p, q, 0, 0, 0, 0] \<Longrightarrow>
     mem_read m a 2 = [p, q] \<and> mem_read m (a + 2) 4 = [0, 0, 0, 0]"
  by (simp add: mem_read_def numeral_eq_Suc add.assoc)

lemma x86_reaches_step: "x86_reaches m a b \<Longrightarrow> x86_step m b = Some c \<Longrightarrow> x86_reaches m a c"
  by (induction rule: x86_reaches.induct) (auto intro: x86_reaches.intros)

lemma redirected_reaches:
  assumes "redirected m endbr old new"
  shows "x86_reaches m old new"
proof -
  have j: "mem_read m (old - 14) 2 = [0xff, 0x25]" "mem_read m (old - 12) 4 = [0, 0, 0, 0]"
    using assms mem_read_6 [of m "old - 14"] by (auto simp: redirected_def)
  have "m (old - 14) = 0xff" using j(1) by (simp add: mem_read_2)
  then have step: "x86_step m (old - 14) = Some new"
    using j assms mem_read_4_first [of m "old - 14"]
    by (auto simp: x86_step_def mem_read_2 redirected_def bytes_u32_def)
  have "\<exists>a. x86_reaches m old a \<and> x86_step m a = Some (old - 14)"
  proof (cases endbr)
    case True
    then have e: "mem_read m old 4 = [0xf3, 0x0f, 0x1e, 0xfa]" "m (old + 4) = 0xEB" "m (5 + old) = - 20"
      using assms by (simp_all add: redirected_def insn_endbr64_def mem_read_2 add.commute)
    have "x86_step m old = Some (old + 4)" using e by (simp add: x86_step_def)
    moreover have "x86_step m (old + 4) = Some (old - 14)"
      using e mem_read_4_first [of m "old + 4"] by (auto simp: x86_step_def mem_read_2 scast_jumps)
    ultimately show ?thesis by (meson x86_refl x86_trans)
  next
    case False
    then have e: "m old = 0xEB" "m (old + 1) = - 16"
      using assms by (simp_all add: redirected_def mem_read_2)
    then have "x86_step m old = Some (old - 14)"
      using mem_read_4_first [of m old] by (auto simp: x86_step_def mem_read_2 scast_jumps)
    then show ?thesis by (meson x86_refl)
  qed
  with step show ?thesis by (meson x86_reaches_step)
qed

subsection \<open>Redirecting through the queue\<close>

lemma memwrite_room:
  assumes "qsize (fst s) + isize (IWrite a bs) \<le> int INSN_BUFFER_MAX"
  shows "fst (memwrite a bs s) \<and> snd (snd (memwrite a bs s)) = snd s"
  using assms by (cases s) (simp add: memwrite_def insnq_insert_write_eq)

lemma memwrite_full:
  assumes "qsize (fst s) + isize (IWrite a bs) > int INSN_BUFFER_MAX"
  shows "memwrite a bs s = (False, fst s, EINSNQ)"
  using assms by (cases s) (simp add: memwrite_def insnq_insert_write_eq)

lemma patch_insn_size:
  "length bs \<le> 20 \<Longrightarrow> isize (IWrite a bs) \<le> 40"
  using align_to_8 [of "16 + int (length bs)"] by (simp, presburger)

text \<open>Enabling and then disabling leaves only the 14 bytes before the entry changed.\<close>

lemma before_entry_reads:
  fixes m old xs
  defines "M \<equiv> mem_write m (old - 14) xs"
  assumes "length xs = 14"
  shows "mem_read M old 2 = mem_read m old 2" "mem_read M old 4 = mem_read m old 4"
    "mem_read M (old + 4) 2 = mem_read m (old + 4) 2"
proof -
  have ap: "apart (old - 14) (length xs) old 6" using assms(2) by (simp add: apart_def)
  have "mem_read M old 6 = mem_read m old 6"
    unfolding M_def by (rule mem_read_write_apart [OF ap]) (use assms(2) in simp)
  then show "mem_read M old 2 = mem_read m old 2" "mem_read M old 4 = mem_read m old 4"
    "mem_read M (old + 4) 2 = mem_read m (old + 4) 2"
    using mem_read_append [of M old 4 2] mem_read_append [of m old 4 2]
      mem_read_append [of M old 2 4] mem_read_append [of m old 2 4] by auto
qed

lemma redirect_undo:
  assumes "mem_read m (entry m old) 2 = [0x66, 0x90]"
  shows "mem_write (mem_write m (old - 14) (redirect_bytes m old new)) (entry m old) [0x66, 0x90] =
           mem_write m (old - 14) ([0xff, 0x25, 0, 0, 0, 0] @ u64_bytes new)"
proof -
  let ?M = "mem_write m (old - 14) ([0xff, 0x25, 0, 0, 0, 0] @ u64_bytes new)"
  note M = before_entry_reads [of "[0xff, 0x25, 0, 0, 0, 0] @ u64_bytes new" m old]
  have over: "mem_write (mem_write ?M a [0xEB, j]) a [0x66, 0x90] = ?M"
    if "mem_read ?M a 2 = [0x66, 0x90]" for a j
    using that mem_write_overwrite [of "[0x66, 0x90]" "[0xEB, j]" ?M a] mem_write_same [of ?M a "[0x66, 0x90]"]
    by (simp add: numeral_2_eq_2)
  show ?thesis
  proof (cases "mem_read m old 4 = insn_endbr64")
    case True
    then have "mem_write ?M old insn_endbr64 = ?M"
      using M(2) by (intro mem_write_same) simp
    then have "mem_write m (old - 14) (redirect_bytes m old new) = mem_write ?M (old + 4) [0xEB, - 20]"
      using True by (simp add: redirect_bytes_def mem_write_append)
    with over [of "old + 4" "- 20"] True assms M(3) show ?thesis by (simp add: entry_def del: mem_write.simps(2))
  next
    case False
    then have "mem_write m (old - 14) (redirect_bytes m old new) = mem_write ?M old [0xEB, - 16]"
      by (simp add: redirect_bytes_def mem_write_append)
    with over [of "old" "- 16"] False assms M(1) show ?thesis by (simp add: entry_def del: mem_write.simps(2))
  qed
qed

lemma nop_entry_reaches:
  assumes "mem_read m (entry m old) 2 = [0x66, 0x90]"
  shows "x86_reaches m old (entry m old + 2)"
proof -
  have "x86_step m (entry m old) = Some (entry m old + 2)"
    using assms mem_read_4_first [of m "entry m old"] by (auto simp: x86_step_def mem_read_2)
  moreover have "x86_step m old = Some (old + 4)" if "mem_read m old 4 = insn_endbr64"
    using that by (simp add: x86_step_def insn_endbr64_def)
  ultimately show ?thesis
    unfolding entry_def
    by (cases "mem_read m old 4 = insn_endbr64") (simp_all, (meson x86_refl x86_trans)+)
qed

lemma ulp_patch_addr_flush:
  fixes new :: u64 and en :: bool
  assumes "q_pending s ws" and "patchable m old" and "qsize (fst s) + 40 \<le> int INSN_BUFFER_MAX"
  defines "w \<equiv> (if en then (old - 14, redirect_bytes m old new) else (entry m old, [0x66, 0x90]))"
  shows "\<exists>s'. ulp_patch_addr m old new en s = (ENONE, s') \<and> snd s' = snd s \<and>
           q_pending s' (ws @ [w]) \<and> q_flush s' m' = Some (apply_writes (ws @ [w]) m')"
proof -
  let ?r = "memwrite (fst w) (snd w) s"
  have "length (snd w) \<le> 20" by (simp add: w_def length_redirect_bytes)
  then have room: "qsize (fst s) + isize (IWrite (fst w) (snd w)) \<le> int INSN_BUFFER_MAX"
    using patch_insn_size [of "snd w" "fst w"] assms(3) by linarith
  note ok = memwrite_room [OF room]
  have p: "q_pending (snd ?r) (ws @ [w])"
    using insnq.mwrite_queued [OF assms(1), of "fst w" "snd w" "snd ?r"] ok
    by (metis prod.collapse)
  have "ulp_patch_addr m old new en s = (ENONE, snd ?r)"
    using assms(2) by (simp add: ulp_patch_addr_eq w_def)
  with ok p insnq.flush_pending [OF p] show ?thesis by blast
qed

subsection \<open>Properties\<close>

text \<open>
  Claim C13. Patching a function redirects it. When the entry of \<open>old_faddr\<close> is livepatchable and
  the queue has room, \<open>ulp_patch_addr\<close> returns 0, and once the queue has been interpreted, execution
  that starts at \<open>old_faddr\<close> arrives at \<open>new_faddr\<close>, with and without an \<open>endbr64\<close>; no byte outside
  the 14 bytes before and the 6 bytes from the entry on is changed.
\<close>

theorem ulp_patch_addr_redirects:
  assumes "q_pending s ws" and "patchable m old" and "qsize (fst s) + 40 \<le> int INSN_BUFFER_MAX"
  shows "\<exists>s' m'. ulp_patch_addr m old new True s = (ENONE, s') \<and> snd s' = snd s \<and>
           q_flush s' m = Some m' \<and> x86_reaches m' old new \<and>
           (\<forall>b. 20 \<le> unat (b - (old - 14)) \<longrightarrow> m' b = apply_writes ws m b)"
proof -
  let ?m = "mem_write (apply_writes ws m) (old - 14) (redirect_bytes m old new)"
  obtain s' where "ulp_patch_addr m old new True s = (ENONE, s')" "snd s' = snd s" "q_flush s' m = Some ?m"
    using ulp_patch_addr_flush [OF assms, where en = True and new = new and m' = m] by auto
  moreover have "?m b = apply_writes ws m b" if "20 \<le> unat (b - (old - 14))" for b
    using that by (simp add: mem_write_apply length_redirect_bytes)
  ultimately show ?thesis using redirected_reaches [OF redirected_write] by blast
qed

text \<open>A function compiled with nops before and \<open>66 90\<close> at its entry, as the \<open>ulp post\<close> tool leaves it.\<close>

definition demo_func :: mem where
  "demo_func = (\<lambda>a. if a = 0x1000 then 0x66 else 0x90)"

theorem ulp_patch_addr_redirects_witness:
  "\<exists>s' m'. ulp_patch_addr demo_func 0x1000 0x7000 True (insnq_init, ENONE) = (ENONE, s') \<and> snd s' = ENONE \<and>
     q_flush s' demo_func = Some m' \<and> x86_reaches m' 0x1000 0x7000 \<and> m' 0x1010 = 0x90"
proof -
  have p: "q_pending (insnq_init, ENONE) []" by (simp add: q_pending_def queue_repr_Nil insnq_init_def)
  have e: "patchable demo_func 0x1000"
    by (simp add: patchable_def entry_def insn_endbr64_def demo_func_def mem_read_4)
  have r: "qsize (fst (insnq_init, ENONE)) + 40 \<le> int INSN_BUFFER_MAX"
    by (simp add: insnq_init_def INSN_BUFFER_MAX_def)
  obtain s' m' where *: "ulp_patch_addr demo_func 0x1000 0x7000 True (insnq_init, ENONE) = (ENONE, s')"
      "snd s' = ENONE" "q_flush s' demo_func = Some m'" "x86_reaches m' 0x1000 0x7000"
      "\<forall>b. 20 \<le> unat (b - (0x1000 - 14)) \<longrightarrow> m' b = apply_writes [] demo_func b"
    using ulp_patch_addr_redirects [OF p e r, of "0x7000"] by auto
  have "m' 0x1010 = 0x90" using *(5) [rule_format, of "0x1010"] by (simp add: demo_func_def)
  with * show ?thesis by blast
qed

text \<open>
  Disabling undoes enabling. A function whose entry is the two-byte nop is patched and
  the queue interpreted; then it is disabled and a fresh queue interpreted: both calls return 0,
  every byte from the entry on is what it was, and only the 14 bytes before the entry, which are
  never executed then, still hold the old jump.
\<close>

theorem ulp_patch_addr_undo:
  assumes "mem_read m (entry m old) 2 = [0x66, 0x90]"
    and "ulp_patch_addr m old new True (insnq_init, ENONE) = (e1, s1)" and "q_flush s1 m = Some m1"
    and "ulp_patch_addr m1 old new False (insnq_init, ENONE) = (e2, s2)" and "q_flush s2 m1 = Some m2"
  shows "e1 = ENONE \<and> e2 = ENONE \<and> x86_reaches m2 old (entry m old + 2) \<and>
         (\<forall>b. 14 \<le> unat (b - (old - 14)) \<longrightarrow> m2 b = m b)"
proof -
  let ?s = "(insnq_init, ENONE)"
  have p: "q_pending ?s []" by (simp add: q_pending_def queue_repr_Nil insnq_init_def)
  have room: "qsize (fst ?s) + 40 \<le> int INSN_BUFFER_MAX" by (simp add: insnq_init_def INSN_BUFFER_MAX_def)
  have pa: "patchable m old" using assms(1) by (simp add: patchable_def mem_read_2)
  have e1: "e1 = ENONE" and m1: "m1 = mem_write m (old - 14) (redirect_bytes m old new)"
    using ulp_patch_addr_flush [OF p pa room, where en = True and new = new and m' = m] assms(2,3) by auto
  note red = redirected_write [of m old m new, folded m1]
  have same4: "mem_read m1 old 4 = insn_endbr64 \<longleftrightarrow> mem_read m old 4 = insn_endbr64"
    using red mem_read_4_first [of m1 old "0xf3"]
    by (auto simp: redirected_def insn_endbr64_def mem_read_2 split: if_splits)
  then have en: "entry m1 old = entry m old" by (simp add: entry_def)
  have pa1: "patchable m1 old"
    unfolding patchable_def en using red by (auto simp: redirected_def entry_def mem_read_2)
  have e2: "e2 = ENONE" and m2: "m2 = mem_write m1 (entry m old) [0x66, 0x90]"
    using ulp_patch_addr_flush [OF p pa1 room, where en = False and new = new and m' = m1] assms(4,5) en by auto
  then have m2: "m2 = mem_write m (old - 14) ([0xff, 0x25, 0, 0, 0, 0] @ u64_bytes new)"
    using redirect_undo [OF assms(1)] m1 by simp
  then have keep: "m2 b = m b" if "14 \<le> unat (b - (old - 14))" for b
    using that by (simp add: mem_write_apply del: append.simps)
  have r: "mem_read m2 old 2 = mem_read m old 2" "mem_read m2 old 4 = mem_read m old 4"
      "mem_read m2 (old + 4) 2 = mem_read m (old + 4) 2"
    unfolding m2 by (rule before_entry_reads; simp)+
  then have "entry m2 old = entry m old" by (simp add: entry_def)
  moreover have "mem_read m2 (entry m2 old) 2 = [0x66, 0x90]"
    using r assms(1) by (auto simp: entry_def)
  ultimately have "x86_reaches m2 old (entry m old + 2)" using nop_entry_reaches [of m2 old] by simp
  with e1 e2 keep show ?thesis by blast
qed

theorem ulp_patch_addr_undo_witness:
  "\<exists>m1 m2 s1 s2. ulp_patch_addr demo_func 0x1000 0x7000 True (insnq_init, ENONE) = (ENONE, s1) \<and>
     q_flush s1 demo_func = Some m1 \<and>
     ulp_patch_addr m1 0x1000 0x7000 False (insnq_init, ENONE) = (ENONE, s2) \<and>
     q_flush s2 m1 = Some m2 \<and> m1 0x1000 = 0xEB \<and> m2 0x1000 = 0x66"
proof -
  let ?s = "(insnq_init, ENONE)"
  have p: "q_pending ?s []" by (simp add: q_pending_def queue_repr_Nil insnq_init_def)
  have room: "qsize (fst ?s) + 40 \<le> int INSN_BUFFER_MAX" by (simp add: insnq_init_def INSN_BUFFER_MAX_def)
  have f4: "mem_read demo_func 0x1000 4 \<noteq> insn_endbr64"
    by (simp add: insn_endbr64_def demo_func_def mem_read_4)
  then have nop: "mem_read demo_func (entry demo_func 0x1000) 2 = [0x66, 0x90]"
    by (simp add: entry_def mem_read_2 demo_func_def)
  then have pa: "patchable demo_func 0x1000" by (simp add: patchable_def mem_read_2)
  obtain s1 m1 where 1: "ulp_patch_addr demo_func 0x1000 0x7000 True ?s = (ENONE, s1)"
      "q_flush s1 demo_func = Some m1" "m1 = mem_write demo_func (0x1000 - 14) (redirect_bytes demo_func 0x1000 0x7000)"
    using ulp_patch_addr_flush [OF p pa room, where en = True and new = "0x7000" and m' = demo_func] by auto
  have "redirected m1 False 0x1000 0x7000"
    using redirected_write [of demo_func "0x1000" demo_func "0x7000"] f4 unfolding 1(3) by simp
  then have eb: "m1 0x1000 = 0xEB" by (simp add: redirected_def mem_read_2)
  then have pa1: "patchable m1 0x1000"
    using mem_read_4_first [of m1 "0x1000" "0xf3"] by (auto simp: patchable_def entry_def insn_endbr64_def)
  obtain s2 m2 where 2: "ulp_patch_addr m1 0x1000 0x7000 False ?s = (ENONE, s2)" "q_flush s2 m1 = Some m2"
    using ulp_patch_addr_flush [OF p pa1 room, where en = False and new = "0x7000" and m' = m1] by auto
  have "m2 0x1000 = 0x66"
    using ulp_patch_addr_undo [OF nop 1(1,2) 2] by (simp add: demo_func_def)
  with 1 2 eb show ?thesis by blast
qed

text \<open>
  The refusals of \<open>ulp_patch_addr\<close>. A function whose entry is neither a nop pair nor a
  short jump is refused with \<open>ENOPATCHABLE\<close> and nothing is queued. A full instruction queue is not
  noticed: \<open>ulp_patch_addr\<close> drops the result of \<open>memwrite\<close> and returns 0 with nothing queued; only
  libpulp's error state, set by the queue, tells.
\<close>

theorem ulp_patch_addr_refuses:
  "(\<not> patchable m old \<longrightarrow> ulp_patch_addr m old new en s = (ENOPATCHABLE, s)) \<and>
   (patchable m old \<and> qsize (fst s) + 24 > int INSN_BUFFER_MAX \<longrightarrow>
      ulp_patch_addr m old new en s = (ENONE, fst s, EINSNQ))"
proof -
  have "24 \<le> isize (IWrite a (redirect_bytes m old new))" "24 \<le> isize (IWrite a [x, y])" for a x y
    by (simp_all add: length_redirect_bytes align_to_def)
  then have "isize (IWrite (old - 14) (redirect_bytes m old new)) \<ge> 24"
    and "isize (IWrite (entry m old) [0x66, 0x90]) \<ge> 24" .
  then show ?thesis
    using memwrite_full [of s "old - 14" "redirect_bytes m old new"]
      memwrite_full [of s "entry m old" "[0x66, 0x90]"]
    by (auto simp: ulp_patch_addr_eq simp del: isize.simps)
qed

theorem ulp_patch_addr_refuses_witness:
  "ulp_patch_addr (\<lambda>_. 0x55) 0x1000 0x7000 True (insnq_init, ENONE) = (ENOPATCHABLE, insnq_init, ENONE)"
  using ulp_patch_addr_refuses [of "\<lambda>_. 0x55" "0x1000" "0x7000" True "(insnq_init, ENONE)"]
  by (simp add: patchable_def)

end
