(* ===== verification/Symbol_Loader.thy ===== *)
theory Symbol_Loader
  imports Ulp_Common
begin

text \<open>
  Looking up symbols and base addresses of loaded libraries, \<open>src/lib/symbol_loader.c\<close>.
  \<open>dl_iterate_phdr\<close> calls a callback for each loaded object until one call returns nonzero; the
  objects, in the order the dynamic loader reports them, are a list of \<open>dl_info\<close>. A dynamic segment
  is its list of tags up to \<open>DT_NULL\<close>; the pointers of \<open>DT_SYMTAB\<close> and \<open>DT_STRTAB\<close> are the table and
  the string table they point to, and the pointer of \<open>DT_HASH\<close> is the chain count read through it
  (the symbol table has at least that many entries). \<open>libpulp_errx\<close> only sets the error state, which
  is threaded through.
\<close>

subsection \<open>What the loader reports\<close>

record elf_sym =
  st_name :: nat
  st_value :: u64
  st_size :: u64

datatype dyn_tag =
    DT_SYMTAB "elf_sym list"
  | DT_STRTAB bytes
  | DT_SYMENT u64
  | DT_HASH int
  | DT_OTHER

datatype phdr =
    PT_DYNAMIC "dyn_tag list"
  | PT_NOTE u64 u64
  | PT_OTHER

record dl_info =
  dlpi_addr :: u64
  dlpi_name :: bytes
  dlpi_phdr :: "phdr list"
  dlpi_tls_modid :: int
  dlpi_size_ok :: bool

definition strstr :: "bytes \<Rightarrow> bytes \<Rightarrow> bool" where
  "strstr hay needle \<longleftrightarrow>
     list_ex (\<lambda>i. take (length needle) (drop i hay) = needle) [0..<length hay + 1]"

lemma strstr_iff: "strstr hay needle \<longleftrightarrow> (\<exists>pre post. hay = pre @ needle @ post)"
proof
  assume "strstr hay needle"
  then obtain i where "take (length needle) (drop i hay) = needle"
    by (auto simp: strstr_def list_ex_iff)
  then have "hay = take i hay @ needle @ drop (length needle) (drop i hay)"
    by (metis append_take_drop_id)
  then show "\<exists>pre post. hay = pre @ needle @ post" by blast
next
  assume "\<exists>pre post. hay = pre @ needle @ post"
  then obtain pre post where "hay = pre @ needle @ post" by blast
  then show "strstr hay needle"
    unfolding strstr_def list_ex_iff by (intro bexI [of _ "length pre"]) auto
qed

definition vdso_name :: bytes where
  "vdso_name = str ''linux-vdso.so.1''"

text \<open>The callback protocol of \<open>dl_iterate_phdr\<close>.\<close>

fun dl_iterate_phdr :: "('i \<Rightarrow> 's \<Rightarrow> bool \<times> 's) \<Rightarrow> 'i list \<Rightarrow> 's \<Rightarrow> 's" where
  "dl_iterate_phdr callback [] s = s"
| "dl_iterate_phdr callback (i # is) s =
     (case callback i s of (stop, s') \<Rightarrow> if stop then s' else dl_iterate_phdr callback is s')"

subsection \<open>Symbols\<close>

record dl_iterate_arg =
  library :: bytes
  symbol :: bytes
  symbol_addr :: u64
  symbol_size :: u64
  bias_addr :: u64
  tls_index :: int

definition get_symbol_by_name :: "elf_sym list \<Rightarrow> bytes \<Rightarrow> int \<Rightarrow> bytes \<Rightarrow> elf_sym option" where
  "get_symbol_by_name dynsym dynstr len name =
     find (\<lambda>s. cstr (drop (st_name s) dynstr) = name) (take (nat len) dynsym)"

text \<open>
  The tags of one dynamic segment: the tables found so far, or \<open>None\<close> when the size of a symbol
  entry is not the expected one.
\<close>

type_synonym dyn_tables = "elf_sym list option \<times> bytes option \<times> int"

fun scan_dyn :: "dyn_tag list \<Rightarrow> dyn_tables \<Rightarrow> dyn_tables option" where
  "scan_dyn [] t = Some t"
| "scan_dyn (DT_SYMTAB syms # ds) (dynsym, dynstr, n) = scan_dyn ds (Some syms, dynstr, n)"
| "scan_dyn (DT_STRTAB strs # ds) (dynsym, dynstr, n) = scan_dyn ds (dynsym, Some strs, n)"
| "scan_dyn (DT_SYMENT v # ds) t = (if v \<noteq> 24 then None else scan_dyn ds t)"
| "scan_dyn (DT_HASH nchains # ds) (dynsym, dynstr, n) = scan_dyn ds (dynsym, dynstr, nchains)"
| "scan_dyn (DT_OTHER # ds) t = scan_dyn ds t"

fun scan_phdrs :: "phdr list \<Rightarrow> dyn_tables \<Rightarrow> dyn_tables option" where
  "scan_phdrs [] t = Some t"
| "scan_phdrs (PT_DYNAMIC ds # ps) t =
     (case scan_dyn ds t of None \<Rightarrow> None | Some t' \<Rightarrow> scan_phdrs ps t')"
| "scan_phdrs (PT_NOTE a n # ps) t = scan_phdrs ps t"
| "scan_phdrs (PT_OTHER # ps) t = scan_phdrs ps t"

definition dl_find_symbol :: "dl_info \<Rightarrow> dl_iterate_arg \<times> ulp_error \<Rightarrow> bool \<times> dl_iterate_arg \<times> ulp_error" where
  "dl_find_symbol info = (\<lambda>(args, st).
     if \<not> dlpi_size_ok info then (False, args, libpulp_errx_func 1 st)
     else
       let args = args\<lparr>symbol_addr := 0, symbol_size := 0, tls_index := -1\<rparr>
       in if \<not> strstr (dlpi_name info) (library args) then (False, args, st)
          else if dlpi_name info = vdso_name then (False, args, st)
          else case scan_phdrs (dlpi_phdr info) (None, None, 0) of
                 None \<Rightarrow> (False, args, libpulp_errx_func 1 st)
               | Some (Some dynsym, Some dynstr, num_symbols) \<Rightarrow>
                   let args = args\<lparr>tls_index := dlpi_tls_modid info\<rparr>;
                       args = (case get_symbol_by_name dynsym dynstr num_symbols (symbol args) of
                                 None \<Rightarrow> args
                               | Some sy \<Rightarrow> args\<lparr>symbol_addr := st_value sy, symbol_size := st_size sy\<rparr>)
                   in (True, args\<lparr>bias_addr := dlpi_addr info\<rparr>, st)
               | Some _ \<Rightarrow> (False, args, st))"

definition lib_arg :: "bytes \<Rightarrow> bytes \<Rightarrow> bytes" where
  "lib_arg progname lib = (if lib = progname then [] else lib)"

definition get_loaded_symbol_addr_size ::
  "bytes \<Rightarrow> dl_info list \<Rightarrow> bytes \<Rightarrow> bytes \<Rightarrow> u64 \<Rightarrow> ulp_error \<Rightarrow> u64 \<times> u64 \<times> ulp_error" where
  "get_loaded_symbol_addr_size progname infos lib sy old_faddr st =
     (let arg = \<lparr>library = lib_arg progname lib, symbol = sy, symbol_addr = 0, symbol_size = 0,
                 bias_addr = 0, tls_index = 0\<rparr>
      in case dl_iterate_phdr dl_find_symbol infos (arg, st) of (arg, st') \<Rightarrow>
           if old_faddr \<noteq> 0 \<and> symbol_addr arg \<noteq> old_faddr then (bias_addr arg + old_faddr, 0, st')
           else if symbol_addr arg = 0 then (0, 0, st')
           else (bias_addr arg + symbol_addr arg, symbol_size arg, st'))"

definition get_loaded_symbol_addr ::
  "bytes \<Rightarrow> dl_info list \<Rightarrow> bytes \<Rightarrow> bytes \<Rightarrow> u64 \<Rightarrow> ulp_error \<Rightarrow> u64 \<times> ulp_error" where
  "get_loaded_symbol_addr progname infos lib sy old_faddr st =
     (case get_loaded_symbol_addr_size progname infos lib sy old_faddr st of (a, _, st') \<Rightarrow> (a, st'))"

subsection \<open>Base addresses\<close>

definition dl_find_base_addr :: "dl_info \<Rightarrow> dl_iterate_arg \<times> ulp_error \<Rightarrow> bool \<times> dl_iterate_arg \<times> ulp_error" where
  "dl_find_base_addr info = (\<lambda>(args, st).
     let args = args\<lparr>bias_addr := 0xFF, tls_index := -1\<rparr>
     in if \<not> dlpi_size_ok info then (False, args, libpulp_errx_func 1 st)
        else if dlpi_name info = vdso_name then (False, args, st)
        else if \<not> strstr (dlpi_name info) (library args) then (False, args, st)
        else (True, args\<lparr>bias_addr := dlpi_addr info, tls_index := dlpi_tls_modid info\<rparr>, st))"

definition find_base :: "bytes \<Rightarrow> dl_info list \<Rightarrow> bytes \<Rightarrow> ulp_error \<Rightarrow> dl_iterate_arg \<times> ulp_error" where
  "find_base progname infos lib st =
     dl_iterate_phdr dl_find_base_addr infos
       (\<lparr>library = lib_arg progname lib, symbol = [], symbol_addr = 0, symbol_size = 0,
         bias_addr = 0, tls_index = 0\<rparr>, st)"

definition get_loaded_library_base_addr :: "bytes \<Rightarrow> dl_info list \<Rightarrow> bytes \<Rightarrow> ulp_error \<Rightarrow> u64 \<times> ulp_error" where
  "get_loaded_library_base_addr progname infos lib st =
     (case find_base progname infos lib st of (arg, st') \<Rightarrow> (bias_addr arg, st'))"

definition get_loaded_library_tls_index :: "bytes \<Rightarrow> dl_info list \<Rightarrow> bytes \<Rightarrow> ulp_error \<Rightarrow> int \<times> ulp_error" where
  "get_loaded_library_tls_index progname infos lib st =
     (case find_base progname infos lib st of (arg, st') \<Rightarrow> (tls_index arg, st'))"

subsection \<open>Properties\<close>

text \<open>The objects a lookup of \<open>lib\<close> considers.\<close>

definition lib_matches :: "bytes \<Rightarrow> bytes \<Rightarrow> dl_info \<Rightarrow> bool" where
  "lib_matches progname lib info \<longleftrightarrow>
     dlpi_size_ok info \<and> dlpi_name info \<noteq> vdso_name \<and> strstr (dlpi_name info) (lib_arg progname lib)"

lemma dl_find_base_addr_eq:
  assumes "dlpi_size_ok info"
  shows "dl_find_base_addr info (args, st) =
     (if dlpi_name info \<noteq> vdso_name \<and> strstr (dlpi_name info) (library args)
      then (True, args\<lparr>bias_addr := dlpi_addr info, tls_index := dlpi_tls_modid info\<rparr>, st)
      else (False, args\<lparr>bias_addr := 0xFF, tls_index := -1\<rparr>, st))"
  using assms by (auto simp: dl_find_base_addr_def Let_def)

lemma find_base_eq:
  assumes "\<forall>i \<in> set infos. dlpi_size_ok i"
  shows "dl_iterate_phdr dl_find_base_addr infos (args, st) =
     (case find (\<lambda>i. dlpi_name i \<noteq> vdso_name \<and> strstr (dlpi_name i) (library args)) infos of
        Some i \<Rightarrow> args\<lparr>bias_addr := dlpi_addr i, tls_index := dlpi_tls_modid i\<rparr>
      | None \<Rightarrow> if infos = [] then args else args\<lparr>bias_addr := 0xFF, tls_index := -1\<rparr>, st)"
  using assms
proof (induction infos arbitrary: args)
  case (Cons i "is")
  show ?case
  proof (cases "dlpi_name i \<noteq> vdso_name \<and> strstr (dlpi_name i) (library args)")
    case False
    then have "dl_find_base_addr i (args, st) = (False, args\<lparr>bias_addr := 0xFF, tls_index := -1\<rparr>, st)"
      using Cons.prems by (auto simp: dl_find_base_addr_eq)
    with False Cons show ?thesis by (auto split: option.splits)
  qed (use Cons.prems in \<open>auto simp: dl_find_base_addr_eq\<close>)
qed simp

text \<open>
  The base address and the TLS module of a library are those of the first loaded object,
  in the loader's order and without the vdso, whose name contains the library's; when there is none
  the results are the markers \<open>0xFF\<close> and \<open>-1\<close>. An empty name (the program itself) is the first object.
\<close>

theorem get_loaded_library_base_addr_first:
  assumes "\<forall>i \<in> set infos. dlpi_size_ok i" and "infos \<noteq> []"
  shows "case find (lib_matches progname lib) infos of
           Some i \<Rightarrow> get_loaded_library_base_addr progname infos lib st = (dlpi_addr i, st) \<and>
                    get_loaded_library_tls_index progname infos lib st = (dlpi_tls_modid i, st)
         | None \<Rightarrow> get_loaded_library_base_addr progname infos lib st = (0xFF, st) \<and>
                   get_loaded_library_tls_index progname infos lib st = (-1, st)"
proof -
  have "find (lib_matches progname lib) infos =
      find (\<lambda>i. dlpi_name i \<noteq> vdso_name \<and> strstr (dlpi_name i) (lib_arg progname lib)) infos"
    using assms(1) by (intro find_cong) (auto simp: lib_matches_def)
  with assms show ?thesis
    by (auto simp: get_loaded_library_base_addr_def get_loaded_library_tls_index_def find_base_def
        find_base_eq split: option.splits)
qed

definition demo_infos :: "dl_info list" where
  "demo_infos =
     [\<lparr>dlpi_addr = 0, dlpi_name = [], dlpi_phdr = [], dlpi_tls_modid = 0, dlpi_size_ok = True\<rparr>,
      \<lparr>dlpi_addr = 0x4000, dlpi_name = str ''/lib/libc.so.6'', dlpi_phdr = [], dlpi_tls_modid = 1, dlpi_size_ok = True\<rparr>]"

theorem get_loaded_library_base_addr_first_witness:
  "get_loaded_library_base_addr (str ''prog'') demo_infos (str ''libc.so.6'') 0 = (0x4000, 0)"
  using get_loaded_library_base_addr_first [of demo_infos "str ''prog''" "str ''libc.so.6''" 0]
  by (simp add: demo_infos_def lib_matches_def lib_arg_def strstr_def str_def vdso_name_def)

lemma dl_find_symbol_unmatched:
  assumes "dlpi_size_ok i" and "\<not> strstr (dlpi_name i) (library args)"
  shows "dl_find_symbol i (args, st) = (False, args\<lparr>symbol_addr := 0, symbol_size := 0, tls_index := -1\<rparr>, st)"
  using assms by (simp add: dl_find_symbol_def Let_def)

lemma dl_find_symbol_none:
  assumes "\<forall>i \<in> set infos. dlpi_size_ok i \<and> \<not> strstr (dlpi_name i) (library args)"
    and "symbol_addr args = 0" and "bias_addr args = 0"
  shows "\<exists>args'. dl_iterate_phdr dl_find_symbol infos (args, st) = (args', st) \<and>
           symbol_addr args' = 0 \<and> bias_addr args' = 0"
  using assms
proof (induction infos arbitrary: args)
  case (Cons i "is")
  then show ?case
    using Cons.IH [of "args\<lparr>symbol_addr := 0, symbol_size := 0, tls_index := -1\<rparr>"]
    by (auto simp: dl_find_symbol_unmatched)
qed simp

text \<open>
  A symbol of a library that is not loaded is not reported as missing when the patch
  carries an address: with no object matching the library's name, \<open>get_loaded_symbol_addr\<close> returns
  the patch's offset itself, not relocated by any base address; without an address it returns 0.
\<close>

theorem get_loaded_symbol_addr_not_loaded:
  assumes "\<forall>i \<in> set infos. dlpi_size_ok i \<and> \<not> strstr (dlpi_name i) (lib_arg progname lib)"
  shows "get_loaded_symbol_addr progname infos lib sy old_faddr st = (old_faddr, st)"
  using dl_find_symbol_none [of infos "\<lparr>library = lib_arg progname lib, symbol = sy, symbol_addr = 0,
      symbol_size = 0, bias_addr = 0, tls_index = 0\<rparr>" st] assms
  by (auto simp: get_loaded_symbol_addr_def get_loaded_symbol_addr_size_def Let_def)

theorem get_loaded_symbol_addr_not_loaded_witness:
  "get_loaded_symbol_addr (str ''prog'') demo_infos (str ''libx.so'') (str ''f'') 0x1230 0 = (0x1230, 0)"
  by (rule get_loaded_symbol_addr_not_loaded) (simp add: demo_infos_def lib_arg_def strstr_def str_def)

end
