(* ===== verification/Ulp_Metadata.thy ===== *)
theory Ulp_Metadata
  imports Ulp_Common
begin

text \<open>
  The live patch metadata: its data types (\<open>src/include/ulp_common.h\<close>), the serialiser of the
  packer (\<open>create_patch_metadata_file\<close> and \<open>write_reverse_patch\<close> of \<open>src/tools/packer.c\<close>), the
  injection of the container's path (\<open>extract_ulp_from_so_to_mem\<close> of \<open>src/tools/introspection.c\<close>)
  and the parser both sides share (\<open>parse_metadata_from_mem\<close> of \<open>src/common/common.c\<close>).

  A \<open>char *\<close> field is the content of its buffer; where the code uses it as a string it is \<open>cstr\<close> of
  that. Linked lists are lists. The parser runs on an explicit state: the position \<open>cur\<close>, the
  local variable \<open>c\<close> (which keeps its upper bytes when a read at the end of the buffer is short) and
  the number of allocations made so far; which allocations succeed is the parameter \<open>aok\<close>. A copy
  past the end of a heap buffer is the outcome \<open>POverflow\<close>.
\<close>

subsection \<open>Data\<close>

definition ULP_METADATA_BUF_LEN :: nat where
  "ULP_METADATA_BUF_LEN = 512 * 1024"

definition ULP_PATH_LEN :: nat where
  "ULP_PATH_LEN = 256"

definition PATH_MAX :: nat where
  "PATH_MAX = 4096"

record ulp_unit =
  old_fname :: bytes
  new_fname :: bytes
  old_faddr :: u64

record ulp_dependency =
  dep_id :: bytes
  patch_id_check :: bool

record ulp_reference =
  target_name :: bytes
  reference_name :: bytes
  target_offset :: u64
  patch_offset :: u64
  tls :: bool

record ulp_object =
  build_id_len :: u32
  build_id_check :: bool
  build_id :: bytes
  obj_name :: bytes
  nunits :: u32
  units :: "ulp_unit list"

record ulp_metadata =
  patch_id :: bytes
  so_filename :: bytes
  so_handler :: u64
  objs :: ulp_object
  ndeps :: u32
  deps :: "ulp_dependency list"
  nrefs :: u32
  refs :: "ulp_reference list"
  ptype :: u8

subsection \<open>Reading\<close>

datatype perr = PErr ulp_error | POverflow

record pstate =
  cur :: nat
  cvar :: u32
  nalloc :: nat

type_synonym 'a parser = "pstate \<Rightarrow> perr + 'a \<times> pstate"

definition preturn :: "'a \<Rightarrow> 'a parser" where
  "preturn x st = Inr (x, st)"

definition pfail :: "ulp_error \<Rightarrow> 'a parser" where
  "pfail e st = Inl (PErr e)"

definition pbind :: "'a parser \<Rightarrow> ('a \<Rightarrow> 'b parser) \<Rightarrow> 'b parser" where
  "pbind p f st = (case p st of Inl e \<Rightarrow> Inl e | Inr (x, st') \<Rightarrow> f x st')"

definition read_from_mem :: "bytes \<Rightarrow> nat \<Rightarrow> bytes parser" where
  "read_from_mem src count st =
     (let final_cnt = min count (length src - cur st)
      in Inr (take final_cnt (drop (cur st) src), st\<lparr>cur := cur st + final_cnt\<rparr>))"

text \<open>\<open>calloc\<close>; the caller names the error it returns when the allocation fails.\<close>

definition calloc :: "(nat \<Rightarrow> bool) \<Rightarrow> ulp_error \<Rightarrow> unit parser" where
  "calloc aok e st =
     (if aok (nalloc st) then Inr ((), st\<lparr>nalloc := Suc (nalloc st)\<rparr>) else Inl (PErr e))"

text \<open>A read of at least \<open>lim\<close> of \<open>n\<close> bytes into a zeroed field.\<close>

definition read_field :: "bytes \<Rightarrow> nat \<Rightarrow> nat \<Rightarrow> ulp_error \<Rightarrow> bytes parser" where
  "read_field src n lim e =
     pbind (read_from_mem src n) (\<lambda>data.
       if length data < lim then pfail e else preturn (data @ replicate (n - length data) 0))"

text \<open>A read of at least \<open>lim\<close> bytes into the local variable \<open>c\<close>.\<close>

definition read_c :: "bytes \<Rightarrow> nat \<Rightarrow> u32 parser" where
  "read_c src lim =
     pbind (read_from_mem src 4) (\<lambda>data st.
       if length data < lim then Inl (PErr EINVALIDULP)
       else let c = bytes_u32 (data @ drop (length data) (u32_bytes (cvar st)))
            in Inr (c, st\<lparr>cvar := c\<rparr>))"

text \<open>
  The pattern of every string: its length into \<open>c\<close>, a buffer of \<open>c + extra\<close> bytes (computed in 32
  bits), then \<open>c\<close> bytes into it.
\<close>

definition read_str :: "bytes \<Rightarrow> (nat \<Rightarrow> bool) \<Rightarrow> nat \<Rightarrow> u32 \<Rightarrow> ulp_error \<Rightarrow> bytes parser" where
  "read_str src aok lim extra e =
     pbind (read_c src lim) (\<lambda>c.
     pbind (calloc aok e) (\<lambda>_.
     pbind (read_from_mem src (unat c)) (\<lambda>data st.
       if unat (c + extra) < length data then Inl POverflow
       else if length data < unat c then Inl (PErr EINVALIDULP)
       else Inr (data, st))))"

abbreviation (input) "EERRNO \<equiv> (12 :: ulp_error)"

definition parse_unit :: "bytes \<Rightarrow> (nat \<Rightarrow> bool) \<Rightarrow> ulp_unit parser" where
  "parse_unit src aok =
     pbind (calloc aok ENOMEM) (\<lambda>_.
     pbind (read_str src aok 1 1 EINVALIDULP) (\<lambda>old_fn.
     pbind (read_str src aok 1 1 EINVALIDULP) (\<lambda>new_fn.
     pbind (read_field src 8 1 EINVALIDULP) (\<lambda>addr.
       preturn \<lparr>old_fname = old_fn, new_fname = new_fn, old_faddr = bytes_u64 addr\<rparr>))))"

fun parse_list :: "nat \<Rightarrow> 'a parser \<Rightarrow> 'a list parser" where
  "parse_list 0 p = preturn []"
| "parse_list (Suc n) p = pbind p (\<lambda>x. pbind (parse_list n p) (\<lambda>xs. preturn (x # xs)))"

definition parse_dep :: "bytes \<Rightarrow> (nat \<Rightarrow> bool) \<Rightarrow> ulp_dependency parser" where
  "parse_dep src aok =
     pbind (calloc aok ENOMEM) (\<lambda>_.
     pbind (read_field src 32 32 EINVALIDULP) (\<lambda>i.
       preturn \<lparr>dep_id = i, patch_id_check = False\<rparr>))"

definition parse_ref :: "bytes \<Rightarrow> (nat \<Rightarrow> bool) \<Rightarrow> ulp_reference parser" where
  "parse_ref src aok =
     pbind (calloc aok EERRNO) (\<lambda>_.
     pbind (read_str src aok 4 0 EERRNO) (\<lambda>tname.
     pbind (read_str src aok 4 0 EERRNO) (\<lambda>rname.
     pbind (read_field src 8 8 EINVALIDULP) (\<lambda>toff.
     pbind (read_field src 8 8 EINVALIDULP) (\<lambda>poff.
     pbind (read_field src 1 1 EINVALIDULP) (\<lambda>t.
       preturn \<lparr>target_name = tname, reference_name = rname, target_offset = bytes_u64 toff,
                patch_offset = bytes_u64 poff, tls = (t \<noteq> [0])\<rparr>))))))"

definition parse_object :: "bytes \<Rightarrow> (nat \<Rightarrow> bool) \<Rightarrow> ulp_object parser" where
  "parse_object src aok =
     pbind (calloc aok ENOMEM) (\<lambda>_.
     pbind (read_str src aok 1 0 EINVALIDULP) (\<lambda>bid.
     pbind (read_str src aok 1 1 EINVALIDULP) (\<lambda>name.
       preturn \<lparr>build_id_len = of_nat (length bid), build_id_check = False, build_id = bid,
                obj_name = name, nunits = 0, units = []\<rparr>)))"

definition parse_rest :: "bytes \<Rightarrow> (nat \<Rightarrow> bool) \<Rightarrow> ulp_metadata \<Rightarrow> ulp_metadata parser" where
  "parse_rest src aok ulp =
     pbind (read_field src 4 1 1) (\<lambda>n.
     pbind (parse_list (unat (bytes_u32 n)) (parse_unit src aok)) (\<lambda>us.
     pbind (read_c src 1) (\<lambda>c.
     pbind (parse_list (unat c) (parse_dep src aok)) (\<lambda>ds.
     pbind (read_field src 4 4 EINVALIDULP) (\<lambda>nr.
     pbind (parse_list (unat (bytes_u32 nr)) (parse_ref src aok)) (\<lambda>rs.
       preturn (ulp\<lparr>objs := (objs ulp)\<lparr>nunits := bytes_u32 n, units := us\<rparr>, deps := ds,
                    nrefs := bytes_u32 nr, refs := rs\<rparr>)))))))"

definition parse_header :: "bytes \<Rightarrow> (nat \<Rightarrow> bool) \<Rightarrow> ulp_metadata parser" where
  "parse_header src aok =
     pbind (read_field src 1 1 EINVALIDULP) (\<lambda>t.
     pbind (read_field src 32 32 EINVALIDULP) (\<lambda>pid.
     pbind (read_str src aok 1 1 EINVALIDULP) (\<lambda>so.
       if cstr so = [] then pfail EINVALIDULP
       else pbind (parse_object src aok) (\<lambda>obj.
              preturn \<lparr>patch_id = pid, so_filename = so, so_handler = 0, objs = obj, ndeps = 0,
                       deps = [], nrefs = 0, refs = [], ptype = hd t\<rparr>))))"

definition parse_metadata_from_mem :: "bytes \<Rightarrow> (nat \<Rightarrow> bool) \<Rightarrow> ulp_metadata parser" where
  "parse_metadata_from_mem src aok =
     pbind (parse_header src aok) (\<lambda>ulp.
       if ptype ulp = 2 then preturn ulp else parse_rest src aok ulp)"

subsection \<open>Writing\<close>

text \<open>A string field of the file: its length with the NUL, then its bytes with the NUL.\<close>

definition put_str :: "bytes \<Rightarrow> bytes" where
  "put_str s = u32_bytes (of_nat (length (cstr s) + 1)) @ cstr s @ [0]"

definition put_unit :: "ulp_unit \<Rightarrow> bytes" where
  "put_unit u = put_str (old_fname u) @ put_str (new_fname u) @ u64_bytes (old_faddr u)"

definition put_ref :: "ulp_reference \<Rightarrow> bytes" where
  "put_ref r = put_str (target_name r) @ put_str (reference_name r) @
     u64_bytes (target_offset r) @ u64_bytes (patch_offset r) @ [if tls r then 1 else 0]"

definition create_patch_metadata_file :: "ulp_metadata \<Rightarrow> bytes" where
  "create_patch_metadata_file ulp =
     [1] @ patch_id ulp @
     u32_bytes (build_id_len (objs ulp)) @ build_id (objs ulp) @
     put_str (obj_name (objs ulp)) @
     u32_bytes (nunits (objs ulp)) @ concat (map put_unit (units (objs ulp))) @
     u32_bytes (ndeps ulp) @ concat (map dep_id (deps ulp)) @
     u32_bytes (nrefs ulp) @ concat (map put_ref (refs ulp))"

definition write_reverse_patch :: "ulp_metadata \<Rightarrow> bytes" where
  "write_reverse_patch ulp =
     [2] @ patch_id ulp @
     u32_bytes (build_id_len (objs ulp)) @ build_id (objs ulp) @
     u32_bytes (of_nat (length (cstr (obj_name (objs ulp))))) @ cstr (obj_name (objs ulp))"

text \<open>
  The tool puts the path of the container behind the patch id. \<open>path\<close> is the resolved path of the
  container (or the path as given when it cannot be resolved). A section shorter than the 33 bytes
  of type and id makes the last copy's length wrap.
\<close>

datatype extracted = Extracted bytes | TooLarge | OutOfBounds

definition extract_ulp_from_so_to_mem :: "bytes \<Rightarrow> bytes option \<Rightarrow> bytes \<Rightarrow> extracted" where
  "extract_ulp_from_so_to_mem d_buf prefix path =
     (let pre = (case prefix of None \<Rightarrow> [] | Some p \<Rightarrow> p);
          path_buffer = pre @ path;
          path_size = length path_buffer + 1;
          meta_size = length d_buf + path_size + 4
      in if prefix \<noteq> None \<and> length pre \<ge> PATH_MAX then TooLarge
         else if path_size \<ge> PATH_MAX then TooLarge
         else if meta_size \<ge> ULP_METADATA_BUF_LEN then TooLarge
         else if length d_buf < 33 then OutOfBounds
         else Extracted (take 33 d_buf @ u32_bytes (of_nat path_size) @ path_buffer @ [0] @ drop 33 d_buf))"

subsection \<open>Parsing what was written\<close>

text \<open>The parser's position, seen as what is left to read.\<close>

definition left_at :: "bytes \<Rightarrow> pstate \<Rightarrow> bytes \<Rightarrow> bool" where
  "left_at src st rest \<longleftrightarrow> cur st \<le> length src \<and> drop (cur st) src = rest"

text \<open>\<open>p\<close> reads the bytes \<open>enc\<close> as the value \<open>v\<close>, whatever follows them.\<close>

definition reads :: "bytes \<Rightarrow> 'a parser \<Rightarrow> bytes \<Rightarrow> 'a \<Rightarrow> bool" where
  "reads src p enc v \<longleftrightarrow>
     (\<forall>st rest. left_at src st (enc @ rest) \<longrightarrow> (\<exists>st'. p st = Inr (v, st') \<and> left_at src st' rest))"

named_theorems reads_intros \<open>parsers and the encodings they read\<close>

lemma readsI:
  "(\<And>st rest. left_at src st (enc @ rest) \<Longrightarrow> \<exists>st'. p st = Inr (v, st') \<and> left_at src st' rest) \<Longrightarrow>
   reads src p enc v"
  by (simp add: reads_def)

lemma reads_return [reads_intros]: "reads src (preturn v) [] v"
  by (rule readsI) (simp add: preturn_def)

lemma reads_bind [reads_intros]:
  "reads src p enc1 v \<Longrightarrow> reads src (f v) enc2 w \<Longrightarrow> reads src (pbind p f) (enc1 @ enc2) w"
  unfolding reads_def pbind_def by fastforce

lemma reads_bind_nil:
  "reads src p enc v \<Longrightarrow> reads src (f v) [] w \<Longrightarrow> reads src (pbind p f) enc w"
  using reads_bind [of src p enc v f "[]" w] by simp

lemma reads_pre_nil:
  "reads src p [] v \<Longrightarrow> reads src (f v) enc w \<Longrightarrow> reads src (pbind p f) enc w"
  using reads_bind [of src p "[]" v f enc w] by simp

lemma left_at_take:
  assumes "left_at src st (enc @ rest)"
  shows "read_from_mem src (length enc) st = Inr (enc, st\<lparr>cur := cur st + length enc\<rparr>)"
    and "left_at src (st\<lparr>cur := cur st + length enc\<rparr>) rest"
proof -
  have len: "length src - cur st = length enc + length rest"
    using assms by (metis left_at_def length_append length_drop)
  show "read_from_mem src (length enc) st = Inr (enc, st\<lparr>cur := cur st + length enc\<rparr>)"
    using assms len by (simp add: read_from_mem_def left_at_def)
  have "drop (length enc) (drop (cur st) src) = rest" using assms by (simp add: left_at_def)
  then show "left_at src (st\<lparr>cur := cur st + length enc\<rparr>) rest"
    using assms len by (auto simp: left_at_def add.commute)
qed

lemma reads_mem: "n = length enc \<Longrightarrow> reads src (read_from_mem src n) enc enc"
  by (rule readsI) (use left_at_take in blast)

lemma reads_field [reads_intros]:
  "n = length enc \<Longrightarrow> lim \<le> n \<Longrightarrow> reads src (read_field src n lim e) enc enc"
  unfolding read_field_def
  by (rule reads_bind_nil [OF reads_mem]) (simp_all add: reads_return)

lemma reads_c [reads_intros]: "lim \<le> 4 \<Longrightarrow> reads src (read_c src lim) (u32_bytes c) c"
  by (rule readsI)
     (use left_at_take [where enc = "u32_bytes c"] in
      \<open>simp add: read_c_def pbind_def left_at_def\<close>)

lemma reads_calloc [reads_intros]: "\<forall>k. aok k \<Longrightarrow> reads src (calloc aok e) [] ()"
  by (rule readsI) (simp add: calloc_def left_at_def)

lemma reads_str [reads_intros]:
  assumes "\<forall>k. aok k" "length s + unat extra < 2 ^ 32" "lim \<le> 4"
  shows "reads src (read_str src aok lim extra e) (u32_bytes (of_nat (length s)) @ s) s"
proof -
  let ?c = "of_nat (length s) :: u32"
  have c: "unat ?c = length s" "length s \<le> unat (?c + extra)"
    using assms(2) by (simp_all add: unat_of_nat unat_word_ariths)
  show ?thesis
    unfolding read_str_def
  proof (rule reads_bind [OF reads_c [OF assms(3)]], rule reads_pre_nil [OF reads_calloc [OF assms(1)]],
      rule reads_bind_nil [OF reads_mem])
    show "unat ?c = length s" by (rule c(1))
    show "reads src (\<lambda>st. if unat (?c + extra) < length s then Inl POverflow
        else if length s < unat ?c then Inl (PErr EINVALIDULP) else Inr (s, st)) [] s"
      using c by (intro readsI) simp
  qed
qed

definition name_ok :: "bytes \<Rightarrow> bool" where
  "name_ok s \<longleftrightarrow> length (cstr s) + 2 < 2 ^ 32"

lemma reads_put_str [reads_intros]:
  assumes "\<forall>k. aok k" "name_ok s" "unat extra \<le> 1" "lim \<le> 4"
  shows "reads src (read_str src aok lim extra e) (put_str s) (cstr s @ [0])"
  using reads_str [OF assms(1) _ assms(4), of "cstr s @ [0]" extra src e] assms(2,3)
  by (simp add: put_str_def name_ok_def)

definition stored_unit :: "ulp_unit \<Rightarrow> ulp_unit" where
  "stored_unit u = u\<lparr>old_fname := cstr (old_fname u) @ [0], new_fname := cstr (new_fname u) @ [0]\<rparr>"

definition stored_ref :: "ulp_reference \<Rightarrow> ulp_reference" where
  "stored_ref r = r\<lparr>target_name := cstr (target_name r) @ [0], reference_name := cstr (reference_name r) @ [0]\<rparr>"

definition wf_metadata :: "ulp_metadata \<Rightarrow> bool" where
  "wf_metadata md \<longleftrightarrow>
     length (patch_id md) = 32 \<and>
     length (build_id (objs md)) < 2 ^ 32 \<and> build_id_len (objs md) = of_nat (length (build_id (objs md))) \<and>
     name_ok (obj_name (objs md)) \<and>
     length (units (objs md)) < 2 ^ 32 \<and> nunits (objs md) = of_nat (length (units (objs md))) \<and>
     (\<forall>u \<in> set (units (objs md)). name_ok (old_fname u) \<and> name_ok (new_fname u)) \<and>
     length (deps md) < 2 ^ 32 \<and> ndeps md = of_nat (length (deps md)) \<and>
     (\<forall>d \<in> set (deps md). length (dep_id d) = 32) \<and>
     length (refs md) < 2 ^ 32 \<and> nrefs md = of_nat (length (refs md)) \<and>
     (\<forall>r \<in> set (refs md). name_ok (target_name r) \<and> name_ok (reference_name r))"

text \<open>What the parser is to make of a written patch: the same content, fresh run-time fields.\<close>

definition stored_object :: "ulp_object \<Rightarrow> ulp_object" where
  "stored_object ob = ob\<lparr>build_id_check := False, obj_name := cstr (obj_name ob) @ [0],
     units := map stored_unit (units ob)\<rparr>"

definition stored :: "ulp_metadata \<Rightarrow> bytes \<Rightarrow> ulp_metadata" where
  "stored md path = \<lparr>patch_id = patch_id md, so_filename = path @ [0], so_handler = 0,
     objs = stored_object (objs md), ndeps = 0, deps = map (\<lambda>d. d\<lparr>patch_id_check := False\<rparr>) (deps md),
     nrefs = nrefs md, refs = map stored_ref (refs md), ptype = 1\<rparr>"

definition stored_reverse :: "ulp_metadata \<Rightarrow> bytes \<Rightarrow> ulp_metadata" where
  "stored_reverse md path = \<lparr>patch_id = patch_id md, so_filename = path @ [0], so_handler = 0,
     objs = (objs md)\<lparr>build_id_check := False, obj_name := cstr (obj_name (objs md)), nunits := 0, units := []\<rparr>,
     ndeps = 0, deps = [], nrefs = 0, refs = [], ptype = 2\<rparr>"

lemma reads_unit:
  assumes "\<forall>k. aok k" "name_ok (old_fname u)" "name_ok (new_fname u)"
  shows "reads src (parse_unit src aok) (put_unit u) (stored_unit u)"
proof -
  have v: "stored_unit u = \<lparr>old_fname = cstr (old_fname u) @ [0], new_fname = cstr (new_fname u) @ [0],
      old_faddr = bytes_u64 (u64_bytes (old_faddr u))\<rparr>" by (simp add: stored_unit_def)
  show ?thesis
    unfolding parse_unit_def put_unit_def v
    by (intro reads_pre_nil [OF reads_calloc] reads_bind [OF reads_put_str] reads_bind_nil [OF reads_field] reads_return)
       (use assms in simp_all)
qed

lemma reads_dep:
  assumes "\<forall>k. aok k" "length (dep_id d) = 32"
  shows "reads src (parse_dep src aok) (dep_id d) (d\<lparr>patch_id_check := False\<rparr>)"
proof -
  have v: "d\<lparr>patch_id_check := False\<rparr> = \<lparr>dep_id = dep_id d, patch_id_check = False\<rparr>" by simp
  show ?thesis
    unfolding parse_dep_def v
    by (intro reads_pre_nil [OF reads_calloc] reads_bind_nil [OF reads_field] reads_return) (use assms in simp_all)
qed

lemma reads_ref:
  assumes "\<forall>k. aok k" "name_ok (target_name r)" "name_ok (reference_name r)"
  shows "reads src (parse_ref src aok) (put_ref r) (stored_ref r)"
proof -
  have v: "stored_ref r = \<lparr>target_name = cstr (target_name r) @ [0],
      reference_name = cstr (reference_name r) @ [0],
      target_offset = bytes_u64 (u64_bytes (target_offset r)),
      patch_offset = bytes_u64 (u64_bytes (patch_offset r)),
      tls = ([if tls r then 1 else 0 :: u8] \<noteq> [0])\<rparr>" by (simp add: stored_ref_def)
  show ?thesis
    unfolding parse_ref_def put_ref_def v
    by (intro reads_pre_nil [OF reads_calloc] reads_bind [OF reads_put_str] reads_bind [OF reads_field]
        reads_bind_nil [OF reads_field] reads_return)
       (use assms in simp_all)
qed

lemma reads_list:
  "(\<And>x. x \<in> set xs \<Longrightarrow> reads src p (enc x) (val x)) \<Longrightarrow>
   reads src (parse_list (length xs) p) (concat (map enc xs)) (map val xs)"
proof (induction xs)
  case Nil
  then show ?case by (simp add: reads_return)
next
  case (Cons x xs)
  have "reads src (pbind (parse_list (length xs) p) (\<lambda>ys. preturn (val x # ys))) (concat (map enc xs)) (map val (x # xs))"
    by (rule reads_bind_nil [OF Cons.IH]) (use Cons.prems in \<open>simp_all add: reads_return\<close>)
  moreover have "reads src p (enc x) (val x)" using Cons.prems by simp
  ultimately show ?case by (simp add: reads_bind)
qed

lemma reads_header:
  assumes "\<forall>k. aok k" "length pid = 32" "length so + 1 < 2 ^ 32" "cstr so \<noteq> []"
    "length bid < 2 ^ 32" "length nm + 1 < 2 ^ 32"
  shows "reads src (parse_header src aok)
      ([t] @ pid @ (u32_bytes (of_nat (length so)) @ so) @ (u32_bytes (of_nat (length bid)) @ bid) @
       (u32_bytes (of_nat (length nm)) @ nm))
      \<lparr>patch_id = pid, so_filename = so, so_handler = 0,
       objs = \<lparr>build_id_len = of_nat (length bid), build_id_check = False, build_id = bid,
               obj_name = nm, nunits = 0, units = []\<rparr>,
       ndeps = 0, deps = [], nrefs = 0, refs = [], ptype = t\<rparr>"
proof -
  have obj: "reads src (parse_object src aok)
      ((u32_bytes (of_nat (length bid)) @ bid) @ (u32_bytes (of_nat (length nm)) @ nm))
      \<lparr>build_id_len = of_nat (length bid), build_id_check = False, build_id = bid,
       obj_name = nm, nunits = 0, units = []\<rparr>"
    unfolding parse_object_def
    by (intro reads_pre_nil [OF reads_calloc] reads_bind [OF reads_str] reads_bind_nil [OF reads_str] reads_return)
       (use assms in simp_all)
  have t: "t = hd [t]" by simp
  show ?thesis
    unfolding parse_header_def
    apply (subst (2) t)
    apply (intro reads_bind [OF reads_field] reads_bind [OF reads_str])
    using assms apply simp_all
    by (rule reads_bind_nil [OF obj [unfolded append_assoc]] reads_return)+
qed

lemma reads_rest:
  assumes "\<forall>k. aok k" "wf_metadata md"
  shows "reads src (parse_rest src aok ulp)
      (u32_bytes (nunits (objs md)) @ concat (map put_unit (units (objs md))) @
       u32_bytes (ndeps md) @ concat (map dep_id (deps md)) @
       u32_bytes (nrefs md) @ concat (map put_ref (refs md)))
      (ulp\<lparr>objs := (objs ulp)\<lparr>nunits := nunits (objs md), units := map stored_unit (units (objs md))\<rparr>,
           deps := map (\<lambda>d. d\<lparr>patch_id_check := False\<rparr>) (deps md), nrefs := nrefs md,
           refs := map stored_ref (refs md)\<rparr>)"
proof -
  note w = assms(2)[unfolded wf_metadata_def]
  have n: "unat (nunits (objs md)) = length (units (objs md))" "unat (ndeps md) = length (deps md)"
      "unat (nrefs md) = length (refs md)"
    using w by (auto simp: unat_of_nat)
  have u: "reads src (parse_list (unat (nunits (objs md))) (parse_unit src aok))
      (concat (map put_unit (units (objs md)))) (map stored_unit (units (objs md)))"
    unfolding n using w assms(1) by (intro reads_list reads_unit) auto
  have d: "reads src (parse_list (unat (ndeps md)) (parse_dep src aok))
      (concat (map dep_id (deps md))) (map (\<lambda>d. d\<lparr>patch_id_check := False\<rparr>) (deps md))"
    unfolding n using w assms(1) by (intro reads_list reads_dep) auto
  have r: "reads src (parse_list (unat (nrefs md)) (parse_ref src aok))
      (concat (map put_ref (refs md))) (map stored_ref (refs md))"
    unfolding n using w assms(1) by (intro reads_list reads_ref) auto
  have fu: "reads src (read_field src 4 1 1) (u32_bytes (nunits (objs md))) (u32_bytes (nunits (objs md)))"
    and fr: "reads src (read_field src 4 4 EINVALIDULP) (u32_bytes (nrefs md)) (u32_bytes (nrefs md))"
    by (rule reads_field; simp)+
  have fc: "reads src (read_c src 1) (u32_bytes (ndeps md)) (ndeps md)" by (rule reads_c) simp
  show ?thesis
    unfolding parse_rest_def
    by (rule reads_bind [OF fu], unfold bytes_u32_u32_bytes, rule reads_bind [OF u], rule reads_bind [OF fc],
        rule reads_bind [OF d], rule reads_bind [OF fr], unfold bytes_u32_u32_bytes,
        rule reads_bind_nil [OF r], rule reads_return)
qed

text \<open>The file the parser sees: the path behind the first 33 bytes, as the tool puts it.\<close>

definition with_path :: "bytes \<Rightarrow> bytes \<Rightarrow> bytes" where
  "with_path f path = take 33 f @ u32_bytes (of_nat (length path + 1)) @ path @ [0] @ drop 33 f"

lemma reads_patch:
  assumes "\<forall>k. aok k" "wf_metadata md" "no_nul path" "path \<noteq> []" "length path + 2 < 2 ^ 32"
  shows "reads src (parse_metadata_from_mem src aok) (with_path (create_patch_metadata_file md) path)
           (stored md path)"
    and "reads src (parse_metadata_from_mem src aok) (with_path (write_reverse_patch md) path)
           (stored_reverse md path)"
proof -
  note w = assms(2)[unfolded wf_metadata_def]
  let ?o = "objs md" and ?so = "path @ [0]"
  have so: "length ?so + 1 < 2 ^ 32" "cstr ?so \<noteq> []" using assms(3-5) by simp_all
  have bid: "build_id_len ?o = of_nat (length (build_id ?o))" "length (build_id ?o) < 2 ^ 32"
    and pid: "length (patch_id md) = 32" and nm: "length (cstr (obj_name ?o) @ [0]) + 1 < 2 ^ 32"
      "length (cstr (obj_name ?o)) + 1 < 2 ^ 32"
    using w by (simp_all add: name_ok_def)
  note h1 = reads_header [OF assms(1) pid so bid(2) nm(1), of src 1]
  note h2 = reads_header [OF assms(1) pid so bid(2) nm(2), of src 2]
  have e1: "with_path (create_patch_metadata_file md) path =
      ([1] @ patch_id md @ (u32_bytes (of_nat (length ?so)) @ ?so) @
        (u32_bytes (of_nat (length (build_id ?o))) @ build_id ?o) @
        (u32_bytes (of_nat (length (cstr (obj_name ?o) @ [0]))) @ cstr (obj_name ?o) @ [0])) @
      (u32_bytes (nunits ?o) @ concat (map put_unit (units ?o)) @
       u32_bytes (ndeps md) @ concat (map dep_id (deps md)) @
       u32_bytes (nrefs md) @ concat (map put_ref (refs md)))"
    using pid bid(1) by (simp add: with_path_def create_patch_metadata_file_def put_str_def)
  have e2: "with_path (write_reverse_patch md) path =
      [2] @ patch_id md @ (u32_bytes (of_nat (length ?so)) @ ?so) @
        (u32_bytes (of_nat (length (build_id ?o))) @ build_id ?o) @
        (u32_bytes (of_nat (length (cstr (obj_name ?o)))) @ cstr (obj_name ?o))"
    using pid bid(1) by (simp add: with_path_def write_reverse_patch_def)
  show "reads src (parse_metadata_from_mem src aok) (with_path (create_patch_metadata_file md) path) (stored md path)"
    unfolding parse_metadata_from_mem_def e1
  proof (rule reads_bind [OF h1])
    let ?h = "\<lparr>patch_id = patch_id md, so_filename = ?so, so_handler = 0,
       objs = \<lparr>build_id_len = of_nat (length (build_id ?o)), build_id_check = False, build_id = build_id ?o,
               obj_name = cstr (obj_name ?o) @ [0], nunits = 0, units = []\<rparr>,
       ndeps = 0, deps = [], nrefs = 0, refs = [], ptype = 1\<rparr>"
    have "stored md path = ?h\<lparr>objs := (objs ?h)\<lparr>nunits := nunits ?o, units := map stored_unit (units ?o)\<rparr>,
           deps := map (\<lambda>d. d\<lparr>patch_id_check := False\<rparr>) (deps md), nrefs := nrefs md,
           refs := map stored_ref (refs md)\<rparr>"
      using bid(1) by (cases ?o) (simp add: stored_def stored_object_def)
    with reads_rest [OF assms(1,2), of src ?h]
    show "reads src (if ptype ?h = 2 then preturn ?h else parse_rest src aok ?h)
        (u32_bytes (nunits ?o) @ concat (map put_unit (units ?o)) @
         u32_bytes (ndeps md) @ concat (map dep_id (deps md)) @
         u32_bytes (nrefs md) @ concat (map put_ref (refs md))) (stored md path)" by simp
  qed
  show "reads src (parse_metadata_from_mem src aok) (with_path (write_reverse_patch md) path) (stored_reverse md path)"
    unfolding parse_metadata_from_mem_def e2
    by (rule reads_bind_nil [OF h2])
       (use bid(1) in \<open>cases ?o, simp add: stored_reverse_def reads_return\<close>)
qed

subsection \<open>Safety of the parser\<close>

text \<open>A parser that never moves behind the end, and that overflows only when \<open>bad\<close> holds.\<close>

definition guarded :: "bytes \<Rightarrow> bool \<Rightarrow> 'a parser \<Rightarrow> bool" where
  "guarded src bad p \<longleftrightarrow>
     (\<forall>st. cur st \<le> length src \<longrightarrow>
        (case p st of Inl e \<Rightarrow> e = POverflow \<longrightarrow> bad
         | Inr (v, st') \<Rightarrow> cur st \<le> cur st' \<and> cur st' \<le> length src))"

named_theorems guarded_intros

lemma guarded_return [guarded_intros]: "guarded src bad (preturn v)"
  and guarded_fail [guarded_intros]: "guarded src bad (pfail e)"
  and guarded_calloc [guarded_intros]: "guarded src bad (calloc aok e)"
  and guarded_mem [guarded_intros]: "guarded src bad (read_from_mem src n)"
  by (auto simp: guarded_def preturn_def pfail_def calloc_def read_from_mem_def Let_def)

lemma guarded_bind [guarded_intros]:
  "guarded src bad p \<Longrightarrow> (\<And>v. guarded src bad (f v)) \<Longrightarrow> guarded src bad (pbind p f)"
  unfolding guarded_def
proof (intro allI impI)
  fix st :: pstate
  assume p: "\<forall>st. cur st \<le> length src \<longrightarrow> (case p st of Inl e \<Rightarrow> e = POverflow \<longrightarrow> bad
         | Inr (v, st') \<Rightarrow> cur st \<le> cur st' \<and> cur st' \<le> length src)"
    and f: "\<And>v. \<forall>st. cur st \<le> length src \<longrightarrow> (case f v st of Inl e \<Rightarrow> e = POverflow \<longrightarrow> bad
         | Inr (v, st') \<Rightarrow> cur st \<le> cur st' \<and> cur st' \<le> length src)"
    and st: "cur st \<le> length src"
  show "case pbind p f st of Inl e \<Rightarrow> e = POverflow \<longrightarrow> bad
         | Inr (v, st') \<Rightarrow> cur st \<le> cur st' \<and> cur st' \<le> length src"
  proof (cases "p st")
    case (Inl e)
    then show ?thesis using p st by (force simp: pbind_def)
  next
    case (Inr r)
    obtain v st' where r: "r = (v, st')" by (cases r)
    then have le: "cur st \<le> cur st'" "cur st' \<le> length src" using p [rule_format, OF st] Inr by simp_all
    from f [of v, rule_format, OF le(2)] show ?thesis
      using le(1) by (simp add: pbind_def Inr r split: sum.splits prod.splits)
  qed
qed

lemma guarded_if [guarded_intros]:
  "guarded src bad p \<Longrightarrow> guarded src bad q \<Longrightarrow> guarded src bad (if b then p else q)"
  by simp

lemma guarded_field [guarded_intros]: "guarded src bad (read_field src n lim e)"
  unfolding read_field_def by (intro guarded_intros)

lemma guarded_c [guarded_intros]: "guarded src bad (read_c src lim)"
  unfolding read_c_def by (intro guarded_bind guarded_mem) (simp add: guarded_def Let_def)

lemma guarded_list [guarded_intros]: "guarded src bad p \<Longrightarrow> guarded src bad (parse_list n p)"
  by (induction n) (auto intro!: guarded_intros)

text \<open>The length field that makes \<open>c + 1\<close> zero: four bytes \<open>0xFF\<close>.\<close>

definition has_max_length :: "bytes \<Rightarrow> bool" where
  "has_max_length src \<longleftrightarrow> (\<exists>i. i + 4 < length src \<and> take 4 (drop i src) = replicate 4 0xFF)"

lemma max_u32: "u32_bytes c = replicate 4 0xFF \<longleftrightarrow> c = - 1"
proof -
  have 4: "(4 :: nat) = Suc (Suc (Suc (Suc 0)))" by simp
  have "unat (- 1 :: u32) = 0xFFFFFFFF" by (simp add: unsigned_minus_1_eq_mask mask_eq_exp_minus_1)
  then have "u32_bytes (- 1) = replicate 4 0xFF" unfolding u32_bytes_def 4 by simp
  then show ?thesis by (metis u32_bytes_inj)
qed

lemma wrap_max:
  assumes "unat (c + extra) < unat c" and "extra = 0 \<or> extra = (1 :: u32)"
  shows "c = - 1"
proof (rule ccontr)
  assume "c \<noteq> - 1"
  then have "1 + c \<noteq> 0" by (simp add: add_eq_0_iff)
  then have "unat (1 + c) = Suc (unat c)" by (rule unatSuc)
  with assms show False by (auto simp: add.commute)
qed

lemma read_c_max:
  assumes "cur st \<le> length src" and "read_c src lim st = Inr (c, st')"
  shows "cur st \<le> cur st'" and "cur st' \<le> length src"
    and "c = - 1 \<Longrightarrow> cur st' < length src \<Longrightarrow> has_max_length src"
proof -
  define n where "n = min 4 (length src - cur st)"
  define d where "d = take n (drop (cur st) src)"
  have c: "c = bytes_u32 (d @ drop (length d) (u32_bytes (cvar st)))" "cur st' = cur st + n"
    using assms(2) by (auto simp: read_c_def pbind_def read_from_mem_def Let_def n_def d_def split: if_splits)
  have n: "n \<le> length src - cur st" "length d = n" by (simp_all add: n_def d_def)
  show "cur st \<le> cur st'" "cur st' \<le> length src" using c(2) n(1) assms(1) by simp_all
  assume m: "c = - 1" "cur st' < length src"
  then have n4: "n = 4" using c(2) by (simp add: n_def)
  then have "u32_bytes c = d"
    using c(1) n(2) le_bytes_of_le [of d] of_le_bound [of d]
    by (simp add: u32_bytes_def bytes_u32_def unat_of_nat)
  then have "take 4 (drop (cur st) src) = replicate 4 0xFF"
    using m(1) max_u32 [of c] n4 d_def by simp
  then show "has_max_length src" using m(2) c(2) n4 unfolding has_max_length_def by auto
qed

lemma guarded_str [guarded_intros]:
  assumes "extra = 0 \<or> extra = 1"
  shows "guarded src (has_max_length src) (read_str src aok lim extra e)"
  unfolding guarded_def
proof (intro allI impI)
  fix st :: pstate
  assume st: "cur st \<le> length src"
  show "case read_str src aok lim extra e st of Inl er \<Rightarrow> er = POverflow \<longrightarrow> has_max_length src
      | Inr (v, st') \<Rightarrow> cur st \<le> cur st' \<and> cur st' \<le> length src"
  proof (cases "read_c src lim st")
    case (Inl er)
    with guarded_c [of src False lim] st show ?thesis
      by (force simp: guarded_def read_str_def pbind_def)
  next
    case (Inr r)
    obtain c st1 where r: "r = (c, st1)" by (cases r)
    note c = read_c_max [OF st Inr [unfolded r]]
    define k where "k = min (unat c) (length src - cur st1)"
    have "has_max_length src" if "unat (c + extra) < k"
      using that by (intro c(3) wrap_max [OF _ assms]) (auto simp: k_def)
    then show ?thesis
      using c(1,2)
      by (cases "aok (nalloc st1)")
         (simp_all add: read_str_def pbind_def Inr r calloc_def read_from_mem_def Let_def k_def [symmetric] min_def [of k],
          auto simp: k_def)
  qed
qed

lemma guarded_parse: "guarded src (has_max_length src) (parse_metadata_from_mem src aok)"
  unfolding parse_metadata_from_mem_def parse_header_def parse_object_def parse_rest_def
    parse_unit_def parse_dep_def parse_ref_def
  by (intro guarded_intros) simp_all

text \<open>A parser that fails never reports the value 0, which would read as success.\<close>

definition fails_nonzero :: "'a parser \<Rightarrow> bool" where
  "fails_nonzero p \<longleftrightarrow> (\<forall>st. p st \<noteq> Inl (PErr 0))"

named_theorems nonzero_intros

lemma nonzero_return [nonzero_intros]: "fails_nonzero (preturn v)"
  and nonzero_fail [nonzero_intros]: "e \<noteq> 0 \<Longrightarrow> fails_nonzero (pfail e)"
  and nonzero_calloc [nonzero_intros]: "e \<noteq> 0 \<Longrightarrow> fails_nonzero (calloc aok e)"
  and nonzero_mem [nonzero_intros]: "fails_nonzero (read_from_mem src n)"
  and nonzero_bind [nonzero_intros]: "fails_nonzero p \<Longrightarrow> (\<And>v. fails_nonzero (f v)) \<Longrightarrow> fails_nonzero (pbind p f)"
  and nonzero_if [nonzero_intros]: "fails_nonzero p \<Longrightarrow> fails_nonzero q \<Longrightarrow> fails_nonzero (if b then p else q)"
  by (auto simp: fails_nonzero_def preturn_def pfail_def calloc_def read_from_mem_def pbind_def Let_def
      split: sum.splits prod.splits)

lemma nonzero_field [nonzero_intros]: "e \<noteq> 0 \<Longrightarrow> fails_nonzero (read_field src n lim e)"
  unfolding read_field_def by (intro nonzero_intros)

lemma nonzero_c [nonzero_intros]: "fails_nonzero (read_c src lim)"
  unfolding read_c_def by (intro nonzero_bind nonzero_mem) (simp add: fails_nonzero_def Let_def)

lemma nonzero_str [nonzero_intros]: "e \<noteq> 0 \<Longrightarrow> fails_nonzero (read_str src aok lim extra e)"
  unfolding read_str_def by (intro nonzero_intros) (simp_all add: fails_nonzero_def)

lemma nonzero_list [nonzero_intros]: "fails_nonzero p \<Longrightarrow> fails_nonzero (parse_list n p)"
  by (induction n) (auto intro!: nonzero_intros)

lemma parse_fails_nonzero: "fails_nonzero (parse_metadata_from_mem src aok)"
  unfolding parse_metadata_from_mem_def parse_header_def parse_object_def parse_rest_def
    parse_unit_def parse_dep_def parse_ref_def
  by (intro nonzero_intros) simp_all

text \<open>A parsed dependency has not been checked yet.\<close>

lemma pbind_Inr: "pbind p f st = Inr r \<longleftrightarrow> (\<exists>v st'. p st = Inr (v, st') \<and> f v st' = Inr r)"
  by (auto simp: pbind_def split: sum.splits prod.splits)

lemma parse_list_all:
  "(\<And>st v st'. p st = Inr (v, st') \<Longrightarrow> P v) \<Longrightarrow> parse_list n p st = Inr (vs, st') \<Longrightarrow> \<forall>v \<in> set vs. P v"
  by (induction n arbitrary: st vs) (auto simp: preturn_def pbind_Inr)

lemma parse_dep_unchecked: "parse_dep src aok st = Inr (d, st') \<Longrightarrow> \<not> patch_id_check d"
  by (auto simp: parse_dep_def pbind_Inr preturn_def)

lemma parse_deps_unchecked:
  "parse_list n (parse_dep src aok) st = Inr (ds, st') \<Longrightarrow> \<forall>d \<in> set ds. \<not> patch_id_check d"
  by (rule parse_list_all [where p = "parse_dep src aok"]) (auto dest: parse_dep_unchecked)

lemma parsed_deps_unchecked:
  assumes "parse_metadata_from_mem src aok st = Inr (ulp, st')"
  shows "\<forall>d \<in> set (deps ulp). \<not> patch_id_check d"
proof -
  have h: "deps u = []" if "parse_header src aok s = Inr (u, s')" for u s s'
    using that by (auto simp: parse_header_def pbind_Inr preturn_def pfail_def split: if_splits)
  have r: "\<forall>d \<in> set (deps ulp). \<not> patch_id_check d" if "parse_rest src aok u s = Inr (ulp, s')" for u s s'
    using that by (auto simp: parse_rest_def pbind_Inr preturn_def dest: parse_deps_unchecked)
  obtain u s1 where u: "parse_header src aok st = Inr (u, s1)"
    "(if ptype u = 2 then preturn u else parse_rest src aok u) s1 = Inr (ulp, st')"
    using assms by (auto simp: parse_metadata_from_mem_def pbind_Inr)
  show ?thesis
  proof (cases "ptype u = 2")
    case True
    with u(2) h [OF u(1)] show ?thesis by (simp add: preturn_def)
  next
    case False
    with u(2) show ?thesis by (intro r) simp
  qed
qed

subsection \<open>Properties\<close>

text \<open>The state in which parsing starts: \<open>c\<close> is not initialised by the code.\<close>

definition pstart :: "u32 \<Rightarrow> nat \<Rightarrow> pstate" where
  "pstart c k = \<lparr>cur = 0, cvar = c, nalloc = k\<rparr>"

lemma parse_extracted:
  assumes "wf_metadata md" and "no_nul path" and "path \<noteq> []" and "\<forall>k. aok k"
    and "extract_ulp_from_so_to_mem (create_patch_metadata_file md) None path = Extracted f"
    and "extract_ulp_from_so_to_mem (write_reverse_patch md) None path = Extracted g"
  shows "(\<exists>st. parse_metadata_from_mem (f @ pad) aok (pstart c k) = Inr (stored md path, st)) \<and>
         (\<exists>st. parse_metadata_from_mem (g @ pad) aok (pstart c k) = Inr (stored_reverse md path, st))"
proof -
  have len: "length path + 2 < 2 ^ 32"
    using assms(5) by (auto simp: extract_ulp_from_so_to_mem_def Let_def PATH_MAX_def split: if_splits)
  have f: "f = with_path (create_patch_metadata_file md) path" "g = with_path (write_reverse_patch md) path"
    using assms(5,6) by (auto simp: extract_ulp_from_so_to_mem_def with_path_def Let_def split: if_splits)
  have "left_at (h @ pad) (pstart c k) (h @ pad)" for h by (simp add: left_at_def pstart_def)
  then show ?thesis
    using reads_patch [OF assms(4,1,2,3) len] unfolding f reads_def by blast
qed

text \<open>
  Claim C7. Metadata round trip. The \<open>.ulp\<close> section the packer writes, with the container's path
  put in by the tool and followed by any bytes (the rest of the 512 KB buffer), is parsed by
  libpulp into the packer's metadata: ids, names, addresses, dependencies and references, in order.
  The same holds of the \<open>.ulp.rev\<close> section, which gives a patch of type 2 with the same id.
\<close>

theorem metadata_roundtrip:
  assumes "wf_metadata md" and "no_nul path" and "path \<noteq> []" and "\<forall>k. aok k"
    and "extract_ulp_from_so_to_mem (create_patch_metadata_file md) None path = Extracted f"
    and "extract_ulp_from_so_to_mem (write_reverse_patch md) None path = Extracted g"
  shows "(\<exists>st. parse_metadata_from_mem (f @ pad) aok (pstart c k) = Inr (stored md path, st)) \<and>
         (\<exists>st. parse_metadata_from_mem (g @ pad) aok (pstart c k) = Inr (stored_reverse md path, st))"
  using assms by (rule parse_extracted)

definition demo_metadata :: ulp_metadata where
  "demo_metadata = \<lparr>patch_id = replicate 32 7, so_filename = [], so_handler = 0,
     objs = \<lparr>build_id_len = 20, build_id_check = False, build_id = replicate 20 5,
             obj_name = str ''libc.so.6'', nunits = 1,
             units = [\<lparr>old_fname = str ''f'', new_fname = str ''f_lp'', old_faddr = 0x1000\<rparr>]\<rparr>,
     ndeps = 1, deps = [\<lparr>dep_id = replicate 32 3, patch_id_check = False\<rparr>], nrefs = 0, refs = [], ptype = 1\<rparr>"

lemma demo_metadata_wf: "wf_metadata demo_metadata"
  by (simp add: wf_metadata_def demo_metadata_def name_ok_def str_def cstr_def)

theorem metadata_roundtrip_witness:
  "\<exists>f st. extract_ulp_from_so_to_mem (create_patch_metadata_file demo_metadata) None (str ''/p.so'') = Extracted f \<and>
     parse_metadata_from_mem (f @ replicate 100 0) (\<lambda>_. True) (pstart 0 0) =
       Inr (stored demo_metadata (str ''/p.so''), st)"
proof -
  have len: "length (create_patch_metadata_file demo_metadata) = 138"
      "length (write_reverse_patch demo_metadata) = 70"
    by (simp_all add: create_patch_metadata_file_def write_reverse_patch_def demo_metadata_def put_str_def
        put_unit_def str_def cstr_def)
  obtain f where f: "extract_ulp_from_so_to_mem (create_patch_metadata_file demo_metadata) None (str ''/p.so'') = Extracted f"
    using len by (simp add: extract_ulp_from_so_to_mem_def str_def PATH_MAX_def ULP_METADATA_BUF_LEN_def)
  obtain g where g: "extract_ulp_from_so_to_mem (write_reverse_patch demo_metadata) None (str ''/p.so'') = Extracted g"
    using len by (simp add: extract_ulp_from_so_to_mem_def str_def PATH_MAX_def ULP_METADATA_BUF_LEN_def)
  have "no_nul (str ''/p.so'')" "str ''/p.so'' \<noteq> []" by (simp_all add: str_def no_nul_def)
  with metadata_roundtrip [OF demo_metadata_wf _ _ _ f g, of "\<lambda>_. True" "replicate 100 0" 0 0] f
  show ?thesis by auto
qed



text \<open>
  The exception is real: a patch whose file name length is \<open>0xFFFFFFFF\<close> makes
  \<open>calloc(c + 1, 1)\<close> allocate nothing, and the rest of the buffer is copied there.
\<close>

theorem parse_metadata_overflow:
  assumes "length pid = 32" and "rest \<noteq> []" and "length rest < 0xFFFFFFFF" and "\<forall>k. aok k"
  shows "parse_metadata_from_mem ([t] @ pid @ replicate 4 0xFF @ rest) aok (pstart c k) = Inl POverflow"
proof -
  let ?src = "[t] @ pid @ u32_bytes (- 1) @ rest"
  have m: "replicate 4 0xFF = u32_bytes (- 1 :: u32)" using max_u32 [of "- 1"] by simp
  have l0: "left_at ?src (pstart c k) ([t] @ (pid @ u32_bytes (- 1) @ rest))"
    by (simp add: left_at_def pstart_def)
  obtain s1 where s1: "read_field ?src 1 1 EINVALIDULP (pstart c k) = Inr ([t], s1)"
      "left_at ?src s1 (pid @ (u32_bytes (- 1) @ rest))"
    using reads_field [of 1 "[t]" 1 ?src EINVALIDULP] l0 unfolding reads_def by auto
  obtain s2 where s2: "read_field ?src 32 32 EINVALIDULP s1 = Inr (pid, s2)" "left_at ?src s2 (u32_bytes (- 1) @ rest)"
    using reads_field [of 32 pid 32 ?src EINVALIDULP] s1(2) assms(1) unfolding reads_def by auto
  obtain s3 where s3: "read_c ?src 1 s2 = Inr (- 1, s3)" "left_at ?src s3 rest"
    using reads_c [of 1 ?src "- 1"] s2(2) unfolding reads_def by auto
  have left: "length ?src - cur s3 = length rest" "drop (cur s3) ?src = rest"
    using s3(2) by (metis left_at_def length_drop) (use s3(2) in \<open>simp only: left_at_def\<close>)
  have "unat (- 1 :: u32) = 0xFFFFFFFF" by (simp add: unsigned_minus_1_eq_mask mask_eq_exp_minus_1)
  then have "read_str ?src aok 1 1 EINVALIDULP s2 = Inl POverflow"
    using assms(2-4) left s3(1)
    by (simp add: read_str_def pbind_def calloc_def read_from_mem_def Let_def)
  then show ?thesis
    unfolding m parse_metadata_from_mem_def parse_header_def using s1(1) s2(1) by (simp add: pbind_def)
qed

theorem parse_metadata_overflow_witness:
  "parse_metadata_from_mem ([1] @ replicate 32 7 @ replicate 4 0xFF @ [0x2F, 0x70]) (\<lambda>_. True) (pstart 0 0) =
     Inl POverflow"
  by (rule parse_metadata_overflow) simp_all

end
