(* ===== verification/Ulp_Core.thy ===== *)
theory Ulp_Core
  imports Arch_X86 Symbol_Loader Ulp_Metadata
begin

text \<open>
  The library's core, \<open>src/lib/ulp.c\<close>: loading the metadata of a patch, the checks, applying and
  reverting, and the two chains that record it, the applied patches (\<open>__ulp_state.patches\<close>) and the
  detour roots (\<open>__ulp_root\<close>).

  The global variables are the record \<open>ulp_state\<close>; linked lists are lists, first element first. The
  process around the library is the parameter \<open>ulp_env\<close>: its memory, the loaded objects (as a
  function of the container handle that is open, 0 for none), the answers of \<open>dlopen\<close>, \<open>dlsym\<close> and
  \<open>dlinfo\<close>, of the allocator (by the number of allocations made so far), of the clock, and whether a
  thread is inside malloc or dlopen. Memory is only read: all writes are queued.

  Messages (\<open>WARN\<close>, \<open>msgq_push\<close>) and the release of memory have no effect on this state. An
  operation whose result is \<open>None\<close> did not return: the metadata parser has overflowed a heap buffer,
  or the loop of \<open>revert_all_patches_from_lib\<close> does not end.
\<close>

subsection \<open>State\<close>

record ulp_detour =
  d_patch_id :: bytes
  universe :: u64
  target_addr :: u64
  active :: bool

record ulp_detour_root =
  index :: u32
  patched_addr :: u64
  detours :: "ulp_detour list"

record ulp_applied_unit =
  u_patched_addr :: u64
  u_target_addr :: u64
  overwritten_bytes :: bytes

record ulp_applied_patch =
  a_patch_id :: bytes
  lib_name :: bytes
  container_name :: bytes
  a_units :: "ulp_applied_unit list"
  a_deps :: "ulp_dependency list"
  timestamp :: int

record ulp_state =
  patches :: "ulp_applied_patch list"
  roots :: "ulp_detour_root list"
  root_index_counter :: u32
  global_universe :: u64
  metadata_buffer :: bytes
  metadata_ref :: "ulp_metadata option"
  queue :: insn_queue
  error_state :: ulp_error
  allocs :: nat

record ulp_env =
  pmem :: mem
  progname :: bytes
  infos :: "u64 \<Rightarrow> dl_info list"
  dlopen :: "bytes \<Rightarrow> u64"
  dlsym :: "u64 \<Rightarrow> bytes \<Rightarrow> u64 option"
  dlinfo :: "u64 \<Rightarrow> u64 option"
  alloc_ok :: "nat \<Rightarrow> bool"
  realtime :: int
  asunsafe_busy :: bool
  garbage :: u32

definition lift_queue :: "(insn_queue \<times> ulp_error \<Rightarrow> 'a \<times> insn_queue \<times> ulp_error) \<Rightarrow> ulp_state \<Rightarrow> 'a \<times> ulp_state" where
  "lift_queue f s = (case f (queue s, error_state s) of (r, q, e) \<Rightarrow> (r, s\<lparr>queue := q, error_state := e\<rparr>))"

definition alloc :: "ulp_env \<Rightarrow> ulp_state \<Rightarrow> bool \<times> ulp_state" where
  "alloc env s = (alloc_ok env (allocs s), s\<lparr>allocs := Suc (allocs s)\<rparr>)"

definition symbol_lookup :: "ulp_env \<Rightarrow> u64 \<Rightarrow> bytes \<Rightarrow> bytes \<Rightarrow> u64 \<Rightarrow> ulp_state \<Rightarrow> u64 \<times> ulp_state" where
  "symbol_lookup env h lib sy old_addr s =
     (case get_loaded_symbol_addr (progname env) (infos env h) lib sy old_addr (error_state s) of
        (a, e) \<Rightarrow> (a, s\<lparr>error_state := e\<rparr>))"

subsection \<open>Loading the container\<close>

definition load_so_symbol :: "ulp_env \<Rightarrow> bytes \<Rightarrow> u64 \<Rightarrow> u64" where
  "load_so_symbol env fname handle = (case dlsym env handle (cstr fname) of None \<Rightarrow> 0 | Some func \<Rightarrow> func)"

definition load_so :: "ulp_env \<Rightarrow> bytes \<Rightarrow> u64" where
  "load_so env obj = dlopen env (cstr obj)"

definition load_so_handlers :: "ulp_env \<Rightarrow> ulp_metadata \<Rightarrow> bool \<times> ulp_metadata" where
  "load_so_handlers env ulp =
     (let ulp = ulp\<lparr>so_handler := load_so env (so_filename ulp)\<rparr> in (so_handler ulp \<noteq> 0, ulp))"

definition unload_metadata :: "ulp_state \<Rightarrow> ulp_state" where
  "unload_metadata s = s\<lparr>metadata_ref := None\<rparr>"

subsection \<open>Checks\<close>

definition ulp_get_applied_patch :: "bytes \<Rightarrow> ulp_state \<Rightarrow> ulp_applied_patch option" where
  "ulp_get_applied_patch i s = find (\<lambda>p. a_patch_id p = take 32 i) (patches s)"

text \<open>\<open>ALIGN(val, 4)\<close> on a \<open>uint32_t\<close>.\<close>

definition align4 :: "u32 \<Rightarrow> u32" where
  "align4 val = (val + 3) AND NOT 3"

definition note_u32 :: "mem \<Rightarrow> u64 \<Rightarrow> u32" where
  "note_u32 m a = bytes_u32 (mem_read m a 4)"

text \<open>
  The walk over the notes of one segment: \<open>Some True\<close> when a build id counts as matching, \<open>Some
  False\<close> when a build id note does not, \<open>None\<close> when the segment has none. The size is a
  \<open>ptrdiff_t\<close>.
\<close>

lemma note_offset_pos: "- uint (a :: u32) - uint (b :: u32) < 12"
  using unsigned_greater_eq [of a, where 'a = int] unsigned_greater_eq [of b, where 'a = int] by linarith

function scan_notes :: "mem \<Rightarrow> bytes \<Rightarrow> u64 \<Rightarrow> int \<Rightarrow> bool option" where
  "scan_notes m bid note sz =
     (if sz < 16 then None
      else
        let namesz = note_u32 m note; descsz = note_u32 m (note + 4); type = note_u32 m (note + 8)
        in if type = 3 \<and> namesz = 4 \<and> descsz \<ge> 16 then
             Some (unat descsz = length bid \<and> bid \<noteq> mem_read m (note + 16) (unat descsz))
           else
             let offset = 12 + unat (align4 namesz) + unat (align4 descsz)
             in scan_notes m bid (note + of_nat offset) (sz - int offset))"
  by pat_completeness auto
termination
  by (relation "measure (\<lambda>(m, bid, note, sz). nat sz)") (auto simp: note_offset_pos)

declare scan_notes.simps [simp del]

fun scan_note_phdrs :: "mem \<Rightarrow> bytes \<Rightarrow> u64 \<Rightarrow> phdr list \<Rightarrow> bool" where
  "scan_note_phdrs m bid addr [] = False"
| "scan_note_phdrs m bid addr (PT_NOTE p_vaddr p_filesz # ps) =
     (if scan_notes m bid (addr + p_vaddr) (sint p_filesz) = Some True then True
      else scan_note_phdrs m bid addr ps)"
| "scan_note_phdrs m bid addr (PT_DYNAMIC ds # ps) = scan_note_phdrs m bid addr ps"
| "scan_note_phdrs m bid addr (PT_OTHER # ps) = scan_note_phdrs m bid addr ps"

definition compare_build_ids :: "mem \<Rightarrow> dl_info \<Rightarrow> ulp_metadata \<Rightarrow> bool \<times> ulp_metadata" where
  "compare_build_ids m info ulp =
     (if scan_note_phdrs m (build_id (objs ulp)) (dlpi_addr info) (dlpi_phdr info)
      then (True, ulp\<lparr>objs := (objs ulp)\<lparr>build_id_check := True\<rparr>\<rparr>)
      else (False, ulp))"

definition check_build_id :: "ulp_env \<Rightarrow> ulp_metadata \<Rightarrow> bool \<times> ulp_metadata" where
  "check_build_id env ulp =
     (let ulp = dl_iterate_phdr (compare_build_ids (pmem env)) (infos env 0) ulp
      in (build_id_check (objs ulp), ulp))"

definition check_patch_dependencies :: "ulp_metadata \<Rightarrow> ulp_state \<Rightarrow> ulp_error \<times> ulp_metadata" where
  "check_patch_dependencies ulp s =
     (let ds = map (\<lambda>d. if \<exists>p \<in> set (patches s). a_patch_id p = dep_id d
                        then d\<lparr>patch_id_check := True\<rparr> else d) (deps ulp)
      in (if \<exists>d \<in> set ds. \<not> patch_id_check d then EDEPEND else 0, ulp\<lparr>deps := ds\<rparr>))"

definition check_patch_sanity :: "ulp_env \<Rightarrow> ulp_metadata \<Rightarrow> ulp_state \<Rightarrow> ulp_error \<times> ulp_metadata" where
  "check_patch_sanity env ulp s =
     (case check_build_id env ulp of (ok, ulp) \<Rightarrow>
        if \<not> ok then (EBUILDID, ulp)
        else case check_patch_dependencies ulp s of (ret, ulp) \<Rightarrow>
               if ret \<noteq> 0 then (ret, ulp)
               else if ulp_get_applied_patch (patch_id ulp) s \<noteq> None then (EAPPLIED, ulp)
               else (0, ulp))"

definition ulp_can_revert_patch :: "bytes \<Rightarrow> ulp_state \<Rightarrow> ulp_error" where
  "ulp_can_revert_patch i s =
     (if ulp_get_applied_patch i s = None then ENOTAPPLIED
      else if \<exists>p \<in> set (patches s). \<exists>d \<in> set (a_deps p). dep_id d = take 32 i then EDEPEND
      else 0)"

subsection \<open>Loading the metadata\<close>

text \<open>
  \<open>parse_metadata\<close>: the result is the return code and the metadata object, and the buffer is cleared
  on every path.
\<close>

definition parse_metadata :: "ulp_env \<Rightarrow> ulp_state \<Rightarrow> (ulp_error \<times> ulp_metadata option \<times> ulp_state) option" where
  "parse_metadata env s =
     (let clean = (\<lambda>s. s\<lparr>metadata_buffer := replicate ULP_METADATA_BUF_LEN 0\<rparr>)
      in case parse_metadata_from_mem (metadata_buffer s) (alloc_ok env)
               \<lparr>cur = 0, cvar = garbage env, nalloc = allocs s\<rparr> of
           Inl POverflow \<Rightarrow> None
         | Inl (PErr e) \<Rightarrow> Some (e, None, clean s)
         | Inr (ulp, st) \<Rightarrow>
             let s = s\<lparr>allocs := nalloc st\<rparr>
             in if ptype ulp = 2 then Some (0, Some ulp, clean s)
                else case check_patch_sanity env ulp s of (ret, ulp) \<Rightarrow>
                       if ret \<noteq> 0 then Some (ret, Some ulp, clean s)
                       else case load_so_handlers env ulp of (ok, ulp) \<Rightarrow>
                              Some (if ok then 0 else EDLOPEN, Some ulp, clean s))"

definition load_metadata :: "ulp_env \<Rightarrow> ulp_state \<Rightarrow> (ulp_error \<times> ulp_metadata option \<times> ulp_state) option" where
  "load_metadata env s =
     (case metadata_ref s of
        Some ulp \<Rightarrow> Some (0, Some ulp, s)
      | None \<Rightarrow>
          case alloc env s of (ok, s) \<Rightarrow>
            if \<not> ok then Some (ENOMEM, None, s)
            else case parse_metadata env s of
                   None \<Rightarrow> None
                 | Some (err, ulp, s) \<Rightarrow>
                     if err \<noteq> 0 then Some (err, None, unload_metadata s)
                     else Some (0, ulp, s\<lparr>metadata_ref := ulp\<rparr>))"

subsection \<open>Recording an applied patch\<close>

fun copy_deps :: "ulp_env \<Rightarrow> ulp_dependency list \<Rightarrow> ulp_dependency list \<Rightarrow> ulp_state \<Rightarrow> ulp_dependency list option \<times> ulp_state" where
  "copy_deps env [] acc s = (Some acc, s)"
| "copy_deps env (d # ds) acc s =
     (case alloc env s of (ok, s') \<Rightarrow> if \<not> ok then (None, s') else copy_deps env ds (d # acc) s')"

fun applied_units :: "ulp_env \<Rightarrow> u64 \<Rightarrow> bytes \<Rightarrow> ulp_unit list \<Rightarrow> ulp_state \<Rightarrow> ulp_applied_unit list option \<times> ulp_state" where
  "applied_units env h target [] s = (Some [], s)"
| "applied_units env h target (u # us) s =
     (case alloc env s of (ok, s) \<Rightarrow>
        if \<not> ok then (None, s)
        else case symbol_lookup env h target (cstr (old_fname u)) (old_faddr u) s of (a, s) \<Rightarrow>
          if a = 0 then (None, s)
          else
            let t = load_so_symbol env (new_fname u) h
            in if t = 0 then (None, s)
               else case applied_units env h target us s of
                      (None, s) \<Rightarrow> (None, s)
                    | (Some as, s) \<Rightarrow>
                        (Some (\<lparr>u_patched_addr = a, u_target_addr = t,
                                overwritten_bytes = mem_read (pmem env) a 14\<rparr> # as), s))"

definition ulp_state_update :: "ulp_env \<Rightarrow> ulp_metadata \<Rightarrow> ulp_state \<Rightarrow> bool \<times> ulp_state" where
  "ulp_state_update env ulp s =
     (let target = get_basename (cstr (obj_name (objs ulp)))
      in case alloc env s of (ok, s) \<Rightarrow> if \<not> ok then (False, s)
      else case alloc env s of (ok, s) \<Rightarrow> if \<not> ok then (False, s)
      else case alloc env s of (ok, s) \<Rightarrow> if \<not> ok then (False, s)
      else case copy_deps env (deps ulp) [] s of
             (None, s) \<Rightarrow> (False, s)
           | (Some ds, s) \<Rightarrow>
               case applied_units env (so_handler ulp) target (units (objs ulp)) s of
                 (None, s) \<Rightarrow> (False, s)
               | (Some us, s) \<Rightarrow>
                   (True, s\<lparr>patches :=
                      \<lparr>a_patch_id = take 32 (patch_id ulp), lib_name = take ULP_PATH_LEN target,
                       container_name = take ULP_PATH_LEN (cstr (so_filename ulp)),
                       a_units = us, a_deps = ds, timestamp = realtime env\<rparr> # patches s\<rparr>))"

subsection \<open>Detours\<close>

definition get_detour_root_by_index :: "u32 \<Rightarrow> ulp_state \<Rightarrow> ulp_detour_root option" where
  "get_detour_root_by_index idx s = find (\<lambda>r. index r = idx) (roots s)"

definition get_detour_root_by_address :: "u64 \<Rightarrow> ulp_state \<Rightarrow> ulp_detour_root option" where
  "get_detour_root_by_address addr s = find (\<lambda>r. patched_addr r = addr) (roots s)"

definition push_new_root :: "ulp_env \<Rightarrow> ulp_state \<Rightarrow> bool \<times> ulp_state" where
  "push_new_root env s =
     (case alloc env s of (ok, s) \<Rightarrow>
        if \<not> ok then (False, s)
        else (True, s\<lparr>roots := \<lparr>index = 0, patched_addr = 0, detours = []\<rparr> # roots s\<rparr>))"

definition get_next_function_index :: "ulp_state \<Rightarrow> u32 \<times> ulp_state" where
  "get_next_function_index s = (root_index_counter s, s\<lparr>root_index_counter := root_index_counter s + 1\<rparr>)"

text \<open>
  A root is found by its address before the call, and every root has its own address, so the update
  through the pointer \<open>root\<close> is the update of the first root with that address.
\<close>

fun update_root :: "u64 \<Rightarrow> (ulp_detour_root \<Rightarrow> ulp_detour_root) \<Rightarrow> ulp_detour_root list \<Rightarrow> ulp_detour_root list" where
  "update_root addr f [] = []"
| "update_root addr f (r # rs) = (if patched_addr r = addr then f r # rs else r # update_root addr f rs)"

definition push_new_detour :: "ulp_env \<Rightarrow> u64 \<Rightarrow> bytes \<Rightarrow> u64 \<Rightarrow> u64 \<Rightarrow> ulp_state \<Rightarrow> bool \<times> ulp_state" where
  "push_new_detour env uni pid addr new_faddr s =
     (case alloc env s of (ok, s) \<Rightarrow>
        if \<not> ok then (False, s)
        else (True, s\<lparr>roots := update_root addr
               (\<lambda>r. r\<lparr>detours := \<lparr>d_patch_id = take 32 pid, universe = uni, target_addr = new_faddr,
                                 active = True\<rparr> # detours r\<rparr>) (roots s)\<rparr>))"

subsection \<open>Applying\<close>

text \<open>The branch of \<open>ulp_apply_all_units\<close> that finds or makes the root of a function.\<close>

definition ensure_root :: "ulp_env \<Rightarrow> u64 \<Rightarrow> ulp_state \<Rightarrow> bool \<times> ulp_state" where
  "ensure_root env old_fun s =
     (case get_detour_root_by_address old_fun s of
        Some root \<Rightarrow> (True, s)
      | None \<Rightarrow>
          case push_new_root env s of (ok, s) \<Rightarrow>
            if \<not> ok then (False, s)
            else case get_next_function_index s of (i, s) \<Rightarrow>
                   (True, s\<lparr>roots := (hd (roots s))\<lparr>index := i, patched_addr := old_fun\<rparr> # tl (roots s)\<rparr>))"

fun apply_units :: "ulp_env \<Rightarrow> ulp_metadata \<Rightarrow> ulp_unit list \<Rightarrow> ulp_state \<Rightarrow> ulp_error \<times> ulp_state" where
  "apply_units env ulp [] s = (0, s)"
| "apply_units env ulp (u # us) s =
     (case symbol_lookup env (so_handler ulp) (get_basename (cstr (obj_name (objs ulp))))
             (cstr (old_fname u)) (old_faddr u) s of (old_fun, s) \<Rightarrow>
        if old_fun = 0 then (ENOOLDFUNC, s)
        else
          let new_fun = load_so_symbol env (new_fname u) (so_handler ulp)
          in if new_fun = 0 then (ENONEWFUNC, s)
             else case ensure_root env old_fun s of (ok, s) \<Rightarrow>
               if \<not> ok then (EUNKNOWN, s)
               else case push_new_detour env (global_universe s) (patch_id ulp) old_fun new_fun s of (ok, s) \<Rightarrow>
                 if \<not> ok then (EUNKNOWN, s)
                 else case lift_queue (ulp_patch_addr (pmem env) old_fun new_fun True) s of (retcode, s) \<Rightarrow>
                   if retcode > 0 then (retcode, s) else apply_units env ulp us s)"

definition ref_write :: "u64 \<Rightarrow> int \<Rightarrow> ulp_reference \<Rightarrow> bytes" where
  "ref_write target_base tls_idx r =
     (if tls r then u64_bytes (of_int tls_idx) @ u64_bytes (target_offset r)
      else u64_bytes (target_base + target_offset r))"

fun apply_refs :: "ulp_env \<Rightarrow> u64 \<Rightarrow> u64 \<Rightarrow> u64 \<Rightarrow> int \<Rightarrow> ulp_reference list \<Rightarrow> ulp_state \<Rightarrow> ulp_error \<times> ulp_state" where
  "apply_refs env h patch_base target_base tls_idx [] s = (0, s)"
| "apply_refs env h patch_base target_base tls_idx (r # rs) s =
     (let patch_address = (if patch_offset r = 0 then load_so_symbol env (reference_name r) h
                           else patch_base + patch_offset r)
      in if patch_offset r = 0 \<and> patch_address = 0 then (ENONEWFUNC, s)
         else case lift_queue (memwrite patch_address (ref_write target_base tls_idx r)) s of
                (_, s) \<Rightarrow> apply_refs env h patch_base target_base tls_idx rs s)"

definition ulp_apply_all_units :: "ulp_env \<Rightarrow> ulp_metadata \<Rightarrow> ulp_state \<Rightarrow> ulp_error \<times> ulp_state" where
  "ulp_apply_all_units env ulp s =
     (let s = s\<lparr>global_universe := global_universe s + 1\<rparr>; h = so_handler ulp;
          target = get_basename (cstr (obj_name (objs ulp)))
      in case apply_units env ulp (units (objs ulp)) s of (ret, s) \<Rightarrow>
           if ret \<noteq> 0 then (ret, s)
           else case get_loaded_library_base_addr (progname env) (infos env h) target (error_state s) of (target_base, e) \<Rightarrow>
                case get_loaded_library_tls_index (progname env) (infos env h) target e of (tls_idx, e) \<Rightarrow>
                let s = s\<lparr>error_state := e\<rparr>
                in if target_base = 0xFF then (ENOADDRESS, s)
                   else case dlinfo env h of
                          None \<Rightarrow> (EUNKNOWN, s)
                        | Some patch_base \<Rightarrow>
                            if patch_base = 0 then (ENOADDRESS, s)
                            else apply_refs env h patch_base target_base tls_idx (refs ulp) s)"

subsection \<open>Reverting\<close>

text \<open>
  The detours of one root, from the one at hand on; \<open>pre\<close> are those already visited. A detour of the
  patch is switched off, then the newest active one, or the original function, is put in place.
\<close>

fun revert_detours ::
  "mem \<Rightarrow> bytes \<Rightarrow> u64 \<Rightarrow> ulp_detour list \<Rightarrow> ulp_detour list \<Rightarrow> insn_queue \<times> ulp_error \<Rightarrow> ulp_detour list \<times> insn_queue \<times> ulp_error" where
  "revert_detours m pid addr pre [] q = (pre, q)"
| "revert_detours m pid addr pre (d # ds) q =
     (if d_patch_id d = pid then
        let d = d\<lparr>active := False\<rparr>;
            q = (case find active (pre @ d # ds) of
                   None \<Rightarrow> snd (ulp_patch_addr m addr 0 False q)
                 | Some dactive \<Rightarrow> snd (ulp_patch_addr m addr (target_addr dactive) True q))
        in revert_detours m pid addr (pre @ [d]) ds q
      else revert_detours m pid addr (pre @ [d]) ds q)"

fun revert_roots :: "mem \<Rightarrow> bytes \<Rightarrow> ulp_detour_root list \<Rightarrow> insn_queue \<times> ulp_error \<Rightarrow> ulp_detour_root list \<times> insn_queue \<times> ulp_error" where
  "revert_roots m pid [] q = ([], q)"
| "revert_roots m pid (r # rs) q =
     (case revert_detours m pid (patched_addr r) [] (detours r) q of (ds, q) \<Rightarrow>
      case revert_roots m pid rs q of (rs, q) \<Rightarrow> (r\<lparr>detours := ds\<rparr> # rs, q))"

definition ulp_revert_all_units :: "ulp_env \<Rightarrow> bytes \<Rightarrow> ulp_state \<Rightarrow> ulp_state" where
  "ulp_revert_all_units env pid s =
     (case revert_roots (pmem env) (take 32 pid) (roots s) (queue s, error_state s) of
        (rs, q, e) \<Rightarrow> s\<lparr>roots := rs, queue := q, error_state := e\<rparr>)"

fun remove_patch :: "bytes \<Rightarrow> ulp_applied_patch list \<Rightarrow> ulp_applied_patch list option" where
  "remove_patch i [] = None"
| "remove_patch i (p # ps) = (if a_patch_id p = i then Some ps else map_option ((#) p) (remove_patch i ps))"

definition ulp_state_remove :: "bytes \<Rightarrow> ulp_state \<Rightarrow> bool \<times> ulp_state" where
  "ulp_state_remove i s =
     (case remove_patch (take 32 i) (patches s) of
        None \<Rightarrow> (False, s) | Some ps \<Rightarrow> (True, s\<lparr>patches := ps\<rparr>))"

definition ulp_revert_patch :: "ulp_env \<Rightarrow> bytes \<Rightarrow> ulp_state \<Rightarrow> ulp_error \<times> ulp_state" where
  "ulp_revert_patch env i s =
     (let s = s\<lparr>global_universe := global_universe s + 1\<rparr>;
          s = ulp_revert_all_units env i s
      in case ulp_state_remove i s of (removed, s) \<Rightarrow> (if removed then 0 else ESTATE, s))"

text \<open>
  The loop over the patches of a library. \<open>continue\<close> in the source goes back to the loop head with
  the same patch. The early return has the code \<open>ESTATE\<close>, which the caller's last test lets through.
\<close>

partial_function (option) revert_lib_loop ::
  "ulp_env \<Rightarrow> bytes \<Rightarrow> ulp_applied_patch list \<Rightarrow> ulp_error \<Rightarrow> ulp_state \<Rightarrow> (ulp_error \<times> ulp_state) option" where
  "revert_lib_loop env lib ps ret s =
     (case ps of
        [] \<Rightarrow> Some (ret, s)
      | p # rest \<Rightarrow>
          if take ULP_PATH_LEN lib = take ULP_PATH_LEN (lib_name p) then
            let ret = ulp_can_revert_patch (a_patch_id p) s
            in if ret \<noteq> 0 then revert_lib_loop env lib ps ret s
               else case ulp_revert_patch env (a_patch_id p) s of (ret, s) \<Rightarrow>
                      if ret \<noteq> 0 then Some (ret, s)
                      else revert_lib_loop env lib rest ret s
          else revert_lib_loop env lib rest ret s)"

definition revert_all_patches_from_lib :: "ulp_env \<Rightarrow> bytes \<Rightarrow> ulp_state \<Rightarrow> (ulp_error \<times> ulp_state) option" where
  "revert_all_patches_from_lib env lib s =
     (let lib_basename = get_basename lib
      in if length lib - length lib_basename \<ge> ULP_PATH_LEN then Some (EOVERFLOW, s)
         else case revert_lib_loop env lib_basename (patches s) ENOTARGETLIB s of
                None \<Rightarrow> None
              | Some (ret, s) \<Rightarrow>
                  if ret = ENOTARGETLIB then
                    case get_loaded_library_base_addr (progname env) (infos env 0) lib_basename (error_state s) of
                      (base, e) \<Rightarrow> Some (if base \<noteq> 0xFF then ENOPATCH else ret, s\<lparr>error_state := e\<rparr>)
                  else Some (ret, s))"

subsection \<open>Entry points\<close>

text \<open>
  The three tests both entry points begin with: the error state, the instruction queue and the
  async-unsafe lock. \<open>None\<close> says that patching may proceed.
\<close>

definition entry_guard :: "ulp_env \<Rightarrow> ulp_state \<Rightarrow> ulp_error option \<times> ulp_state" where
  "entry_guard env s =
     (if libpulp_is_in_error_state (error_state s) then (Some (error_state s), s)
      else case insnq_ensure_emptiness (queue s, error_state s) of (r, e) \<Rightarrow>
             let s = s\<lparr>error_state := e\<rparr>
             in if r \<noteq> 0 then (Some (error_state s), s)
                else if asunsafe_busy env then (Some EAGAIN, s)
                else (None, s))"

definition ulp_revert_patches_from_lib :: "ulp_env \<Rightarrow> ulp_state \<Rightarrow> (ulp_error \<times> ulp_state) option" where
  "ulp_revert_patches_from_lib env s =
     (case entry_guard env s of
        (Some e, s) \<Rightarrow> Some (e, s)
      | (None, s) \<Rightarrow> revert_all_patches_from_lib env (cstr (metadata_buffer s)) s)"

definition load_patch :: "ulp_env \<Rightarrow> ulp_state \<Rightarrow> (ulp_error \<times> ulp_state) option" where
  "load_patch env s =
     (case load_metadata env s of
        None \<Rightarrow> None
      | Some (ret, None, s) \<Rightarrow> Some (ret, s)
      | Some (ret, Some ulp, s) \<Rightarrow>
          (case (if ptype ulp = 1 then
                   case ulp_state_update env ulp s of (ok, s) \<Rightarrow>
                     if \<not> ok then (ESTATE, s)
                     else case ulp_apply_all_units env ulp s of (ret, s) \<Rightarrow>
                            (ret, if ret \<noteq> 0 then s\<lparr>error_state := libpulp_exit_func ret (error_state s)\<rparr> else s)
                 else if ptype ulp = 2 then
                   (let ret = ulp_can_revert_patch (patch_id ulp) s
                    in if ret \<noteq> 0 then (ret, s) else ulp_revert_patch env (patch_id ulp) s)
                 else (if ptype ulp = 0 then ENOMETA else EUNKNOWN, s))
           of (ret, s) \<Rightarrow> Some (ret, unload_metadata s)))"

definition ulp_apply_patch :: "ulp_env \<Rightarrow> ulp_state \<Rightarrow> (ulp_error \<times> ulp_state) option" where
  "ulp_apply_patch env s =
     (case entry_guard env s of
        (Some e, s) \<Rightarrow> Some (e, s)
      | (None, s) \<Rightarrow> load_patch env s)"

definition ulp_check_applied_patch :: "ulp_state \<Rightarrow> int" where
  "ulp_check_applied_patch s =
     (if libpulp_is_in_error_state (error_state s) then 0
      else if ulp_get_applied_patch (metadata_buffer s) s \<noteq> None then 1 else 0)"

definition ulp_get_global_universe_value :: "ulp_state \<Rightarrow> u64" where
  "ulp_get_global_universe_value s = global_universe s"

text \<open>
  \<open>__ulp_manage_universes\<close> computes the address to continue at; a missing root only sets the error
  state (\<open>libpulp_exit\<close> returns), and the code goes on to read through the null pointer.
\<close>

definition ulp_manage_universes :: "u64 \<Rightarrow> ulp_state \<Rightarrow> u64 option" where
  "ulp_manage_universes idx s =
     (case get_detour_root_by_index (ucast idx) s of
        None \<Rightarrow> None
      | Some root \<Rightarrow>
          Some (case find active (detours root) of
                  Some d \<Rightarrow> if target_addr d \<noteq> 0 then target_addr d else patched_addr root + 2
                | None \<Rightarrow> patched_addr root + 2))"

text \<open>The state when the library has been loaded.\<close>

definition ulp_init :: ulp_state where
  "ulp_init = \<lparr>patches = [], roots = [], root_index_counter = 0, global_universe = 0,
     metadata_buffer = replicate ULP_METADATA_BUF_LEN 0, metadata_ref = None, queue = insnq_init,
     error_state = ENONE, allocs = 0\<rparr>"

end
