(* ===== verification/Ulp_Invariant.thy ===== *)
theory Ulp_Invariant
  imports Ulp_Core
begin

text \<open>
  What libpulp's two records of the applied patches mean, and that every operation keeps them in
  step. The abstract state is the stack of applied patches, newest first, each a list of
  (function, replacement) pairs; \<open>applied_at\<close> is what it says about one function. The detour roots
  implement it: \<open>active_at\<close>, the active detours of a function, is the same list. The library's runs
  are the step relation \<open>ulp_step\<close>; the invariant is proved over all its reachable states.
\<close>

subsection \<open>Frames: what each helper leaves alone\<close>

lemma dl_find_symbol_arg: "fst (snd (dl_find_symbol i (args, st))) = fst (snd (dl_find_symbol i (args, st')))"
  "fst (dl_find_symbol i (args, st)) = fst (dl_find_symbol i (args, st'))"
  by (auto simp: dl_find_symbol_def Let_def split: option.splits prod.splits)

lemma dl_iterate_find_symbol:
  "fst (dl_iterate_phdr dl_find_symbol is (args, st)) = fst (dl_iterate_phdr dl_find_symbol is (args, st'))"
proof (induction "is" arbitrary: args st st')
  case (Cons i "is")
  obtain b a e where 1: "dl_find_symbol i (args, st) = (b, a, e)" by (metis prod_cases3)
  obtain b' a' e' where 2: "dl_find_symbol i (args, st') = (b', a', e')" by (metis prod_cases3)
  have "b' = b" "a' = a" using dl_find_symbol_arg [of i args st st'] 1 2 by simp_all
  with 1 2 Cons [of a e e'] show ?case by simp
qed simp

definition lookup_addr :: "ulp_env \<Rightarrow> u64 \<Rightarrow> bytes \<Rightarrow> ulp_unit \<Rightarrow> u64" where
  "lookup_addr env h lib u =
     fst (get_loaded_symbol_addr (progname env) (infos env h) lib (cstr (old_fname u)) (old_faddr u) 0)"

lemma get_loaded_symbol_addr_state:
  "fst (get_loaded_symbol_addr pn is lib sy a st) = fst (get_loaded_symbol_addr pn is lib sy a st')"
proof -
  let ?arg = "\<lparr>library = lib_arg pn lib, symbol = sy, symbol_addr = 0, symbol_size = 0,
                 bias_addr = 0, tls_index = 0\<rparr>"
  show ?thesis
    using dl_iterate_find_symbol [of "is" ?arg st st']
    by (auto simp: get_loaded_symbol_addr_def get_loaded_symbol_addr_size_def Let_def split: prod.splits)
qed

lemma symbol_lookup_eq:
  "\<exists>e. symbol_lookup env h lib (cstr (old_fname u)) (old_faddr u) s = (lookup_addr env h lib u, s\<lparr>error_state := e\<rparr>)"
  using get_loaded_symbol_addr_state [of "progname env" "infos env h" lib "cstr (old_fname u)" "old_faddr u" "error_state s" 0]
  by (auto simp: symbol_lookup_def lookup_addr_def split: prod.splits)

text \<open>An error state, once set, is not cleared by a lookup.\<close>

lemma dl_find_symbol_error:
  "snd (dl_iterate_phdr dl_find_symbol is (args, e)) = ENONE \<Longrightarrow> e = ENONE"
proof (induction "is" arbitrary: args e)
  case (Cons i "is")
  obtain b a' e' where 1: "dl_find_symbol i (args, e) = (b, a', e')" by (rule prod_cases3)
  have "e' = ENONE" using Cons 1 by (auto split: if_splits)
  with 1 show ?case
    by (auto simp: dl_find_symbol_def Let_def error_state_defs split: if_splits option.splits)
qed simp

lemma symbol_lookup_error:
  "error_state (snd (symbol_lookup env h lib sy a s)) = ENONE \<Longrightarrow> error_state s = ENONE"
  using dl_find_symbol_error [of "infos env h" "\<lparr>library = lib_arg (progname env) lib, symbol = sy,
      symbol_addr = 0, symbol_size = 0, bias_addr = 0, tls_index = 0\<rparr>" "error_state s"]
  by (auto simp: symbol_lookup_def get_loaded_symbol_addr_def get_loaded_symbol_addr_size_def Let_def
      split: prod.splits if_splits)

lemma alloc_eq: "alloc env s = (alloc_ok env (allocs s), s\<lparr>allocs := Suc (allocs s)\<rparr>)"
  by (rule alloc_def)

text \<open>\<open>same_books s s'\<close>: the steps of an operation that touch neither chain.\<close>

definition same_books :: "ulp_state \<Rightarrow> ulp_state \<Rightarrow> bool" where
  "same_books s s' \<longleftrightarrow>
     patches s' = patches s \<and> roots s' = roots s \<and> global_universe s' = global_universe s \<and>
     queue s' = queue s \<and> root_index_counter s' = root_index_counter s"

lemma same_books_refl [simp]: "same_books s s"
  by (simp add: same_books_def)

lemma same_books_trans: "same_books s t \<Longrightarrow> same_books t u \<Longrightarrow> same_books s u"
  by (simp add: same_books_def)

lemma same_books_upd [simp]:
  "same_books s (t\<lparr>error_state := e\<rparr>) = same_books s t"
  "same_books s (t\<lparr>allocs := n\<rparr>) = same_books s t"
  "same_books s (t\<lparr>metadata_ref := r\<rparr>) = same_books s t"
  "same_books s (t\<lparr>metadata_buffer := b\<rparr>) = same_books s t"
  "same_books (t\<lparr>error_state := e\<rparr>) s = same_books t s"
  "same_books (t\<lparr>allocs := n\<rparr>) s = same_books t s"
  by (simp_all add: same_books_def)

lemma copy_deps_books:
  "copy_deps env ds acc s = (r, s') \<Longrightarrow> same_books s s' \<and> (\<forall>x. r = Some x \<longrightarrow> x = rev ds @ acc)"
  by (induction ds arbitrary: acc s) (auto simp: alloc_eq split: if_splits dest!: meta_spec)

definition applied_unit :: "ulp_env \<Rightarrow> u64 \<Rightarrow> bytes \<Rightarrow> ulp_unit \<Rightarrow> ulp_applied_unit" where
  "applied_unit env h lib u = \<lparr>u_patched_addr = lookup_addr env h lib u,
     u_target_addr = load_so_symbol env (new_fname u) h,
     overwritten_bytes = mem_read (pmem env) (lookup_addr env h lib u) 14\<rparr>"

lemma applied_units_books:
  "applied_units env h lib us s = (r, s') \<Longrightarrow>
     same_books s s' \<and> (\<forall>x. r = Some x \<longrightarrow> x = map (applied_unit env h lib) us)"
proof (induction us arbitrary: s r s')
  case (Cons u us)
  let ?s = "s\<lparr>allocs := Suc (allocs s)\<rparr>"
  obtain e where l: "symbol_lookup env h lib (cstr (old_fname u)) (old_faddr u) ?s =
      (lookup_addr env h lib u, ?s\<lparr>error_state := e\<rparr>)"
    using symbol_lookup_eq by blast
  obtain r1 s1 where rec: "applied_units env h lib us (?s\<lparr>error_state := e\<rparr>) = (r1, s1)" by fastforce
  from Cons.IH [OF rec] Cons.prems l rec show ?case
    by (auto simp: alloc_eq Let_def applied_unit_def split: if_splits option.splits)
qed simp

subsection \<open>The two records\<close>

type_synonym replacement = "bytes \<times> u64"

definition detours_at :: "ulp_detour_root list \<Rightarrow> u64 \<Rightarrow> ulp_detour list" where
  "detours_at rs a = (case find (\<lambda>r. patched_addr r = a) rs of None \<Rightarrow> [] | Some r \<Rightarrow> detours r)"

definition active_at :: "ulp_detour_root list \<Rightarrow> u64 \<Rightarrow> replacement list" where
  "active_at rs a = map (\<lambda>d. (d_patch_id d, target_addr d)) (filter active (detours_at rs a))"

definition patch_at :: "u64 \<Rightarrow> ulp_applied_patch \<Rightarrow> replacement list" where
  "patch_at a p = rev (map (\<lambda>u. (a_patch_id p, u_target_addr u)) (filter (\<lambda>u. u_patched_addr u = a) (a_units p)))"

definition applied_at :: "ulp_applied_patch list \<Rightarrow> u64 \<Rightarrow> replacement list" where
  "applied_at ps a = concat (map (patch_at a) ps)"

lemma applied_at_simps [simp]:
  "applied_at [] a = []"
  "applied_at (p # ps) a = patch_at a p @ applied_at ps a"
  by (simp_all add: applied_at_def)

subsubsection \<open>Applying pushes\<close>

lemma detours_at_Cons:
  "detours_at (r # rs) a = (if patched_addr r = a then detours r else detours_at rs a)"
  by (simp add: detours_at_def)

lemma detours_at_update_root:
  "detours_at (update_root addr (\<lambda>r. r\<lparr>detours := f (detours r)\<rparr>) rs) a =
     (if a = addr \<and> addr \<in> patched_addr ` set rs then f (detours_at rs a) else detours_at rs a)"
  by (induction rs) (auto simp: detours_at_Cons detours_at_def)

lemma update_root_addrs [simp]:
  "map patched_addr (update_root addr (\<lambda>r. r\<lparr>detours := f (detours r)\<rparr>) rs) = map patched_addr rs"
  by (induction rs) auto

lemma active_at_push:
  "active d \<Longrightarrow> addr \<in> patched_addr ` set rs \<Longrightarrow>
   active_at (update_root addr (\<lambda>r. r\<lparr>detours := d # detours r\<rparr>) rs) a =
     (if a = addr then (d_patch_id d, target_addr d) # active_at rs a else active_at rs a)"
  using detours_at_update_root [of addr "\<lambda>ds. d # ds" rs a] by (simp add: active_at_def)

text \<open>The chain of roots is well formed: one root per address.\<close>

abbreviation wf_roots :: "ulp_detour_root list \<Rightarrow> bool" where
  "wf_roots rs \<equiv> distinct (map patched_addr rs)"

lemma root_found: "get_detour_root_by_address a s = None \<longleftrightarrow> a \<notin> patched_addr ` set (roots s)"
  by (auto simp: get_detour_root_by_address_def find_None_iff)

lemma detours_at_absent: "a \<notin> patched_addr ` set rs \<Longrightarrow> detours_at rs a = []"
  by (induction rs) (auto simp: detours_at_def)

lemma ensure_root_books:
  assumes "ensure_root env a s = (True, s')" and "wf_roots (roots s)"
  shows "wf_roots (roots s') \<and> a \<in> patched_addr ` set (roots s') \<and>
      active_at (roots s') b = active_at (roots s) b \<and> patches s' = patches s \<and>
      queue s' = queue s \<and> error_state s' = error_state s \<and> global_universe s' = global_universe s"
proof (cases "a \<in> patched_addr ` set (roots s)")
  case True
  then have "s' = s" using assms(1) root_found [of a s] by (auto simp: ensure_root_def)
  with True assms(2) show ?thesis by simp
next
  case False
  then have "s' = s\<lparr>allocs := Suc (allocs s), root_index_counter := root_index_counter s + 1,
      roots := \<lparr>index = root_index_counter s, patched_addr = a, detours = []\<rparr> # roots s\<rparr>"
    using assms(1) root_found [of a s]
    by (auto simp: ensure_root_def push_new_root_def alloc_eq get_next_function_index_def
        split: option.splits if_splits)
  with False assms(2) show ?thesis
    using detours_at_absent [of a "roots s"] by (auto simp: active_at_def detours_at_Cons)
qed

lemma push_new_detour_ok:
  assumes "push_new_detour env uni pid a t s = (True, s')" and "a \<in> patched_addr ` set (roots s)"
  shows "map patched_addr (roots s') = map patched_addr (roots s)"
    and "active_at (roots s') b = (if b = a then (take 32 pid, t) # active_at (roots s) b else active_at (roots s) b)"
    and "patches s' = patches s" and "queue s' = queue s" and "error_state s' = error_state s"
    and "global_universe s' = global_universe s"
  using assms by (auto simp: push_new_detour_def alloc_eq active_at_push split: if_splits)

lemma lift_queue_books:
  "lift_queue f s = (r, s') \<Longrightarrow>
     patches s' = patches s \<and> roots s' = roots s \<and> global_universe s' = global_universe s \<and>
     f (queue s, error_state s) = (r, queue s', error_state s')"
  by (auto simp: lift_queue_def split: prod.splits)

text \<open>One unit of \<open>ulp_apply_all_units\<close>, as a step: the state in which the next unit is handled.\<close>

lemma apply_units_step:
  assumes "apply_units env ulp (u # us) s = (0, s')" and "wf_roots (roots s)"
  defines "a \<equiv> lookup_addr env (so_handler ulp) (get_basename (cstr (obj_name (objs ulp)))) u"
    and "t \<equiv> load_so_symbol env (new_fname u) (so_handler ulp)"
  obtains s1 e q where "apply_units env ulp us s1 = (0, s')" and "wf_roots (roots s1)" and "patches s1 = patches s"
    and "global_universe s1 = global_universe s"
    and "\<And>b. active_at (roots s1) b =
           (if b = a then (take 32 (patch_id ulp), t) # active_at (roots s) b else active_at (roots s) b)"
    and "ulp_patch_addr (pmem env) a t True (queue s, e) = (q, queue s1, error_state s1)" and "\<not> q > 0"
    and "a \<noteq> 0" and "t \<noteq> 0" and "e = ENONE \<Longrightarrow> error_state s = ENONE"
proof -
  obtain e where l: "symbol_lookup env (so_handler ulp) (get_basename (cstr (obj_name (objs ulp))))
      (cstr (old_fname u)) (old_faddr u) s = (a, s\<lparr>error_state := e\<rparr>)"
    using symbol_lookup_eq unfolding a_def by blast
  obtain ok2 s2 where 2: "ensure_root env a (s\<lparr>error_state := e\<rparr>) = (ok2, s2)" by fastforce
  obtain ok3 s3 where 3: "push_new_detour env (global_universe s2) (patch_id ulp) a t s2 = (ok3, s3)" by fastforce
  obtain q s4 where 4: "lift_queue (ulp_patch_addr (pmem env) a t True) s3 = (q, s4)" by fastforce
  have all: "a \<noteq> 0" "t \<noteq> 0" "ok2" "ok3" "\<not> q > 0" "apply_units env ulp us s4 = (0, s')"
    using assms(1) l 2 3 4 by (auto simp: Let_def t_def split: if_splits)
  have wf: "wf_roots (roots (s\<lparr>error_state := e\<rparr>))" using assms(2) by simp
  note e2 = ensure_root_books [OF 2 [unfolded eqTrueI [OF all(3)]] wf]
  have "a \<in> patched_addr ` set (roots s2)" using e2 by blast
  note e3 = push_new_detour_ok [OF 3 [unfolded eqTrueI [OF all(4)]] this]
  note e4 = lift_queue_books [OF 4]
  show thesis
  proof (rule that [of s4 e q])
    show "apply_units env ulp us s4 = (0, s')" by (rule all(6))
    show "wf_roots (roots s4)" using e4 e3(1) e2 by simp
    show "ulp_patch_addr (pmem env) a t True (queue s, e) = (q, queue s4, error_state s4)"
      using e4 e3 e2 by simp
    show "e = ENONE \<Longrightarrow> error_state s = ENONE"
      using symbol_lookup_error [of env "so_handler ulp" _ "cstr (old_fname u)" "old_faddr u" s] l
      by (metis snd_conv ulp_state.simps(8) ulp_state.surjective ulp_state.update_convs(8))
  qed (use e4 e3 e2 all in auto)
qed

lemma apply_units_ok:
  assumes "apply_units env ulp us s = (0, s')" and "wf_roots (roots s)"
  shows "wf_roots (roots s') \<and> patches s' = patches s \<and>
    active_at (roots s') b =
      rev (map (\<lambda>u. (take 32 (patch_id ulp), u_target_addr u))
        (filter (\<lambda>u. u_patched_addr u = b)
          (map (applied_unit env (so_handler ulp) (get_basename (cstr (obj_name (objs ulp))))) us))) @
      active_at (roots s) b"
  using assms
proof (induction us arbitrary: s)
  case (Cons u us)
  show ?case
    by (rule apply_units_step [OF Cons.prems], drule Cons.IH) (auto simp: applied_unit_def)
qed simp

lemma apply_refs_books:
  "apply_refs env h pb tb ti rs s = (r, s') \<Longrightarrow> patches s' = patches s \<and> roots s' = roots s"
proof (induction rs arbitrary: s)
  case (Cons x rs)
  then show ?case by (auto simp: Let_def split: if_splits prod.splits dest!: lift_queue_books)
qed simp

lemma ulp_apply_all_units_ok:
  assumes "ulp_apply_all_units env ulp s = (0, s')" and "wf_roots (roots s)"
  shows "wf_roots (roots s') \<and> patches s' = patches s \<and>
    active_at (roots s') b =
      rev (map (\<lambda>u. (take 32 (patch_id ulp), u_target_addr u))
        (filter (\<lambda>u. u_patched_addr u = b)
          (map (applied_unit env (so_handler ulp) (get_basename (cstr (obj_name (objs ulp))))) (units (objs ulp))))) @
      active_at (roots s) b"
proof -
  let ?s = "s\<lparr>global_universe := global_universe s + 1\<rparr>"
  obtain r s1 where 1: "apply_units env ulp (units (objs ulp)) ?s = (r, s1)" by fastforce
  have r: "r = 0" and s': "patches s' = patches s1 \<and> roots s' = roots s1"
    using assms(1) 1
    by (auto simp: ulp_apply_all_units_def Let_def split: if_splits prod.splits option.splits dest!: apply_refs_books)
  with apply_units_ok [OF 1 [unfolded r]] assms(2) show ?thesis by simp
qed

subsubsection \<open>Reverting switches off\<close>

definition switch_off :: "bytes \<Rightarrow> ulp_detour \<Rightarrow> ulp_detour" where
  "switch_off pid d = (if d_patch_id d = pid then d\<lparr>active := False\<rparr> else d)"

lemma revert_detours_fst: "fst (revert_detours m pid addr pre ds q) = pre @ map (switch_off pid) ds"
  by (induction ds arbitrary: pre q) (auto simp: Let_def switch_off_def)

lemma revert_roots_fst:
  "fst (revert_roots m pid rs q) = map (\<lambda>r. r\<lparr>detours := map (switch_off pid) (detours r)\<rparr>) rs"
proof (induction rs arbitrary: q)
  case (Cons r rs)
  obtain ds q1 where 1: "revert_detours m pid (patched_addr r) [] (detours r) q = (ds, q1)"
    by (rule prod.exhaust)
  obtain rs' q2 where 2: "revert_roots m pid rs q1 = (rs', q2)" by (rule prod.exhaust)
  from Cons [of q1] revert_detours_fst [of m pid "patched_addr r" "[]" "detours r" q] 1 2
  show ?case by simp
qed simp

lemma filter_switch_off:
  "map (\<lambda>d. (d_patch_id d, target_addr d)) (filter active (map (switch_off pid) ds)) =
     filter (\<lambda>x. fst x \<noteq> pid) (map (\<lambda>d. (d_patch_id d, target_addr d)) (filter active ds))"
  by (induction ds) (auto simp: switch_off_def)

lemma detours_at_map:
  "detours_at (map (\<lambda>r. r\<lparr>detours := f (detours r)\<rparr>) rs) a =
     (if a \<in> patched_addr ` set rs then f (detours_at rs a) else [])"
  by (induction rs) (auto simp: detours_at_def)

lemma active_at_revert:
  "active_at (fst (revert_roots m pid rs q)) a = filter (\<lambda>x. fst x \<noteq> pid) (active_at rs a)"
  by (cases "a \<in> patched_addr ` set rs")
     (simp_all add: active_at_def revert_roots_fst detours_at_map detours_at_absent filter_switch_off)

lemma revert_roots_addrs: "map patched_addr (fst (revert_roots m pid rs q)) = map patched_addr rs"
  unfolding revert_roots_fst by (induction rs) auto

lemma remove_patch_spec:
  assumes "distinct (map a_patch_id ps)"
  shows "remove_patch i ps =
    (if i \<in> a_patch_id ` set ps then Some (filter (\<lambda>p. a_patch_id p \<noteq> i) ps) else None)"
  using assms
proof (induction ps)
  case (Cons p ps)
  have "filter (\<lambda>q. a_patch_id q \<noteq> a_patch_id p) ps = ps"
    by (rule filter_True) (use Cons.prems in \<open>auto simp: image_iff\<close>)
  with Cons show ?case by auto
qed simp

lemma fst_patch_at: "x \<in> set (patch_at a p) \<Longrightarrow> fst x = a_patch_id p"
  by (auto simp: patch_at_def)

lemma applied_at_filter:
  "applied_at (filter (\<lambda>p. a_patch_id p \<noteq> i) ps) a = filter (\<lambda>x. fst x \<noteq> i) (applied_at ps a)"
proof (induction ps)
  case (Cons p ps)
  have "filter (\<lambda>x. fst x \<noteq> i) (patch_at a p) = (if a_patch_id p = i then [] else patch_at a p)"
    by (auto simp: filter_empty_conv filter_id_conv dest: fst_patch_at)
  with Cons show ?case by simp
qed simp

subsection \<open>The invariant\<close>

text \<open>Dependencies point to patches that were applied before and are still applied.\<close>

fun deps_closed :: "ulp_applied_patch list \<Rightarrow> bool" where
  "deps_closed [] = True"
| "deps_closed (p # ps) = ((\<forall>d \<in> set (a_deps p). dep_id d \<in> a_patch_id ` set ps) \<and> deps_closed ps)"

definition consistent :: "ulp_state \<Rightarrow> bool" where
  "consistent s \<longleftrightarrow>
     wf_roots (roots s) \<and> distinct (map a_patch_id (patches s)) \<and>
     (\<forall>p \<in> set (patches s). length (a_patch_id p) \<le> 32) \<and>
     deps_closed (patches s) \<and> (\<forall>a. active_at (roots s) a = applied_at (patches s) a)"

text \<open>
  An error state other than the user's own block says that the records may be wrong; no operation
  leaves such a state.
\<close>

definition sound_state :: "ulp_error \<Rightarrow> bool" where
  "sound_state e \<longleftrightarrow> e = ENONE \<or> e = EUSRBLOCKED"

definition ulp_inv :: "ulp_state \<Rightarrow> bool" where
  "ulp_inv s \<longleftrightarrow> metadata_ref s = None \<and> (sound_state (error_state s) \<longrightarrow> consistent s)"

lemma consistent_cong: "patches s' = patches s \<Longrightarrow> roots s' = roots s \<Longrightarrow> consistent s' = consistent s"
  by (simp add: consistent_def)

lemma same_books_consistent: "same_books s s' \<Longrightarrow> consistent s' = consistent s"
  by (rule consistent_cong) (simp_all add: same_books_def)

lemma deps_closed_filter:
  "deps_closed ps \<Longrightarrow> (\<forall>p \<in> set ps. \<forall>d \<in> set (a_deps p). dep_id d \<noteq> i) \<Longrightarrow>
   deps_closed (filter (\<lambda>p. a_patch_id p \<noteq> i) ps)"
proof (induction ps)
  case (Cons p ps)
  have "dep_id d \<in> a_patch_id ` {x \<in> set ps. a_patch_id x \<noteq> i}" if "d \<in> set (a_deps p)" for d
    using Cons.prems that by (fastforce simp: image_iff)
  with Cons show ?case by auto
qed simp

lemma applied_iff: "ulp_get_applied_patch i s \<noteq> None \<longleftrightarrow> take 32 i \<in> a_patch_id ` set (patches s)"
  by (force simp: ulp_get_applied_patch_def find_None_iff)

lemma can_revert_iff:
  "ulp_can_revert_patch i s = 0 \<longleftrightarrow>
     take 32 i \<in> a_patch_id ` set (patches s) \<and>
     (\<forall>p \<in> set (patches s). \<forall>d \<in> set (a_deps p). dep_id d \<noteq> take 32 i)"
  using applied_iff [of i s] by (auto simp: ulp_can_revert_patch_def)

text \<open>Reverting a patch that may be reverted succeeds and keeps the records consistent.\<close>

lemma ulp_revert_patch_ok:
  assumes "consistent s" and "ulp_can_revert_patch i s = 0"
  shows "\<exists>s'. ulp_revert_patch env i s = (0, s') \<and> consistent s' \<and>
           patches s' = filter (\<lambda>p. a_patch_id p \<noteq> take 32 i) (patches s) \<and>
           roots s' = fst (revert_roots (pmem env) (take 32 i) (roots s) (queue s, error_state s)) \<and>
           (queue s', error_state s') = snd (revert_roots (pmem env) (take 32 i) (roots s) (queue s, error_state s)) \<and>
           metadata_ref s' = metadata_ref s"
proof -
  let ?i = "take 32 i"
  obtain rs q e where r: "revert_roots (pmem env) ?i (roots s) (queue s, error_state s) = (rs, q, e)"
    by (metis prod_cases3)
  have c: "distinct (map a_patch_id (patches s))" "\<And>a. active_at (roots s) a = applied_at (patches s) a"
    "wf_roots (roots s)" "deps_closed (patches s)" "\<forall>p \<in> set (patches s). length (a_patch_id p) \<le> 32"
    using assms(1) by (auto simp: consistent_def)
  have in': "?i \<in> a_patch_id ` set (patches s)"
    and nodep: "\<forall>p \<in> set (patches s). \<forall>d \<in> set (a_deps p). dep_id d \<noteq> ?i"
    using assms(2) unfolding can_revert_iff by auto
  let ?s' = "s\<lparr>global_universe := global_universe s + 1, roots := rs, queue := q, error_state := e,
      patches := filter (\<lambda>p. a_patch_id p \<noteq> ?i) (patches s)\<rparr>"
  have eq: "ulp_revert_patch env i s = (0, ?s')"
    using in' remove_patch_spec [OF c(1), of ?i]
    by (simp add: ulp_revert_patch_def ulp_revert_all_units_def ulp_state_remove_def r)
  have act: "active_at rs a = applied_at (filter (\<lambda>p. a_patch_id p \<noteq> ?i) (patches s)) a" for a
    using active_at_revert [of "pmem env" ?i "roots s" "(queue s, error_state s)" a] r c(2)
    by (simp add: applied_at_filter)
  have "wf_roots rs"
    using revert_roots_addrs [of "pmem env" ?i "roots s" "(queue s, error_state s)"] r c(3) by simp
  then have "consistent ?s'"
    using act c deps_closed_filter [OF c(4) nodep] by (auto simp: consistent_def distinct_map_filter)
  with eq r show ?thesis by auto
qed

subsection \<open>The operations keep the invariant\<close>

lemma parse_metadata_cases:
  assumes "parse_metadata env s = Some (ret, r, s')"
  shows "\<exists>n. s' = s\<lparr>allocs := n, metadata_buffer := replicate ULP_METADATA_BUF_LEN 0\<rparr>"
    and "ret = 0 \<Longrightarrow> r = Some ulp \<Longrightarrow> ptype ulp \<noteq> 2 \<Longrightarrow>
      \<exists>u0 st st' u1. parse_metadata_from_mem (metadata_buffer s) (alloc_ok env) st = Inr (u0, st') \<and>
        check_patch_sanity env u0 (s\<lparr>allocs := nalloc st'\<rparr>) = (0, u1) \<and>
        patch_id ulp = patch_id u1 \<and> deps ulp = deps u1"
proof -
  let ?st = "\<lparr>cur = 0, cvar = garbage env, nalloc = allocs s\<rparr>"
  let ?p = "parse_metadata_from_mem (metadata_buffer s) (alloc_ok env) ?st"
  have "(\<exists>n. s' = s\<lparr>allocs := n, metadata_buffer := replicate ULP_METADATA_BUF_LEN 0\<rparr>) \<and>
     (ret = 0 \<longrightarrow> r = Some ulp \<longrightarrow> ptype ulp \<noteq> 2 \<longrightarrow>
      (\<exists>u0 st' u1. ?p = Inr (u0, st') \<and> check_patch_sanity env u0 (s\<lparr>allocs := nalloc st'\<rparr>) = (0, u1) \<and>
        patch_id ulp = patch_id u1 \<and> deps ulp = deps u1))"
  proof (cases ?p)
    case (Inl e)
    then have e: "\<exists>c. e = PErr c" using assms by (cases e) (simp_all add: parse_metadata_def)
    have "s' = s\<lparr>allocs := allocs s, metadata_buffer := replicate ULP_METADATA_BUF_LEN 0\<rparr>" "r = None"
      using Inl e assms by (auto simp: parse_metadata_def)
    then show ?thesis by blast
  next
    case (Inr x)
    obtain u0 st' where x: "x = (u0, st')" by (rule prod.exhaust)
    obtain ret1 u1 where c: "check_patch_sanity env u0 (s\<lparr>allocs := nalloc st'\<rparr>) = (ret1, u1)"
      by (rule prod.exhaust)
    have s': "s' = s\<lparr>allocs := nalloc st', metadata_buffer := replicate ULP_METADATA_BUF_LEN 0\<rparr>"
      using assms Inr x c
      by (simp add: parse_metadata_def load_so_handlers_def Let_def split: if_splits)
    have "ret1 = 0 \<and> patch_id ulp = patch_id u1 \<and> deps ulp = deps u1"
      if "ret = 0" "r = Some ulp" "ptype ulp \<noteq> 2"
    proof (cases "ptype u0 = 2")
      case True
      with assms Inr x c that show ?thesis by (simp add: parse_metadata_def Let_def)
    next
      case False
      with assms Inr x c that show ?thesis
        by (cases "ret1 = 0") (auto simp: parse_metadata_def load_so_handlers_def Let_def)
    qed
    with s' Inr x c show ?thesis by blast
  qed
  then show "\<exists>n. s' = s\<lparr>allocs := n, metadata_buffer := replicate ULP_METADATA_BUF_LEN 0\<rparr>"
    and "ret = 0 \<Longrightarrow> r = Some ulp \<Longrightarrow> ptype ulp \<noteq> 2 \<Longrightarrow>
      \<exists>u0 st st' u1. parse_metadata_from_mem (metadata_buffer s) (alloc_ok env) st = Inr (u0, st') \<and>
        check_patch_sanity env u0 (s\<lparr>allocs := nalloc st'\<rparr>) = (0, u1) \<and>
        patch_id ulp = patch_id u1 \<and> deps ulp = deps u1"
    by blast+
qed

lemma check_patch_sanity_0:
  assumes "check_patch_sanity env ulp s = (0, ulp')"
  shows "take 32 (patch_id ulp') \<notin> a_patch_id ` set (patches s)"
    and "\<forall>d \<in> set (deps ulp'). patch_id_check d"
    and "\<forall>d \<in> set (deps ulp). \<not> patch_id_check d \<Longrightarrow>
         \<forall>d \<in> set (deps ulp'). dep_id d \<in> a_patch_id ` set (patches s)"
proof -
  obtain ok u1 where 1: "check_build_id env ulp = (ok, u1)" by (rule prod.exhaust)
  obtain ret u2 where 2: "check_patch_dependencies u1 s = (ret, u2)" by (rule prod.exhaust)
  have u: "u2 = ulp'" "ret = 0" "ulp_get_applied_patch (patch_id u2) s = None"
    using assms 1 2 by (auto simp: check_patch_sanity_def split: if_splits)
  show "take 32 (patch_id ulp') \<notin> a_patch_id ` set (patches s)"
    using u applied_iff [of "patch_id u2" s] by auto
  define mark :: "ulp_dependency \<Rightarrow> ulp_dependency" where "mark = (\<lambda>d. if \<exists>p \<in> set (patches s). a_patch_id p = dep_id d
      then d\<lparr>patch_id_check := True\<rparr> else d)"
  have chk: "(if \<exists>d \<in> set (map mark (deps u1)). \<not> patch_id_check d then EDEPEND else 0,
      u1\<lparr>deps := map mark (deps u1)\<rparr>) = (ret, u2)"
    using 2 unfolding check_patch_dependencies_def Let_def mark_def .
  then have u2: "deps ulp' = map mark (deps u1)" using u(1) by auto
  show all: "\<forall>d \<in> set (deps ulp'). patch_id_check d"
    using chk u(2) unfolding u2 by (simp split: if_splits)
  have d: "deps u1 = deps ulp"
  proof -
    have "deps (dl_iterate_phdr (compare_build_ids m) is u) = deps u" for m "is" u
      by (induction "is" arbitrary: u) (auto simp: compare_build_ids_def)
    then show ?thesis using 1 by (auto simp: check_build_id_def Let_def)
  qed
  assume f: "\<forall>d \<in> set (deps ulp). \<not> patch_id_check d"
  have "dep_id (mark d) \<in> a_patch_id ` set (patches s)" if "d \<in> set (deps ulp)" for d
  proof -
    have "patch_id_check (mark d)" "\<not> patch_id_check d" using all f that unfolding u2 d by auto
    then have "\<exists>p \<in> set (patches s). a_patch_id p = dep_id d" by (auto simp: mark_def split: if_splits)
    then have "dep_id d \<in> a_patch_id ` set (patches s)" by (metis image_eqI)
    moreover have "dep_id (mark d) = dep_id d" by (simp add: mark_def)
    ultimately show ?thesis by simp
  qed
  then show "\<forall>d \<in> set (deps ulp'). dep_id d \<in> a_patch_id ` set (patches s)" unfolding u2 d by auto
qed

lemma load_metadata_ok:
  assumes "load_metadata env s = Some (ret, r, s')" and "metadata_ref s = None"
  shows "same_books s s' \<and> error_state s' = error_state s \<and> (r = None \<longrightarrow> metadata_ref s' = None)"
    and "r = Some ulp \<Longrightarrow> ptype ulp \<noteq> 2 \<Longrightarrow>
      take 32 (patch_id ulp) \<notin> a_patch_id ` set (patches s) \<and>
      (\<forall>d \<in> set (deps ulp). dep_id d \<in> a_patch_id ` set (patches s))"
proof -
  let ?s = "s\<lparr>allocs := Suc (allocs s)\<rparr>"
  have *: "(same_books s s' \<and> error_state s' = error_state s \<and> (r = None \<longrightarrow> metadata_ref s' = None)) \<and>
    (r = Some ulp \<longrightarrow> ptype ulp \<noteq> 2 \<longrightarrow> take 32 (patch_id ulp) \<notin> a_patch_id ` set (patches s) \<and>
      (\<forall>d \<in> set (deps ulp). dep_id d \<in> a_patch_id ` set (patches s)))"
  proof (cases "parse_metadata env ?s")
    case None
    with assms show ?thesis by (auto simp: load_metadata_def alloc_eq split: if_splits)
  next
    case (Some x)
    obtain err u s1 where x: "x = (err, u, s1)" by (rule prod_cases3)
    note p = parse_metadata_cases [OF Some [unfolded x]]
    obtain n where s1: "s1 = ?s\<lparr>allocs := n, metadata_buffer := replicate ULP_METADATA_BUF_LEN 0\<rparr>"
      using p(1) by blast
    have r: "alloc_ok env (allocs s) \<and> err = 0 \<and> r = u" if "r = Some ulp"
      using that assms Some x by (auto simp: load_metadata_def alloc_eq split: if_splits)
    have sb: "same_books s s' \<and> error_state s' = error_state s \<and> (r = None \<longrightarrow> metadata_ref s' = None)"
      using assms Some x s1
      by (auto simp: load_metadata_def alloc_eq unload_metadata_def split: if_splits)
    have "take 32 (patch_id ulp) \<notin> a_patch_id ` set (patches s) \<and>
        (\<forall>d \<in> set (deps ulp). dep_id d \<in> a_patch_id ` set (patches s))"
      if u: "r = Some ulp" "ptype ulp \<noteq> 2"
    proof -
      obtain u0 st st' u1 where q: "parse_metadata_from_mem (metadata_buffer ?s) (alloc_ok env) st = Inr (u0, st')"
        "check_patch_sanity env u0 (?s\<lparr>allocs := nalloc st'\<rparr>) = (0, u1)" "patch_id ulp = patch_id u1" "deps ulp = deps u1"
        using p(2) [of ulp] r [OF u(1)] u by auto
      from check_patch_sanity_0(1,3) [OF q(2)] parsed_deps_unchecked [OF q(1)] q(3,4) show ?thesis by simp
    qed
    with sb show ?thesis by blast
  qed
  then show "same_books s s' \<and> error_state s' = error_state s \<and> (r = None \<longrightarrow> metadata_ref s' = None)" by blast
  show "take 32 (patch_id ulp) \<notin> a_patch_id ` set (patches s) \<and>
      (\<forall>d \<in> set (deps ulp). dep_id d \<in> a_patch_id ` set (patches s))" if "r = Some ulp" "ptype ulp \<noteq> 2"
    using * that by blast
qed

lemma ulp_state_update_ok:
  assumes "ulp_state_update env ulp s = (ok, s')"
  shows "roots s' = roots s \<and> queue s' = queue s \<and>
    (if ok then \<exists>p. patches s' = p # patches s \<and> a_patch_id p = take 32 (patch_id ulp) \<and>
         a_deps p = rev (deps ulp) \<and>
         a_units p = map (applied_unit env (so_handler ulp) (get_basename (cstr (obj_name (objs ulp))))) (units (objs ulp))
     else patches s' = patches s)"
proof -
  let ?s1 = "s\<lparr>allocs := Suc (Suc (Suc (allocs s)))\<rparr>"
  let ?lib = "get_basename (cstr (obj_name (objs ulp)))"
  obtain ds s2 where 2: "copy_deps env (deps ulp) [] ?s1 = (ds, s2)" by (rule prod.exhaust)
  obtain us s3 where 3: "applied_units env (so_handler ulp) ?lib (units (objs ulp)) s2 = (us, s3)" by (rule prod.exhaust)
  note b = copy_deps_books [OF 2] applied_units_books [OF 3]
  show ?thesis
  proof (cases "alloc_ok env (allocs s) \<and> alloc_ok env (Suc (allocs s)) \<and> alloc_ok env (Suc (Suc (allocs s)))")
    case False
    with assms show ?thesis by (auto simp: ulp_state_update_def alloc_eq Let_def split: if_splits)
  next
    case True
    with assms 2 3 b show ?thesis
      by (cases ds; cases us) (auto simp: ulp_state_update_def alloc_eq Let_def same_books_def)
  qed
qed

lemma inv_unload: "consistent s \<Longrightarrow> ulp_inv (unload_metadata s)"
  by (simp add: ulp_inv_def unload_metadata_def consistent_def)

lemma load_patch_inv:
  assumes "load_patch env s = Some (r, s')" and "ulp_inv s" and "error_state s = ENONE"
  shows "ulp_inv s'"
proof -
  have m: "metadata_ref s = None" and c: "consistent s"
    using assms(2,3) by (auto simp: ulp_inv_def sound_state_def)
  obtain ret u s1 where 1: "load_metadata env s = Some (ret, u, s1)"
    using assms(1) by (auto simp: load_patch_def split: option.splits)
  note l = load_metadata_ok [OF 1 m]
  have c1: "consistent s1" using c l(1) same_books_consistent by blast
  show ?thesis
  proof (cases u)
    case None
    with assms(1) 1 l(1) c1 show ?thesis by (simp add: load_patch_def ulp_inv_def)
  next
    case (Some ulp)
    consider (app) "ptype ulp = 1" | (revert) "ptype ulp = 2" | (other) "ptype ulp \<noteq> 1" "ptype ulp \<noteq> 2" by blast
    then show ?thesis
    proof cases
      case app
      obtain ok s2 where 2: "ulp_state_update env ulp s1 = (ok, s2)" by (rule prod.exhaust)
      obtain ret3 s3 where 3: "ulp_apply_all_units env ulp s2 = (ret3, s3)" by (rule prod.exhaust)
      note u2 = ulp_state_update_ok [OF 2]
      show ?thesis
      proof (cases ok)
        case False
        with assms(1) 1 Some app 2 have "s' = unload_metadata s2" by (simp add: load_patch_def)
        with u2 False c1 show ?thesis
          by (simp add: ulp_inv_def unload_metadata_def consistent_def)
      next
        case True
        then have s': "s' = unload_metadata (if ret3 \<noteq> 0 then s3\<lparr>error_state := EUNKNOWN\<rparr> else s3)"
          using assms(1) 1 Some app 2 3 by (auto simp: load_patch_def error_state_defs)
        show ?thesis
        proof (cases "ret3 = 0")
          case False
          with s' show ?thesis by (simp add: ulp_inv_def unload_metadata_def sound_state_def)
        next
          case True': True
          obtain p where p: "patches s2 = p # patches s1" "a_patch_id p = take 32 (patch_id ulp)"
            "a_deps p = rev (deps ulp)"
            "a_units p = map (applied_unit env (so_handler ulp) (get_basename (cstr (obj_name (objs ulp))))) (units (objs ulp))"
            "roots s2 = roots s1"
            using u2 True by auto
          have "wf_roots (roots s2)" using p(5) c1 by (simp add: consistent_def)
          note a = ulp_apply_all_units_ok [OF 3 [unfolded True'] this]
          have pa: "patches s1 = patches s" using l(1) by (simp add: same_books_def)
          note new = l(2) [OF Some, unfolded pa [symmetric]]
          have "consistent s3"
            using a p c1 new app by (auto simp: consistent_def patch_at_def)
          with s' True' show ?thesis by (simp add: ulp_inv_def unload_metadata_def consistent_def)
        qed
      qed
    next
      case revert
      show ?thesis
      proof (cases "ulp_can_revert_patch (patch_id ulp) s1 = 0")
        case True
        from ulp_revert_patch_ok [OF c1 True, of env] obtain s2
          where "ulp_revert_patch env (patch_id ulp) s1 = (0, s2)" "consistent s2" by blast
        moreover from this have "s' = unload_metadata s2"
          using assms(1) 1 Some revert True by (simp add: load_patch_def Let_def)
        ultimately show ?thesis using inv_unload by blast
      next
        case False
        then have "s' = unload_metadata s1" using assms(1) 1 Some revert by (simp add: load_patch_def Let_def)
        with c1 show ?thesis using inv_unload by blast
      qed
    next
      case other
      then have "s' = unload_metadata s1" using assms(1) 1 Some by (simp add: load_patch_def)
      with c1 show ?thesis using inv_unload by blast
    qed
  qed
qed

lemma revert_lib_loop_inv:
  assumes "revert_lib_loop env lib ps ret s = Some rs'" and "consistent s"
  shows "consistent (snd rs') \<and> metadata_ref (snd rs') = metadata_ref s"
proof -
  have "consistent s \<longrightarrow> consistent (snd rs') \<and> metadata_ref (snd rs') = metadata_ref s"
    apply (rule revert_lib_loop.raw_induct
        [OF _ assms(1), where P = "\<lambda>env lib ps ret s r. consistent s \<longrightarrow>
            consistent (snd r) \<and> metadata_ref (snd r) = metadata_ref s"])
    subgoal premises 2 for f env lib ps ret s r
    proof (cases ps)
      case Nil
      with 2 show ?thesis by auto
    next
      case (Cons p rest)
      show ?thesis
      proof (rule impI, cases "take ULP_PATH_LEN lib = take ULP_PATH_LEN (lib_name p) \<and> ulp_can_revert_patch (a_patch_id p) s = 0")
        assume c: "consistent s"
        case True
        with ulp_revert_patch_ok [OF c, of "a_patch_id p" env] obtain s2
          where s2: "ulp_revert_patch env (a_patch_id p) s = (0, s2)" "consistent s2" "metadata_ref s2 = metadata_ref s" by blast
        have "f env lib rest 0 s2 = Some r" using 2(2) Cons True s2(1) by (simp add: Let_def)
        with 2(1) s2 show "consistent (snd r) \<and> metadata_ref (snd r) = metadata_ref s" by metis
      next
        assume c: "consistent s"
        case False
        then have "(\<exists>ret'. f env lib rest ret' s = Some r) \<or> (\<exists>ret'. f env lib ps ret' s = Some r)"
          using 2(2) Cons by (auto simp: Let_def split: if_splits)
        with 2(1) c show "consistent (snd r) \<and> metadata_ref (snd r) = metadata_ref s" by metis
      qed
    qed
    done
  with assms(2) show ?thesis by blast
qed


lemma revert_all_patches_inv:
  assumes "revert_all_patches_from_lib env lib s = Some (r, s')" and "ulp_inv s" and "error_state s = ENONE"
  shows "ulp_inv s'"
proof -
  have c: "consistent s" and m: "metadata_ref s = None" using assms(2,3) by (auto simp: ulp_inv_def sound_state_def)
  show ?thesis
  proof (cases "revert_lib_loop env (get_basename lib) (patches s) ENOTARGETLIB s")
    case None
    with assms show ?thesis by (auto simp: revert_all_patches_from_lib_def Let_def split: if_splits)
  next
    case (Some x)
    obtain ret s1 where x: "x = (ret, s1)" by (rule prod.exhaust)
    have "consistent s1" "metadata_ref s1 = None" using revert_lib_loop_inv [OF Some c] x m by auto
    with assms Some x show ?thesis
      by (auto simp: revert_all_patches_from_lib_def Let_def ulp_inv_def consistent_def split: if_splits prod.splits)
  qed
qed

lemma entry_guard_inv:
  assumes "entry_guard env s = (g, s')" and "ulp_inv s"
  shows "ulp_inv s'" and "g = None \<Longrightarrow> error_state s' = ENONE \<and> s' = s \<and> \<not> asunsafe_busy env \<and>
      num_insns (queue s) \<le> 0 \<and> qsize (queue s) \<le> 0"
    and "\<exists>e. s' = s\<lparr>error_state := e\<rparr>"
  using assms
  by (auto simp: entry_guard_def insnq_ensure_emptiness_def error_state_defs Let_def ulp_inv_def
      sound_state_def consistent_def split: if_splits intro: exI [of _ "error_state s"])

subsection \<open>Runs of the library\<close>

text \<open>
  What happens to the library between two stops of the process: the tool calls an entry point (in
  an arbitrary environment), flips the user's block, fills the metadata buffer, or has emptied the
  instruction queue.
\<close>

inductive ulp_step :: "ulp_state \<Rightarrow> ulp_state \<Rightarrow> bool" where
  step_apply: "ulp_apply_patch env s = Some (r, s') \<Longrightarrow> ulp_step s s'"
| step_revert: "ulp_revert_patches_from_lib env s = Some (r, s') \<Longrightarrow> ulp_step s s'"
| step_block: "ulp_step s (s\<lparr>error_state := ulp_enable_or_disable_patching (error_state s)\<rparr>)"
| step_buffer: "length b = ULP_METADATA_BUF_LEN \<Longrightarrow> ulp_step s (s\<lparr>metadata_buffer := b\<rparr>)"
| step_drain: "ulp_step s (s\<lparr>queue := (queue s)\<lparr>num_insns := 0, qsize := 0\<rparr>\<rparr>)"

inductive_cases ulp_stepE: "ulp_step s s'"

inductive ulp_reachable :: "ulp_state \<Rightarrow> bool" where
  reach_init: "ulp_reachable ulp_init"
| reach_step: "ulp_reachable s \<Longrightarrow> ulp_step s s' \<Longrightarrow> ulp_reachable s'"

lemma ulp_step_inv:
  assumes "ulp_step s s'" and "ulp_inv s"
  shows "ulp_inv s'"
  using assms(1)
proof (cases rule: ulp_step.cases)
  case (step_apply env r)
  obtain g s1 where g: "entry_guard env s = (g, s1)" by (rule prod.exhaust)
  note e = entry_guard_inv [OF g assms(2)]
  show ?thesis
    using step_apply g e load_patch_inv [of env s1 r s']
    by (cases g) (auto simp: ulp_apply_patch_def)
next
  case (step_revert env r)
  obtain g s1 where g: "entry_guard env s = (g, s1)" by (rule prod.exhaust)
  note e = entry_guard_inv [OF g assms(2)]
  show ?thesis
    using step_revert g e revert_all_patches_inv [of env "cstr (metadata_buffer s1)" s1 r s']
    by (cases g) (auto simp: ulp_revert_patches_from_lib_def)
next
  case step_block
  with assms(2) show ?thesis
    by (auto simp: ulp_inv_def sound_state_def ulp_enable_or_disable_patching_def error_state_defs consistent_def
        split: if_splits)
qed (use assms(2) in \<open>auto simp: ulp_inv_def consistent_def\<close>)

lemma ulp_init_inv: "ulp_inv ulp_init"
  by (simp add: ulp_inv_def ulp_init_def consistent_def active_at_def detours_at_def)

lemma reachable_inv: "ulp_reachable s \<Longrightarrow> ulp_inv s"
  by (induction rule: ulp_reachable.induct) (auto intro: ulp_init_inv ulp_step_inv)

end
