(* ===== verification/Ulp_Redirect.thy ===== *)
theory Ulp_Redirect
  imports Ulp_Invariant
begin

text \<open>
  From the records to the bytes: which writes \<open>ulp_apply_all_units\<close> and \<open>ulp_revert_all_units\<close> queue,
  and where execution goes once the queue has been interpreted. The functions of a patch must not
  overlap: \<open>window a\<close> is the range from 14 bytes before a function's entry to 6 bytes behind it.
\<close>

subsection \<open>Writes that leave a function alone\<close>

abbreviation (input) window_start :: "u64 \<Rightarrow> u64" where
  "window_start a \<equiv> a - 14"

definition off_window :: "u64 \<Rightarrow> u64 \<times> bytes \<Rightarrow> bool" where
  "off_window a = (\<lambda>(b, bs). length bs \<le> 2 ^ 64 \<and> (\<forall>j < 20. length bs \<le> unat (window_start a + of_nat j - b)))"

lemma off_window_apart:
  assumes "apart b (length bs) (window_start a) 20" and "length bs \<le> 2 ^ 64"
  shows "off_window a (b, bs)"
  using apart_byte [OF assms(1)] assms(2) by (simp add: off_window_def)

lemma off_window_read:
  assumes "off_window a w" and "j < 20"
  shows "mem_write m (fst w) (snd w) (window_start a + of_nat j) = m (window_start a + of_nat j)"
  using assms by (cases w) (auto simp: off_window_def mem_write_apply)

lemma apply_writes_off_window:
  "\<forall>w \<in> set ws. off_window a w \<Longrightarrow> j < 20 \<Longrightarrow>
   apply_writes ws m (window_start a + of_nat j) = m (window_start a + of_nat j)"
proof (induction ws arbitrary: m)
  case (Cons w ws)
  then show ?case using off_window_read [of a w j m] by (cases w) auto
qed simp

text \<open>A window has the same content in two memories.\<close>

definition same_window :: "u64 \<Rightarrow> mem \<Rightarrow> mem \<Rightarrow> bool" where
  "same_window a m m' \<longleftrightarrow> (\<forall>j < 20. m (window_start a + of_nat j) = m' (window_start a + of_nat j))"

lemma same_window_read:
  assumes "same_window a m m'" and "k + n \<le> 20"
  shows "mem_read m (window_start a + of_nat k) n = mem_read m' (window_start a + of_nat k) n"
proof (rule nth_equalityI)
  fix i assume i: "i < length (mem_read m (window_start a + of_nat k) n)"
  then have "m (window_start a + of_nat (k + i)) = m' (window_start a + of_nat (k + i))"
    using assms unfolding same_window_def by (metis add_less_cancel_left length_mem_read order_less_le_trans)
  with i show "mem_read m (window_start a + of_nat k) n ! i = mem_read m' (window_start a + of_nat k) n ! i"
    by (simp add: add.assoc)
qed simp

lemma same_window_parts:
  assumes "same_window a m m'"
  shows "mem_read m (a - 14) 6 = mem_read m' (a - 14) 6" "mem_read m (a - 8) 8 = mem_read m' (a - 8) 8"
    "mem_read m a 4 = mem_read m' a 4" "mem_read m (a + 4) 2 = mem_read m' (a + 4) 2" "mem_read m a 2 = mem_read m' a 2"
  using same_window_read [OF assms, of 0 6] same_window_read [OF assms, of 6 8] same_window_read [OF assms, of 14 4]
    same_window_read [OF assms, of 18 2] same_window_read [OF assms, of 14 2]
  by (simp_all add: algebra_simps)

lemma redirected_window:
  assumes "redirected m e a t" and "same_window a m m'"
  shows "redirected m' e a t"
  using assms(1) same_window_parts [OF assms(2)] unfolding redirected_def by (auto split: if_splits)

lemma entry_window:
  assumes "same_window a m m'"
  shows "entry m' a = entry m a" and "mem_read m' (entry m' a) 2 = mem_read m (entry m a) 2"
  using same_window_parts [OF assms] by (auto simp: entry_def)

subsection \<open>The queued writes\<close>

text \<open>A step of patching that ends without an error has queued its write.\<close>

lemma q_pending_state: "q_pending (q, e) ws \<longleftrightarrow> q_pending (q, e') ws"
  by (simp add: q_pending_def)

lemma memwrite_queued:
  assumes "memwrite a bs (q, e) = (b, q', ENONE)" and "q_pending (q, e) ws"
  shows "q_pending (q', ENONE) (ws @ [(a, bs)])"
proof -
  have b
    using assms(1) by (auto simp: memwrite_def insnq_insert_write_eq split: if_splits)
  with assms have "memwrite a bs (q, e) = (True, q', ENONE)" by simp
  with insnq.mwrite_queued [OF assms(2)] show ?thesis by blast
qed

definition patch_write :: "mem \<Rightarrow> u64 \<Rightarrow> u64 option \<Rightarrow> u64 \<times> bytes" where
  "patch_write m a target =
     (case target of Some t \<Rightarrow> (window_start a, redirect_bytes m a t) | None \<Rightarrow> (entry m a, [0x66, 0x90]))"

lemma ulp_patch_addr_queued:
  assumes "ulp_patch_addr m a t en (q, e) = (r, q', ENONE)" and "q_pending (q, e) ws" and "patchable m a"
  shows "q_pending (q', ENONE) (ws @ [patch_write m a (if en then Some t else None)])"
proof -
  let ?w = "patch_write m a (if en then Some t else None)"
  have "snd (memwrite (fst ?w) (snd ?w) (q, e)) = (q', ENONE)"
    using assms(1,3) by (auto simp: ulp_patch_addr_eq patch_write_def split: if_splits)
  then have "memwrite (fst ?w) (snd ?w) (q, e) = (fst (memwrite (fst ?w) (snd ?w) (q, e)), q', ENONE)"
    by (metis prod.collapse)
  from memwrite_queued [OF this assms(2)] show ?thesis by simp
qed

lemma ulp_patch_addr_patchable:
  "ulp_patch_addr m a t en (q, e) = (r, q', e') \<Longrightarrow> \<not> r > 0 \<Longrightarrow> patchable m a"
  by (auto simp: ulp_patch_addr_eq split: if_splits)

abbreviation unit_addr :: "ulp_env \<Rightarrow> ulp_metadata \<Rightarrow> ulp_unit \<Rightarrow> u64" where
  "unit_addr env ulp u \<equiv> lookup_addr env (so_handler ulp) (get_basename (cstr (obj_name (objs ulp)))) u"

abbreviation unit_target :: "ulp_env \<Rightarrow> ulp_metadata \<Rightarrow> ulp_unit \<Rightarrow> u64" where
  "unit_target env ulp u \<equiv> load_so_symbol env (new_fname u) (so_handler ulp)"

definition unit_write :: "ulp_env \<Rightarrow> ulp_metadata \<Rightarrow> ulp_unit \<Rightarrow> u64 \<times> bytes" where
  "unit_write env ulp u = patch_write (pmem env) (unit_addr env ulp u) (Some (unit_target env ulp u))"

text \<open>An error state, once set, is not cleared by the later steps.\<close>

lemma memwrite_error: "snd (snd (memwrite a bs (q, e))) = ENONE \<Longrightarrow> e = ENONE"
  by (auto simp: memwrite_def insnq_insert_write_eq split: if_splits)

lemma ulp_patch_addr_error: "snd (snd (ulp_patch_addr m a t en (q, e))) = ENONE \<Longrightarrow> e = ENONE"
  by (auto simp: ulp_patch_addr_eq split: if_splits dest: memwrite_error)

lemma apply_units_error:
  assumes "apply_units env ulp us s = (0, s')" and "wf_roots (roots s)" and "error_state s' = ENONE"
  shows "error_state s = ENONE"
  using assms
proof (induction us arbitrary: s)
  case (Cons u us)
  show ?case
  proof (rule apply_units_step [OF Cons.prems(1,2)])
    fix s1 e r
    assume "apply_units env ulp us s1 = (0, s')" "wf_roots (roots s1)"
      and p: "ulp_patch_addr (pmem env) (unit_addr env ulp u) (unit_target env ulp u) True (queue s, e) =
          (r, queue s1, error_state s1)"
      and e: "e = ENONE \<Longrightarrow> error_state s = ENONE"
    then have "error_state s1 = ENONE" using Cons.IH Cons.prems(3) by blast
    with p have "e = ENONE" by (metis snd_conv ulp_patch_addr_error)
    then show ?thesis by (rule e)
  qed
qed simp

lemma apply_units_queued:
  assumes "apply_units env ulp us s = (0, s')" and "wf_roots (roots s)"
    and "q_pending (queue s, ENONE) ws" and "error_state s' = ENONE"
  shows "q_pending (queue s', ENONE) (ws @ map (unit_write env ulp) us) \<and>
         (\<forall>u \<in> set us. patchable (pmem env) (unit_addr env ulp u))"
  using assms
proof (induction us arbitrary: s ws)
  case (Cons u us)
  show ?case
  proof (rule apply_units_step [OF Cons.prems(1,2)])
    fix s1 e r
    assume s1: "apply_units env ulp us s1 = (0, s')" "wf_roots (roots s1)"
      and p: "ulp_patch_addr (pmem env) (unit_addr env ulp u) (unit_target env ulp u) True (queue s, e) =
          (r, queue s1, error_state s1)" "\<not> r > 0"
    have err: "error_state s1 = ENONE"
      using s1 Cons.prems(4) apply_units_error by blast
    note pa = ulp_patch_addr_patchable [OF p]
    have "q_pending (queue s1, ENONE) (ws @ [unit_write env ulp u])"
      using ulp_patch_addr_queued [OF p(1) [unfolded err] _ pa] Cons.prems(3) q_pending_state
      by (simp add: unit_write_def) blast
    from Cons.IH [OF s1 this Cons.prems(4)] pa show ?thesis by simp
  qed
qed simp

definition ref_update :: "ulp_env \<Rightarrow> u64 \<Rightarrow> u64 \<Rightarrow> u64 \<Rightarrow> int \<Rightarrow> ulp_reference \<Rightarrow> u64 \<times> bytes" where
  "ref_update env h patch_base target_base tls_idx r =
     (if patch_offset r = 0 then load_so_symbol env (reference_name r) h else patch_base + patch_offset r,
      ref_write target_base tls_idx r)"

lemma apply_refs_error:
  "apply_refs env h pb tb ti rs s = (r, s') \<Longrightarrow> error_state s' = ENONE \<Longrightarrow> error_state s = ENONE"
proof (induction rs arbitrary: s)
  case (Cons x rs)
  let ?w = "ref_update env h pb tb ti x"
  obtain b s1 where 1: "lift_queue (memwrite (fst ?w) (snd ?w)) s = (b, s1)" by (rule prod.exhaust)
  from Cons.prems(1) 1 have "s' = s \<or> apply_refs env h pb tb ti rs s1 = (r, s')"
    by (auto simp: Let_def ref_update_def split: if_splits)
  then show ?case
    using Cons.IH Cons.prems(2) lift_queue_books [OF 1] memwrite_error [of "fst ?w" "snd ?w" "queue s" "error_state s"]
    by fastforce
qed simp

lemma apply_refs_queued:
  assumes "apply_refs env h pb tb ti rs s = (0, s')" and "q_pending (queue s, ENONE) ws" and "error_state s' = ENONE"
  shows "q_pending (queue s', ENONE) (ws @ map (ref_update env h pb tb ti) rs)"
  using assms
proof (induction rs arbitrary: s ws)
  case (Cons x rs)
  let ?w = "ref_update env h pb tb ti x"
  obtain b s1 where 1: "lift_queue (memwrite (fst ?w) (snd ?w)) s = (b, s1)" by (rule prod.exhaust)
  from Cons.prems(1) 1 have rec: "apply_refs env h pb tb ti rs s1 = (0, s')"
    by (auto simp: Let_def ref_update_def split: if_splits)
  have "error_state s1 = ENONE" using apply_refs_error [OF rec Cons.prems(3)] .
  then have "memwrite (fst ?w) (snd ?w) (queue s, error_state s) = (b, queue s1, ENONE)"
    using lift_queue_books [OF 1] by simp
  from memwrite_queued [OF this] Cons.prems(2) q_pending_state
  have "q_pending (queue s1, ENONE) (ws @ [?w])" by (metis prod.collapse)
  from Cons.IH [OF rec this Cons.prems(3)] show ?case by simp
qed simp

lemma dl_find_base_addr_error: "snd (snd (dl_find_base_addr i (args, e))) = ENONE \<Longrightarrow> e = ENONE"
  by (auto simp: dl_find_base_addr_def Let_def error_state_defs split: if_splits)

lemma find_base_error: "snd (dl_iterate_phdr dl_find_base_addr is (args, e)) = ENONE \<Longrightarrow> e = ENONE"
proof (induction "is" arbitrary: args e)
  case (Cons i "is")
  obtain b a' e' where 1: "dl_find_base_addr i (args, e) = (b, a', e')" by (rule prod_cases3)
  have "e' = ENONE" using Cons 1 by (auto split: if_splits)
  with 1 dl_find_base_addr_error [of i args e] show ?case by simp
qed simp

lemma base_addr_error:
  "get_loaded_library_base_addr pn is lib e = (tb, e2) \<Longrightarrow>
   get_loaded_library_tls_index pn is lib e2 = (ti, ENONE) \<Longrightarrow> e = ENONE"
  using find_base_error [of "is" "\<lparr>library = lib_arg pn lib, symbol = [], symbol_addr = 0, symbol_size = 0,
      bias_addr = 0, tls_index = 0\<rparr>" e]
    find_base_error [of "is" "\<lparr>library = lib_arg pn lib, symbol = [], symbol_addr = 0, symbol_size = 0,
      bias_addr = 0, tls_index = 0\<rparr>" e2]
  by (auto simp: get_loaded_library_base_addr_def get_loaded_library_tls_index_def find_base_def
      split: prod.splits)

text \<open>All writes of a patch that was applied without an error: its functions, then its references.\<close>

lemma ulp_apply_all_units_queued:
  assumes "ulp_apply_all_units env ulp s = (0, s')" and "wf_roots (roots s)"
    and "q_pending (queue s, ENONE) ws" and "error_state s' = ENONE"
  shows "\<exists>pb tb ti. q_pending (queue s', ENONE)
      (ws @ map (unit_write env ulp) (units (objs ulp)) @ map (ref_update env (so_handler ulp) pb tb ti) (refs ulp)) \<and>
      dlinfo env (so_handler ulp) = Some pb \<and>
      (\<forall>u \<in> set (units (objs ulp)). patchable (pmem env) (unit_addr env ulp u))"
proof -
  let ?s = "s\<lparr>global_universe := global_universe s + 1\<rparr>" and ?h = "so_handler ulp"
  let ?lib = "get_basename (cstr (obj_name (objs ulp)))"
  obtain r s1 where 1: "apply_units env ulp (units (objs ulp)) ?s = (r, s1)" by (rule prod.exhaust)
  obtain tb e2 where 2: "get_loaded_library_base_addr (progname env) (infos env ?h) ?lib (error_state s1) = (tb, e2)"
    by (rule prod.exhaust)
  obtain ti e3 where 3: "get_loaded_library_tls_index (progname env) (infos env ?h) ?lib e2 = (ti, e3)"
    by (rule prod.exhaust)
  have r: "r = 0" using assms(1) 1 by (auto simp: ulp_apply_all_units_def Let_def split: if_splits)
  obtain pb where pb: "dlinfo env ?h = Some pb"
    and rf: "apply_refs env ?h pb tb ti (refs ulp) (s1\<lparr>error_state := e3\<rparr>) = (0, s')"
    using assms(1) 1 2 3 r by (auto simp: ulp_apply_all_units_def Let_def split: if_splits option.splits)
  have "e3 = ENONE" using apply_refs_error [OF rf assms(4)] by simp
  then have "error_state s1 = ENONE" using 2 3 base_addr_error by metis
  with apply_units_queued [OF 1 [unfolded r]] assms(2,3)
  have u: "q_pending (queue s1, ENONE) (ws @ map (unit_write env ulp) (units (objs ulp)))"
    "\<forall>u \<in> set (units (objs ulp)). patchable (pmem env) (unit_addr env ulp u)" by auto
  have "q_pending (queue (s1\<lparr>error_state := e3\<rparr>), ENONE) (ws @ map (unit_write env ulp) (units (objs ulp)))"
    using u(1) by simp
  from apply_refs_queued [OF rf this assms(4)] u(2) pb show ?thesis by auto
qed

subsection \<open>Execution after the queue has been interpreted\<close>

definition ref_address :: "ulp_env \<Rightarrow> ulp_metadata \<Rightarrow> ulp_reference \<Rightarrow> u64" where
  "ref_address env ulp r =
     (if patch_offset r = 0 then load_so_symbol env (reference_name r) (so_handler ulp)
      else the (dlinfo env (so_handler ulp)) + patch_offset r)"

text \<open>The functions and references of a patch do not overlap.\<close>

definition no_overlap :: "ulp_env \<Rightarrow> ulp_metadata \<Rightarrow> bool" where
  "no_overlap env ulp \<longleftrightarrow>
     sorted_wrt (\<lambda>u v. apart (window_start (unit_addr env ulp v)) 20 (window_start (unit_addr env ulp u)) 20)
       (units (objs ulp)) \<and>
     (\<forall>u \<in> set (units (objs ulp)). \<forall>r \<in> set (refs ulp).
        apart (ref_address env ulp r) 16 (window_start (unit_addr env ulp u)) 20)"

lemma apart_shorter: "apart a n b k \<Longrightarrow> n' \<le> n \<Longrightarrow> apart a n' b k"
  by (simp add: apart_def)

lemma patch_write_length: "length (snd (patch_write m a t)) \<le> 20"
  by (simp add: patch_write_def length_redirect_bytes split: option.splits)

lemma ref_write_length: "length (ref_write tb ti r) \<le> 16"
  by (simp add: ref_write_def)

lemma unit_write_off_window:
  assumes "apart (window_start (unit_addr env ulp v)) 20 (window_start a) 20"
  shows "off_window a (unit_write env ulp v)"
proof -
  obtain b bs where w: "unit_write env ulp v = (b, bs)" by (rule prod.exhaust)
  have "b = window_start (unit_addr env ulp v)" "length bs \<le> 20"
    using w patch_write_length [of "pmem env" "unit_addr env ulp v" "Some (unit_target env ulp v)"]
    by (auto simp: unit_write_def patch_write_def)
  with assms show ?thesis unfolding w by (intro off_window_apart) (auto intro: apart_shorter)
qed

lemma redirected_after:
  assumes "\<forall>w \<in> set ws. off_window a w"
  shows "x86_reaches (apply_writes ws (mem_write m (window_start a) (redirect_bytes m0 a t))) a t"
proof -
  let ?m = "mem_write m (window_start a) (redirect_bytes m0 a t)"
  have "same_window a ?m (apply_writes ws ?m)"
    using apply_writes_off_window [OF assms] by (simp add: same_window_def)
  with redirected_write [of m a m0 t] show ?thesis
    using redirected_window redirected_reaches by (metis redirected_write)
qed

text \<open>
  The queued writes of a patch, performed on any memory and followed by writes elsewhere, redirect each
  of its functions.
\<close>

lemma unit_writes_redirect:
  assumes "no_overlap env ulp" and "dlinfo env (so_handler ulp) = Some pb" and "u \<in> set (units (objs ulp))"
    and "\<forall>w \<in> set extra. off_window (unit_addr env ulp u) w"
  shows "x86_reaches (apply_writes (map (unit_write env ulp) (units (objs ulp)) @
             map (ref_update env (so_handler ulp) pb tb ti) (refs ulp) @ extra) m)
           (unit_addr env ulp u) (unit_target env ulp u)"
proof -
  let ?us = "units (objs ulp)" and ?rs = "map (ref_update env (so_handler ulp) pb tb ti) (refs ulp)"
  obtain us1 us2 where us: "?us = us1 @ u # us2" using assms(3) by (meson split_list)
  let ?a = "unit_addr env ulp u"
  have "off_window ?a (unit_write env ulp v)" if "v \<in> set us2" for v
    using that assms(1) us by (intro unit_write_off_window) (auto simp: no_overlap_def sorted_wrt_append)
  moreover have "off_window ?a w" if r: "w \<in> set ?rs" for w
  proof -
    obtain x where x: "x \<in> set (refs ulp)" "w = (ref_address env ulp x, ref_write tb ti x)"
      using r assms(2) by (auto simp: ref_update_def ref_address_def)
    have "apart (ref_address env ulp x) 16 (window_start ?a) 20"
      using assms(1,3) x(1) by (auto simp: no_overlap_def)
    then show ?thesis
      unfolding x(2) using ref_write_length [of tb ti x] by (intro off_window_apart) (auto intro: apart_shorter)
  qed
  ultimately have "\<forall>w \<in> set (map (unit_write env ulp) us2 @ ?rs @ extra). off_window ?a w"
    using assms(4) by auto
  from redirected_after [OF this, of "apply_writes (map (unit_write env ulp) us1) m"] show ?thesis
    unfolding us by (simp add: unit_write_def patch_write_def)
qed

text \<open>
  Claim C3. A live patch takes effect. \<open>ulp_apply_all_units\<close> returned 0 on an empty queue and left
  libpulp out of the error state; the patch's functions and references do not overlap. Then, once
  the queue has been interpreted, execution that enters any of the patched functions arrives at its
  replacement.
\<close>

theorem ulp_apply_all_units_redirects:
  assumes "ulp_apply_all_units env ulp s = (0, s')" and "wf_roots (roots s)"
    and "queue_repr (queue s) []" and "error_state s' = ENONE" and "no_overlap env ulp"
  shows "\<exists>m'. q_flush (queue s', ENONE) (pmem env) = Some m' \<and>
           (\<forall>u \<in> set (units (objs ulp)). x86_reaches m' (unit_addr env ulp u) (unit_target env ulp u))"
proof -
  have q0: "q_pending (queue s, ENONE) []" using assms(3) by (simp add: q_pending_def)
  obtain pb tb ti where p: "q_pending (queue s', ENONE) (map (unit_write env ulp) (units (objs ulp)) @
        map (ref_update env (so_handler ulp) pb tb ti) (refs ulp))"
    and pb: "dlinfo env (so_handler ulp) = Some pb"
    using ulp_apply_all_units_queued [OF assms(1,2) q0 assms(4)] by auto
  from unit_writes_redirect [OF assms(5) pb, where extra = "[]"] insnq.flush_pending [OF p]
  show ?thesis by auto
qed

definition demo_lib :: dl_info where
  "demo_lib = \<lparr>dlpi_addr = 0x400, dlpi_name = str ''libx.so'',
     dlpi_phdr = [PT_DYNAMIC [DT_SYMTAB [], DT_STRTAB [0], DT_HASH 0]], dlpi_tls_modid = 1, dlpi_size_ok = True\<rparr>"

definition demo_env :: ulp_env where
  "demo_env = \<lparr>pmem = demo_func, progname = str ''prog'', infos = (\<lambda>_. [demo_lib]),
     dlopen = (\<lambda>_. 1), dlsym = (\<lambda>h n. if n = str ''f_lp'' then Some 0x7000 else None),
     dlinfo = (\<lambda>_. Some 0x6000), alloc_ok = (\<lambda>_. True), realtime = 0, asunsafe_busy = False, garbage = 0\<rparr>"

definition demo_ulp :: ulp_metadata where
  "demo_ulp = \<lparr>patch_id = replicate 32 7, so_filename = str ''/p.so'', so_handler = 1,
     objs = \<lparr>build_id_len = 20, build_id_check = True, build_id = replicate 20 5, obj_name = str ''libx.so'',
             nunits = 1, units = [\<lparr>old_fname = str ''f'', new_fname = str ''f_lp'', old_faddr = 0xC00\<rparr>]\<rparr>,
     ndeps = 0, deps = [], nrefs = 1,
     refs = [\<lparr>target_name = str ''v'', reference_name = str ''r'', target_offset = 0x20, patch_offset = 0x10, tls = False\<rparr>],
     ptype = 1\<rparr>"

lemma demo_lookup:
  "get_loaded_symbol_addr (str ''prog'') [demo_lib] (str ''libx.so'') (str ''f'') 0xC00 e = (0x1000, e)"
  by (simp add: get_loaded_symbol_addr_def get_loaded_symbol_addr_size_def dl_find_symbol_def demo_lib_def
      lib_arg_def strstr_def str_def vdso_name_def get_symbol_by_name_def)

lemma demo_base:
  "get_loaded_library_base_addr (str ''prog'') [demo_lib] (str ''libx.so'') e = (0x400, e)"
  "get_loaded_library_tls_index (str ''prog'') [demo_lib] (str ''libx.so'') e = (1, e)"
  by (simp_all add: get_loaded_library_base_addr_def get_loaded_library_tls_index_def find_base_def
      dl_find_base_addr_def demo_lib_def lib_arg_def strstr_def str_def vdso_name_def)

lemma demo_names: "get_basename (cstr (str ''libx.so'')) = str ''libx.so''" "cstr (str ''f'') = str ''f''"
  "cstr (str ''f_lp'') = str ''f_lp''"
  by (simp_all add: str_def cstr_def get_basename_def)

lemma demo_apply:
  "\<exists>s'. ulp_apply_all_units demo_env demo_ulp ulp_init = (0, s') \<and> error_state s' = ENONE \<and>
     version (queue s') = INSNQ_CURR_VERSION"
proof -
  have pa: "patchable demo_func 0x1000"
    by (simp add: patchable_def entry_def insn_endbr64_def demo_func_def mem_read_4)
  have len: "length (redirect_bytes demo_func 0x1000 0x7000) = 16"
    by (simp add: length_redirect_bytes insn_endbr64_def demo_func_def mem_read_4)
  have big: "\<not> int INSN_BUFFER_MAX < 32" "\<not> int INSN_BUFFER_MAX < 56" by (simp_all add: INSN_BUFFER_MAX_def)
  show ?thesis
    using pa len big
    by (simp add: ulp_apply_all_units_def Let_def demo_env_def demo_ulp_def symbol_lookup_def demo_names
        demo_lookup demo_base load_so_symbol_def ensure_root_def get_detour_root_by_address_def ulp_init_def
        push_new_root_def alloc_def get_next_function_index_def push_new_detour_def lift_queue_def
        ulp_patch_addr_eq memwrite_def insnq_insert_write_eq insnq_init_def align_to_def ref_write_def
        del: iencode.simps)
qed

theorem ulp_apply_all_units_redirects_witness:
  "\<exists>s' m'. ulp_apply_all_units demo_env demo_ulp ulp_init = (0, s') \<and>
     q_flush (queue s', ENONE) (pmem demo_env) = Some m' \<and> x86_reaches m' 0x1000 0x7000"
proof -
  obtain s' where s': "ulp_apply_all_units demo_env demo_ulp ulp_init = (0, s')" "error_state s' = ENONE"
    using demo_apply by blast
  have q: "queue_repr (queue ulp_init) []" "wf_roots (roots ulp_init)"
    by (simp_all add: ulp_init_def queue_repr_Nil insnq_init_def)
  have u: "units (objs demo_ulp) = [\<lparr>old_fname = str ''f'', new_fname = str ''f_lp'', old_faddr = 0xC00\<rparr>]"
    by (simp add: demo_ulp_def)
  have a: "unit_addr demo_env demo_ulp \<lparr>old_fname = str ''f'', new_fname = str ''f_lp'', old_faddr = 0xC00\<rparr> = 0x1000"
    "unit_target demo_env demo_ulp \<lparr>old_fname = str ''f'', new_fname = str ''f_lp'', old_faddr = 0xC00\<rparr> = 0x7000"
    by (simp_all add: lookup_addr_def demo_env_def demo_ulp_def demo_names demo_lookup load_so_symbol_def)
  have "no_overlap demo_env demo_ulp"
    unfolding no_overlap_def u using a
    by (simp add: demo_ulp_def demo_env_def ref_address_def apart_def)
  from ulp_apply_all_units_redirects [OF s'(1) q(2,1) s'(2) this] s'(1) u a show ?thesis by auto
qed

subsection \<open>Reverting\<close>

lemma revert_detours_error:
  "snd (snd (revert_detours m pid a pre ds (q, e))) = ENONE \<Longrightarrow> e = ENONE"
proof (induction ds arbitrary: pre q e)
  case (Cons d ds)
  show ?case
  proof (cases "d_patch_id d = pid")
    case False
    then show ?thesis using Cons.IH [of "pre @ [d]" q e] Cons.prems by simp
  next
    case True
    let ?d = "d\<lparr>active := False\<rparr>"
    obtain t en where *: "revert_detours m pid a pre (d # ds) (q, e) =
        revert_detours m pid a (pre @ [?d]) ds (snd (ulp_patch_addr m a t en (q, e)))"
      using True by (cases "find active (pre @ ?d # ds)") (auto simp: Let_def)
    obtain r q1 e1 where 1: "ulp_patch_addr m a t en (q, e) = (r, q1, e1)" by (rule prod_cases3)
    have "e1 = ENONE" using Cons.IH [of "pre @ [?d]" q1 e1] Cons.prems * 1 by simp
    with 1 ulp_patch_addr_error [of m a t en q e] show ?thesis by simp
  qed
qed simp

lemma revert_detours_queued:
  assumes "revert_detours m pid a pre ds (q, e) = (ds', q', ENONE)" and "q_pending (q, e) ws" and "patchable m a"
  shows "\<exists>ops. q_pending (q', ENONE) (ws @ ops) \<and> set ops \<subseteq> range (patch_write m a) \<and>
    (if \<exists>d \<in> set ds. d_patch_id d = pid
     then ops \<noteq> [] \<and> last ops = patch_write m a (map_option target_addr (find active ds'))
     else ops = [])"
  using assms
proof (induction ds arbitrary: pre q e ws)
  case Nil
  then show ?case using q_pending_state by auto
next
  case (Cons d ds)
  show ?case
  proof (cases "d_patch_id d = pid")
    case False
    with Cons.prems(1) have "revert_detours m pid a (pre @ [d]) ds (q, e) = (ds', q', ENONE)" by simp
    from Cons.IH [OF this Cons.prems(2,3)] False show ?thesis by simp
  next
    case True
    let ?d = "d\<lparr>active := False\<rparr>"
    let ?l = "pre @ ?d # ds"
    let ?t = "map_option target_addr (find active ?l)"
    obtain r q1 e1 where 1: "ulp_patch_addr m a (case ?t of None \<Rightarrow> 0 | Some t \<Rightarrow> t) (?t \<noteq> None) (q, e) = (r, q1, e1)"
      by (metis prod_cases3)
    have rec: "revert_detours m pid a (pre @ [?d]) ds (q1, e1) = (ds', q', ENONE)"
      using Cons.prems(1) True 1 by (cases "find active ?l") (auto simp: Let_def)
    have e1: "e1 = ENONE" using revert_detours_error [of m pid a "pre @ [?d]" ds q1 e1] rec by simp
    have "q_pending (q1, e1) (ws @ [patch_write m a ?t])"
      using ulp_patch_addr_queued [OF 1 [unfolded e1] Cons.prems(2,3)] e1 by (cases "find active ?l") simp_all
    from Cons.IH [OF rec this Cons.prems(3)] obtain ops where
      ops: "q_pending (q', ENONE) (ws @ patch_write m a ?t # ops)" "set ops \<subseteq> range (patch_write m a)"
      "if \<exists>d \<in> set ds. d_patch_id d = pid
       then ops \<noteq> [] \<and> last ops = patch_write m a (map_option target_addr (find active ds')) else ops = []"
      by auto
    have "ds' = ?l" if "\<not> (\<exists>d \<in> set ds. d_patch_id d = pid)"
    proof -
      have "map (switch_off pid) ds = ds" using that by (auto simp: switch_off_def map_idI)
      then show ?thesis
        using revert_detours_fst [of m pid a "pre @ [?d]" ds "(q1, e1)"] rec by simp
    qed
    with ops True show ?thesis
      by (intro exI [of _ "patch_write m a ?t # ops"]) (auto split: if_splits)
  qed
qed

text \<open>What a run of patch writes to one function leaves, by the last of them.\<close>

lemma patch_write_keeps_endbr:
  assumes "mem_read m a 4 = insn_endbr64 \<Longrightarrow> mem_read M a 4 = insn_endbr64"
  shows "mem_read m a 4 = insn_endbr64 \<Longrightarrow>
    mem_read (mem_write M (fst (patch_write m a t)) (snd (patch_write m a t))) a 4 = insn_endbr64"
proof -
  assume e: "mem_read m a 4 = insn_endbr64"
  show ?thesis
  proof (cases t)
    case (Some x)
    with redirected_write [of M a m x] e show ?thesis by (simp add: patch_write_def redirected_def)
  next
    case None
    have "apart (a + 4) (length [0x66, 0x90 :: u8]) a 4" by (simp add: apart_def)
    then have "mem_read (mem_write M (a + 4) [0x66, 0x90]) a 4 = mem_read M a 4"
      by (rule mem_read_write_apart) simp
    with None e assms show ?thesis by (simp add: patch_write_def entry_def del: mem_write.simps)
  qed
qed

lemma apply_patch_writes_endbr:
  assumes "set ops \<subseteq> range (patch_write m a)" and "mem_read m a 4 = insn_endbr64" and "mem_read M a 4 = insn_endbr64"
  shows "mem_read (apply_writes ops M) a 4 = insn_endbr64"
  using assms
proof (induction ops arbitrary: M)
  case (Cons w ops)
  then obtain t where t: "w = patch_write m a t" by auto
  have "mem_read (mem_write M (fst w) (snd w)) a 4 = insn_endbr64"
    using patch_write_keeps_endbr [of m a M t] Cons.prems t by simp
  with Cons show ?case by (cases w) simp
qed simp

lemma nop_after:
  assumes "same_window a m M" and "set ops \<subseteq> range (patch_write m a)"
    and "ops \<noteq> []" and "last ops = patch_write m a None"
  shows "mem_read (apply_writes ops M) (entry m a) 2 = [0x66, 0x90]" and "entry (apply_writes ops M) a = entry m a"
proof -
  obtain ops' where ops: "ops = ops' @ [(entry m a, [0x66, 0x90])]"
    using assms(3,4) by (metis append_butlast_last_id option.simps(4) patch_write_def)
  let ?M = "apply_writes ops' M"
  let ?m' = "mem_write ?M (entry m a) [0x66, 0x90]"
  have nop: "mem_read ?m' (entry m a) 2 = [0x66, 0x90]"
    by (simp add: mem_read_2)
  show "mem_read (apply_writes ops M) (entry m a) 2 = [0x66, 0x90]" using nop by (simp add: ops)
  have "entry ?m' a = entry m a"
  proof (cases "mem_read m a 4 = insn_endbr64")
    case True
    have "mem_read M a 4 = insn_endbr64" using same_window_parts [OF assms(1)] True by simp
    then have "mem_read (apply_writes ops M) a 4 = insn_endbr64"
      using apply_patch_writes_endbr [OF assms(2) True] by blast
    with True show ?thesis by (simp add: entry_def ops)
  next
    case False
    then have "?m' a = 0x66" using nop by (simp add: entry_def mem_read_2)
    with False show ?thesis using mem_read_4_first [of ?m' a "0xf3"] by (auto simp: entry_def insn_endbr64_def)
  qed
  then show "entry (apply_writes ops M) a = entry m a" by (simp add: ops)
qed

lemma off_window_sub:
  assumes "apart (window_start b) 20 (window_start a) 20" and "k + length bs \<le> 20"
  shows "off_window a (window_start b + of_nat k, bs)"
proof (simp only: off_window_def prod.case, intro conjI allI impI)
  show "length bs \<le> 2 ^ 64" using assms(2) by simp
  fix j :: nat assume "j < 20"
  let ?x = "window_start a + of_nat j - window_start b"
  have x: "20 \<le> unat ?x" using apart_byte [OF assms(1) \<open>j < 20\<close>] .
  have k: "unat (of_nat k :: u64) = k" using assms(2) by (simp add: unat_of_nat)
  have "(of_nat k :: u64) \<le> ?x" using x k assms(2) by (simp add: word_le_nat_alt)
  then have "unat (?x - of_nat k) = unat ?x - k" using k by (simp add: unat_sub)
  moreover have "?x - of_nat k = window_start a + of_nat j - (window_start b + of_nat k)"
    by (simp add: algebra_simps)
  ultimately have "unat (window_start a + of_nat j - (window_start b + of_nat k)) = unat ?x - k" by metis
  with x assms(2) show "length bs \<le> unat (window_start a + of_nat j - (window_start b + of_nat k))" by linarith
qed

lemma patch_write_off_window:
  assumes "apart (window_start b) 20 (window_start a) 20"
  shows "off_window a (patch_write m b t)"
proof (cases t)
  case None
  then show ?thesis
    using off_window_sub [OF assms, of 14 "[0x66, 0x90]"] off_window_sub [OF assms, of 18 "[0x66, 0x90]"]
    by (auto simp: patch_write_def entry_def algebra_simps)
next
  case (Some x)
  then show ?thesis
    using off_window_sub [OF assms, of 0 "redirect_bytes m b x"]
    by (simp add: patch_write_def length_redirect_bytes split: if_splits)
qed

text \<open>The writes of a whole revert: for each root, in the order of the chain, its own.\<close>

definition root_ops_ok :: "mem \<Rightarrow> bytes \<Rightarrow> ulp_detour_root \<Rightarrow> (u64 \<times> bytes) list \<Rightarrow> bool" where
  "root_ops_ok m pid r ops \<longleftrightarrow>
     set ops \<subseteq> range (patch_write m (patched_addr r)) \<and>
     (if \<exists>d \<in> set (detours r). d_patch_id d = pid
      then ops \<noteq> [] \<and> last ops = patch_write m (patched_addr r)
             (map_option target_addr (find active (map (switch_off pid) (detours r))))
      else ops = [])"

lemma revert_roots_error: "snd (snd (revert_roots m pid rs (q, e))) = ENONE \<Longrightarrow> e = ENONE"
proof (induction rs arbitrary: q e)
  case (Cons r rs)
  obtain ds q1 e1 where 1: "revert_detours m pid (patched_addr r) [] (detours r) (q, e) = (ds, q1, e1)"
    by (rule prod_cases3)
  have "e1 = ENONE" using Cons.IH [of q1 e1] Cons.prems 1 by (auto split: prod.splits)
  with revert_detours_error [of m pid "patched_addr r" "[]" "detours r" q e] 1 show ?case by simp
qed simp

lemma revert_roots_queued:
  assumes "revert_roots m pid rs (q, e) = (rs', q', ENONE)" and "q_pending (q, e) ws"
    and "\<forall>r \<in> set rs. patchable m (patched_addr r)"
  shows "\<exists>opss. q_pending (q', ENONE) (ws @ concat opss) \<and> list_all2 (root_ops_ok m pid) rs opss"
  using assms
proof (induction rs arbitrary: q e ws rs')
  case Nil
  then show ?case using q_pending_state by (intro exI [of _ "[]"]) auto
next
  case (Cons r rs)
  obtain ds q1 e1 where 1: "revert_detours m pid (patched_addr r) [] (detours r) (q, e) = (ds, q1, e1)"
    by (rule prod_cases3)
  obtain rs2 q2 e2 where 2: "revert_roots m pid rs (q1, e1) = (rs2, q2, e2)" by (rule prod_cases3)
  have e2: "e2 = ENONE" "q2 = q'" using Cons.prems(1) 1 2 by auto
  have e1: "e1 = ENONE" using revert_roots_error [of m pid rs q1 e1] 2 e2 by simp
  have pa: "patchable m (patched_addr r)" using Cons.prems(3) by simp
  have ds: "ds = map (switch_off pid) (detours r)"
    using revert_detours_fst [of m pid "patched_addr r" "[]" "detours r" "(q, e)"] 1 by simp
  obtain ops where ops: "q_pending (q1, ENONE) (ws @ ops)" "root_ops_ok m pid r ops"
    using revert_detours_queued [OF 1 [unfolded e1] Cons.prems(2) pa] unfolding ds root_ops_ok_def by blast
  obtain opss where "q_pending (q', ENONE) ((ws @ ops) @ concat opss)" "list_all2 (root_ops_ok m pid) rs opss"
    using Cons.IH [OF 2 [unfolded e2 e1] ops(1)] Cons.prems(3) by auto
  with ops(2) show ?case by (intro exI [of _ "ops # opss"]) auto
qed

text \<open>The functions with a detour root can be patched and do not overlap.\<close>

definition roots_apart :: "mem \<Rightarrow> ulp_detour_root list \<Rightarrow> bool" where
  "roots_apart m rs \<longleftrightarrow>
     (\<forall>r \<in> set rs. patchable m (patched_addr r)) \<and>
     (\<forall>r \<in> set rs. \<forall>r' \<in> set rs. patched_addr r \<noteq> patched_addr r' \<longrightarrow>
        apart (window_start (patched_addr r)) 20 (window_start (patched_addr r')) 20)"

lemma other_roots_off_window:
  assumes "list_all2 (root_ops_ok m pid) rs opss"
    and "\<forall>r' \<in> set rs. apart (window_start (patched_addr r')) 20 (window_start a) 20"
  shows "\<forall>w \<in> set (concat opss). off_window a w"
  using assms
  by (induction rule: list_all2_induct) (auto simp: root_ops_ok_def intro!: patch_write_off_window dest!: subsetD)

text \<open>The end of a revert at one function: what the last write to it left.\<close>

definition runs_to :: "mem \<Rightarrow> mem \<Rightarrow> u64 \<Rightarrow> u64 option \<Rightarrow> bool" where
  "runs_to m0 m a target =
     (case target of Some t \<Rightarrow> x86_reaches m a t | None \<Rightarrow> x86_reaches m a (entry m0 a + 2))"

lemma nop_window:
  assumes "mem_read m (entry m0 a) 2 = [0x66, 0x90]" and "entry m a = entry m0 a" and "same_window a m m'"
  shows "x86_reaches m' a (entry m0 a + 2)"
proof -
  have "entry m' a = entry m0 a" "mem_read m' (entry m' a) 2 = [0x66, 0x90]"
    using entry_window [OF assms(3)] assms(1,2) by simp_all
  then show ?thesis using nop_entry_reaches [of m' a] by simp
qed

lemma same_window_writes: "\<forall>w \<in> set ws. off_window a w \<Longrightarrow> same_window a m (apply_writes ws m)"
  using apply_writes_off_window by (simp add: same_window_def)

lemma last_patch_write:
  assumes "set ops \<subseteq> range (patch_write m0 a)" and "ops \<noteq> []" and "last ops = patch_write m0 a target"
    and "\<forall>w \<in> set before \<union> set after. off_window a w"
  shows "runs_to m0 (apply_writes (before @ ops @ after) m0) a target"
proof -
  let ?M = "apply_writes before m0" and ?M2 = "apply_writes ops (apply_writes before m0)"
  have w1: "same_window a m0 ?M" using assms(4) by (intro same_window_writes) auto
  have w2: "same_window a ?M2 (apply_writes after ?M2)" using assms(4) by (intro same_window_writes) auto
  show ?thesis
  proof (cases target)
    case None
    with nop_after [OF w1 assms(1,2)] assms(3) nop_window [OF _ _ w2] show ?thesis by (simp add: runs_to_def)
  next
    case (Some t)
    obtain ops' where ops: "ops = ops' @ [(window_start a, redirect_bytes m0 a t)]"
      using assms(2,3) Some by (metis append_butlast_last_id option.simps(5) patch_write_def)
    have "x86_reaches (apply_writes after (mem_write (apply_writes ops' ?M) (window_start a) (redirect_bytes m0 a t))) a t"
      using assms(4) by (intro redirected_after) auto
    with Some show ?thesis by (simp add: runs_to_def ops)
  qed
qed

lemma revert_roots_runs:
  assumes "list_all2 (root_ops_ok m pid) rs opss" and "roots_apart m rs" and "wf_roots rs"
    and "r \<in> set rs" and "\<exists>d \<in> set (detours r). d_patch_id d = pid"
  shows "runs_to m (apply_writes (concat opss) m) (patched_addr r)
           (map_option target_addr (find active (map (switch_off pid) (detours r))))"
proof -
  obtain rs1 rs2 where rs: "rs = rs1 @ r # rs2" using assms(4) by (meson split_list)
  obtain os1 ops os2 where os: "opss = os1 @ ops # os2" "list_all2 (root_ops_ok m pid) rs1 os1"
      "root_ops_ok m pid r ops" "list_all2 (root_ops_ok m pid) rs2 os2"
    using assms(1) unfolding rs list_all2_append1 list_all2_Cons1 by blast
  have ap: "\<forall>r' \<in> set rs1 \<union> set rs2. apart (window_start (patched_addr r')) 20 (window_start (patched_addr r)) 20"
  proof
    fix r' assume r': "r' \<in> set rs1 \<union> set rs2"
    have "patched_addr r \<notin> patched_addr ` (set rs1 \<union> set rs2)" using assms(3) unfolding rs by auto
    then have "patched_addr r' \<noteq> patched_addr r" using r' by (metis imageI)
    moreover have "r' \<in> set rs" "r \<in> set rs" using r' rs by auto
    ultimately show "apart (window_start (patched_addr r')) 20 (window_start (patched_addr r)) 20"
      using assms(2) unfolding roots_apart_def by blast
  qed
  have "\<forall>w \<in> set (concat os1) \<union> set (concat os2). off_window (patched_addr r) w"
    using other_roots_off_window [OF os(2)] other_roots_off_window [OF os(4)] ap by auto
  with os(3) assms(5) show ?thesis
    unfolding os(1) concat_append concat.simps root_ops_ok_def by (intro last_patch_write) (simp_all split: if_splits)
qed

lemma find_active_hd:
  "map_option target_addr (find active ds) =
     (case map (\<lambda>d. (d_patch_id d, target_addr d)) (filter active ds) of [] \<Rightarrow> None | (j, t) # _ \<Rightarrow> Some t)"
  by (induction ds) auto

text \<open>The replacement in force at \<open>a\<close>: that of the newest applied patch that has one.\<close>

definition in_force :: "ulp_applied_patch list \<Rightarrow> u64 \<Rightarrow> u64 option" where
  "in_force ps a = (case applied_at ps a of [] \<Rightarrow> None | (j, t) # _ \<Rightarrow> Some t)"

lemma patched_root:
  assumes "consistent s" and "p \<in> set (patches s)" and "a \<in> u_patched_addr ` set (a_units p)"
  shows "\<exists>r \<in> set (roots s). patched_addr r = a \<and> detours_at (roots s) a = detours r \<and>
           (\<exists>d \<in> set (detours r). d_patch_id d = a_patch_id p)"
proof -
  have "\<exists>x \<in> set (applied_at (patches s) a). fst x = a_patch_id p"
    using assms(2,3) by (force simp: applied_at_def patch_at_def)
  then have "\<exists>x \<in> set (active_at (roots s) a). fst x = a_patch_id p"
    using assms(1) by (simp add: consistent_def)
  then obtain d where d: "d \<in> set (detours_at (roots s) a)" "d_patch_id d = a_patch_id p"
    by (auto simp: active_at_def)
  from d(1) obtain r where r: "find (\<lambda>r. patched_addr r = a) (roots s) = Some r" "d \<in> set (detours r)"
    by (cases "find (\<lambda>r. patched_addr r = a) (roots s)") (auto simp: detours_at_def)
  have "detours_at (roots s) a = detours r" using r(1) by (simp add: detours_at_def)
  moreover have "r \<in> set (roots s)" "patched_addr r = a" using r(1) by (auto simp: find_Some_iff)
  ultimately show ?thesis using r(2) d(2) by blast
qed

text \<open>
  Claim C4. Reverting takes effect. A patch that may be reverted is reverted from a consistent
  state with an empty queue, and libpulp does not enter its error state: then the call returns 0,
  and once the queue has been interpreted, execution that enters any function of the patch arrives
  at the replacement of the newest patch still applied to that function, or, when there is none,
  behind the two-byte nop at the function's own entry.
\<close>

theorem ulp_revert_patch_restores:
  assumes "consistent s" and "ulp_can_revert_patch i s = 0" and "queue_repr (queue s) []"
    and "ulp_revert_patch env i s = (ret, s')" and "error_state s' = ENONE"
    and "roots_apart (pmem env) (roots s)"
  shows "ret = 0 \<and> (\<exists>m'. q_flush (queue s', ENONE) (pmem env) = Some m' \<and>
    (\<forall>p \<in> set (patches s). a_patch_id p = take 32 i \<longrightarrow>
       (\<forall>a \<in> u_patched_addr ` set (a_units p). runs_to (pmem env) m' a (in_force (patches s') a))))"
proof -
  let ?m = "pmem env" and ?i = "take 32 i"
  from ulp_revert_patch_ok [OF assms(1,2), of env] assms(4) have ret: "ret = 0" and c': "consistent s'"
    and roots': "roots s' = fst (revert_roots ?m ?i (roots s) (queue s, error_state s))"
    and q': "(queue s', error_state s') = snd (revert_roots ?m ?i (roots s) (queue s, error_state s))"
    by auto
  have rev: "revert_roots ?m ?i (roots s) (queue s, error_state s) = (roots s', queue s', ENONE)"
    using roots' q' assms(5) by (metis prod.collapse)
  have q0: "q_pending (queue s, error_state s) []" using assms(3) by (simp add: q_pending_def)
  have wf: "wf_roots (roots s)" using assms(1) by (simp add: consistent_def)
  obtain opss where ops: "q_pending (queue s', ENONE) (concat opss)" "list_all2 (root_ops_ok ?m ?i) (roots s) opss"
    using revert_roots_queued [OF rev q0] assms(6) by (auto simp: roots_apart_def)
  have "runs_to ?m (apply_writes (concat opss) ?m) a (in_force (patches s') a)"
    if p: "p \<in> set (patches s)" "a_patch_id p = ?i" "a \<in> u_patched_addr ` set (a_units p)" for p a
  proof -
    obtain r where r: "r \<in> set (roots s)" "patched_addr r = a" "detours_at (roots s) a = detours r"
      "\<exists>d \<in> set (detours r). d_patch_id d = ?i"
      using patched_root [OF assms(1) p(1,3)] p(2) by auto
    have "detours_at (roots s') a = map (switch_off ?i) (detours r)"
      using r(1-3) unfolding roots' revert_roots_fst by (subst detours_at_map) auto
    moreover have "active_at (roots s') a = applied_at (patches s') a" using c' by (simp add: consistent_def)
    ultimately have "map_option target_addr (find active (map (switch_off ?i) (detours r))) = in_force (patches s') a"
      by (simp add: find_active_hd in_force_def active_at_def)
    with revert_roots_runs [OF ops(2) assms(6) wf r(1,4)] r(2) show ?thesis by simp
  qed
  with ret insnq.flush_pending [OF ops(1)] show ?thesis by blast
qed

definition demo_patched :: ulp_state where
  "demo_patched = ulp_init\<lparr>
     patches := [\<lparr>a_patch_id = replicate 32 7, lib_name = str ''libx.so'', container_name = str ''/p.so'',
                  a_units = [\<lparr>u_patched_addr = 0x1000, u_target_addr = 0x7000, overwritten_bytes = replicate 14 0x90\<rparr>],
                  a_deps = [], timestamp = 0\<rparr>],
     roots := [\<lparr>index = 0, patched_addr = 0x1000,
                detours = [\<lparr>d_patch_id = replicate 32 7, universe = 1, target_addr = 0x7000, active = True\<rparr>]\<rparr>]\<rparr>"

lemma demo_patched_ok:
  "consistent demo_patched" "ulp_can_revert_patch (replicate 32 7) demo_patched = 0"
  "queue_repr (queue demo_patched) []" "roots_apart demo_func (roots demo_patched)"
  by (simp_all add: demo_patched_def ulp_init_def consistent_def active_at_def detours_at_def patch_at_def
      ulp_can_revert_patch_def ulp_get_applied_patch_def queue_repr_Nil insnq_init_def roots_apart_def
      patchable_def entry_def insn_endbr64_def demo_func_def mem_read_4)

theorem ulp_revert_patch_restores_witness:
  "\<exists>s' m'. ulp_revert_patch demo_env (replicate 32 7) demo_patched = (0, s') \<and> patches s' = [] \<and>
     q_flush (queue s', ENONE) demo_func = Some m' \<and> x86_reaches m' 0x1000 0x1002"
proof -
  have env: "pmem demo_env = demo_func" by (simp add: demo_env_def)
  have en: "entry demo_func 0x1000 = 0x1000" "patchable demo_func 0x1000"
    by (simp_all add: patchable_def entry_def insn_endbr64_def demo_func_def mem_read_4)
  have big: "\<not> int INSN_BUFFER_MAX < 24" by (simp add: INSN_BUFFER_MAX_def)
  obtain s' where s': "ulp_revert_patch demo_env (replicate 32 7) demo_patched = (0, s')"
      "error_state s' = ENONE" "patches s' = []"
    using en big
    by (simp add: ulp_revert_patch_def ulp_revert_all_units_def ulp_state_remove_def demo_patched_def ulp_init_def
        env Let_def ulp_patch_addr_eq memwrite_def insnq_insert_write_eq insnq_init_def align_to_def
        del: iencode.simps)
  from ulp_revert_patch_restores [OF demo_patched_ok(1,2,3) s'(1,2)] demo_patched_ok(4) s' env en(1)
  show ?thesis by (auto simp: demo_patched_def runs_to_def in_force_def)
qed

end
