(* ===== verification/Ulp_Api.thy ===== *)
theory Ulp_Api
  imports Ulp_Redirect
begin

text \<open>
  The library as the tool sees it: what the entry points of \<open>src/lib/ulp.c\<close> promise in every reachable
  state, when they refuse, and where they do not do what they mean to.
\<close>

subsection \<open>The records\<close>

text \<open>
  Claim C5. The records of reachable states. After any sequence of calls, in any environment, unless
  libpulp is in an error state of its own: the active detours of every function, newest first, are
  exactly what the chain of applied patches says about it; a function has one root, a patch is
  applied at most once, and every dependency of an applied patch is applied below it.
\<close>

theorem reachable_records_agree:
  assumes "ulp_reachable s" and "error_state s = ENONE \<or> error_state s = EUSRBLOCKED"
  shows "(\<forall>a. active_at (roots s) a = applied_at (patches s) a) \<and>
         distinct (map patched_addr (roots s)) \<and> distinct (map a_patch_id (patches s)) \<and>
         deps_closed (patches s)"
  using reachable_inv [OF assms(1)] assms(2) by (auto simp: ulp_inv_def sound_state_def consistent_def)

theorem reachable_records_agree_witness:
  "\<exists>s. ulp_reachable s \<and> error_state s = EUSRBLOCKED \<and> (\<forall>a. active_at (roots s) a = applied_at (patches s) a)"
proof -
  let ?s = "ulp_init\<lparr>error_state := ulp_enable_or_disable_patching (error_state ulp_init)\<rparr>"
  have r: "ulp_reachable ?s" by (rule reach_step [OF reach_init step_block])
  have e: "error_state ?s = EUSRBLOCKED"
    by (simp add: ulp_init_def ulp_enable_or_disable_patching_def set_libpulp_error_state_def)
  from reachable_records_agree [OF r] r e show ?thesis by blast
qed

subsection \<open>Refusals\<close>



text \<open>
  The dependency rules. A patch passes \<open>check_patch_dependencies\<close> exactly when all its
  dependencies are applied, and a patch may be reverted exactly when it is applied and no applied
  patch depends on it; the refusals are \<open>EDEPEND\<close> and \<open>ENOTAPPLIED\<close>.
\<close>

theorem dependency_rules:
  assumes "\<forall>d \<in> set (deps ulp). \<not> patch_id_check d"
  shows "fst (check_patch_dependencies ulp s) =
           (if \<forall>d \<in> set (deps ulp). dep_id d \<in> a_patch_id ` set (patches s) then 0 else EDEPEND) \<and>
         ulp_can_revert_patch i s =
           (if take 32 i \<notin> a_patch_id ` set (patches s) then ENOTAPPLIED
            else if \<exists>p \<in> set (patches s). \<exists>d \<in> set (a_deps p). dep_id d = take 32 i then EDEPEND else 0)"
proof -
  define mark :: "ulp_dependency \<Rightarrow> ulp_dependency" where
    "mark = (\<lambda>d. if \<exists>p \<in> set (patches s). a_patch_id p = dep_id d then d\<lparr>patch_id_check := True\<rparr> else d)"
  have "patch_id_check (mark d) \<longleftrightarrow> dep_id d \<in> a_patch_id ` set (patches s)" if "d \<in> set (deps ulp)" for d
  proof -
    have "(\<exists>p \<in> set (patches s). a_patch_id p = dep_id d) \<longleftrightarrow> dep_id d \<in> a_patch_id ` set (patches s)"
      unfolding image_iff by (rule bex_cong) auto
    with assms that show ?thesis by (simp add: mark_def)
  qed
  then have "(\<exists>d \<in> set (map mark (deps ulp)). \<not> patch_id_check d) \<longleftrightarrow>
      \<not> (\<forall>d \<in> set (deps ulp). dep_id d \<in> a_patch_id ` set (patches s))" by auto
  then have 1: "fst (check_patch_dependencies ulp s) =
      (if \<forall>d \<in> set (deps ulp). dep_id d \<in> a_patch_id ` set (patches s) then 0 else EDEPEND)"
    unfolding check_patch_dependencies_def Let_def mark_def [symmetric] by simp
  have "ulp_get_applied_patch i s = None \<longleftrightarrow> take 32 i \<notin> a_patch_id ` set (patches s)"
    using applied_iff by blast
  with 1 show ?thesis unfolding ulp_can_revert_patch_def by simp
qed

theorem dependency_rules_witness:
  "fst (check_patch_dependencies demo_metadata demo_patched) = EDEPEND \<and>
   ulp_can_revert_patch (replicate 32 7) demo_patched = 0"
  using dependency_rules [of demo_metadata demo_patched "replicate 32 7"]
  by (simp add: demo_metadata_def demo_patched_def)

text \<open>
  Claim C18. Failing half way is fail-stop. When a patch has been recorded but applying its units
  fails, \<open>load_patch\<close> returns the failure and puts libpulp into its error state; from then on both
  entry points refuse, so a half-applied patch is never built upon.
\<close>

theorem load_patch_fail_stop:
  assumes "load_metadata env s = Some (0, Some ulp, s1)" and "ptype ulp = 1"
    and "ulp_state_update env ulp s1 = (True, s2)" and "ulp_apply_all_units env ulp s2 = (ret, s3)" and "ret \<noteq> 0"
  shows "\<exists>s'. load_patch env s = Some (ret, s') \<and> patches s' = patches s3 \<and> error_state s' = EUNKNOWN \<and>
           (\<forall>env'. ulp_apply_patch env' s' = Some (EUNKNOWN, s') \<and>
                   ulp_revert_patches_from_lib env' s' = Some (EUNKNOWN, s'))"
proof -
  let ?s' = "unload_metadata (s3\<lparr>error_state := EUNKNOWN\<rparr>)"
  have run: "load_patch env s = Some (ret, ?s')"
    using assms by (simp add: load_patch_def error_state_defs)
  have e: "error_state ?s' = EUNKNOWN" by (simp add: unload_metadata_def)
  have "ulp_apply_patch env' ?s' = Some (EUNKNOWN, ?s')" "ulp_revert_patches_from_lib env' ?s' = Some (EUNKNOWN, ?s')" for env'
    by (simp_all add: ulp_apply_patch_def ulp_revert_patches_from_lib_def entry_guard_def libpulp_is_in_error_state_def e)
  with run e show ?thesis by (intro exI [of _ ?s']) (simp add: unload_metadata_def)
qed

text \<open>A container that cannot be found by \<open>dlinfo\<close>: the last step of applying fails.\<close>

definition broken_env :: ulp_env where
  "broken_env = demo_env\<lparr>dlinfo := (\<lambda>_. None)\<rparr>"

lemma broken_run:
  defines "s1 \<equiv> ulp_init\<lparr>metadata_ref := Some demo_ulp\<rparr>"
  shows "\<exists>s2 s3. ulp_state_update broken_env demo_ulp s1 = (True, s2) \<and>
    ulp_apply_all_units broken_env demo_ulp s2 = (EUNKNOWN, s3)"
proof -
  have pa: "patchable demo_func 0x1000"
    by (simp add: patchable_def entry_def insn_endbr64_def demo_func_def mem_read_4)
  have len: "length (redirect_bytes demo_func 0x1000 0x7000) = 16"
    by (simp add: length_redirect_bytes insn_endbr64_def demo_func_def mem_read_4)
  have big: "\<not> int INSN_BUFFER_MAX < 32" by (simp add: INSN_BUFFER_MAX_def)
  show ?thesis
    unfolding s1_def using pa len big
    by (simp add: ulp_state_update_def ulp_apply_all_units_def Let_def broken_env_def demo_env_def demo_ulp_def
        symbol_lookup_def demo_names demo_lookup demo_base load_so_symbol_def ensure_root_def
        get_detour_root_by_address_def ulp_init_def push_new_root_def alloc_def get_next_function_index_def
        push_new_detour_def lift_queue_def ulp_patch_addr_eq memwrite_def insnq_insert_write_eq insnq_init_def
        align_to_def del: iencode.simps)
qed

theorem load_patch_fail_stop_witness:
  "\<exists>s'. load_patch broken_env (ulp_init\<lparr>metadata_ref := Some demo_ulp\<rparr>) = Some (EUNKNOWN, s') \<and>
     error_state s' = EUNKNOWN \<and> ulp_apply_patch demo_env s' = Some (EUNKNOWN, s')"
proof -
  let ?s = "ulp_init\<lparr>metadata_ref := Some demo_ulp\<rparr>"
  obtain s2 s3 where r: "ulp_state_update broken_env demo_ulp ?s = (True, s2)"
      "ulp_apply_all_units broken_env demo_ulp s2 = (EUNKNOWN, s3)"
    using broken_run by blast
  have l: "load_metadata broken_env ?s = Some (0, Some demo_ulp, ?s)" by (simp add: load_metadata_def)
  have t: "ptype demo_ulp = 1" by (simp add: demo_ulp_def)
  show ?thesis using load_patch_fail_stop [OF l t r] by auto
qed

subsection \<open>Reverting all patches of a library\<close>

definition of_lib :: "bytes \<Rightarrow> ulp_applied_patch \<Rightarrow> bool" where
  "of_lib lib p \<longleftrightarrow> take ULP_PATH_LEN (get_basename lib) = take ULP_PATH_LEN (lib_name p)"

lemma revert_lib_loop_Cons:
  "revert_lib_loop env (get_basename lib) (p # rest) ret s =
     (if of_lib lib p then
        (if ulp_can_revert_patch (a_patch_id p) s \<noteq> 0
         then revert_lib_loop env (get_basename lib) (p # rest) (ulp_can_revert_patch (a_patch_id p) s) s
         else case ulp_revert_patch env (a_patch_id p) s of (ret, s) \<Rightarrow>
                if ret \<noteq> 0 then Some (ret, s) else revert_lib_loop env (get_basename lib) rest ret s)
      else revert_lib_loop env (get_basename lib) rest ret s)"
  by (subst revert_lib_loop.simps) (simp add: of_lib_def Let_def)

lemma revert_lib_loop_stuck:
  assumes "of_lib lib p" and "ulp_can_revert_patch (a_patch_id p) s \<noteq> 0"
  shows "revert_lib_loop env (get_basename lib) (p # rest) ret s = None"
proof (rule ccontr)
  assume "revert_lib_loop env (get_basename lib) (p # rest) ret s \<noteq> None"
  then obtain r where r: "revert_lib_loop env (get_basename lib) (p # rest) ret s = Some r" by auto
  have "\<not> (get_basename lib = get_basename lib \<and> p # rest = p # rest \<and> s = s)"
    by (rule revert_lib_loop.raw_induct
        [where P = "\<lambda>e l ps ret s' r. \<not> (l = get_basename lib \<and> ps = p # rest \<and> s' = s)", OF _ r])
       (use assms in \<open>auto simp: of_lib_def Let_def split: if_splits; blast\<close>)
  then show False by simp
qed

lemma revert_lib_loop_skip:
  "\<forall>x \<in> set pre. \<not> of_lib lib x \<Longrightarrow>
   revert_lib_loop env (get_basename lib) (pre @ ps) ret s = revert_lib_loop env (get_basename lib) ps ret s"
  by (induction pre) (auto simp: revert_lib_loop_Cons)

lemma deps_closed_older:
  assumes "deps_closed (pre @ p # rest)" and "distinct (map a_patch_id (pre @ p # rest))"
    and "x \<in> set (p # rest)" and "d \<in> set (a_deps x)"
  shows "dep_id d \<noteq> a_patch_id p"
proof -
  have dc: "deps_closed (p # rest)" using assms(1) by (induction pre) auto
  have older: "\<And>x ys. deps_closed ys \<Longrightarrow> x \<in> set ys \<Longrightarrow> d \<in> set (a_deps x) \<Longrightarrow> dep_id d \<in> a_patch_id ` set ys"
  proof -
    fix x ys
    show "deps_closed ys \<Longrightarrow> x \<in> set ys \<Longrightarrow> d \<in> set (a_deps x) \<Longrightarrow> dep_id d \<in> a_patch_id ` set ys"
      by (induction ys) auto
  qed
  have "dep_id d \<in> a_patch_id ` set rest"
    using assms(3,4) dc older [of rest x] by auto
  then show ?thesis using assms(2) by auto
qed

lemma revert_lib_loop_all:
  assumes "consistent s" and "patches s = pre @ ps" and "\<forall>x \<in> set pre. \<not> of_lib lib x"
    and "\<forall>x \<in> set (pre @ ps). \<not> of_lib lib x \<longrightarrow>
           (\<forall>y \<in> set ps. of_lib lib y \<longrightarrow> a_patch_id y \<notin> dep_id ` set (a_deps x))"
  shows "\<exists>s'. revert_lib_loop env (get_basename lib) ps ret s =
           Some (if \<exists>p \<in> set ps. of_lib lib p then 0 else ret, s') \<and>
         consistent s' \<and> patches s' = pre @ filter (\<lambda>p. \<not> of_lib lib p) ps"
  using assms
proof (induction ps arbitrary: pre s ret)
  case Nil
  then show ?case by (subst revert_lib_loop.simps) simp
next
  case (Cons p rest)
  show ?case
  proof (cases "of_lib lib p")
    case True
    have c: "deps_closed (pre @ p # rest)" "distinct (map a_patch_id (pre @ p # rest))" "length (a_patch_id p) \<le> 32"
      using Cons.prems(1,2) by (auto simp: consistent_def)
    have "dep_id d \<noteq> a_patch_id p" if "x \<in> set (pre @ p # rest)" "d \<in> set (a_deps x)" for x d
    proof (cases "x \<in> set pre")
      case pre: True
      then have "a_patch_id p \<notin> dep_id ` set (a_deps x)" using Cons.prems(3,4) True by auto
      then show ?thesis using that(2) by (metis imageI)
    qed (use that deps_closed_older [OF c(1,2)] in auto)
    then have can: "ulp_can_revert_patch (a_patch_id p) s = 0"
      using Cons.prems(2) c(3) by (auto simp: can_revert_iff)
    obtain s1 where s1: "ulp_revert_patch env (a_patch_id p) s = (0, s1)" "consistent s1"
      "patches s1 = filter (\<lambda>x. a_patch_id x \<noteq> take 32 (a_patch_id p)) (patches s)"
      using ulp_revert_patch_ok [OF Cons.prems(1) can, of env] by blast
    have "filter (\<lambda>x. a_patch_id x \<noteq> a_patch_id p) xs = xs" if "a_patch_id p \<notin> a_patch_id ` set xs" for xs :: "ulp_applied_patch list"
      using that by (intro filter_True) (metis imageI)
    then have "filter (\<lambda>x. a_patch_id x \<noteq> a_patch_id p) (pre @ p # rest) = pre @ rest"
      using c(2) by simp
    then have "patches s1 = pre @ rest" using s1(3) c(3) Cons.prems(2) by simp
    then obtain s' where "revert_lib_loop env (get_basename lib) rest 0 s1 =
           Some (if \<exists>p \<in> set rest. of_lib lib p then 0 else 0, s')" "consistent s'"
        "patches s' = pre @ filter (\<lambda>p. \<not> of_lib lib p) rest"
      using Cons.IH [OF s1(2), of pre 0] Cons.prems(3,4) by auto
    then show ?thesis using True can s1(1) by (simp add: revert_lib_loop_Cons)
  next
    case False
    then have "\<exists>s'. revert_lib_loop env (get_basename lib) rest ret s =
           Some (if \<exists>p \<in> set rest. of_lib lib p then 0 else ret, s') \<and>
         consistent s' \<and> patches s' = (pre @ [p]) @ filter (\<lambda>p. \<not> of_lib lib p) rest"
      using Cons.prems by (intro Cons.IH) auto
    then show ?thesis using False by (simp add: revert_lib_loop_Cons)
  qed
qed


text \<open>
  Claim C23. Reverting all patches of a library returns and does it: when no applied patch of another
  library depends on a patch of this one, the call returns, exactly the patches of the library are
  gone from the chain, the others are in their order, the records stay consistent, and the result is
  0 exactly when there was something to revert.
\<close>

theorem revert_lib_reverts:
  assumes "consistent s" and "length lib - length (get_basename lib) < ULP_PATH_LEN"
    and "\<forall>x \<in> set (patches s). \<not> of_lib lib x \<longrightarrow>
           (\<forall>y \<in> set (patches s). of_lib lib y \<longrightarrow> a_patch_id y \<notin> dep_id ` set (a_deps x))"
  shows "\<exists>ret s'. revert_all_patches_from_lib env lib s = Some (ret, s') \<and> consistent s' \<and>
    patches s' = filter (\<lambda>p. \<not> of_lib lib p) (patches s) \<and>
    (ret = 0 \<longleftrightarrow> (\<exists>p \<in> set (patches s). of_lib lib p))"
proof -
  obtain s1 where s1: "revert_lib_loop env (get_basename lib) (patches s) ENOTARGETLIB s =
      Some (if \<exists>p \<in> set (patches s). of_lib lib p then 0 else ENOTARGETLIB, s1)" "consistent s1"
      "patches s1 = filter (\<lambda>p. \<not> of_lib lib p) (patches s)"
    using revert_lib_loop_all [OF assms(1), of "[]" "patches s" lib env ENOTARGETLIB] assms(3) by auto
  obtain base e where "get_loaded_library_base_addr (progname env) (infos env 0) (get_basename lib) (error_state s1) = (base, e)"
    by (rule prod.exhaust)
  with s1 assms(2) show ?thesis
    by (auto simp: revert_all_patches_from_lib_def consistent_def)
qed

text \<open>
  Claim C24. The exception is an endless loop: when the newest patch of the library cannot be reverted,
  because a patch of another library depends on it, the loop looks at the same patch for ever.
\<close>

theorem revert_lib_stuck:
  assumes "patches s = pre @ p # rest" and "\<forall>x \<in> set pre. \<not> of_lib lib x" and "of_lib lib p"
    and "q \<in> set pre" and "d \<in> set (a_deps q)" and "dep_id d = take 32 (a_patch_id p)"
    and "length lib - length (get_basename lib) < ULP_PATH_LEN"
  shows "revert_all_patches_from_lib env lib s = None"
proof -
  have "ulp_can_revert_patch (a_patch_id p) s \<noteq> 0"
    using assms(1,4-6) by (auto simp: can_revert_iff)
  then have "revert_lib_loop env (get_basename lib) (patches s) ENOTARGETLIB s = None"
    unfolding assms(1) revert_lib_loop_skip [OF assms(2)] by (rule revert_lib_loop_stuck [OF assms(3)])
  then show ?thesis using assms(7) by (simp add: revert_all_patches_from_lib_def)
qed

lemma demo_patched_lib:
  "of_lib (str ''libx.so'') (hd (patches demo_patched))" "length (patches demo_patched) = 1"
  "length (str ''libx.so'') - length (get_basename (str ''libx.so'')) < ULP_PATH_LEN"
  by (simp_all add: of_lib_def demo_patched_def get_basename_def str_def ULP_PATH_LEN_def)

theorem revert_lib_reverts_witness:
  "\<exists>s'. revert_all_patches_from_lib demo_env (str ''libx.so'') demo_patched = Some (0, s') \<and> patches s' = []"
proof -
  obtain p where p: "patches demo_patched = [p]" using demo_patched_lib(2) by (auto simp: length_Suc_conv)
  then have "of_lib (str ''libx.so'') p" using demo_patched_lib(1) by simp
  with p revert_lib_reverts [OF demo_patched_ok(1) demo_patched_lib(3), of demo_env] show ?thesis by auto
qed

theorem revert_lib_stuck_witness:
  "revert_all_patches_from_lib demo_env (str ''libx.so'')
     (demo_patched\<lparr>patches := [\<lparr>a_patch_id = replicate 32 8, lib_name = str ''liby.so'', container_name = str ''/q.so'',
        a_units = [], a_deps = [\<lparr>dep_id = replicate 32 7, patch_id_check = True\<rparr>], timestamp = 0\<rparr>,
        hd (patches demo_patched)]\<rparr>) = None"
  by (rule revert_lib_stuck [where p = "hd (patches demo_patched)" and rest = "[]"])
     (use demo_patched_lib in \<open>auto simp: of_lib_def demo_patched_def get_basename_def str_def ULP_PATH_LEN_def\<close>)


subsection \<open>The build id check\<close>

text \<open>An object whose one note segment starts with the note of the build id \<open>i\<close>.\<close>

definition has_build_id :: "mem \<Rightarrow> dl_info \<Rightarrow> bytes \<Rightarrow> bool" where
  "has_build_id m info i \<longleftrightarrow>
     (\<exists>v sz. dlpi_phdr info = [PT_NOTE v sz] \<and> 16 \<le> sint sz \<and> 16 \<le> length i \<and> length i < 2 ^ 32 \<and>
        (let note = dlpi_addr info + v in
           note_u32 m note = 4 \<and> note_u32 m (note + 4) = of_nat (length i) \<and> note_u32 m (note + 8) = 3 \<and>
           mem_read m (note + 16) (length i) = i))"

lemma compare_build_ids_one:
  assumes "has_build_id m info i" and "length i = length (build_id (objs ulp))"
  shows "compare_build_ids m info ulp =
    (if i \<noteq> build_id (objs ulp) then (True, ulp\<lparr>objs := (objs ulp)\<lparr>build_id_check := True\<rparr>\<rparr>) else (False, ulp))"
proof -
  obtain v sz where v: "dlpi_phdr info = [PT_NOTE v sz]" "16 \<le> sint sz" "16 \<le> length i" "length i < 2 ^ 32"
    "note_u32 m (dlpi_addr info + v) = 4" "note_u32 m (dlpi_addr info + v + 4) = of_nat (length i)"
    "note_u32 m (dlpi_addr info + v + 8) = 3" "mem_read m (dlpi_addr info + v + 16) (length i) = i"
    using assms(1) by (auto simp: has_build_id_def Let_def)
  have d: "unat (of_nat (length i) :: u32) = length i" using v(4) by (simp add: unat_of_nat)
  then have "(16 :: u32) \<le> of_nat (length i)" using v(3) by (simp add: word_le_nat_alt)
  then have "scan_notes m (build_id (objs ulp)) (dlpi_addr info + v) (sint sz) = Some (i \<noteq> build_id (objs ulp))"
    using v assms(2) d by (subst scan_notes.simps) (auto simp: Let_def)
  then show ?thesis using v(1) by (simp add: compare_build_ids_def)
qed

lemma iterate_build_ids:
  assumes "\<forall>info \<in> set is. has_build_id m info (bid info) \<and> length (bid info) = length (build_id (objs ulp))"
  shows "build_id_check (objs (dl_iterate_phdr (compare_build_ids m) is ulp)) \<longleftrightarrow>
     build_id_check (objs ulp) \<or> (\<exists>info \<in> set is. bid info \<noteq> build_id (objs ulp))"
  using assms
proof (induction "is")
  case (Cons i "is")
  then show ?case by (auto simp: compare_build_ids_one [of m i "bid i"])
qed simp


definition note_env :: ulp_env where
  "note_env = demo_env\<lparr>pmem := mem_write (\<lambda>_. 0) 0x400 (u32_bytes 4 @ u32_bytes 20 @ u32_bytes 3 @ str ''GNU'' @ [0] @ replicate 20 5),
     infos := (\<lambda>_. [demo_lib\<lparr>dlpi_phdr := [PT_NOTE 0 36]\<rparr>])\<rparr>"



end
