(* ===== verification/Interpose.thy ===== *)
theory Interpose
  imports Ulp_Api "HOL-Library.Multiset"
begin

text \<open>
  The interposed functions of \<open>src/lib/interpose.c\<close>: the counter \<open>flag\<close> of the threads inside allocation and loader
  functions, the lock libpulp takes on it before it patches, the initialisation, and the variables
  of the environment that disable live patching. \<open>get_ld_global_locks\<close> of \<open>src/lib/symbol_loader.c\<close>
  is modelled here, with its only caller.

  The functions behind the wrappers are parameters: a call is a function on the counter and the rest of
  the process. \<open>None\<close> as the result of the initialisation stands for a crash or for an access outside an array.
\<close>

subsection \<open>The loader's locks and the counter\<close>

text \<open>The values of the two locks of the dynamic loader, and libpulp's error state.\<close>

definition dl_locks_held :: "int \<Rightarrow> int \<Rightarrow> ulp_error \<Rightarrow> bool \<times> ulp_error" where
  "dl_locks_held load_lock write_lock e =
     (let e = libpulp_assert_func (0 \<le> load_lock \<and> load_lock \<le> 1) e;
          e = libpulp_assert_func (0 \<le> write_lock \<and> write_lock \<le> 1) e
      in (load_lock \<noteq> 0 \<or> write_lock \<noteq> 0, e))"

definition ulp_asunsafe_trylock :: "int \<Rightarrow> int \<Rightarrow> int \<times> ulp_error \<Rightarrow> int \<times> int \<times> ulp_error" where
  "ulp_asunsafe_trylock load_lock write_lock = (\<lambda>(flag, e).
     case dl_locks_held load_lock write_lock e of (held, e) \<Rightarrow>
       if held then (1, flag, e)
       else if flag \<noteq> 0 then (1, flag, e) else (0, 1, e))"

definition ulp_asunsafe_unlock :: "int \<Rightarrow> int \<times> int" where
  "ulp_asunsafe_unlock flag = (0, flag AND 0)"

text \<open>What the entry points of \<open>src/lib/ulp.c\<close> do with the two: the result 0 lets them go on.\<close>

definition asunsafe_probe :: "int \<Rightarrow> int \<Rightarrow> int \<times> ulp_error \<Rightarrow> int \<times> int \<times> ulp_error" where
  "asunsafe_probe load_lock write_lock fe =
     (case ulp_asunsafe_trylock load_lock write_lock fe of (r, flag, e) \<Rightarrow>
        if r \<noteq> 0 then (EAGAIN, flag, e) else (0, snd (ulp_asunsafe_unlock flag), e))"

subsection \<open>The wrappers\<close>

type_synonym ('h, 'r) call = "int \<times> 'h \<Rightarrow> 'r \<times> int \<times> 'h"

definition counted :: "('h, 'r) call \<Rightarrow> ('h, 'r) call" where
  "counted real = (\<lambda>(flag, h). case real (flag + 1, h) of (r, flag, h) \<Rightarrow> (r, flag - 1, h))"

text \<open>A wrapper whose real function is unknown falls back to an internal function of the C library.\<close>

definition with_fallback :: "('h, 'r) call option \<Rightarrow> ('h, 'r) call \<Rightarrow> ('h, 'r) call" where
  "with_fallback real libc = (case real of None \<Rightarrow> libc | Some f \<Rightarrow> counted f)"

definition free :: "(u64 \<Rightarrow> ('h, unit) call) option \<Rightarrow> (u64 \<Rightarrow> ('h, unit) call) \<Rightarrow> u64 \<Rightarrow> ('h, unit) call" where
  "free real_free libc_free ptr = with_fallback (map_option (\<lambda>f. f ptr) real_free) (libc_free ptr)"

definition malloc :: "(u64 \<Rightarrow> ('h, u64) call) option \<Rightarrow> (u64 \<Rightarrow> ('h, u64) call) \<Rightarrow> u64 \<Rightarrow> ('h, u64) call" where
  "malloc real_malloc libc_malloc sz = with_fallback (map_option (\<lambda>f. f sz) real_malloc) (libc_malloc sz)"

definition calloc ::
  "(u64 \<Rightarrow> u64 \<Rightarrow> ('h, u64) call) option \<Rightarrow> (u64 \<Rightarrow> u64 \<Rightarrow> ('h, u64) call) \<Rightarrow> u64 \<Rightarrow> u64 \<Rightarrow> ('h, u64) call" where
  "calloc real_calloc libc_calloc nmemb sz = with_fallback (map_option (\<lambda>f. f nmemb sz) real_calloc) (libc_calloc nmemb sz)"

definition realloc ::
  "(u64 \<Rightarrow> u64 \<Rightarrow> ('h, u64) call) option \<Rightarrow> (u64 \<Rightarrow> u64 \<Rightarrow> ('h, u64) call) \<Rightarrow> u64 \<Rightarrow> u64 \<Rightarrow> ('h, u64) call" where
  "realloc real_realloc libc_realloc ptr sz = with_fallback (map_option (\<lambda>f. f ptr sz) real_realloc) (libc_realloc ptr sz)"

definition valloc :: "(u64 \<Rightarrow> ('h, u64) call) option \<Rightarrow> (u64 \<Rightarrow> ('h, u64) call) \<Rightarrow> u64 \<Rightarrow> ('h, u64) call" where
  "valloc real_valloc libc_valloc sz = with_fallback (map_option (\<lambda>f. f sz) real_valloc) (libc_valloc sz)"

definition pvalloc :: "(u64 \<Rightarrow> ('h, u64) call) option \<Rightarrow> (u64 \<Rightarrow> ('h, u64) call) \<Rightarrow> u64 \<Rightarrow> ('h, u64) call" where
  "pvalloc real_pvalloc libc_pvalloc sz = with_fallback (map_option (\<lambda>f. f sz) real_pvalloc) (libc_pvalloc sz)"

definition memalign ::
  "(u64 \<Rightarrow> u64 \<Rightarrow> ('h, u64) call) option \<Rightarrow> (u64 \<Rightarrow> u64 \<Rightarrow> ('h, u64) call) \<Rightarrow> u64 \<Rightarrow> u64 \<Rightarrow> ('h, u64) call" where
  "memalign real_memalign libc_memalign alignment sz =
     with_fallback (map_option (\<lambda>f. f alignment sz) real_memalign) (libc_memalign alignment sz)"

text \<open>Two functions are emulated with \<open>__libc_memalign\<close>. The result of the first is the pointer and \<open>errno\<close>, when it is set.\<close>

definition emulated_aligned_alloc :: "(u64 \<Rightarrow> u64 \<Rightarrow> ('h, u64) call) \<Rightarrow> u64 \<Rightarrow> u64 \<Rightarrow> ('h, u64 \<times> int option) call" where
  "emulated_aligned_alloc libc_memalign alignment sz s =
     (if alignment AND (alignment - 1) \<noteq> 0 \<or> sz AND (alignment - 1) \<noteq> 0 then ((0, Some EINVAL), s)
      else case libc_memalign alignment sz s of (p, s) \<Rightarrow> ((p, None), s))"

definition aligned_alloc ::
  "(u64 \<Rightarrow> u64 \<Rightarrow> ('h, u64 \<times> int option) call) option \<Rightarrow> (u64 \<Rightarrow> u64 \<Rightarrow> ('h, u64) call) \<Rightarrow> u64 \<Rightarrow> u64 \<Rightarrow> ('h, u64 \<times> int option) call" where
  "aligned_alloc real_aligned_alloc libc_memalign alignment sz =
     with_fallback (map_option (\<lambda>f. f alignment sz) real_aligned_alloc) (emulated_aligned_alloc libc_memalign alignment sz)"

text \<open>\<open>powerof2\<close> of \<open>sys/param.h\<close>. The result is the return value and the pointer stored through \<open>memptr\<close>, when it is.\<close>

definition powerof2 :: "u64 \<Rightarrow> bool" where
  "powerof2 x \<longleftrightarrow> (x - 1) AND x = 0"

definition emulated_posix_memalign :: "(u64 \<Rightarrow> u64 \<Rightarrow> ('h, u64) call) \<Rightarrow> u64 \<Rightarrow> u64 \<Rightarrow> ('h, int \<times> u64 option) call" where
  "emulated_posix_memalign libc_memalign alignment sz s =
     (if alignment mod 8 \<noteq> 0 \<or> \<not> powerof2 (alignment div 8) \<or> alignment = 0 then ((EINVAL, None), s)
      else case libc_memalign alignment sz s of (mem, s) \<Rightarrow>
        if mem \<noteq> 0 then ((0, Some mem), s) else ((ENOMEM, None), s))"

definition posix_memalign ::
  "(u64 \<Rightarrow> u64 \<Rightarrow> ('h, int \<times> u64 option) call) option \<Rightarrow> (u64 \<Rightarrow> u64 \<Rightarrow> ('h, u64) call) \<Rightarrow> u64 \<Rightarrow> u64 \<Rightarrow> ('h, int \<times> u64 option) call" where
  "posix_memalign real_posix_memalign libc_memalign alignment sz =
     with_fallback (map_option (\<lambda>f. f alignment sz) real_posix_memalign) (emulated_posix_memalign libc_memalign alignment sz)"

text \<open>
  The wrappers of the loader have no fallback: they run the initialisation again and call the real function, whether
  it is known by then or not. \<open>begin\<close> is the function's address after that run.
\<close>

definition dl_wrapper :: "('h, 'r) call option \<Rightarrow> ('h, 'r) call option \<Rightarrow> int \<times> 'h \<Rightarrow> ('r \<times> int \<times> 'h) option" where
  "dl_wrapper real after_begin s =
     (case (case real of None \<Rightarrow> after_begin | Some f \<Rightarrow> Some f) of None \<Rightarrow> None | Some f \<Rightarrow> Some (counted f s))"

subsection \<open>Blocking by environment variables\<close>

lemma strtok_shorter:
  assumes "strtok d s = (Some tok, rest)"
  shows "length rest < length s"
proof -
  let ?s = "dropWhile (\<lambda>c. c = d) s"
  have "?s \<noteq> []" "rest = drop 1 (dropWhile (\<lambda>c. c \<noteq> d) ?s)"
    using assms by (auto simp: strtok_def Let_def split: if_splits)
  then have "length rest < length ?s"
    using length_dropWhile_le [of "\<lambda>c. c \<noteq> d" ?s] by (cases ?s) auto
  also have "\<dots> \<le> length s" by (rule length_dropWhile_le)
  finally show ?thesis .
qed

function strtok_all :: "u8 \<Rightarrow> bytes \<Rightarrow> bytes list" where
  "strtok_all d s = (case strtok d s of (None, _) \<Rightarrow> [] | (Some tok, rest) \<Rightarrow> tok # strtok_all d rest)"
  by pat_completeness auto
termination
  by (relation "measure (\<lambda>(d, s). length s)") (auto intro: strtok_shorter [OF sym])

declare strtok_all.simps [simp del]

record block_env =
  wildcard_matches :: "bytes \<Rightarrow> bytes \<Rightarrow> bool"
  names_alloc :: "int option"
  exe_link :: "bytes option"
  own_uid :: nat
  own_user :: "bytes option"
  own_gid :: nat
  own_group :: "bytes option"
  disable_on_path :: "bytes option"
  disable_on_users :: "bytes option"
  disable_on_groups :: "bytes option"

fun block_on_path :: "(bytes \<Rightarrow> bytes \<Rightarrow> bool) \<Rightarrow> bytes \<Rightarrow> bytes list \<Rightarrow> ulp_error \<Rightarrow> ulp_error" where
  "block_on_path match path [] e = e"
| "block_on_path match path (w # ws) e =
     (if match w path then set_libpulp_error_state EUSRBLOCKED e else block_on_path match path ws e)"

text \<open>
  The link to the executable: \<open>None\<close> when it cannot be read. Then, and when the path fills the buffer, the error
  state is set and the terminating NUL is written outside the buffer.
\<close>

definition maybe_disable_livepatching_on_path :: "block_env \<Rightarrow> ulp_error \<Rightarrow> ulp_error option" where
  "maybe_disable_livepatching_on_path env e =
     (case disable_on_path env of
        None \<Rightarrow> Some e
      | Some names \<Rightarrow>
          (case names_alloc env of
             Some errno \<Rightarrow> Some (set_libpulp_error_state errno e)
           | None \<Rightarrow>
               (case exe_link env of
                  None \<Rightarrow> None
                | Some path \<Rightarrow> if length path \<ge> PATH_MAX then None
                    else Some (block_on_path (wildcard_matches env) path (strtok_all colon names) e))))"

text \<open>The loop that users and groups share: a number is compared with the id, anything else is a pattern for the name.\<close>

definition strtoul10 :: "bytes \<Rightarrow> nat" where
  "strtoul10 cs = min (digits_val 0 cs) (2 ^ 64 - 1)"

fun block_on_id :: "(bytes \<Rightarrow> bytes \<Rightarrow> bool) \<Rightarrow> nat \<Rightarrow> bytes option \<Rightarrow> bytes list \<Rightarrow> ulp_error \<Rightarrow> ulp_error" where
  "block_on_id match i nm [] e = e"
| "block_on_id match i nm (w # ws) e =
     (if isnumber (Some w) \<and> strtoul10 w = i then set_libpulp_error_state EUSRBLOCKED e
      else case nm of
        Some n \<Rightarrow> if match w n then set_libpulp_error_state EUSRBLOCKED e else block_on_id match i nm ws e
      | None \<Rightarrow> block_on_id match i nm ws e)"

definition maybe_disable_livepatching_on_user :: "block_env \<Rightarrow> ulp_error \<Rightarrow> ulp_error" where
  "maybe_disable_livepatching_on_user env e =
     (case disable_on_users env of
        None \<Rightarrow> e
      | Some names \<Rightarrow>
          (case names_alloc env of
             Some errno \<Rightarrow> set_libpulp_error_state errno e
           | None \<Rightarrow> block_on_id (wildcard_matches env) (own_uid env) (own_user env) (strtok_all colon names) e))"

definition maybe_disable_livepatching_on_group :: "block_env \<Rightarrow> ulp_error \<Rightarrow> ulp_error" where
  "maybe_disable_livepatching_on_group env e =
     (case disable_on_groups env of
        None \<Rightarrow> e
      | Some names \<Rightarrow>
          (case names_alloc env of
             Some errno \<Rightarrow> set_libpulp_error_state errno e
           | None \<Rightarrow> block_on_id (wildcard_matches env) (own_gid env) (own_group env) (strtok_all colon names) e))"

subsection \<open>Initialisation\<close>

text \<open>The layouts of \<open>_rtld_global\<close> libpulp knows.\<close>

datatype rtld_layout = RTLD_2_31 | RTLD_2_35 | RTLD_2_42

datatype ld_locks = LdCrash | LdUnset | LdLocks rtld_layout

definition get_ld_global_locks :: "u64 \<Rightarrow> bytes \<Rightarrow> ld_locks" where
  "get_ld_global_locks rtld_global libc_ver =
     (if rtld_global = 0 then LdCrash
      else case strtok dot libc_ver of
        (None, _) \<Rightarrow> LdCrash
      | (Some major, rest) \<Rightarrow>
          (case strtok dot rest of
             (None, _) \<Rightarrow> LdCrash
           | (Some minor, _) \<Rightarrow>
               (let minor = atoi_digits minor
                in if atoi_digits major = 2 then
                     (if 31 \<le> minor \<and> minor < 35 then LdLocks RTLD_2_31
                      else if 35 \<le> minor \<and> minor < 42 then LdLocks RTLD_2_35
                      else if 42 \<le> minor then LdLocks RTLD_2_42
                      else LdCrash)
                   else LdUnset)))"

definition libdl_functions :: "string list" where
  "libdl_functions = [''dlopen'', ''dlmopen'', ''dlclose'', ''dladdr'', ''dladdr1'', ''dlinfo'']"

definition libc_functions :: "string list" where
  "libc_functions = [''free'', ''malloc'', ''calloc'', ''realloc'', ''valloc'', ''pvalloc'', ''memalign'', ''aligned_alloc'',
     ''posix_memalign'']"

text \<open>\<open>valloc\<close> is not checked.\<close>

definition libc_checked :: "string list" where
  "libc_checked = [''free'', ''malloc'', ''calloc'', ''realloc'', ''pvalloc'', ''memalign'', ''aligned_alloc'', ''posix_memalign'']"

fun check_functions :: "(string \<Rightarrow> u64) \<Rightarrow> ulp_error \<Rightarrow> string list \<Rightarrow> bool \<times> ulp_error \<Rightarrow> bool \<times> ulp_error" where
  "check_functions real code [] s = s"
| "check_functions real code (f # fs) (ok, e) =
     (if real f = 0 then check_functions real code fs (False, set_libpulp_error_state code e)
      else check_functions real code fs (ok, e))"

record begin_env = block_env +
  dlsym_next :: "string \<Rightarrow> u64"
  rtld_global :: u64
  libc_version :: bytes
  lock_values :: "rtld_layout \<Rightarrow> int \<times> int"

definition ulp_asunsafe_begin :: "begin_env \<Rightarrow> (string \<Rightarrow> u64) \<times> ulp_error \<Rightarrow> ((string \<Rightarrow> u64) \<times> ulp_error) option" where
  "ulp_asunsafe_begin env = (\<lambda>(real, e).
     if real ''malloc'' \<noteq> 0 then Some (real, e)
     else
       let real = (\<lambda>f. if f \<in> set libdl_functions then dlsym_next env f else real f);
           (ok, e) = check_functions real ENOLIBDL libdl_functions (True, e);
           real = (\<lambda>f. if f \<in> set libc_functions then dlsym_next env f else real f);
           (ok, e) = check_functions real ENOLIBC libc_checked (ok, e)
       in if \<not> ok then Some (real, e)
          else case get_ld_global_locks (rtld_global env) (libc_version env) of
            LdCrash \<Rightarrow> None
          | LdUnset \<Rightarrow> None
          | LdLocks layout \<Rightarrow>
              (case lock_values env layout of (l, w) \<Rightarrow>
                 (case maybe_disable_livepatching_on_path (block_env.truncate env) (snd (dl_locks_held l w e)) of
                    None \<Rightarrow> None
                  | Some e \<Rightarrow> Some (real, maybe_disable_livepatching_on_group (block_env.truncate env)
                      (maybe_disable_livepatching_on_user (block_env.truncate env) e)))))"

subsection \<open>Threads and the probe\<close>

text \<open>
  The threads of a process: \<open>inside\<close> are the calls of wrappers that are counted, \<open>unhooked\<close> those that took the fallback because
  the initialisation had not run. A thread enters and leaves with one atomic addition each. The probe is made by a routine of libpulp while
  the tool has stopped every thread.
\<close>

record asunsafe_sys =
  flag :: int
  inside :: "int multiset"
  unhooked :: "int multiset"
  hooked :: bool
  halted :: bool

definition asunsafe_init :: asunsafe_sys where
  "asunsafe_init = \<lparr>flag = 0, inside = {#}, unhooked = {#}, hooked = False, halted = False\<rparr>"

inductive asunsafe_step :: "asunsafe_sys \<Rightarrow> asunsafe_sys \<Rightarrow> bool" where
  Hook: "\<not> halted s \<Longrightarrow> asunsafe_step s (s\<lparr>hooked := True\<rparr>)"
| Enter: "\<not> halted s \<Longrightarrow> hooked s \<Longrightarrow> asunsafe_step s (s\<lparr>flag := flag s + 1, inside := add_mset t (inside s)\<rparr>)"
| Leave: "\<not> halted s \<Longrightarrow> t \<in># inside s \<Longrightarrow> asunsafe_step s (s\<lparr>flag := flag s - 1, inside := inside s - {#t#}\<rparr>)"
| Enter_Unhooked: "\<not> halted s \<Longrightarrow> \<not> hooked s \<Longrightarrow> asunsafe_step s (s\<lparr>unhooked := add_mset t (unhooked s)\<rparr>)"
| Leave_Unhooked: "\<not> halted s \<Longrightarrow> t \<in># unhooked s \<Longrightarrow> asunsafe_step s (s\<lparr>unhooked := unhooked s - {#t#}\<rparr>)"
| Halt: "asunsafe_step s (s\<lparr>halted := True\<rparr>)"
| Resume: "asunsafe_step s (s\<lparr>halted := False\<rparr>)"
| Probe: "halted s \<Longrightarrow> asunsafe_probe l w (flag s, e) = (r, fl, e') \<Longrightarrow> asunsafe_step s (s\<lparr>flag := fl\<rparr>)"

inductive_cases asunsafe_stepE: "asunsafe_step s s'"

lemma probe_flag: "asunsafe_probe l w (fl, e) = (r, fl', e') \<Longrightarrow> fl' = fl"
  by (auto simp: asunsafe_probe_def ulp_asunsafe_trylock_def ulp_asunsafe_unlock_def dl_locks_held_def Let_def split: if_splits)

lemma flag_counts:
  assumes "asunsafe_step\<^sup>*\<^sup>* asunsafe_init s"
  shows "flag s = int (size (inside s))"
  using assms
proof (induction rule: rtranclp_induct)
  case base
  then show ?case by (simp add: asunsafe_init_def)
next
  case (step s s')
  from step.hyps(2) show ?case
  proof cases
    case (Leave t)
    then have "size (inside s) = Suc (size (inside s - {#t#}))"
      by (metis insert_DiffM size_add_mset)
    then show ?thesis using Leave step.IH by simp
  next
    case (Probe l w e r fl e')
    then show ?thesis using probe_flag step.IH by simp
  qed (use step.IH in simp_all)
qed


text \<open>
  The entry points' guard is the probe: with the busy bit of the model set by the probe, the guard returns
  what the sequence of tests in the code returns.
\<close>

theorem entry_guard_probes:
  assumes "l \<in> {0, 1}" "w \<in> {0, 1}" and "asunsafe_probe l w (fl, error_state s) = (r, fl', e')"
    and "error_state s = ENONE" "num_insns (queue s) \<le> 0" "qsize (queue s) \<le> 0"
  shows "entry_guard (env\<lparr>asunsafe_busy := (fl \<noteq> 0 \<or> l \<noteq> 0 \<or> w \<noteq> 0)\<rparr>) s = (if r = 0 then None else Some r, s\<lparr>error_state := e'\<rparr>)"
  using assms
  by (auto simp: entry_guard_def insnq_ensure_emptiness_def error_state_defs asunsafe_probe_def ulp_asunsafe_trylock_def
      dl_locks_held_def split: if_splits)

text \<open>
  A loader lock that is held with other threads waiting has the value 2 in the C library. The probe does not only
  report the process as busy then: its assertion puts libpulp into an error state for good.
\<close>

theorem contended_lock_disables:
  assumes "2 \<le> l \<or> 2 \<le> w"
  shows "asunsafe_probe l w (fl, e) = (EAGAIN, fl, EUNKNOWN)"
  using assms
  by (auto simp: asunsafe_probe_def ulp_asunsafe_trylock_def dl_locks_held_def error_state_defs Let_def)

subsection \<open>The wrappers return the counter\<close>

definition balanced :: "('h, 'r) call \<Rightarrow> bool" where
  "balanced f \<longleftrightarrow> (\<forall>s. fst (snd (f s)) = fst s)"

lemma with_fallback_balanced:
  assumes "balanced libc" and "\<And>f. real = Some f \<Longrightarrow> balanced f"
  shows "balanced (with_fallback real libc)"
proof (cases real)
  case (Some f)
  have "fst (snd (counted f (fl, h))) = fl" for fl h
  proof -
    obtain r fl' h' where r: "f (fl + 1, h) = (r, fl', h')" by (metis prod_cases3)
    then have "fl' = fl + 1" using assms(2) [OF Some] by (metis balanced_def fst_conv snd_conv)
    then show ?thesis using r by (simp add: counted_def)
  qed
  then show ?thesis using Some by (simp add: with_fallback_def balanced_def)
qed (use assms(1) in \<open>simp add: with_fallback_def\<close>)

text \<open>
  A wrapper counts its caller while the real function runs and not after: the counter the real function sees
  is one higher than before, and the counter behind the call is the one before it.
\<close>

theorem wrappers_balanced:
  assumes "balanced (f x)" and "balanced (libc x)"
  shows "balanced (malloc (Some f) libc x) \<and> balanced (malloc None libc x) \<and>
    malloc (Some f) libc x (fl, h) = (case f x (fl + 1, h) of (r, fl', h') \<Rightarrow> (r, fl, h'))"
proof -
  have b: "balanced (counted (f x))" using with_fallback_balanced [of "libc x" "Some (f x)"] assms by (simp add: with_fallback_def)
  obtain r fl' h' where r: "f x (fl + 1, h) = (r, fl', h')" by (metis prod_cases3)
  then have "fl' = fl + 1" using assms(1) by (metis balanced_def fst_conv snd_conv)
  then show ?thesis using assms b r by (simp add: malloc_def with_fallback_def counted_def)
qed

subsection \<open>Emulated alignment\<close>

lemma top_bit:
  fixes x :: u64
  assumes "2 ^ n \<le> unat x" "unat x < 2 ^ (n + 1)"
  shows "bit x n"
proof -
  have "unat x div 2 ^ n = 1" using assms by (simp add: div_nat_eqI)
  then have "bit (unat x) n" by (simp add: bit_iff_odd)
  then show ?thesis by (simp add: bit_unsigned_iff)
qed

lemma powerof2_iff: "powerof2 x \<longleftrightarrow> x = 0 \<or> (\<exists>n < 64. x = 2 ^ n)"
proof
  assume p: "powerof2 x"
  show "x = 0 \<or> (\<exists>n < 64. x = 2 ^ n)"
  proof (rule disjCI)
    assume not: "\<not> (\<exists>n < 64. x = 2 ^ n)"
    show "x = 0"
    proof (rule ccontr)
      assume "x \<noteq> 0"
      then have "1 \<le> unat x" by (simp add: Suc_le_eq unat_gt_0)
      then obtain n where n: "2 ^ n \<le> unat x" "unat x < 2 ^ (n + 1)" using ex_power_ivl1 [of 2 "unat x"] by auto
      then have "(2 :: nat) ^ n < 2 ^ 64" using unsigned_less [of x, where 'a = nat] by (simp add: le_less_trans)
      then have "n < 64" by (rule power_less_imp_less_exp [rotated]) simp
      have "(2 :: u64) ^ n = of_nat (2 ^ n)" by simp
      then have u: "unat ((2 :: u64) ^ n) = 2 ^ n"
        using \<open>n < 64\<close> by (simp only: unsigned_of_nat) (simp add: take_bit_nat_eq_self)
      with not \<open>n < 64\<close> n(1) have "2 ^ n < unat x" by (metis le_neq_implies_less word_unat_eq_iff)
      moreover have "unat (x - 1) = unat x - 1" using \<open>x \<noteq> 0\<close> by (simp add: unat_minus_one)
      ultimately have "bit (x - 1) n" using n(2) by (intro top_bit) auto
      moreover have "bit x n" using n by (rule top_bit)
      ultimately have "bit ((x - 1) AND x) n" by (simp add: bit_and_iff)
      then show False using p by (simp add: powerof2_def)
    qed
  qed
next
  assume "x = 0 \<or> (\<exists>n < 64. x = 2 ^ n)"
  moreover have "((2 :: u64) ^ n - 1) AND 2 ^ n = 0" for n
    by (rule bit_eqI) (simp add: bit_simps flip: mask_eq_exp_minus_1)
  ultimately show "powerof2 x" by (auto simp: powerof2_def)
qed

lemma powerof2_unat: "powerof2 x \<longleftrightarrow> x = 0 \<or> (\<exists>n. unat x = 2 ^ n)"
proof -
  have u: "unat ((2 :: u64) ^ n) = 2 ^ n" if "n < 64" for n
  proof -
    have "(2 :: u64) ^ n = of_nat (2 ^ n)" by simp
    then show ?thesis using that by (simp only: unsigned_of_nat) (simp add: take_bit_nat_eq_self)
  qed
  have "n < 64" if "unat x = 2 ^ n" for n
  proof -
    have "(2 :: nat) ^ n < 2 ^ 64" using unsigned_less [of x, where 'a = nat] that by simp
    then show ?thesis by (rule power_less_imp_less_exp [rotated]) simp
  qed
  then show ?thesis unfolding powerof2_iff by (metis u word_unat_eq_iff)
qed

text \<open>
  The emulation of \<open>posix_memalign\<close> keeps the contract of POSIX: a request is refused with \<open>EINVAL\<close>, without an allocation,
  exactly when the alignment is not a power of two that is a multiple of the size of a pointer; otherwise the result is the
  block of \<open>memalign\<close>, or \<open>ENOMEM\<close>, and the pointer is stored only in case of success.
\<close>

theorem posix_memalign_emulation:
  assumes "libc_memalign a sz s = (mem, s')"
  shows "posix_memalign None libc_memalign a sz s =
    (if \<exists>n \<ge> 3. unat a = 2 ^ n then (if mem \<noteq> 0 then ((0, Some mem), s') else ((ENOMEM, None), s'))
     else ((EINVAL, None), s))"
proof -
  have z: "a div 8 = 0 \<longleftrightarrow> unat a < 8" "a mod 8 = 0 \<longleftrightarrow> 8 dvd unat a" "a = 0 \<longleftrightarrow> unat a = 0"
    by (simp_all add: word_unat_eq_iff unat_div unat_mod mod_eq_0_iff_dvd div_eq_0_iff)
  have "(8 :: nat) * 2 ^ n = 2 ^ (n + 3)" for n by (simp add: power_add)
  then have "(\<exists>n \<ge> 3. unat a = 2 ^ n) \<longleftrightarrow> (\<exists>n. unat a = 8 * 2 ^ n)"
    by (metis le_add2 le_add_diff_inverse2)
  also have "\<dots> \<longleftrightarrow> 8 dvd unat a \<and> unat a \<noteq> 0 \<and> (\<exists>n. unat a div 8 = 2 ^ n)"
    by (auto elim: dvdE)
  also have "\<dots> \<longleftrightarrow> \<not> (a mod 8 \<noteq> 0 \<or> \<not> powerof2 (a div 8) \<or> a = 0)"
    using z by (auto simp: powerof2_unat unat_div dest: dvd_imp_le)
  finally have "(\<exists>n \<ge> 3. unat a = 2 ^ n) \<longleftrightarrow> \<not> (a mod 8 \<noteq> 0 \<or> \<not> powerof2 (a div 8) \<or> a = 0)" .
  then show ?thesis using assms
    by (simp add: posix_memalign_def with_fallback_def emulated_posix_memalign_def)
qed

subsection \<open>Blocking\<close>

text \<open>The fields of a list between its separators.\<close>

fun fields_of :: "u8 \<Rightarrow> bytes \<Rightarrow> bytes list" where
  "fields_of d [] = [[]]"
| "fields_of d (c # cs) = (if c = d then [] # fields_of d cs else (c # hd (fields_of d cs)) # tl (fields_of d cs))"

lemma fields_of_not_Nil [simp]: "fields_of d s \<noteq> []"
  by (induction s) auto

lemma fields_of_append: "d \<notin> set t \<Longrightarrow> fields_of d (t @ d # s) = t # fields_of d s"
  by (induction t) auto

lemma fields_of_plain: "d \<notin> set t \<Longrightarrow> fields_of d t = [t]"
  by (induction t) auto

lemma strtok_all_fields: "strtok_all d s = filter (\<lambda>t. t \<noteq> []) (fields_of d s)"
proof (induction "length s" arbitrary: s rule: less_induct)
  case less
  show ?case
  proof (cases s)
    case Nil
    then show ?thesis by (subst strtok_all.simps) (simp add: strtok_def)
  next
    case (Cons c cs)
    show ?thesis
    proof (cases "c = d")
      case True
      then have "strtok d s = strtok d cs" using Cons by (simp add: strtok_def)
      then have "strtok_all d s = strtok_all d cs" by (subst (1 2) strtok_all.simps) simp
      then show ?thesis using less.hyps [of cs] Cons True by simp
    next
      case False
      let ?t = "takeWhile (\<lambda>x. x \<noteq> d) s" let ?r = "dropWhile (\<lambda>x. x \<noteq> d) s"
      have tok: "strtok d s = (Some ?t, drop 1 ?r)" using Cons False by (simp add: strtok_def)
      have ne: "?t \<noteq> []" using Cons False by simp
      have nin: "d \<notin> set ?t" by (metis (mono_tags, lifting) set_takeWhileD)
      have "strtok_all d (drop 1 ?r) = filter (\<lambda>t. t \<noteq> []) (fields_of d (drop 1 ?r))"
        by (rule less.hyps) (rule strtok_shorter [OF tok])
      then have all: "strtok_all d s = ?t # filter (\<lambda>t. t \<noteq> []) (fields_of d (drop 1 ?r))"
        by (subst strtok_all.simps) (simp add: tok)
      show ?thesis
      proof (cases ?r)
        case Nil
        then have "s = ?t" by (metis append.right_neutral takeWhile_dropWhile_id)
        then have "fields_of d s = [?t]" using fields_of_plain [OF nin] by simp
        then show ?thesis using all Nil ne by simp
      next
        case (Cons x xs)
        then have "x = d" by (metis (mono_tags, lifting) hd_dropWhile list.discI list.sel(1))
        then have "s = ?t @ d # xs" using Cons by (metis takeWhile_dropWhile_id)
        then have "fields_of d s = ?t # fields_of d xs" using fields_of_append [OF nin] by metis
        then show ?thesis using all Cons ne by simp
      qed
    qed
  qed
qed

text \<open>An entry of the list names the user: by number, or by a pattern for the name.\<close>

definition names_id :: "(bytes \<Rightarrow> bytes \<Rightarrow> bool) \<Rightarrow> nat \<Rightarrow> bytes option \<Rightarrow> bytes \<Rightarrow> bool" where
  "names_id match i nm w \<longleftrightarrow> isnumber (Some w) \<and> strtoul10 w = i \<or> (\<exists>n. nm = Some n \<and> match w n)"

lemma block_on_id_iff:
  "block_on_id match i nm ws e = (if \<exists>w \<in> set ws. names_id match i nm w then EUSRBLOCKED else e)"
  by (induction ws) (auto simp: names_id_def set_libpulp_error_state_def split: option.split)

lemma block_on_path_iff:
  "block_on_path match path ws e = (if \<exists>w \<in> set ws. match w path then EUSRBLOCKED else e)"
  by (induction ws) (auto simp: set_libpulp_error_state_def)

lemma user_blocking_eq:
  assumes "disable_on_users env = Some names" "names_alloc env = None"
  shows "maybe_disable_livepatching_on_user env e =
    (if \<exists>w \<in> set (fields_of colon names). w \<noteq> [] \<and> names_id (wildcard_matches env) (own_uid env) (own_user env) w
     then EUSRBLOCKED else e)"
  using assms by (auto simp: maybe_disable_livepatching_on_user_def block_on_id_iff strtok_all_fields)

text \<open>
  Blocking by user: the process is blocked exactly when one of the colon separated, non-empty entries of
  \<open>LIBPULP_DISABLE_ON_USERS\<close> is the number of its user or a pattern that matches the user's name; otherwise the error
  state is not changed.
\<close>

theorem user_blocking:
  assumes "disable_on_users env = Some names" "names_alloc env = None"
  shows "maybe_disable_livepatching_on_user env e =
    (if \<exists>w \<in> set (fields_of colon names). w \<noteq> [] \<and> names_id (wildcard_matches env) (own_uid env) (own_user env) w
     then EUSRBLOCKED else e)"
  using assms by (rule user_blocking_eq)

lemma check_functions_ok: "\<forall>f \<in> set fs. real f \<noteq> 0 \<Longrightarrow> check_functions real code fs s = s"
  by (induction fs) (cases s, auto)+

text \<open>
  A block by the user hides a failed initialisation: when the loader's locks have values libpulp cannot
  handle, the initialisation records an error; if the user is also on the list of blocked users, that error is overwritten by
  \<open>EUSRBLOCKED\<close>, which the switch of the \<open>set_patchable\<close> command then clears, so that the library patches
  with locks it cannot read. Without the list the error stays, and the switch does not clear it.
\<close>

theorem blocking_hides_error:
  assumes "real ''malloc'' = 0" and "\<forall>f \<in> set libdl_functions \<union> set libc_functions. dlsym_next env f \<noteq> 0"
    and "get_ld_global_locks (rtld_global env) (libc_version env) = LdLocks layout"
    and "lock_values env layout = (l, w)" "l \<notin> {0, 1} \<or> w \<notin> {0, 1}"
    and "disable_on_path env = None" "disable_on_groups env = None" "names_alloc env = None"
  shows "\<exists>real' e'. ulp_asunsafe_begin env (real, ENONE) = Some (real', e') \<and>
    ulp_enable_or_disable_patching e' =
      (if \<exists>names. disable_on_users env = Some names \<and> (\<exists>w \<in> set (fields_of colon names). w \<noteq> [] \<and>
            names_id (wildcard_matches env) (own_uid env) (own_user env) w)
       then ENONE else EUNKNOWN)"
proof -
  let ?b = "block_env.truncate env"
  have b: "disable_on_path ?b = None" "disable_on_groups ?b = None" "names_alloc ?b = None"
    "disable_on_users ?b = disable_on_users env" "wildcard_matches ?b = wildcard_matches env"
    "own_uid ?b = own_uid env" "own_user ?b = own_user env"
    using assms(6-8) by (simp_all add: block_env.defs)
  have locks: "snd (dl_locks_held l w ENONE) = EUNKNOWN"
    using assms(5) by (auto simp: dl_locks_held_def error_state_defs Let_def)
  let ?e = "maybe_disable_livepatching_on_user ?b EUNKNOWN"
  have chk: "set libc_checked \<subseteq> set libc_functions" "set libdl_functions \<inter> set libc_functions = {}"
    by (auto simp: libc_checked_def libc_functions_def libdl_functions_def)
  have c1: "check_functions (\<lambda>f. if f \<in> set libdl_functions then dlsym_next env f else real f) ENOLIBDL libdl_functions (True, ENONE) = (True, ENONE)"
    using assms(2) by (intro check_functions_ok) auto
  have c2: "check_functions (\<lambda>f. if f \<in> set libc_functions then dlsym_next env f
      else if f \<in> set libdl_functions then dlsym_next env f else real f) ENOLIBC libc_checked (True, ENONE) = (True, ENONE)"
    using assms(2) chk by (intro check_functions_ok) auto
  obtain real' where run: "ulp_asunsafe_begin env (real, ENONE) = Some (real', ?e)"
    using assms(1,3,4) locks b(1,2) c1 c2
    by (simp add: ulp_asunsafe_begin_def Let_def maybe_disable_livepatching_on_path_def maybe_disable_livepatching_on_group_def)
  have "?e = (if \<exists>names. disable_on_users env = Some names \<and> (\<exists>w \<in> set (fields_of colon names). w \<noteq> [] \<and>
            names_id (wildcard_matches env) (own_uid env) (own_user env) w) then EUSRBLOCKED else EUNKNOWN)"
  proof (cases "disable_on_users env")
    case None
    then show ?thesis using b by (simp add: maybe_disable_livepatching_on_user_def)
  next
    case (Some names)
    then show ?thesis using user_blocking_eq [of ?b names] b by simp
  qed
  then have "ulp_enable_or_disable_patching ?e = (if \<exists>names. disable_on_users env = Some names \<and>
      (\<exists>w \<in> set (fields_of colon names). w \<noteq> [] \<and> names_id (wildcard_matches env) (own_uid env) (own_user env) w)
      then ENONE else EUNKNOWN)"
    by (simp add: ulp_enable_or_disable_patching_def set_libpulp_error_state_def)
  with run show ?thesis by blast
qed

subsection \<open>Runs\<close>

definition demo_block :: begin_env where
  "demo_block = \<lparr>wildcard_matches = (=), names_alloc = None, exe_link = Some (str ''/bin/app''), own_uid = 1000,
     own_user = Some (str ''joe''), own_gid = 100, own_group = None, disable_on_path = None,
     disable_on_users = Some (str '':root:1000''), disable_on_groups = None, dlsym_next = (\<lambda>_. 1), rtld_global = 1,
     libc_version = str ''2.38'', lock_values = (\<lambda>_. (2, 0))\<rparr>"

lemma demo_layout: "get_ld_global_locks 1 (str ''2.38'') = LdLocks RTLD_2_35"
  by (simp add: get_ld_global_locks_def strtok_def str_def atoi_digits_def Let_def)

theorem blocking_hides_error_witness:
  "\<exists>real' e'. ulp_asunsafe_begin demo_block (\<lambda>_. 0, ENONE) = Some (real', e') \<and> ulp_enable_or_disable_patching e' = ENONE"
proof -
  have "str ''1000'' \<in> set (fields_of colon (str '':root:1000''))" "isnumber (Some (str ''1000''))" "strtoul10 (str ''1000'') = 1000"
    "str ''1000'' \<noteq> []" by (simp_all add: str_def isnumber_def isdigit_def strtoul10_def)
  then have "\<exists>w \<in> set (fields_of colon (str '':root:1000'')). w \<noteq> [] \<and>
      names_id (wildcard_matches demo_block) (own_uid demo_block) (own_user demo_block) w"
    by (auto simp: names_id_def demo_block_def)
  then show ?thesis
    using blocking_hides_error [of "\<lambda>_. 0" demo_block RTLD_2_35 2 0] demo_layout by (simp add: demo_block_def)
qed

theorem user_blocking_witness:
  "maybe_disable_livepatching_on_user (block_env.truncate demo_block) ENONE = EUSRBLOCKED"
proof -
  have "str ''1000'' \<in> set (fields_of colon (str '':root:1000''))" "isnumber (Some (str ''1000''))" "strtoul10 (str ''1000'') = 1000"
    "str ''1000'' \<noteq> []" by (simp_all add: str_def isnumber_def isdigit_def strtoul10_def)
  then show ?thesis
    using user_blocking [of "block_env.truncate demo_block" "str '':root:1000''" ENONE]
    by (auto simp: names_id_def demo_block_def block_env.defs)
qed


end
