(* ===== verification/Ptrace.thy ===== *)
theory Ptrace
  imports Insn_Queue
begin

text \<open>
  The tool's access to the memory of the live-patched process: the transfers of
  \<open>src/tools/ptrace.c\<close> and the tool's side of the instruction queue, \<open>src/tools/insn_queue.c\<close>.

  The target process is a memory \<open>mem\<close>; what the kernel answers is a parameter, the record
  \<open>kernel\<close>: \<open>peek_ok a\<close> says that a \<open>PTRACE_PEEKDATA\<close> or \<open>PTRACE_POKEDATA\<close> of the long at \<open>a\<close> succeeds,
  and \<open>vm_readv a n i\<close>, \<open>vm_writev a n i\<close> are the values the \<open>i\<close>-th \<open>process_vm_readv\<close> and
  \<open>process_vm_writev\<close> call of a transfer of \<open>n\<close> bytes at \<open>a\<close> returns, \<open>-e\<close> standing for the
  result \<open>-1\<close> with \<open>errno = e\<close>. A long is its eight bytes, in
  memory order. \<open>USE_VM_READV_WRITEV\<close> is defined in the source, so \<open>read_memory\<close>, \<open>read_long\<close> and
  \<open>write_bytes\<close> are the \<open>process_vm\<close> variants.
\<close>

subsection \<open>Transfers\<close>

record kernel =
  peek_ok :: "u64 \<Rightarrow> bool"
  vm_readv :: "u64 \<Rightarrow> nat \<Rightarrow> nat \<Rightarrow> int"
  vm_writev :: "u64 \<Rightarrow> nat \<Rightarrow> nat \<Rightarrow> int"

definition ptrace_poke :: "(u64 \<Rightarrow> bool) \<Rightarrow> u64 \<Rightarrow> bytes \<Rightarrow> mem \<Rightarrow> mem option" where
  "ptrace_poke acc a l m = (if acc a then Some (mem_write m a l) else None)"

definition ptrace_peek :: "(u64 \<Rightarrow> bool) \<Rightarrow> u64 \<Rightarrow> mem \<Rightarrow> bytes option" where
  "ptrace_peek acc a m = (if acc a then Some (mem_read m a 8) else None)"

fun write_longs :: "(u64 \<Rightarrow> bool) \<Rightarrow> nat \<Rightarrow> bytes \<Rightarrow> u64 \<Rightarrow> mem \<Rightarrow> int \<times> bytes \<times> u64 \<times> mem" where
  "write_longs acc 0 buf addr m = (0, buf, addr, m)"
| "write_longs acc (Suc k) buf addr m =
     (case ptrace_poke acc addr (take 8 buf) m of
        None \<Rightarrow> (1, buf, addr, m)
      | Some m' \<Rightarrow> write_longs acc k (drop 8 buf) (addr + 8) m')"

definition write_bytes_ptrace :: "(u64 \<Rightarrow> bool) \<Rightarrow> bytes \<Rightarrow> u64 \<Rightarrow> mem \<Rightarrow> int \<times> mem" where
  "write_bytes_ptrace acc buf addr m =
     (let n = length buf; num_longs = n div 8; num_remainders = n mod 8
      in case write_longs acc num_longs buf addr m of (r, lbuf, addr', m') \<Rightarrow>
           if r \<noteq> 0 then (1, m')
           else if num_remainders > 0 then
             (case ptrace_peek acc addr' m' of
                None \<Rightarrow> (1, m')
              | Some remainder \<Rightarrow>
                  (case ptrace_poke acc addr' (take num_remainders lbuf @ drop num_remainders remainder) m' of
                     None \<Rightarrow> (1, m')
                   | Some m'' \<Rightarrow> (0, m'')))
           else (0, m'))"

text \<open>
  The loops of \<open>read_memory\<close> and \<open>write_bytes\<close>: the \<open>iovec\<close>s are the same in every call, so each
  call transfers from the start of the range again. \<open>dst\<close> is what the destination buffer holds.
  The result is the return code and the buffer (or the memory); \<open>None\<close> is a loop that does not end.
\<close>

partial_function (option) vm_read_loop ::
  "(nat \<Rightarrow> int) \<Rightarrow> nat \<Rightarrow> u64 \<Rightarrow> mem \<Rightarrow> nat \<Rightarrow> nat \<Rightarrow> bytes \<Rightarrow> (int \<times> bytes) option" where
  "vm_read_loop ret len addr m i done dst =
     (if ret i < 0 then Some (- ret i, dst)
      else let dst' = take (nat (ret i)) (mem_read m addr len) @ drop (nat (ret i)) dst;
               done' = done + nat (ret i)
           in if done' = len then Some (0, dst')
              else vm_read_loop ret len addr m (Suc i) done' dst')"

partial_function (option) vm_write_loop ::
  "(nat \<Rightarrow> int) \<Rightarrow> bytes \<Rightarrow> u64 \<Rightarrow> nat \<Rightarrow> nat \<Rightarrow> mem \<Rightarrow> (int \<times> mem) option" where
  "vm_write_loop ret buf addr i done m =
     (if ret i < 0 then Some (- ret i, m)
      else let m' = mem_write m addr (take (nat (ret i)) buf);
               done' = done + nat (ret i)
           in if done' = length buf then Some (0, m')
              else vm_write_loop ret buf addr (Suc i) done' m')"

definition read_memory :: "kernel \<Rightarrow> nat \<Rightarrow> u64 \<Rightarrow> mem \<Rightarrow> bytes \<Rightarrow> (int \<times> bytes) option" where
  "read_memory k len addr m dst = vm_read_loop (vm_readv k addr len) len addr m 0 0 dst"

definition write_bytes :: "kernel \<Rightarrow> bytes \<Rightarrow> u64 \<Rightarrow> mem \<Rightarrow> (int \<times> mem) option" where
  "write_bytes k buf addr m = vm_write_loop (vm_writev k addr (length buf)) buf addr 0 0 m"

definition read_long :: "kernel \<Rightarrow> u64 \<Rightarrow> mem \<Rightarrow> bytes \<Rightarrow> (int \<times> bytes) option" where
  "read_long k addr m dst = read_memory k 8 addr m dst"

text \<open>The 64-bit and 32-bit fields of a structure that has been read from the target.\<close>

definition field64 :: "bytes \<Rightarrow> nat \<Rightarrow> u64" where
  "field64 bs off = bytes_u64 (take 8 (drop off bs))"

definition field32 :: "bytes \<Rightarrow> nat \<Rightarrow> u32" where
  "field32 bs off = bytes_u32 (take 4 (drop off bs))"

definition field16 :: "bytes \<Rightarrow> nat \<Rightarrow> nat" where
  "field16 bs off = of_le (take 2 (drop off bs))"

text \<open>
  The manual page of \<open>process_vm_readv\<close>: a transfer never splits a single \<open>iovec\<close> element, so with
  one element a call fails or transfers everything.
\<close>

definition vm_atomic :: "kernel \<Rightarrow> bool" where
  "vm_atomic k \<longleftrightarrow>
     (\<forall>a n i. vm_readv k a n i < 0 \<or> vm_readv k a n i = int n) \<and>
     (\<forall>a n i. vm_writev k a n i < 0 \<or> vm_writev k a n i = int n)"

lemma read_memory_atomic:
  assumes "vm_atomic k" and "length dst = len"
  shows "read_memory k len addr m dst =
           Some (if vm_readv k addr len 0 < 0 then (- vm_readv k addr len 0, dst) else (0, mem_read m addr len))"
proof -
  have "vm_readv k addr len 0 = int len" if "\<not> vm_readv k addr len 0 < 0"
    using assms(1) that by (auto simp: vm_atomic_def)
  then show ?thesis
    unfolding read_memory_def using assms(2) by (subst vm_read_loop.simps) (auto simp: Let_def)
qed

lemma write_bytes_atomic:
  assumes "vm_atomic k"
  shows "write_bytes k buf addr m =
           Some (if vm_writev k addr (length buf) 0 < 0 then (- vm_writev k addr (length buf) 0, m) else (0, mem_write m addr buf))"
proof -
  have "vm_writev k addr (length buf) 0 = int (length buf)" if "\<not> vm_writev k addr (length buf) 0 < 0"
    using assms(1) that by (meson vm_atomic_def)
  then show ?thesis
    unfolding write_bytes_def by (subst vm_write_loop.simps) (auto simp: Let_def)
qed

text \<open>The longs a transfer of \<open>n\<close> bytes at \<open>addr\<close> touches.\<close>

definition longs_ok :: "(u64 \<Rightarrow> bool) \<Rightarrow> u64 \<Rightarrow> nat \<Rightarrow> bool" where
  "longs_ok acc addr n \<longleftrightarrow> (\<forall>i < (n + 7) div 8. acc (addr + of_nat (8 * i)))"

lemma write_longs_ok:
  assumes "8 * k \<le> length buf" and "\<forall>i < k. acc (addr + of_nat (8 * i))"
  shows "write_longs acc k buf addr m =
           (0, drop (8 * k) buf, addr + of_nat (8 * k), mem_write m addr (take (8 * k) buf))"
  using assms
proof (induction k arbitrary: buf addr m)
  case (Suc k)
  have "acc addr" using Suc.prems(2)[rule_format, of 0] by simp
  moreover have "\<forall>i < k. acc (addr + 8 + of_nat (8 * i))"
    using Suc.prems(2) [rule_format, of "Suc i" for i] by (auto simp: algebra_simps)
  moreover have "mem_write m addr (take (8 + 8 * k) buf) =
      mem_write (mem_write m addr (take 8 buf)) (addr + 8) (take (8 * k) (drop 8 buf))"
    using Suc.prems(1) by (simp add: take_add mem_write_append min_def)
  ultimately show ?case
    using Suc.prems(1) Suc.IH [of "drop 8 buf" "addr + 8"]
    by (simp add: ptrace_poke_def algebra_simps)
qed simp

lemma write_longs_fail:
  assumes "8 * k \<le> length buf"
  shows "\<exists>j r b a. j \<le> k \<and> write_longs acc k buf addr m = (r, b, a, mem_write m addr (take (8 * j) buf)) \<and>
           (r = 0 \<longleftrightarrow> (\<forall>i < k. acc (addr + of_nat (8 * i))))"
  using assms
proof (induction k arbitrary: buf addr m)
  case (Suc k)
  show ?case
  proof (cases "acc addr")
    case True
    from Suc obtain j r b a where j: "j \<le> k"
      "write_longs acc k (drop 8 buf) (addr + 8) (mem_write m addr (take 8 buf)) =
         (r, b, a, mem_write (mem_write m addr (take 8 buf)) (addr + 8) (take (8 * j) (drop 8 buf)))"
      "r = 0 \<longleftrightarrow> (\<forall>i < k. acc (addr + 8 + of_nat (8 * i)))"
      by (metis (no_types, lifting) add_le_imp_le_diff length_drop mult_Suc_right add.commute)
    have "mem_write m addr (take (8 * Suc j) buf) =
        mem_write (mem_write m addr (take 8 buf)) (addr + 8) (take (8 * j) (drop 8 buf))"
      using Suc.prems by (simp add: take_add mem_write_append min_def)
    moreover have "(\<forall>i < Suc k. acc (addr + of_nat (8 * i))) \<longleftrightarrow>
        (\<forall>i < k. acc (addr + 8 + of_nat (8 * i)))"
      using True by (simp add: All_less_Suc2 algebra_simps)
    ultimately show ?thesis
      using True j by (intro exI [of _ "Suc j"] exI [of _ r] exI [of _ b] exI [of _ a])
        (simp add: ptrace_poke_def)
  next
    case False
    then have "\<not> (\<forall>i < Suc k. acc (addr + of_nat (8 * i)))" by (auto simp: All_less_Suc2)
    with False show ?thesis
      by (intro exI [of _ 0] exI [of _ 1] exI [of _ buf] exI [of _ addr]) (simp add: ptrace_poke_def)
  qed
qed simp

lemma mem_write_prefix:
  assumes "length xs = r" "r \<le> 8"
  shows "mem_write m a (xs @ drop r (mem_read m a 8)) = mem_write m a xs"
proof -
  have split: "mem_read m a 8 = mem_read m a r @ mem_read m (a + of_nat r) (8 - r)"
    using assms(2) mem_read_append [of m a r "8 - r"] by simp
  have "mem_read (mem_write m a xs) (a + of_nat r) (8 - r) = mem_read m (a + of_nat r) (8 - r)"
  proof (rule nth_equalityI)
    fix i assume i: "i < length (mem_read (mem_write m a xs) (a + of_nat r) (8 - r))"
    have "unat (of_nat r + of_nat i :: u64) = r + i"
      using i assms(2) by (simp add: unat_word_ariths unat_of_nat)
    then show "mem_read (mem_write m a xs) (a + of_nat r) (8 - r) ! i =
        mem_read m (a + of_nat r) (8 - r) ! i"
      using i assms by (simp add: mem_write_apply)
  qed simp
  then show ?thesis
    using assms split mem_write_read [of "mem_write m a xs" "a + of_nat r" "8 - r"]
    by (simp add: mem_write_append)
qed

lemma length_split: "\<exists>k r. length buf = 8 * k + r \<and> r < (8 :: nat)"
  by (rule exI [of _ "length buf div 8"], rule exI [of _ "length buf mod 8"]) simp

lemma write_bytes_ptrace_split:
  assumes "length buf = 8 * k + r" and "r < 8"
  shows "write_bytes_ptrace ac buf addr m =
     (case write_longs ac k buf addr m of (e, lbuf, addr', m') \<Rightarrow>
        if e \<noteq> 0 then (1, m')
        else if r > 0 then
          (if ac addr' then (0, mem_write m' addr' (take r lbuf @ drop r (mem_read m' addr' 8)))
           else (1, m'))
        else (0, m'))"
proof -
  have d: "length buf div 8 = k" and md: "length buf mod 8 = r" using assms by simp_all
  show ?thesis
    unfolding write_bytes_ptrace_def Let_def d md
    by (auto simp: ptrace_peek_def ptrace_poke_def split: prod.splits)
qed

lemma longs_ok_split:
  assumes "r < 8"
  shows "longs_ok ac addr (8 * k + r) \<longleftrightarrow>
     (\<forall>i < k. ac (addr + of_nat (8 * i))) \<and> (0 < r \<longrightarrow> ac (addr + of_nat (8 * k)))"
proof -
  have "(8 * k + r + 7) div 8 = (if r = 0 then k else Suc k)"
  proof (cases r)
    case (Suc q)
    have "8 * k + r + 7 = q + 8 * Suc k" using Suc by simp
    then have "(8 * k + r + 7) div 8 = Suc k + q div 8" by simp
    with Suc assms show ?thesis by simp
  qed simp
  then show ?thesis by (auto simp: longs_ok_def less_Suc_eq)
qed

lemma write_bytes_ptrace_ok:
  assumes "longs_ok ac addr (length buf)"
  shows "write_bytes_ptrace ac buf addr m = (0, mem_write m addr buf)"
proof -
  obtain k r where len: "length buf = 8 * k + r" and r: "r < 8" using length_split by blast
  from assms have all: "\<forall>i < k. ac (addr + of_nat (8 * i))"
    and last: "0 < r \<longrightarrow> ac (addr + of_nat (8 * k))"
    unfolding len longs_ok_split [OF r] by auto
  have le: "8 * k \<le> length buf" and lt: "length (take (8 * k) buf) = 8 * k"
    and ld: "length (drop (8 * k) buf) = r"
    using len by simp_all
  note split = mem_write_append [of m addr "take (8 * k) buf" "drop (8 * k) buf",
      unfolded append_take_drop_id lt]
  note longs = write_longs_ok [OF le all, of m]
  show ?thesis
  proof (cases "r = 0")
    case True
    then have "take (8 * k) buf = buf" using len by simp
    with longs True show ?thesis unfolding write_bytes_ptrace_split [OF len r] by simp
  next
    case False
    with longs last r ld mem_write_prefix [OF ld] show ?thesis
      unfolding write_bytes_ptrace_split [OF len r] split by simp
  qed
qed

lemma write_bytes_ptrace_prefix:
  "\<exists>j \<le> length buf. snd (write_bytes_ptrace ac buf addr m) = mem_write m addr (take j buf)"
proof (cases "longs_ok ac addr (length buf)")
  case True
  then show ?thesis by (intro exI [of _ "length buf"]) (simp add: write_bytes_ptrace_ok)
next
  case False
  obtain k r where len: "length buf = 8 * k + r" and r: "r < 8" using length_split by blast
  have le: "8 * k \<le> length buf" using len by simp
  obtain j e b a where j: "j \<le> k"
    "write_longs ac k buf addr m = (e, b, a, mem_write m addr (take (8 * j) buf))"
    "e = 0 \<longleftrightarrow> (\<forall>i < k. ac (addr + of_nat (8 * i)))"
    using write_longs_fail [OF le, of ac addr m] by blast
  have "0 < r \<and> \<not> ac a" if "e = 0"
  proof -
    from that j(3) have all: "\<forall>i < k. ac (addr + of_nat (8 * i))" by simp
    with False have "0 < r \<and> \<not> ac (addr + of_nat (8 * k))"
      unfolding len longs_ok_split [OF r] by blast
    moreover have "a = addr + of_nat (8 * k)" using write_longs_ok [OF le all, of m] j(2) by simp
    ultimately show ?thesis by simp
  qed
  then have "snd (write_bytes_ptrace ac buf addr m) = mem_write m addr (take (8 * j) buf)"
    unfolding write_bytes_ptrace_split [OF len r] using j(2) by simp
  with j(1) le show ?thesis by (intro exI [of _ "8 * j"]) simp
qed

subsection \<open>Strings\<close>

definition hasbytezero :: "u64 \<Rightarrow> bool" where
  "hasbytezero l \<longleftrightarrow> (l - 0x0101010101010101) AND NOT l AND 0x8080808080808080 \<noteq> 0"

text \<open>
  The bit trick on \<open>n\<close> bytes of an integer: \<open>ones n\<close> is \<open>0x01\<close> in each of them. A borrow of the
  subtraction leaves a byte only above a zero byte, so the lowest zero byte decides.
\<close>

primrec ones :: "nat \<Rightarrow> int" where
  "ones 0 = 0"
| "ones (Suc n) = 1 + 256 * ones n"

lemma bit7_int: "bit (x :: int) 7 \<longleftrightarrow> 128 \<le> x mod 256"
proof -
  have "bit x 7 \<longleftrightarrow> bit (take_bit 8 x) 7" by (simp add: bit_take_bit_iff)
  also have "\<dots> \<longleftrightarrow> odd (x mod 256 div 128)" by (simp add: take_bit_eq_mod bit_iff_odd)
  also have "x mod 256 div 128 = (if 128 \<le> x mod 256 then 1 else 0)"
    using pos_mod_bound [of 256 x] pos_mod_sign [of 256 x]
    by (auto simp: div_pos_geq div_pos_pos_trivial)
  finally show ?thesis by simp
qed

lemma minus_one_byte:
  "((l :: int) - 1) mod 256 = (if l mod 256 = 0 then 255 else l mod 256 - 1)"
  "l mod 256 \<noteq> 0 \<Longrightarrow> (l - 1) div 256 = l div 256"
proof -
  let ?q = "l div 256" and ?b = "l mod 256"
  have l: "l = ?b + 256 * ?q" by simp
  have b: "0 \<le> ?b" "?b < 256" by simp_all
  have "(l - 1) mod 256 = (?b - 1) mod 256" by (simp add: mod_diff_left_eq)
  with b show "(l - 1) mod 256 = (if ?b = 0 then 255 else ?b - 1)"
    by (simp add: mod_pos_pos_trivial)
  assume "?b \<noteq> 0"
  have "l - 1 = 256 * ?q + (?b - 1)" using mult_div_mod_eq [of 256 l] by linarith
  moreover have "(256 * ?q + (?b - 1)) div 256 = ?q"
    by (rule int_div_pos_eq [of _ _ _ "?b - 1"]) (use b \<open>?b \<noteq> 0\<close> in linarith)+
  ultimately show "(l - 1) div 256 = ?q" by (rule ssubst)
qed

lemma byte_zero_step:
  fixes l :: int and n :: nat
  defines "z \<equiv> ((l - ones (Suc n)) AND NOT l) AND (128 * ones (Suc n))"
  shows "z = 0 \<longleftrightarrow> l mod 256 \<noteq> 0 \<and>
           ((l div 256 - ones n) AND NOT (l div 256)) AND (128 * ones n) = 0"
proof -
  let ?w = "(l - ones (Suc n)) AND NOT l"
  have l: "l - ones (Suc n) = (l - 1) + 256 * (- ones n)" by simp
  have m: "(l - ones (Suc n)) mod 256 = (l - 1) mod 256" unfolding l by (rule mod_mult_self2)
  have hi: "128 * ones (Suc n) = 128 + 256 * (128 * ones n)" by simp
  have "take_bit 8 (128 * ones (Suc n)) = (128 + 256 * (128 * ones n)) mod 256"
    unfolding hi by (simp only: take_bit_eq_mod) simp
  also have "\<dots> = 128" by (simp only: mod_mult_self2) simp
  finally have "take_bit 8 z = take_bit 8 ?w AND 2 ^ 7"
    unfolding z_def take_bit_and by simp
  then have "take_bit 8 z = 0 \<longleftrightarrow> \<not> bit ?w 7"
    by (simp only: and_exp_eq_0_iff_not_bit) (simp add: bit_simps)
  also have "\<dots> \<longleftrightarrow> l mod 256 \<noteq> 0"
  proof -
    have "bit ?w 7 \<longleftrightarrow> bit (l - ones (Suc n)) 7 \<and> \<not> bit l 7"
      by (simp only: bit_and_iff bit_not_iff) simp
    also have "\<dots> \<longleftrightarrow> 128 \<le> (l - 1) mod 256 \<and> \<not> 128 \<le> l mod 256"
      by (simp only: bit7_int m)
    finally show ?thesis using minus_one_byte(1) [of l] by auto
  qed
  finally have low: "take_bit 8 z = 0 \<longleftrightarrow> l mod 256 \<noteq> 0" .
  have z0: "z = 0 \<longleftrightarrow> take_bit 8 z = 0 \<and> drop_bit 8 z = 0"
    using bits_ident [of 8 z] by auto
  show ?thesis
  proof (cases "l mod 256 = 0")
    case False
    have "drop_bit 8 (l - ones (Suc n)) = l div 256 - ones n"
      unfolding l using minus_one_byte(2) [OF False] by (simp add: drop_bit_eq_div)
    moreover have "drop_bit 8 (NOT l) = NOT (drop_bit 8 l)"
      by (rule bit_eqI) (simp add: bit_simps)
    then have "drop_bit 8 (NOT l) = NOT (l div 256)" by (simp add: drop_bit_eq_div)
    moreover have "drop_bit 8 (128 * ones (Suc n)) = 128 * ones n"
      unfolding hi by (simp add: drop_bit_eq_div)
    ultimately have "drop_bit 8 z = ((l div 256 - ones n) AND NOT (l div 256)) AND (128 * ones n)"
      unfolding z_def drop_bit_and by simp
    with False low z0 show ?thesis by simp
  qed (use low z0 in simp)
qed

lemma byte_zero_int:
  "((l - ones n) AND NOT l) AND (128 * ones n) = 0 \<longleftrightarrow> (\<forall>i < n. l div 256 ^ i mod 256 \<noteq> 0)"
proof (induction n arbitrary: l)
  case (Suc n)
  have "(\<forall>i < Suc n. l div 256 ^ i mod 256 \<noteq> 0) \<longleftrightarrow>
      l mod 256 \<noteq> 0 \<and> (\<forall>i < n. l div 256 div 256 ^ i mod 256 \<noteq> 0)"
    by (auto simp: All_less_Suc2 zdiv_zmult2_eq)
  then show ?case using byte_zero_step [of l n] Suc.IH [of "l div 256"] by simp
qed simp

lemma of_le_byte: "i < length bs \<Longrightarrow> of_le bs div 256 ^ i mod 256 = unat (bs ! i)"
proof (induction bs arbitrary: i)
  case (Cons b bs)
  have b: "unat b < 256" using unsigned_less [of b, where 'a = nat] by simp
  show ?case
  proof (cases i)
    case 0
    with b show ?thesis by simp
  next
    case (Suc j)
    have "of_le (b # bs) div 256 ^ i = of_le bs div 256 ^ j"
      using b by (simp add: Suc div_mult2_eq)
    with Suc Cons show ?thesis by simp
  qed
qed simp

lemma hasbytezero_iff: "hasbytezero l \<longleftrightarrow> 0 \<in> set (u64_bytes l)"
proof -
  have o: "ones 8 = 0x0101010101010101" by (simp add: eval_nat_numeral)
  have "uint ((l - 0x0101010101010101) AND NOT l AND 0x8080808080808080) =
      take_bit 64 ((uint l - ones 8) AND NOT (uint l)) AND take_bit 64 (128 * ones 8)"
    unfolding o take_bit_and
    by (simp add: unsigned_and_eq unsigned_not_eq uint_word_ariths take_bit_eq_mod and.assoc)
  also have "\<dots> = ((uint l - ones 8) AND NOT (uint l)) AND take_bit 64 (128 * ones 8)"
    by (rule bit_eqI) (auto simp: bit_and_iff bit_take_bit_iff)
  also have "take_bit 64 (128 * ones 8) = 128 * ones 8" unfolding o by (simp add: take_bit_eq_mod)
  finally have "\<not> hasbytezero l \<longleftrightarrow> (\<forall>i < 8. uint l div 256 ^ i mod 256 \<noteq> 0)"
    unfolding hasbytezero_def using byte_zero_int [of "uint l" 8] by (simp add: word_uint_eq_iff)
  also have "\<dots> \<longleftrightarrow> (\<forall>i < 8. u64_bytes l ! i \<noteq> 0)"
  proof (intro all_cong)
    fix i :: nat assume i: "i < 8"
    have "unat l < 256 ^ 8" using unsigned_less [of l, where 'a = nat] by simp
    then have "of_le (u64_bytes l) = unat l" by (simp add: u64_bytes_def of_le_le_bytes)
    then have "unat (u64_bytes l ! i) = unat l div 256 ^ i mod 256"
      using of_le_byte [of i "u64_bytes l"] i by simp
    then have "int (unat (u64_bytes l ! i)) = uint l div 256 ^ i mod 256"
      by (simp add: zdiv_int zmod_int)
    then show "uint l div 256 ^ i mod 256 \<noteq> 0 \<longleftrightarrow> u64_bytes l ! i \<noteq> 0"
      by (metis of_nat_0_eq_iff unat_eq_zero)
  qed
  finally show ?thesis by (auto simp: in_set_conv_nth)
qed

subsubsection \<open>Reading strings\<close>

text \<open>
  \<open>read_string_allocated\<close> fills a buffer of \<open>length dst\<close> bytes. The buffer is kept as the longs
  already read (\<open>got\<close>) and the bytes not yet written (\<open>dst\<close>).
\<close>

fun read_string_longs ::
  "kernel \<Rightarrow> nat \<Rightarrow> u64 \<Rightarrow> mem \<Rightarrow> bytes \<Rightarrow> bytes \<Rightarrow> (int \<times> bool \<times> bytes \<times> bytes \<times> u64) option" where
  "read_string_longs k 0 addr m got dst = Some (0, False, got, dst, addr)"
| "read_string_longs k (Suc num_longs) addr m got dst =
     (case read_long k addr m (take 8 dst) of
        None \<Rightarrow> None
      | Some (r, l) \<Rightarrow>
          if r \<noteq> 0 then Some (1, True, got @ l, drop 8 dst, addr)
          else if hasbytezero (bytes_u64 l) then Some (0, True, got @ l, drop 8 dst, addr)
          else read_string_longs k num_longs (addr + 8) m (got @ l) (drop 8 dst))"

definition read_string_allocated :: "kernel \<Rightarrow> u64 \<Rightarrow> mem \<Rightarrow> bytes \<Rightarrow> (int \<times> bytes) option" where
  "read_string_allocated k addr m buf =
     (let n = length buf; remaining = n mod 8
      in case read_string_longs k (n div 8) addr m [] buf of
           None \<Rightarrow> None
         | Some (r, ret, got, dst, addr') \<Rightarrow>
             if ret then Some (r, got @ dst)
             else if remaining > 0 then
               (case read_long k addr' m (replicate 8 0) of
                  None \<Rightarrow> None
                | Some (r', l) \<Rightarrow>
                    if r' \<noteq> 0 then Some (1, got @ dst) else Some (0, got @ take remaining l))
             else Some (0, got @ dst))"

text \<open>
  \<open>read_string\<close> reads longs until one has a zero byte; \<open>cap\<close> is the size of the allocation in
  longs, doubled when the next long would not fit. The result is the return code, the buffer and
  its capacity; \<open>None\<close> is a loop that does not end.
\<close>

partial_function (option) read_string_loop ::
  "kernel \<Rightarrow> u64 \<Rightarrow> mem \<Rightarrow> nat \<Rightarrow> nat \<Rightarrow> bytes \<Rightarrow> (int \<times> bytes \<times> nat) option" where
  "read_string_loop k addr m i cap string =
     (let cap' = (if i \<ge> cap then cap * 2 else cap)
      in case read_long k addr m (replicate 8 0) of
           None \<Rightarrow> None
         | Some (r, l) \<Rightarrow>
             if r \<noteq> 0 then Some (1, [], cap')
             else if hasbytezero (bytes_u64 l) then Some (0, string @ l, cap')
             else read_string_loop k (addr + 8) m (Suc i) cap' (string @ l))"

definition read_string :: "kernel \<Rightarrow> u64 \<Rightarrow> mem \<Rightarrow> (int \<times> bytes \<times> nat) option" where
  "read_string k addr m = read_string_loop k addr m 0 8 []"

definition write_string :: "kernel \<Rightarrow> bytes \<Rightarrow> u64 \<Rightarrow> mem \<Rightarrow> (int \<times> mem) option" where
  "write_string k buf addr m = write_bytes k (cstr buf @ [0]) addr m"

lemma read_long_atomic:
  "vm_atomic k \<Longrightarrow> length dst = 8 \<Longrightarrow>
   read_long k addr m dst =
     Some (if vm_readv k addr 8 0 < 0 then (- vm_readv k addr 8 0, dst) else (0, mem_read m addr 8))"
  unfolding read_long_def by (rule read_memory_atomic)

lemma hasbytezero_bytes:
  assumes "length bs = 8"
  shows "hasbytezero (bytes_u64 bs) \<longleftrightarrow> 0 \<in> set bs"
proof -
  have "of_le bs < 2 ^ 64" using of_le_bound [of bs] assms by simp
  then have "u64_bytes (bytes_u64 bs) = bs"
    using le_bytes_of_le [of bs] assms by (simp add: u64_bytes_def bytes_u64_def unat_of_nat)
  then show ?thesis by (simp add: hasbytezero_iff)
qed

lemma hasbytezero_mem_read:
  "hasbytezero (bytes_u64 (mem_read m a 8)) \<longleftrightarrow> 0 \<in> set (mem_read m a 8)"
  by (simp add: hasbytezero_bytes)

text \<open>The longs that hold a string of \<open>n\<close> bytes and its NUL can be read.\<close>

definition longs_readable :: "kernel \<Rightarrow> u64 \<Rightarrow> nat \<Rightarrow> bool" where
  "longs_readable k addr n \<longleftrightarrow> (\<forall>j \<le> n div 8. 0 \<le> vm_readv k (addr + of_nat (8 * j)) 8 0)"

definition holds_string :: "mem \<Rightarrow> u64 \<Rightarrow> bytes \<Rightarrow> bool" where
  "holds_string m addr s \<longleftrightarrow> no_nul s \<and> mem_read m addr (length s + 1) = s @ [0]"

lemma holds_string_short:
  assumes "holds_string m addr s" and "length s < 8"
  shows "0 \<in> set (mem_read m addr 8)"
proof -
  have "mem_read m addr 8 = mem_read m addr (length s + 1) @ mem_read m (addr + of_nat (length s + 1)) (7 - length s)"
    using assms(2) mem_read_append [of m addr "length s + 1" "7 - length s"] by simp
  with assms(1) show ?thesis by (simp add: holds_string_def)
qed

lemma holds_string_long:
  assumes "holds_string m addr s" and "8 \<le> length s"
  shows "0 \<notin> set (mem_read m addr 8)" and "holds_string m (addr + 8) (drop 8 s)"
proof -
  have split: "mem_read m addr (length s + 1) = mem_read m addr 8 @ mem_read m (addr + 8) (length s - 7)"
    using assms(2) mem_read_append [of m addr 8 "length s - 7"] by simp
  have eq: "mem_read m addr 8 @ mem_read m (addr + 8) (length s - 7) = take 8 s @ drop 8 s @ [0]"
    using assms(1) split by (metis append_assoc append_take_drop_id holds_string_def)
  have two: "mem_read m addr 8 = take 8 s \<and> mem_read m (addr + 8) (length s - 7) = drop 8 s @ [0]"
    using eq assms(2) append_eq_append_conv [of "mem_read m addr 8" "take 8 s"] by auto
  have nn: "no_nul s" using assms(1) by (simp add: holds_string_def)
  show "0 \<notin> set (mem_read m addr 8)"
    using two nn by (auto simp: no_nul_def dest: in_set_takeD)
  have "length (drop 8 s) + 1 = length s - 7" using assms(2) by simp
  then show "holds_string m (addr + 8) (drop 8 s)"
    using two nn unfolding holds_string_def by (auto simp: no_nul_def dest: in_set_dropD)
qed

lemma longs_readable_step:
  assumes "longs_readable k addr n" and "8 \<le> n"
  shows "longs_readable k (addr + 8) (n - 8)"
  unfolding longs_readable_def
proof (intro allI impI)
  fix j assume "j \<le> (n - 8) div 8"
  then have "Suc j \<le> n div 8" using assms(2) le_div_geq [of 8 n] by simp
  then have "0 \<le> vm_readv k (addr + of_nat (8 * Suc j)) 8 0"
    using assms(1) unfolding longs_readable_def by blast
  then show "0 \<le> vm_readv k (addr + 8 + of_nat (8 * j)) 8 0" by (simp add: algebra_simps)
qed

lemma read_string_loop_ok:
  assumes "vm_atomic k" "holds_string m addr s" "longs_readable k addr (length s)" "i \<le> cap" "0 < cap"
  shows "\<exists>cap'. read_string_loop k addr m i cap string =
           Some (0, string @ mem_read m addr (8 * (length s div 8 + 1)), cap') \<and> i + length s div 8 < cap'"
  using assms
proof (induction "length s" arbitrary: addr s i cap string rule: less_induct)
  case less
  have "0 \<le> vm_readv k addr 8 0"
    using less.prems(3) [unfolded longs_readable_def, rule_format, of 0] by simp
  then have rd: "read_long k addr m (replicate 8 0) = Some (0, mem_read m addr 8)"
    using less.prems(1) by (simp add: read_long_atomic)
  show ?case
  proof (cases "length s < 8")
    case True
    then have "hasbytezero (bytes_u64 (mem_read m addr 8))"
      using holds_string_short [OF less.prems(2)] by (simp add: hasbytezero_mem_read)
    with rd True less.prems(4,5) show ?thesis by (subst read_string_loop.simps) (auto simp: Let_def)
  next
    case False
    then have 8: "8 \<le> length s" by simp
    note rest = holds_string_long [OF less.prems(2) 8]
    have div: "length s div 8 = Suc ((length s - 8) div 8)" using le_div_geq [of 8 "length s"] 8 by simp
    let ?cap = "if i \<ge> cap then cap * 2 else cap"
    have "\<exists>cap'. read_string_loop k (addr + 8) m (Suc i) ?cap (string @ mem_read m addr 8) =
        Some (0, (string @ mem_read m addr 8) @ mem_read m (addr + 8) (8 * (length (drop 8 s) div 8 + 1)), cap') \<and>
        Suc i + length (drop 8 s) div 8 < cap'"
      using less.prems rest 8 longs_readable_step [OF less.prems(3) 8]
      by (intro less.hyps) auto
    moreover have "mem_read m addr (8 * (length s div 8 + 1)) =
        mem_read m addr 8 @ mem_read m (addr + 8) (8 * (length (drop 8 s) div 8 + 1))"
      using mem_read_append [of m addr 8 "8 * (length (drop 8 s) div 8 + 1)"] div by simp
    ultimately show ?thesis
      using rd rest(1) div by (subst read_string_loop.simps) (auto simp: Let_def hasbytezero_mem_read)
  qed
qed

lemma read_string_ok:
  assumes "vm_atomic k" and "holds_string m addr s" and "longs_readable k addr (length s)"
  shows "\<exists>buf cap. read_string k addr m = Some (0, buf, cap) \<and> cstr buf = s \<and> length buf \<le> 8 * cap"
proof -
  let ?n = "8 * (length s div 8 + 1)"
  obtain cap where r: "read_string k addr m = Some (0, mem_read m addr ?n, cap)" "length s div 8 < cap"
    using read_string_loop_ok [OF assms, of 0 8 "[]"] by (auto simp: read_string_def)
  have "length s + 1 \<le> ?n" by presburger
  then have "mem_read m addr ?n = s @ 0 # mem_read m (addr + of_nat (length s + 1)) (?n - (length s + 1))"
    using assms(2) mem_read_append [of m addr "length s + 1" "?n - (length s + 1)"]
    by (simp add: holds_string_def)
  then have "cstr (mem_read m addr ?n) = s" using assms(2) by (simp add: holds_string_def)
  with r show ?thesis by auto
qed

subsection \<open>The tool's side of the instruction queue\<close>

text \<open>
  \<open>insn_interpret_write\<close> of the tool writes through ptrace, and only through ptrace, so that
  write-protected pages of the target can be written.
\<close>

definition insn_interpret_write :: "kernel \<Rightarrow> mem write_fn" where
  "insn_interpret_write k addr bytes sz m =
     (case write_bytes_ptrace (peek_ok k) bytes addr m of (r, m') \<Rightarrow>
        if r \<noteq> 0 then (-1, m') else (sz, m'))"

definition u32_int :: "bytes \<Rightarrow> int" where
  "u32_int bs = sint (bytes_u32 bs)"

text \<open>
  The queue object is read into zeroed memory: first the 16 bytes before the buffer, then \<open>size\<close>
  bytes of buffer. The size is compared as \<open>uint32_t\<close>.
\<close>

definition insnq_get_from_remote_process :: "kernel \<Rightarrow> u64 \<Rightarrow> mem \<Rightarrow> (int \<times> insn_queue) option" where
  "insnq_get_from_remote_process k queue_addr m =
     (case read_memory k 16 queue_addr m (replicate 16 0) of
        None \<Rightarrow> None
      | Some (r, hdr) \<Rightarrow>
          let queue = \<lparr>version = u32_int (take 4 hdr), num_insns = u32_int (take 4 (drop 4 hdr)),
                       qsize = u32_int (take 4 (drop 8 hdr)), buffer = (\<lambda>_. 0)\<rparr>;
              sz = unat (bytes_u32 (take 4 (drop 8 hdr)))
          in if r \<noteq> 0 then Some (EINSNQ, queue)
             else if version queue > INSNQ_CURR_VERSION then Some (EOLDULP, queue)
             else if sz = 0 then Some (0, queue)
             else if sz > INSN_BUFFER_MAX then Some (EINSNQ, queue)
             else (case read_memory k sz (queue_addr + 16) m (replicate sz 0) of
                     None \<Rightarrow> None
                   | Some (r', bs) \<Rightarrow> Some (r', queue\<lparr>buffer := buf_write (buffer queue) 0 bs\<rparr>)))"

definition insnq_update_remote :: "kernel \<Rightarrow> u64 \<Rightarrow> mem \<Rightarrow> (int \<times> mem) option" where
  "insnq_update_remote k queue_address m =
     (let size_addr = queue_address + 8; num_insns_addr = queue_address + 4
      in case write_bytes k (u32_bytes 0) size_addr m of
           None \<Rightarrow> None
         | Some (r, m') \<Rightarrow>
             if r \<noteq> 0 then Some (EINSNQ, m')
             else (case write_bytes k (u32_bytes 0) num_insns_addr m' of
                     None \<Rightarrow> None
                   | Some (r', m'') \<Rightarrow> if r' \<noteq> 0 then Some (EINSNQ, m'') else Some (0, m'')))"

text \<open>
  The part of \<open>struct ulp_dynobj\<close> for libpulp.so these functions use: the queue's address (0 when
  the library is too old to have one) and the cached version.
\<close>

record libpulp_dynobj =
  insn_queue_addr :: u64
  insn_queue_version :: int

definition insnq_get_version :: "kernel \<Rightarrow> mem \<Rightarrow> libpulp_dynobj \<Rightarrow> (int \<times> libpulp_dynobj) option" where
  "insnq_get_version k m d =
     (if insn_queue_version d > 0 then Some (insn_queue_version d, d)
      else if insn_queue_addr d = 0 then Some (0, d)
      else case read_memory k 4 (insn_queue_addr d) m (u32_bytes (of_int (insn_queue_version d))) of
             None \<Rightarrow> None
           | Some (r, bs) \<Rightarrow>
               if r \<noteq> 0 then Some (0, d)
               else Some (u32_int bs, d\<lparr>insn_queue_version := u32_int bs\<rparr>))"

definition insnq_check_compatibility :: "kernel \<Rightarrow> mem \<Rightarrow> libpulp_dynobj \<Rightarrow> (bool \<times> libpulp_dynobj) option" where
  "insnq_check_compatibility k m d =
     (if insn_queue_addr d = 0 then Some (True, d)
      else map_option (\<lambda>(v, d'). (\<not> v > INSNQ_CURR_VERSION, d')) (insnq_get_version k m d))"

definition insnq_interpret_from_process :: "kernel \<Rightarrow> u64 \<Rightarrow> mem \<Rightarrow> (int \<times> mem) option" where
  "insnq_interpret_from_process k queue_addr m =
     (if queue_addr = 0 then Some (EOLDLIBPULP, m)
      else case insnq_get_from_remote_process k queue_addr m of
             None \<Rightarrow> None
           | Some (ret, queue) \<Rightarrow>
               if ret \<noteq> 0 then Some (ret, m)
               else if qsize queue > int INSN_BUFFER_MAX then Some (EINSNQ, m)
               else (case insnq_interpret (\<lambda>_ m. m) (insn_interpret_write k) queue m of
                       None \<Rightarrow> None
                     | Some (e, m') \<Rightarrow>
                         if e \<noteq> 0 then Some (EINSNQ, m')
                         else (case insnq_update_remote k queue_addr m' of
                                 None \<Rightarrow> None
                               | Some (r, m'') \<Rightarrow> if r \<noteq> 0 then Some (EINSNQ, m'') else Some (0, m''))))"

text \<open>
  What is in the target's memory when libpulp.so keeps the queue \<open>q\<close> at \<open>a\<close>: the three fields and
  the used part of the buffer.
\<close>

definition remote_queue :: "mem \<Rightarrow> u64 \<Rightarrow> insn_queue \<Rightarrow> bool" where
  "remote_queue m a q \<longleftrightarrow>
     mem_read m a 4 = u32_bytes (of_int (version q)) \<and>
     mem_read m (a + 4) 4 = u32_bytes (of_int (num_insns q)) \<and>
     mem_read m (a + 8) 4 = u32_bytes (of_int (qsize q)) \<and>
     mem_read m (a + 16) (nat (qsize q)) = buf_read (buffer q) 0 (nat (qsize q))"

lemma insn_interpret_write_ok:
  assumes "\<forall>(a, bs) \<in> set ws. longs_ok (peek_ok k) a (length bs)"
  shows "write_ok (insn_interpret_write k) (\<lambda>a bs m. mem_write m a bs) (writes_insns ws)"
  using assms by (auto simp: write_ok_def insn_interpret_write_def write_bytes_ptrace_ok)

lemma sint_of_int_small: "0 \<le> v \<Longrightarrow> v < 2 ^ 31 \<Longrightarrow> sint (of_int v :: u32) = v"
  by (simp add: signed_of_int signed_take_bit_int_eq_self)

lemma unat_of_int_small: "0 \<le> v \<Longrightarrow> v < 2 ^ 32 \<Longrightarrow> unat (of_int v :: u32) = nat v"
  by (simp add: unsigned_of_int take_bit_int_eq_self)

lemma num_insns_le_size: "5 * int (length is) \<le> sum_list (map isize is)"
  by (induction "is") (use isize_pos in \<open>auto simp: algebra_simps intro: add_mono\<close>)

lemma queue_repr_sizes:
  assumes "queue_repr q is"
  shows "0 \<le> qsize q" "qsize q < 2 ^ 31" "0 \<le> num_insns q" "num_insns q < 2 ^ 31"
  using assms num_insns_le_size [of "is"] sum_isize_nonneg [of "is"]
  by (auto simp: queue_repr_def INSN_BUFFER_MAX_def)

lemma remote_queue_header:
  assumes "remote_queue m a q"
  shows "take 4 (mem_read m a 16) = u32_bytes (of_int (version q))"
    and "take 4 (drop 4 (mem_read m a 16)) = u32_bytes (of_int (num_insns q))"
    and "take 4 (drop 8 (mem_read m a 16)) = u32_bytes (of_int (qsize q))"
proof -
  have "mem_read m a 16 = mem_read m a 4 @ mem_read m (a + 4) 4 @ mem_read m (a + 8) 4 @ mem_read m (a + 12) 4"
    using mem_read_append [of m a 4 12] mem_read_append [of m "a + 4" 4 8]
      mem_read_append [of m "a + 8" 4 4] by (simp add: add.assoc)
  with assms show "take 4 (mem_read m a 16) = u32_bytes (of_int (version q))"
    and "take 4 (drop 4 (mem_read m a 16)) = u32_bytes (of_int (num_insns q))"
    and "take 4 (drop 8 (mem_read m a 16)) = u32_bytes (of_int (qsize q))"
    by (simp_all add: remote_queue_def)
qed

text \<open>What the tool reads is the remote queue with zeroes behind its used part.\<close>

lemma insnq_get_from_remote_ok:
  assumes k: "vm_atomic k" "0 \<le> vm_readv k a 16 0" "0 \<le> vm_readv k (a + 16) (nat (qsize q)) 0"
    and q: "remote_queue m a q" "queue_repr q is" "version q = INSNQ_CURR_VERSION"
  shows "\<exists>q'. insnq_get_from_remote_process k a m = Some (0, q') \<and> queue_repr q' is \<and> qsize q' = qsize q"
proof -
  note sz = queue_repr_sizes [OF q(2)]
  note hdr = remote_queue_header [OF q(1)]
  let ?n = "nat (qsize q)"
  let ?q0 = "\<lparr>version = 1, num_insns = num_insns q, qsize = qsize q, buffer = (\<lambda>_. 0 :: u8)\<rparr>"
  let ?q1 = "?q0\<lparr>buffer := buf_write (\<lambda>_. 0) 0 (mem_read m (a + 16) ?n)\<rparr>"
  have n: "?n \<le> INSN_BUFFER_MAX" using q(2) by (auto simp: queue_repr_def)
  have fields: "u32_int (u32_bytes (of_int (version q))) = 1"
    "u32_int (u32_bytes (of_int (num_insns q))) = num_insns q"
    "u32_int (u32_bytes (of_int (qsize q))) = qsize q"
    "unat (of_int (qsize q) :: u32) = ?n"
    using sz q(3) by (simp_all add: u32_int_def sint_of_int_small unat_of_int_small INSNQ_CURR_VERSION_def)
  have get: "insnq_get_from_remote_process k a m = Some (0, if ?n = 0 then ?q0 else ?q1)"
    using k n sz unfolding insnq_get_from_remote_process_def
    by (simp add: read_memory_atomic hdr fields INSNQ_CURR_VERSION_def)
  have same: "(if ?n = 0 then ?q0 else ?q1) = ?q1" by (simp add: mem_read_def)
  have "holds (buf_write (\<lambda>_. 0) 0 (mem_read m (a + 16) ?n)) 0 is"
  proof (rule holds_cong)
    show "holds (buffer q) 0 is" using q(2) by (simp add: queue_repr_def)
    fix j assume "int j < 0 + sum_list (map isize is)"
    then have "j < ?n" using q(2) by (simp add: queue_repr_def)
    then show "buf_write (\<lambda>_. 0) 0 (mem_read m (a + 16) ?n) j = buffer q j"
      using q(1) by (simp add: remote_queue_def buf_write_apply) (simp add: buf_read_def)
  qed simp
  with q(2) have "queue_repr ?q1 is" by (simp add: queue_repr_def)
  with get same show ?thesis by auto
qed

lemma insnq_interpret_from_process_ok:
  assumes "vm_atomic k" and "a \<noteq> 0"
    and "remote_queue m a q" and "queue_repr q (writes_insns ws)" and "version q = INSNQ_CURR_VERSION"
    and "0 \<le> vm_readv k a 16 0" and "0 \<le> vm_readv k (a + 16) (nat (qsize q)) 0"
    and "0 \<le> vm_writev k (a + 8) 4 0" and "0 \<le> vm_writev k (a + 4) 4 0"
    and "\<forall>(b, bs) \<in> set ws. longs_ok (peek_ok k) b (length bs)"
  shows "insnq_interpret_from_process k a m =
           Some (0, apply_writes (ws @ [(a + 8, u32_bytes 0), (a + 4, u32_bytes 0)]) m)"
proof -
  obtain q' where get: "insnq_get_from_remote_process k a m = Some (0, q')"
    and q': "queue_repr q' (writes_insns ws)"
    using insnq_get_from_remote_ok [OF assms(1,6,7,3,4,5)] by blast
  have "insnq_interpret (\<lambda>_ m. m) (insn_interpret_write k) q' m = Some (ENONE, apply_writes ws m)"
    using insnq_interpret_repr [OF q' insn_interpret_write_ok [OF assms(10)]] by (simp add: fold_exec_writes)
  moreover have "qsize q' \<le> int INSN_BUFFER_MAX" using q' by (simp add: queue_repr_def)
  moreover have "insnq_update_remote k a m' =
      Some (0, mem_write (mem_write m' (a + 8) (u32_bytes 0)) (a + 4) (u32_bytes 0))" for m'
    using assms(1,8,9) by (simp add: insnq_update_remote_def write_bytes_atomic)
  ultimately show ?thesis using get assms(2) by (simp add: insnq_interpret_from_process_def)
qed

subsection \<open>Properties\<close>

text \<open>
  \<open>hasbytezero\<close> is right on all \<open>2 ^ 64\<close> longs: the subtract-and-mask expression is
  nonzero exactly when one of the long's eight bytes is zero.
\<close>

theorem hasbytezero_correct: "hasbytezero l \<longleftrightarrow> 0 \<in> set (u64_bytes l)"
  by (rule hasbytezero_iff)

text \<open>
  The word-wise \<open>write_bytes_ptrace\<close> is the byte-wise store: when the longs it touches
  can be accessed it returns 0 and writes exactly the bytes of the buffer, with the bytes behind
  them unchanged although the last access is a whole long; in every other case a prefix of the
  buffer has been written and nothing else.
\<close>

theorem write_bytes_ptrace_correct:
  "(longs_ok (peek_ok k) addr (length buf) \<longrightarrow>
      write_bytes_ptrace (peek_ok k) buf addr m = (0, mem_write m addr buf)) \<and>
   (\<exists>j \<le> length buf. snd (write_bytes_ptrace (peek_ok k) buf addr m) = mem_write m addr (take j buf))"
  using write_bytes_ptrace_ok write_bytes_ptrace_prefix by blast

definition all_ok :: kernel where
  "all_ok = \<lparr>peek_ok = (\<lambda>_. True), vm_readv = (\<lambda>_ n _. int n), vm_writev = (\<lambda>_ n _. int n)\<rparr>"

lemma all_ok_atomic [simp]: "vm_atomic all_ok"
  by (simp add: vm_atomic_def all_ok_def)

theorem write_bytes_ptrace_correct_witness:
  "write_bytes_ptrace (peek_ok all_ok) [1, 2, 3] 0x1000 (\<lambda>_. 9) =
     (0, (\<lambda>_. 9)(0x1000 := 1, 0x1001 := 2, 0x1002 := 3))"
  using write_bytes_ptrace_correct [of all_ok "0x1000" "[1, 2, 3]" "\<lambda>_. 9"]
  by (simp add: longs_ok_def all_ok_def)

text \<open>
  \<open>read_string\<close> returns the string of the target: when the longs that hold it can be
  read the loop ends with 0, the buffer's C string is the target's, and the allocation, grown by
  doubling, is large enough for every long that was stored into it.
\<close>

theorem read_string_correct:
  assumes "vm_atomic k" and "holds_string m addr s" and "longs_readable k addr (length s)"
  shows "\<exists>buf cap. read_string k addr m = Some (0, buf, cap) \<and> cstr buf = s \<and> length buf \<le> 8 * cap"
  using assms by (rule read_string_ok)

theorem read_string_correct_witness:
  "\<exists>buf cap. read_string all_ok 0x1000 (mem_write (\<lambda>_. 0) 0x1000 (str ''libc.so.6'')) = Some (0, buf, cap) \<and>
     cstr buf = str ''libc.so.6'' \<and> length buf \<le> 8 * cap"
proof (rule read_string_correct)
  show "holds_string (mem_write (\<lambda>_. 0) 0x1000 (str ''libc.so.6'')) 0x1000 (str ''libc.so.6'')"
    unfolding holds_string_def str_def no_nul_def by (simp add: mem_read_def upt_rec)
  show "longs_readable all_ok 0x1000 (length (str ''libc.so.6''))"
    by (simp add: longs_readable_def all_ok_def)
qed simp

text \<open>
  Claim C6. The queue travels end to end. The target's memory holds a queue of writes, the tool
  can access the queue and every long those writes touch: then the tool performs the writes, in
  order, on the target's memory, resets the size and the number of instructions in the target, and
  returns 0.
\<close>

theorem insnq_interpret_from_process_correct:
  assumes "vm_atomic k" and "a \<noteq> 0"
    and "remote_queue m a q" and "queue_repr q (writes_insns ws)" and "version q = INSNQ_CURR_VERSION"
    and "0 \<le> vm_readv k a 16 0" and "0 \<le> vm_readv k (a + 16) (nat (qsize q)) 0"
    and "0 \<le> vm_writev k (a + 8) 4 0" and "0 \<le> vm_writev k (a + 4) 4 0"
    and "\<forall>(b, bs) \<in> set ws. longs_ok (peek_ok k) b (length bs)"
  shows "insnq_interpret_from_process k a m =
           Some (0, apply_writes (ws @ [(a + 8, u32_bytes 0), (a + 4, u32_bytes 0)]) m)"
  using assms by (rule insnq_interpret_from_process_ok)

definition demo_queue :: insn_queue where
  "demo_queue = \<lparr>version = 1, num_insns = 1, qsize = 24,
     buffer = buf_write (\<lambda>_. 0) 0 (iencode (IWrite 0x1000 [0xEB]))\<rparr>"

definition demo_mem :: mem where
  "demo_mem = mem_write (\<lambda>_. 0) 0x5000
     (u32_bytes 1 @ u32_bytes 1 @ u32_bytes 24 @ u32_bytes 0 @
      iencode (IWrite 0x1000 [0xEB]) @ replicate 7 0)"

lemma demo_queue_repr: "queue_repr demo_queue (writes_insns [(0x1000, [0xEB])])"
  using queue_repr_insert [of insnq_init "[]" "IWrite 0x1000 [0xEB]"]
  by (simp add: queue_repr_Nil insnq_init_def demo_queue_def align_to_def INSN_BUFFER_MAX_def
      INSNQ_CURR_VERSION_def)

lemma demo_remote_queue: "remote_queue demo_mem 0x5000 demo_queue"
proof -
  let ?e = "iencode (IWrite 0x1000 [0xEB])"
  have len: "length ?e = 17" by simp
  have z: "buf_read (\<lambda>_. 0) 17 7 = replicate 7 (0 :: u8)"
    by (simp add: buf_read_def numeral_eq_Suc)
  have "buf_read (buf_write (\<lambda>_. 0) 0 ?e) 0 (17 + 7) = ?e @ replicate 7 0"
    unfolding buf_read_append using buf_read_write_same [of "\<lambda>_. 0" 0 ?e] len z
    by (simp add: buf_read_write_disjoint del: iencode.simps)
  moreover have "mem_read demo_mem 0x5000 4 = u32_bytes 1"
    using mem_read_write_mid [where m = "\<lambda>_. 0" and a = "0x5000", of "[]" "u32_bytes 1"] unfolding demo_mem_def by simp
  moreover have "mem_read demo_mem 0x5004 4 = u32_bytes 1"
    using mem_read_write_mid [where m = "\<lambda>_. 0" and a = "0x5000", of "u32_bytes 1" "u32_bytes 1"] unfolding demo_mem_def by simp
  moreover have "mem_read demo_mem 0x5008 4 = u32_bytes 24"
    using mem_read_write_mid [where m = "\<lambda>_. 0" and a = "0x5000", of "u32_bytes 1 @ u32_bytes 1" "u32_bytes 24"] unfolding demo_mem_def by simp
  moreover have "mem_read demo_mem 0x5010 24 = ?e @ replicate 7 0"
    using mem_read_write_mid [where m = "\<lambda>_. 0" and a = "0x5000", of "u32_bytes 1 @ u32_bytes 1 @ u32_bytes 24 @ u32_bytes 0"
        "?e @ replicate 7 0" "[]"] unfolding demo_mem_def by simp
  ultimately show ?thesis by (simp add: remote_queue_def demo_queue_def)
qed

theorem insnq_interpret_from_process_correct_witness:
  "insnq_interpret_from_process all_ok 0x5000 demo_mem =
     Some (0, apply_writes [(0x1000, [0xEB]), (0x5008, u32_bytes 0), (0x5004, u32_bytes 0)] demo_mem)"
  using insnq_interpret_from_process_correct
    [OF all_ok_atomic _ demo_remote_queue demo_queue_repr]
  by (simp add: all_ok_def longs_ok_def demo_queue_def INSNQ_CURR_VERSION_def)

end
