(* ===== verification/Ptrace_Control.thy ===== *)
theory Ptrace_Control
  imports Ptrace "HOL-Library.Monad_Syntax"
begin

text \<open>
  The tool's control over the threads of a target process: the second half of
  \<open>src/tools/ptrace.c\<close> with the register macros of \<open>src/include/arch/x86_64/arch_common.h\<close>.

  The state is a \<open>world\<close>: which threads are attached, the registers of each thread, the memory of
  the process, the threads whose seccomp filter is suspended, and the number of system calls made
  so far. What the kernel answers is a parameter, the record \<open>os\<close>, whose fields are indexed by that
  number: \<open>pt_errno os n\<close> is the \<open>errno\<close> of the \<open>ptrace\<close> request made as call \<open>n\<close>, 0 meaning success;
  \<open>wait_ret os n\<close> is the result, the status and the \<open>errno\<close> of a \<open>waitpid\<close>; \<open>time_sec os n\<close> the value of
  \<open>time(NULL)\<close>; \<open>resumes os n\<close> what a thread has done with its registers and the memory from
  \<open>PTRACE_CONT\<close> until it stops again. A request that succeeds does what its manual page says, one that
  fails does nothing. Every function returns \<open>None\<close> when it does not return.
\<close>

subsection \<open>Threads, registers and system calls\<close>

record registers =
  rip :: u64
  rsp :: u64
  rax :: u64
  gprs :: "nat \<Rightarrow> u64"

record world =
  syscalls :: nat
  traced :: "int \<Rightarrow> bool"
  tregs :: "int \<Rightarrow> registers"
  tmem :: mem
  unfiltered :: "int \<Rightarrow> bool"

record os =
  pt_errno :: "nat \<Rightarrow> int"
  wait_ret :: "nat \<Rightarrow> int \<times> u32 \<times> int"
  time_sec :: "nat \<Rightarrow> int"
  resumes :: "nat \<Rightarrow> registers \<Rightarrow> mem \<Rightarrow> registers \<times> mem"
  mem_access :: kernel

abbreviation (input) "EIO \<equiv> (5 :: ulp_error)"
abbreviation (input) "EFAULT \<equiv> (14 :: ulp_error)"
abbreviation (input) "EBUSY \<equiv> (16 :: ulp_error)"
abbreviation (input) "ETIME \<equiv> (62 :: ulp_error)"

datatype ptrace_request =
  PTRACE_ATTACH | PTRACE_DETACH | PTRACE_GETREGS | PTRACE_SETREGS registers | PTRACE_CONT | PTRACE_SETOPTIONS

definition syscall :: "world \<Rightarrow> world" where
  "syscall w = w\<lparr>syscalls := Suc (syscalls w)\<rparr>"

fun ptrace_effect :: "os \<Rightarrow> ptrace_request \<Rightarrow> int \<Rightarrow> world \<Rightarrow> world" where
  "ptrace_effect os PTRACE_ATTACH pid w = w\<lparr>traced := (traced w)(pid := True)\<rparr>"
| "ptrace_effect os PTRACE_DETACH pid w = w\<lparr>traced := (traced w)(pid := False)\<rparr>"
| "ptrace_effect os PTRACE_GETREGS pid w = w"
| "ptrace_effect os (PTRACE_SETREGS regs) pid w = w\<lparr>tregs := (tregs w)(pid := regs)\<rparr>"
| "ptrace_effect os PTRACE_CONT pid w =
     (case resumes os (syscalls w) (tregs w pid) (tmem w) of
        (regs, m) \<Rightarrow> w\<lparr>tregs := (tregs w)(pid := regs), tmem := m\<rparr>)"
| "ptrace_effect os PTRACE_SETOPTIONS pid w = w\<lparr>unfiltered := (unfiltered w)(pid := True)\<rparr>"

text \<open>One \<open>ptrace\<close> call: its \<open>errno\<close>, with a result of 0 or -1 accordingly, and the new state.\<close>

definition ptrace :: "os \<Rightarrow> ptrace_request \<Rightarrow> int \<Rightarrow> world \<Rightarrow> int \<times> world" where
  "ptrace os req pid w =
     (if pt_errno os (syscalls w) \<noteq> 0 then (pt_errno os (syscalls w), syscall w)
      else (0, syscall (ptrace_effect os req pid w)))"

subsection \<open>The retrying wrapper\<close>

definition PTRACE_TIMEOUT :: int where "PTRACE_TIMEOUT = 5"

partial_function (option) ulp_ptrace_retry ::
  "os \<Rightarrow> ptrace_request \<Rightarrow> int \<Rightarrow> int \<Rightarrow> world \<Rightarrow> (int \<times> world) option" where
  "ulp_ptrace_retry os req pid t0 w =
     (case ptrace os req pid w of (e, w) \<Rightarrow>
        if e = EIO \<or> e = EFAULT \<or> e = EINVAL \<or> e = ESRCH \<or> e = 0 then Some (e, w)
        else let t1 = time_sec os (syscalls w); w = syscall w
             in if t1 - t0 < PTRACE_TIMEOUT then ulp_ptrace_retry os req pid t0 w else Some (e, w))"

definition ulp_ptrace :: "os \<Rightarrow> ptrace_request \<Rightarrow> int \<Rightarrow> world \<Rightarrow> (int \<times> world) option" where
  "ulp_ptrace os req pid w =
     (case ptrace os req pid w of (e, w) \<Rightarrow>
        if \<not> (e = EBUSY \<or> e = EPERM) then Some (e, w)
        else let t0 = time_sec os (syscalls w); w = syscall w in ulp_ptrace_retry os req pid t0 w)"

subsection \<open>Attaching and detaching\<close>

text \<open>The status word of \<open>waitpid\<close>, read with the macros of \<open>sys/wait.h\<close>.\<close>

definition WIFEXITED :: "u32 \<Rightarrow> bool" where "WIFEXITED status \<longleftrightarrow> status AND 0x7f = 0"

definition WIFSTOPPED :: "u32 \<Rightarrow> bool" where "WIFSTOPPED status \<longleftrightarrow> status AND 0xff = 0x7f"

definition WIFSIGNALED :: "u32 \<Rightarrow> bool" where
  "WIFSIGNALED status \<longleftrightarrow> sint (ucast ((status AND 0x7f) + 1) :: u8) div 2 > 0"

definition WCOREDUMP :: "u32 \<Rightarrow> bool" where "WCOREDUMP status \<longleftrightarrow> status AND 0x80 \<noteq> 0"

partial_function (option) attach_wait :: "os \<Rightarrow> int \<Rightarrow> world \<Rightarrow> (int \<times> world) option" where
  "attach_wait os pid w =
     (case wait_ret os (syscalls w) of (ret, status, e) \<Rightarrow>
        let w = syscall w
        in if ret = -1 then Some (e, w)
           else if ret = pid \<and> WIFSTOPPED status then Some (0, w)
           else if ret = pid \<and> (WIFEXITED status \<or> WCOREDUMP status) then Some (1, w)
           else if ret = pid \<and> WIFSIGNALED status then Some (1, w)
           else attach_wait os pid w)"

definition attach :: "os \<Rightarrow> int \<Rightarrow> world \<Rightarrow> (int \<times> world) option" where
  "attach os pid w = do {
     (e, w) \<leftarrow> ulp_ptrace os PTRACE_ATTACH pid w;
     if e \<noteq> 0 then Some (e, w) else attach_wait os pid w }"

definition detach :: "os \<Rightarrow> int \<Rightarrow> world \<Rightarrow> (int \<times> world) option" where
  "detach os pid w = do {
     (e, w) \<leftarrow> ulp_ptrace os PTRACE_DETACH pid w;
     if e \<noteq> 0 then Some (1, w) else Some (0, w) }"

text \<open>\<open>get_regs\<close> overwrites \<open>regs\<close> when it succeeds.\<close>

definition get_regs :: "os \<Rightarrow> int \<Rightarrow> registers \<Rightarrow> world \<Rightarrow> (int \<times> registers \<times> world) option" where
  "get_regs os pid regs w = do {
     (e, w) \<leftarrow> ulp_ptrace os PTRACE_GETREGS pid w;
     if e \<noteq> 0 then Some (1, regs, w) else Some (0, tregs w pid, w) }"

definition set_regs :: "os \<Rightarrow> int \<Rightarrow> registers \<Rightarrow> world \<Rightarrow> (int \<times> world) option" where
  "set_regs os pid regs w = do {
     (e, w) \<leftarrow> ulp_ptrace os (PTRACE_SETREGS regs) pid w;
     if e \<noteq> 0 then Some (1, w) else Some (0, w) }"

definition disable_seccomp :: "os \<Rightarrow> int \<Rightarrow> world \<Rightarrow> (int \<times> world) option" where
  "disable_seccomp os pid w = do {
     (e, w) \<leftarrow> ulp_ptrace os PTRACE_SETOPTIONS pid w;
     if e \<noteq> 0 then Some (e, w) else Some (0, w) }"

subsection \<open>Running a routine in a stopped thread\<close>

definition RED_ZONE_LEN :: u64 where "RED_ZONE_LEN = 128"

definition RESTART_SYSCALL_SIZE :: u64 where "RESTART_SYSCALL_SIZE = 2"

text \<open>The registers the routine is started with.\<close>

definition redirected :: "registers \<Rightarrow> u64 \<Rightarrow> registers" where
  "redirected regs routine =
     regs\<lparr>rip := routine + RESTART_SYSCALL_SIZE, rsp := (rsp regs - RED_ZONE_LEN) AND 0xFFFFFFFFFFFFFFC0\<rparr>"

partial_function (option) run_wait :: "os \<Rightarrow> int \<Rightarrow> int \<Rightarrow> int \<Rightarrow> world \<Rightarrow> (int \<times> world) option" where
  "run_wait os pid t0 timeout w =
     (case wait_ret os (syscalls w) of (ret, status, e) \<Rightarrow>
        let w = syscall w
        in if ret = -1 then Some (EUNKNOWN, w)
           else if ret = pid \<and> (WIFEXITED status \<or> WCOREDUMP status) then Some (EUNKNOWN, w)
           else if ret = pid \<and> WIFSTOPPED status then Some (0, w)
           else let t1 = time_sec os (syscalls w); w = syscall w
                in if t1 - t0 < timeout then run_wait os pid t0 timeout w else Some (ETIME, w))"

definition run_and_redirect :: "os \<Rightarrow> int \<Rightarrow> int \<Rightarrow> registers \<Rightarrow> u64 \<Rightarrow> world \<Rightarrow> (int \<times> registers \<times> world) option" where
  "run_and_redirect os rr_timeout pid regs routine w = (let regs = redirected regs routine in do {
     (e, w) \<leftarrow> ulp_ptrace os (PTRACE_SETREGS regs) pid w;
     if e \<noteq> 0 then Some (ETARGETHOOK, regs, w) else do {
     (e, w) \<leftarrow> ulp_ptrace os PTRACE_CONT pid w;
     if e \<noteq> 0 then Some (ETARGETHOOK, regs, w) else do {
     (r, w) \<leftarrow> run_wait os pid (time_sec os (syscalls w)) rr_timeout (syscall w);
     if r \<noteq> 0 then Some (r, regs, w) else do {
     (e, w) \<leftarrow> ulp_ptrace os PTRACE_GETREGS pid w;
     if e \<noteq> 0 then Some (-1, regs, w) else Some (0, tregs w pid, w) }}}})"

subsection \<open>When the loops end\<close>

text \<open>
  The laws the loops rely on: the clock does not go back and does not stand still for ever, and
  \<open>waitpid\<close> sooner or later reports on the thread it is asked about, or an error.
\<close>

definition clock_runs :: "os \<Rightarrow> bool" where
  "clock_runs os \<longleftrightarrow> (\<forall>t. \<exists>n. \<forall>j \<ge> n. t \<le> time_sec os j)"

definition final_status :: "u32 \<Rightarrow> bool" where
  "final_status st \<longleftrightarrow> WIFSTOPPED st \<or> WIFEXITED st \<or> WCOREDUMP st \<or> WIFSIGNALED st"

definition reports :: "os \<Rightarrow> int \<Rightarrow> nat \<Rightarrow> bool" where
  "reports os pid j \<longleftrightarrow>
     (case wait_ret os j of (ret, st, e) \<Rightarrow> ret = -1 \<or> ret = pid \<and> final_status st)"

definition wait_answers :: "os \<Rightarrow> bool" where
  "wait_answers os \<longleftrightarrow> (\<forall>pid n. \<exists>j \<ge> n. reports os pid j)"

lemma ptrace_syscalls: "ptrace os req pid w = (e, w1) \<Longrightarrow> syscalls w1 = Suc (syscalls w)"
  by (cases req) (auto simp: ptrace_def syscall_def split: if_splits prod.splits)

lemma ulp_ptrace_retry_total:
  assumes "clock_runs os"
  shows "\<exists>r. ulp_ptrace_retry os req pid t0 w = Some r"
proof -
  obtain n where n: "\<forall>j \<ge> n. t0 + PTRACE_TIMEOUT \<le> time_sec os j"
    using assms unfolding clock_runs_def by blast
  show ?thesis
  proof (induction "n - syscalls w" arbitrary: w rule: less_induct)
    case less
    obtain e w1 where p: "ptrace os req pid w = (e, w1)" by fastforce
    then have w1: "syscalls w1 = Suc (syscalls w)" by (rule ptrace_syscalls)
    show ?case
    proof (cases "n \<le> syscalls w1")
      case True
      then have "\<not> time_sec os (syscalls w1) - t0 < PTRACE_TIMEOUT" using n by force
      then show ?thesis by (subst ulp_ptrace_retry.simps) (simp add: p Let_def)
    next
      case False
      then have "n - syscalls (syscall w1) < n - syscalls w" using w1 by (simp add: syscall_def)
      from less.hyps [OF this] show ?thesis by (subst ulp_ptrace_retry.simps) (auto simp: p Let_def)
    qed
  qed
qed

lemma ulp_ptrace_total: "clock_runs os \<Longrightarrow> \<exists>r. ulp_ptrace os req pid w = Some r"
  using ulp_ptrace_retry_total by (auto simp: ulp_ptrace_def Let_def split: prod.split)

lemma attach_wait_total:
  assumes "wait_answers os"
  shows "\<exists>r. attach_wait os pid w = Some r"
proof -
  obtain j where j: "syscalls w \<le> j" and ans: "reports os pid j"
    using assms unfolding wait_answers_def by blast
  from j show ?thesis
  proof (induction "j - syscalls w" arbitrary: w)
    case 0
    with ans show ?case
      by (subst attach_wait.simps) (auto simp: Let_def reports_def final_status_def split: prod.splits)
  next
    case (Suc d)
    then have "\<exists>r. attach_wait os pid (syscall w) = Some r" by (intro Suc.hyps) (auto simp: syscall_def)
    then show ?case by (subst attach_wait.simps) (auto simp: Let_def split: prod.split)
  qed
qed

lemma attach_total: "clock_runs os \<Longrightarrow> wait_answers os \<Longrightarrow> \<exists>r. attach os pid w = Some r"
  using ulp_ptrace_total [of os PTRACE_ATTACH pid w] attach_wait_total [of os pid] by (auto simp: attach_def)

lemma detach_total: "clock_runs os \<Longrightarrow> \<exists>r. detach os pid w = Some r"
  using ulp_ptrace_total [of os PTRACE_DETACH pid w] by (auto simp: detach_def)

lemma get_regs_total: "clock_runs os \<Longrightarrow> \<exists>r. get_regs os pid regs w = Some r"
  using ulp_ptrace_total [of os PTRACE_GETREGS pid w] by (auto simp: get_regs_def)

lemma set_regs_total: "clock_runs os \<Longrightarrow> \<exists>r. set_regs os pid regs w = Some r"
  using ulp_ptrace_total [of os "PTRACE_SETREGS regs" pid w] by (auto simp: set_regs_def)

lemma run_wait_total:
  assumes "clock_runs os"
  shows "\<exists>r. run_wait os pid t0 timeout w = Some r"
proof -
  obtain n where n: "\<forall>j \<ge> n. t0 + timeout \<le> time_sec os j"
    using assms unfolding clock_runs_def by blast
  show ?thesis
  proof (induction "n - syscalls w" arbitrary: w rule: less_induct)
    case less
    show ?case
    proof (cases "n \<le> Suc (syscalls w)")
      case True
      then have "\<not> time_sec os (syscalls (syscall w)) - t0 < timeout" using n by (force simp: syscall_def)
      then show ?thesis by (subst run_wait.simps) (auto simp: Let_def split: prod.split)
    next
      case False
      then have "n - syscalls (syscall (syscall w)) < n - syscalls w" by (simp add: syscall_def)
      from less.hyps [OF this] show ?thesis by (subst run_wait.simps) (auto simp: Let_def split: prod.split)
    qed
  qed
qed

lemma run_and_redirect_total:
  assumes "clock_runs os"
  shows "\<exists>r. run_and_redirect os timeout pid regs routine w = Some r"
proof -
  note t = ulp_ptrace_total [OF assms] run_wait_total [OF assms]
  obtain e1 w1 where 1: "ulp_ptrace os (PTRACE_SETREGS (redirected regs routine)) pid w = Some (e1, w1)"
    using t(1) by fast
  obtain e2 w2 where 2: "ulp_ptrace os PTRACE_CONT pid w1 = Some (e2, w2)" using t(1) by fast
  obtain r w3 where 3: "run_wait os pid (time_sec os (syscalls w2)) timeout (syscall w2) = Some (r, w3)"
    using t(2) by fast
  obtain e4 w4 where 4: "ulp_ptrace os PTRACE_GETREGS pid w3 = Some (e4, w4)" using t(1) by fast
  show ?thesis by (simp add: run_and_redirect_def Let_def 1 2 3 4)
qed

subsection \<open>What each request changes\<close>

lemma ulp_ptrace_ok:
  "pt_errno os (syscalls w) = 0 \<Longrightarrow> ulp_ptrace os req pid w = Some (0, syscall (ptrace_effect os req pid w))"
  by (simp add: ulp_ptrace_def ptrace_def)

lemma attach_wait_stopped:
  "wait_ret os (syscalls w) = (pid, st, e) \<Longrightarrow> pid \<noteq> -1 \<Longrightarrow> WIFSTOPPED st \<Longrightarrow> attach_wait os pid w = Some (0, syscall w)"
  by (subst attach_wait.simps) simp

lemma run_wait_stopped:
  "wait_ret os (syscalls w) = (pid, st, e) \<Longrightarrow> pid \<noteq> -1 \<Longrightarrow> WIFSTOPPED st \<Longrightarrow> \<not> WIFEXITED st \<Longrightarrow> \<not> WCOREDUMP st \<Longrightarrow>
     run_wait os pid t0 timeout w = Some (0, syscall w)"
  by (subst run_wait.simps) simp

text \<open>Two states that differ in the number of system calls only.\<close>

definition same_world :: "world \<Rightarrow> world \<Rightarrow> bool" where
  "same_world w w' \<longleftrightarrow> traced w' = traced w \<and> tregs w' = tregs w \<and> tmem w' = tmem w \<and> unfiltered w' = unfiltered w"

lemma same_world_refl [simp]: "same_world w w" "same_world w (syscall w)"
  by (simp_all add: same_world_def syscall_def)

lemma same_world_trans [trans]: "same_world w w' \<Longrightarrow> same_world w' w'' \<Longrightarrow> same_world w w''"
  by (simp add: same_world_def)

text \<open>
  A request that the wrapper reports as failed has changed nothing; one that it reports as
  successful has had its effect once.
\<close>

lemma ptrace_result:
  assumes "ptrace os req pid w = (e, w')"
  shows "if e = 0 then w' = syscall (ptrace_effect os req pid w) else same_world w w'"
  using assms by (auto simp: ptrace_def split: if_splits)

definition effect_done :: "os \<Rightarrow> ptrace_request \<Rightarrow> int \<Rightarrow> world \<Rightarrow> int \<Rightarrow> world \<Rightarrow> bool" where
  "effect_done os req pid w e w' \<longleftrightarrow>
     (if e = 0 then \<exists>w1. same_world w w1 \<and> same_world (ptrace_effect os req pid w1) w' else same_world w w')"

lemma effect_done_later:
  assumes "same_world w w1" and "effect_done os req pid w1 e w'"
  shows "effect_done os req pid w e w'"
proof (cases "e = 0")
  case True
  then obtain w2 where "same_world w1 w2" "same_world (ptrace_effect os req pid w2) w'"
    using assms(2) by (auto simp: effect_done_def)
  then show ?thesis using True same_world_trans [OF assms(1)] unfolding effect_done_def by auto
qed (use assms same_world_trans in \<open>auto simp: effect_done_def\<close>)

lemma ulp_ptrace_retry_step:
  assumes ih: "\<And>w y. rec w = Some y \<Longrightarrow> effect_done os req pid w (fst y) (snd y)"
    and step: "(case ptrace os req pid w of (e, w) \<Rightarrow>
        if e = EIO \<or> e = EFAULT \<or> e = EINVAL \<or> e = ESRCH \<or> e = 0 then Some (e, w)
        else let t1 = time_sec os (syscalls w); w = syscall w
             in if t1 - t0 < PTRACE_TIMEOUT then rec w else Some (e, w)) = Some y"
  shows "effect_done os req pid w (fst y) (snd y)"
proof -
  obtain e w1 where p: "ptrace os req pid w = (e, w1)" by fastforce
  note w1 = ptrace_result [OF p]
  show ?thesis
  proof (cases "y = (e, w1)")
    case True
    with w1 show ?thesis by (auto simp: effect_done_def split: if_splits intro: same_world_refl)
  next
    case False
    with step p w1 have e: "e \<noteq> 0" "same_world w (syscall w1)"
      by (auto split: if_splits intro: same_world_trans)
    with step p False have "rec (syscall w1) = Some y \<or> y = (e, syscall w1)"
      by (auto simp: Let_def split: if_splits)
    then show ?thesis
    proof
      assume "rec (syscall w1) = Some y"
      then show ?thesis by (rule effect_done_later [OF e(2) ih])
    qed (use e in \<open>simp add: effect_done_def\<close>)
  qed
qed

lemma ulp_ptrace_retry_result:
  assumes "ulp_ptrace_retry os req pid t0 w = Some (e, w')"
  shows "effect_done os req pid w e w'"
proof -
  have "effect_done os req pid w (fst (e, w')) (snd (e, w'))"
  proof (rule ulp_ptrace_retry.raw_induct
      [where P = "\<lambda>os req pid t0 w y. effect_done os req pid w (fst y) (snd y)", OF _ assms])
    fix rec os req pid t0 w y
    assume "\<And>os req pid t0 w y. rec os req pid t0 w = Some y \<Longrightarrow> effect_done os req pid w (fst y) (snd y)"
      and "(case ptrace os req pid w of (e, w) \<Rightarrow>
        if e = EIO \<or> e = EFAULT \<or> e = EINVAL \<or> e = ESRCH \<or> e = 0 then Some (e, w)
        else let t1 = time_sec os (syscalls w); w = syscall w
             in if t1 - t0 < PTRACE_TIMEOUT then rec os req pid t0 w else Some (e, w)) = Some y"
    then show "effect_done os req pid w (fst y) (snd y)" by (rule ulp_ptrace_retry_step)
  qed
  then show ?thesis by simp
qed

lemma ulp_ptrace_result:
  assumes "ulp_ptrace os req pid w = Some (e, w')"
  shows "effect_done os req pid w e w'"
proof -
  obtain e1 w1 where p: "ptrace os req pid w = (e1, w1)" by fastforce
  note w1 = ptrace_result [OF p]
  show ?thesis
  proof (cases "e1 = EBUSY \<or> e1 = EPERM")
    case True
    then have "ulp_ptrace_retry os req pid (time_sec os (syscalls w1)) (syscall w1) = Some (e, w')"
      using assms by (auto simp: ulp_ptrace_def p Let_def)
    then have "effect_done os req pid (syscall w1) e w'" by (rule ulp_ptrace_retry_result)
    then show ?thesis
      by (rule effect_done_later [rotated]) (use True w1 same_world_trans in \<open>auto split: if_splits\<close>)
  next
    case False
    with assms p w1 show ?thesis
      by (auto simp: ulp_ptrace_def effect_done_def split: if_splits intro: same_world_refl)
  qed
qed

lemma attach_wait_same:
  assumes "attach_wait os pid w = Some (r, w')"
  shows "same_world w w'"
proof -
  have "same_world w (snd (r, w'))"
    by (rule attach_wait.raw_induct [where P = "\<lambda>os pid w y. same_world w (snd y)", OF _ assms])
       (auto simp: Let_def split: prod.splits if_splits intro: same_world_trans [OF same_world_refl(2)])
  then show ?thesis by simp
qed

lemma run_wait_same:
  assumes "run_wait os pid t0 timeout w = Some (r, w')"
  shows "same_world w w'"
proof -
  have two: "same_world w (syscall (syscall w))" for w by (simp add: same_world_def syscall_def)
  have "same_world w (snd (r, w'))"
    by (rule run_wait.raw_induct [where P = "\<lambda>os pid t0 timeout w y. same_world w (snd y)", OF _ assms])
       (auto simp: Let_def two split: prod.splits if_splits intro: same_world_trans [OF two])
  then show ?thesis by simp
qed

lemma attach_result:
  assumes "attach os t w = Some (r, w')"
  shows "tregs w' = tregs w" "tmem w' = tmem w"
    and "r = 0 \<Longrightarrow> traced w' = (traced w)(t := True)"
    and "traced w' = traced w \<or> traced w' = (traced w)(t := True)"
proof -
  obtain e w1 where 1: "ulp_ptrace os PTRACE_ATTACH t w = Some (e, w1)"
    using assms by (auto simp: attach_def split: Option.bind_splits)
  note d = ulp_ptrace_result [OF 1]
  have "tregs w' = tregs w \<and> tmem w' = tmem w \<and> (r = 0 \<longrightarrow> traced w' = (traced w)(t := True)) \<and>
      (traced w' = traced w \<or> traced w' = (traced w)(t := True))"
  proof (cases "e = 0")
    case True
    then have "same_world w1 w'" using assms 1 attach_wait_same by (simp add: attach_def)
    then show ?thesis using d True by (auto simp: effect_done_def same_world_def)
  next
    case False
    then show ?thesis using assms 1 d by (auto simp: attach_def effect_done_def same_world_def)
  qed
  then show "tregs w' = tregs w" "tmem w' = tmem w" "r = 0 \<Longrightarrow> traced w' = (traced w)(t := True)"
    "traced w' = traced w \<or> traced w' = (traced w)(t := True)" by blast+
qed

lemma detach_result:
  assumes "detach os t w = Some (r, w')"
  shows "tregs w' = tregs w" "tmem w' = tmem w"
    and "traced w' = (if r = 0 then (traced w)(t := False) else traced w)"
  using assms
  by (auto simp: detach_def effect_done_def same_world_def split: Option.bind_splits if_splits
      dest!: ulp_ptrace_result)

lemma get_regs_result:
  assumes "get_regs os t regs w = Some (r, regs', w')"
  shows "tregs w' = tregs w" "tmem w' = tmem w" "traced w' = traced w" "r = 0 \<Longrightarrow> regs' = tregs w t"
  using assms
  by (auto simp: get_regs_def effect_done_def same_world_def split: Option.bind_splits if_splits
      dest!: ulp_ptrace_result)

lemma set_regs_result:
  assumes "set_regs os t regs w = Some (r, w')"
  shows "traced w' = traced w" "tmem w' = tmem w"
    and "tregs w' = (if r = 0 then (tregs w)(t := regs) else tregs w)"
  using assms
  by (auto simp: set_regs_def effect_done_def same_world_def split: Option.bind_splits if_splits
      dest!: ulp_ptrace_result)

lemma disable_seccomp_result:
  assumes "disable_seccomp os t w = Some (r, w')"
  shows "traced w' = traced w" "tmem w' = tmem w" "tregs w' = tregs w"
  using assms
  by (auto simp: disable_seccomp_def effect_done_def same_world_def split: Option.bind_splits if_splits
      dest!: ulp_ptrace_result)

lemma run_and_redirect_result:
  assumes "run_and_redirect os timeout t regs routine w = Some (r, regs', w')"
  shows "traced w' = traced w" "\<And>u. u \<noteq> t \<Longrightarrow> tregs w' u = tregs w u"
    and "r = 0 \<Longrightarrow> \<exists>n. resumes os n (redirected regs routine) (tmem w) = (regs', tmem w') \<and>
           tregs w' = (tregs w)(t := regs')"
proof -
  let ?R = "redirected regs routine"
  obtain e1 w1 where 1: "ulp_ptrace os (PTRACE_SETREGS ?R) t w = Some (e1, w1)"
    using assms by (auto simp: run_and_redirect_def Let_def split: Option.bind_splits)
  note d1 = ulp_ptrace_result [OF 1]
  have "traced w' = traced w \<and> (\<forall>u. u \<noteq> t \<longrightarrow> tregs w' u = tregs w u) \<and> (r = 0 \<longrightarrow>
    (\<exists>n. resumes os n ?R (tmem w) = (regs', tmem w') \<and> tregs w' = (tregs w)(t := regs')))"
  proof (cases "e1 = 0")
    case True
    then have w1: "traced w1 = traced w" "tregs w1 = (tregs w)(t := ?R)" "tmem w1 = tmem w"
      using d1 by (auto simp: effect_done_def same_world_def)
    obtain e2 w2 where 2: "ulp_ptrace os PTRACE_CONT t w1 = Some (e2, w2)"
      using assms 1 True by (auto simp: run_and_redirect_def Let_def split: Option.bind_splits)
    note d2 = ulp_ptrace_result [OF 2]
    show ?thesis
    proof (cases "e2 = 0")
      case e2: True
      then obtain v where v: "same_world w1 v" "same_world (ptrace_effect os PTRACE_CONT t v) w2"
        using d2 by (auto simp: effect_done_def)
      then have res: "resumes os (syscalls v) ?R (tmem w) = (tregs w2 t, tmem w2)"
        and w2: "traced w2 = traced w" "\<forall>u. u \<noteq> t \<longrightarrow> tregs w2 u = tregs w u"
        using w1 by (auto simp: same_world_def split: prod.splits)
      obtain r3 w3 where 3: "run_wait os t (time_sec os (syscalls w2)) timeout (syscall w2) = Some (r3, w3)"
        using assms 1 True 2 e2 by (auto simp: run_and_redirect_def Let_def split: Option.bind_splits)
      have w3: "same_world w2 w3" using run_wait_same [OF 3] same_world_trans same_world_refl(2) by blast
      show ?thesis
      proof (cases "r3 = 0")
        case r3: True
        obtain e4 w4 where 4: "ulp_ptrace os PTRACE_GETREGS t w3 = Some (e4, w4)"
          using assms 1 True 2 e2 3 r3 by (auto simp: run_and_redirect_def Let_def split: Option.bind_splits)
        have "same_world w3 w4"
          using ulp_ptrace_result [OF 4] by (auto simp: effect_done_def split: if_splits intro: same_world_trans)
        then have "same_world w2 w4" by (rule same_world_trans [OF w3])
        moreover have "w' = w4" "r = 0 \<Longrightarrow> regs' = tregs w4 t"
          using assms 1 True 2 e2 3 r3 4 by (auto simp: run_and_redirect_def Let_def split: if_splits)
        ultimately show ?thesis using res w2 by (auto simp: same_world_def intro!: ext)
      next
        case False
        then show ?thesis
          using assms 1 True 2 e2 3 w3 w2
          by (auto simp: run_and_redirect_def Let_def same_world_def)
      qed
    next
      case False
      then show ?thesis using assms 1 True 2 d2 w1
        by (auto simp: run_and_redirect_def Let_def effect_done_def same_world_def)
    qed
  next
    case False
    then show ?thesis using assms 1 d1
      by (auto simp: run_and_redirect_def Let_def effect_done_def same_world_def)
  qed
  then show "traced w' = traced w" "\<And>u. u \<noteq> t \<Longrightarrow> tregs w' u = tregs w u"
    "r = 0 \<Longrightarrow> \<exists>n. resumes os n ?R (tmem w) = (regs', tmem w') \<and> tregs w' = (tregs w)(t := regs')"
    by blast+
qed

lemma unat_lt_max: "unat (x :: u64) < 2 ^ 64"
  using unsigned_less [of x] by simp

lemma redirected_stack:
  assumes "192 \<le> unat (rsp regs)"
  shows "unat (rsp (redirected regs routine)) = unat (rsp regs) - 128 - (unat (rsp regs) - 128) mod 64"
proof -
  let ?x = "rsp regs - RED_ZONE_LEN"
  have x: "unat ?x = unat (rsp regs) - 128"
    using assms by (simp add: RED_ZONE_LEN_def unat_sub_if')
  have m: "(0xFFFFFFFFFFFFFFC0 :: u64) = push_bit 6 (drop_bit 6 (-1))" by code_simp
  have "rsp (redirected regs routine) = push_bit 6 (drop_bit 6 ?x)"
    unfolding redirected_def m by (rule bit_word_eqI) (auto simp: bit_simps)
  then have "rsp (redirected regs routine) = ?x div 64 * 64"
    by (simp add: push_bit_eq_mult drop_bit_eq_div)
  moreover have "unat ?x div 64 * 64 < 2 ^ 64"
    by (rule le_less_trans [OF div_times_less_eq_dividend]) (use unat_lt_max [of ?x] in simp)
  ultimately have "unat (rsp (redirected regs routine)) = unat ?x div 64 * 64"
    by (simp add: unat_word_ariths unat_div)
  then show ?thesis using x by (simp add: minus_mod_eq_div_mult)
qed

subsection \<open>Properties\<close>

text \<open>
  Claim C22. Running a routine respects the interrupted thread. With a clock that runs \<open>run_and_redirect\<close>
  returns; when it returns 0 the routine was entered once, behind its leading nops, on a stack aligned to 64
  bytes that starts below the 128 bytes of the red zone and at most 191 bytes below the old stack
  pointer, with every other register as given.
\<close>

theorem run_and_redirect_red_zone:
  assumes "clock_runs os" and "192 \<le> unat (rsp regs)"
  shows "\<exists>r regs' w'. run_and_redirect os timeout t regs routine w = Some (r, regs', w') \<and> (r = 0 \<longrightarrow>
    (\<exists>n sp. sp mod 64 = 0 \<and> sp + 128 \<le> unat (rsp regs) \<and> unat (rsp regs) < sp + 192 \<and>
      resumes os n (regs\<lparr>rip := routine + 2, rsp := of_nat sp\<rparr>) (tmem w) = (regs', tmem w')))"
proof -
  obtain r regs' w' where run: "run_and_redirect os timeout t regs routine w = Some (r, regs', w')"
    using run_and_redirect_total [OF assms(1)] by (metis prod_cases3)
  define sp where "sp = unat (rsp (redirected regs routine))"
  have "(unat (rsp regs) - 128) mod 64 < 64" by simp
  then have bounds: "sp mod 64 = 0" "sp + 128 \<le> unat (rsp regs)" "unat (rsp regs) < sp + 192"
    using redirected_stack [OF assms(2), of routine] assms(2)
    by (simp_all add: sp_def minus_mod_eq_mult_div)
  have "rsp (redirected regs routine) = of_nat sp" by (simp add: sp_def)
  then have red: "redirected regs routine = regs\<lparr>rip := routine + 2, rsp := of_nat sp\<rparr>"
    unfolding redirected_def RESTART_SYSCALL_SIZE_def by simp
  show ?thesis
  proof (cases "r = 0")
    case True
    then obtain n where "resumes os n (regs\<lparr>rip := routine + 2, rsp := of_nat sp\<rparr>) (tmem w) = (regs', tmem w')"
      using run_and_redirect_result(3) [OF run] unfolding red by blast
    with bounds have "\<exists>n sp. sp mod 64 = 0 \<and> sp + 128 \<le> unat (rsp regs) \<and> unat (rsp regs) < sp + 192 \<and>
        resumes os n (regs\<lparr>rip := routine + 2, rsp := of_nat sp\<rparr>) (tmem w) = (regs', tmem w')"
      by (intro exI [of _ n] exI [of _ sp]) simp
    with run show ?thesis by auto
  qed (use run in simp)
qed

definition busy_os :: os where
  "busy_os = \<lparr>pt_errno = (\<lambda>n. if n < 2 then EBUSY else 0), wait_ret = (\<lambda>_. (7, 0x137f, 0)),
     time_sec = int, resumes = (\<lambda>_ r m. (r\<lparr>rax := 0\<rparr>, m)), mem_access = all_ok\<rparr>"

theorem run_and_redirect_red_zone_witness:
  "\<exists>r regs' w'. run_and_redirect busy_os 200 7 \<lparr>rip = 0x4000, rsp = 0x7ffe0018, rax = 5, gprs = (\<lambda>_. 0)\<rparr> 0x9000
     \<lparr>syscalls = 0, traced = (\<lambda>_. True), tregs = (\<lambda>_. undefined), tmem = (\<lambda>_. 0), unfiltered = (\<lambda>_. False)\<rparr> =
     Some (r, regs', w')"
proof -
  have "clock_runs busy_os" unfolding clock_runs_def busy_os_def
    by (rule allI, rule_tac x = "nat t" in exI) auto
  then show ?thesis using run_and_redirect_red_zone
      [of busy_os "\<lparr>rip = 0x4000, rsp = 0x7ffe0018, rax = 5, gprs = (\<lambda>_. 0)\<rparr>"] by fastforce
qed

end
