(* ===== verification/Hijack.thy ===== *)
theory Hijack
  imports Ptrace_Control Ulp_Metadata
begin

text \<open>
  The critical section of the tool: \<open>hijack_threads\<close>, the operations that run a routine of libpulp.so
  in the hijacked main thread, and \<open>restore_threads\<close>, all of \<open>src/tools/introspection.c\<close>.

  The record \<open>procfs\<close> is what the tool sees of the operating system beside \<open>os\<close>: the result of opening
  \<open>/proc/<pid>/task\<close> (0 or an \<open>errno\<close>), the thread numbers a scan of that directory delivers (as \<open>atoi\<close>
  reads the names) with the \<open>errno\<close> after its end, and whether an allocation succeeds, each
  indexed by the number of system calls made before. A \<open>NULL\<close> pointer is \<open>None\<close>; dereferencing it
  does not return.
\<close>

subsection \<open>Processes and threads\<close>

record ulp_thread =
  tid :: int
  tcontext :: registers

text \<open>The addresses of \<open>struct ulp_dynobj\<close> that only the entry of libpulp.so uses.\<close>

record libpulp_syms = libpulp_dynobj +
  trigger :: u64
  check :: u64
  global :: u64
  revert_all :: u64
  metadata_buffer_addr :: u64

record ulp_process =
  pid :: int
  all_threads_hijacked :: bool
  threads :: "ulp_thread list"
  main_thread :: "ulp_thread option"
  dynobj_libpulp :: libpulp_syms
  global_universe :: u64

record procfs =
  task_open :: "nat \<Rightarrow> int"
  task_scan :: "nat \<Rightarrow> int list \<times> int"
  alloc_ok :: "nat \<Rightarrow> bool"

fun search_thread :: "ulp_thread list \<Rightarrow> int \<Rightarrow> ulp_thread option" where
  "search_thread [] t = None"
| "search_thread (x # xs) t = (if tid x = t then Some x else search_thread xs t)"

subsection \<open>Entering the critical section\<close>

definition no_regs :: registers where
  "no_regs = \<lparr>rip = 0, rsp = 0, rax = 0, gprs = (\<lambda>_. 0)\<rparr>"

text \<open>
  A new thread: allocation of its entry, attachment, its registers, the update of the list. The first
  component of the result is \<open>False\<close> after a \<open>goto children_restore\<close>.
\<close>

definition hijack_thread :: "os \<Rightarrow> procfs \<Rightarrow> int \<Rightarrow> ulp_process \<Rightarrow> world \<Rightarrow> (bool \<times> ulp_process \<times> world) option" where
  "hijack_thread os fs t p w =
     (if \<not> alloc_ok fs (syscalls w) then Some (False, p, w)
      else do {
        (r, w) \<leftarrow> attach os t w;
        if r \<noteq> 0 then Some (False, p, w)
        else do {
          (r, regs, w) \<leftarrow> get_regs os t no_regs w;
          if r \<noteq> 0 then do { (_, w) \<leftarrow> detach os t w; Some (False, p, w) }
          else (let th = \<lparr>tid = t, tcontext = regs\<rparr>;
                    p = p\<lparr>threads := th # threads p\<rparr>;
                    p = (if t = 0 \<or> t = pid p then p\<lparr>main_thread := Some th\<rparr> else p)
                in Some (True, p, w)) }})"

text \<open>One scan of the task directory; the second component of the result is \<open>loop\<close>.\<close>

fun hijack_scan ::
  "os \<Rightarrow> procfs \<Rightarrow> int list \<Rightarrow> bool \<Rightarrow> ulp_process \<Rightarrow> world \<Rightarrow> (bool \<times> bool \<times> ulp_process \<times> world) option" where
  "hijack_scan os fs [] loop p w = Some (True, loop, p, w)"
| "hijack_scan os fs (t # ts) loop p w =
     (if t = 0 then hijack_scan os fs ts loop p w
      else case search_thread (threads p) t of
        Some _ \<Rightarrow> hijack_scan os fs ts loop p w
      | None \<Rightarrow> do {
          (complete, p, w) \<leftarrow> hijack_thread os fs t p w;
          if complete then hijack_scan os fs ts True p w else Some (False, True, p, w) })"

fun detach_all :: "os \<Rightarrow> ulp_thread list \<Rightarrow> bool \<Rightarrow> world \<Rightarrow> (bool \<times> world) option" where
  "detach_all os [] fatal w = Some (fatal, w)"
| "detach_all os (th # ths) fatal w = do {
     (r, w) \<leftarrow> detach os (tid th) w;
     detach_all os ths (fatal \<or> r \<noteq> 0) w }"

definition children_restore :: "os \<Rightarrow> ulp_process \<Rightarrow> world \<Rightarrow> (int \<times> ulp_process \<times> world) option" where
  "children_restore os p w = do {
     (fatal, w) \<leftarrow> detach_all os (threads p) False w;
     Some (if fatal then ETHRDDETTACH else ETHRDATTACH, p\<lparr>threads := []\<rparr>, w) }"

partial_function (option) hijack_loop ::
  "os \<Rightarrow> procfs \<Rightarrow> ulp_process \<Rightarrow> world \<Rightarrow> (int \<times> ulp_process \<times> world) option" where
  "hijack_loop os fs p w =
     (case task_scan fs (syscalls w) of (ts, e) \<Rightarrow> do {
        (complete, loop, p, w) \<leftarrow> hijack_scan os fs ts False p (syscall w);
        if \<not> complete \<or> e \<noteq> 0 then children_restore os p w
        else if loop then hijack_loop os fs p w
        else Some (0, p\<lparr>all_threads_hijacked := True\<rparr>, w) })"

definition hijack_threads :: "os \<Rightarrow> procfs \<Rightarrow> ulp_process \<Rightarrow> world \<Rightarrow> (int \<times> ulp_process \<times> world) option" where
  "hijack_threads os fs p w =
     (if all_threads_hijacked p then Some (EUNKNOWN, p, w)
      else let e = task_open fs (syscalls w); w = syscall w
           in if e = ENOENT then Some (ESRCH, p, w)
              else if e \<noteq> 0 then Some (e, p, w)
              else hijack_loop os fs p w)"

subsection \<open>Leaving it\<close>

fun restore_loop :: "os \<Rightarrow> ulp_thread list \<Rightarrow> int \<Rightarrow> world \<Rightarrow> (int \<times> world) option" where
  "restore_loop os [] errors w = Some (errors, w)"
| "restore_loop os (th # ths) errors w = do {
     (r, w) \<leftarrow> set_regs os (tid th) (tcontext th) w;
     (r', w) \<leftarrow> detach os (tid th) w;
     restore_loop os ths (if r \<noteq> 0 \<or> r' \<noteq> 0 then 1 else errors) w }"

definition restore_threads :: "os \<Rightarrow> ulp_process \<Rightarrow> world \<Rightarrow> (int \<times> ulp_process \<times> world) option" where
  "restore_threads os p w = do {
     (errors, w) \<leftarrow> restore_loop os (threads p) 0 w;
     Some (errors, p\<lparr>all_threads_hijacked := False, threads := []\<rparr>, w) }"

subsection \<open>Operations inside the critical section\<close>

text \<open>Writes of the tool into the memory of the process.\<close>

definition write_target :: "os \<Rightarrow> bytes \<Rightarrow> u64 \<Rightarrow> world \<Rightarrow> (int \<times> world) option" where
  "write_target os bs a w = do {
     (r, m) \<leftarrow> write_bytes (mem_access os) bs a (tmem w);
     Some (r, w\<lparr>tmem := m\<rparr>) }"

definition set_id_buffer :: "os \<Rightarrow> ulp_process \<Rightarrow> bytes \<Rightarrow> world \<Rightarrow> (int \<times> world) option" where
  "set_id_buffer os p lp_id w =
     (if \<not> all_threads_hijacked p then Some (EUNKNOWN, w)
      else if main_thread p = None then None
      else do {
        (r, w) \<leftarrow> write_target os (take 32 lp_id) (metadata_buffer_addr (dynobj_libpulp p)) w;
        Some (if r \<noteq> 0 then ETARGETHOOK else 0, w) })"

definition set_metadata_buffer :: "os \<Rightarrow> ulp_process \<Rightarrow> bytes \<Rightarrow> world \<Rightarrow> (int \<times> world) option" where
  "set_metadata_buffer os p metadata w =
     (if length metadata \<ge> ULP_METADATA_BUF_LEN then Some (EOVERFLOW, w)
      else if main_thread p = None then None
      else do {
        (r, w) \<leftarrow> write_target os metadata (metadata_buffer_addr (dynobj_libpulp p)) w;
        Some (if r \<noteq> 0 then EUNKNOWN else ENONE, w) })"

definition set_string_buffer :: "os \<Rightarrow> ulp_process \<Rightarrow> bytes \<Rightarrow> world \<Rightarrow> (int \<times> world) option" where
  "set_string_buffer os p string w = set_metadata_buffer os p (string @ [0]) w"

text \<open>A register converted to \<open>int\<close>.\<close>

definition int_of_reg :: "u64 \<Rightarrow> int" where
  "int_of_reg r = sint (ucast r :: u32)"

text \<open>\<open>patch_applied\<close> returns its code and, when that is 0, the value stored in \<open>*result\<close>.\<close>

definition patch_applied :: "os \<Rightarrow> int \<Rightarrow> ulp_process \<Rightarrow> bytes \<Rightarrow> world \<Rightarrow> (int \<times> int option \<times> world) option" where
  "patch_applied os timeout p lp_id w =
     (if \<not> all_threads_hijacked p then Some (EUNKNOWN, None, w)
      else do {
        (r, w) \<leftarrow> set_id_buffer os p lp_id w;
        if r \<noteq> 0 then Some (ETARGETHOOK, None, w)
        else do {
          thread \<leftarrow> main_thread p;
          (ret, ctx, w) \<leftarrow> run_and_redirect os timeout (tid thread) (tcontext thread) (check (dynobj_libpulp p)) w;
          if ret \<noteq> 0 then Some (ret, None, w) else Some (0, Some (int_of_reg (rax ctx)), w) }})"

text \<open>
  The end that \<open>apply_patch\<close> and \<open>revert_patches_from_lib\<close> share: the queue of libpulp.so is
  interpreted, unless the library is too old to have one, and the routine's own result is returned.
\<close>

definition interpret_and_return :: "os \<Rightarrow> ulp_process \<Rightarrow> registers \<Rightarrow> world \<Rightarrow> (int \<times> world) option" where
  "interpret_and_return os p ctx w = do {
     (ret, m) \<leftarrow> insnq_interpret_from_process (mem_access os) (insn_queue_addr (dynobj_libpulp p)) (tmem w);
     let w = w\<lparr>tmem := m\<rparr>;
     if ret \<noteq> 0 \<and> ret \<noteq> EOLDLIBPULP then Some (ret, w) else Some (int_of_reg (rax ctx), w) }"

definition apply_patch :: "os \<Rightarrow> int \<Rightarrow> ulp_process \<Rightarrow> bytes \<Rightarrow> bool \<Rightarrow> world \<Rightarrow> (int \<times> world) option" where
  "apply_patch os timeout p metadata disable_seccomp_p w =
     (if \<not> all_threads_hijacked p then Some (EUNKNOWN, w)
      else do {
        (r, w) \<leftarrow> set_metadata_buffer os p metadata w;
        if r \<noteq> 0 then Some (ETARGETHOOK, w)
        else do {
          (r, w) \<leftarrow> (if disable_seccomp_p then disable_seccomp os (pid p) w else Some (0, w));
          if r \<noteq> 0 then Some (r, w)
          else do {
            thread \<leftarrow> main_thread p;
            (ret, ctx, w) \<leftarrow> run_and_redirect os timeout (tid thread) (tcontext thread) (trigger (dynobj_libpulp p)) w;
            if ret \<noteq> 0 then Some (ret, w)
            else if rax ctx \<noteq> 0 \<and> rax ctx \<noteq> of_int EAGAIN \<and> rax ctx = rax (tcontext thread) then Some (EHOOKNOTRUN, w)
            else interpret_and_return os p ctx w }}})"

text \<open>\<open>target\<close> is the name in the global \<open>ulp.objs\<close>, when a patch is loaded.\<close>

definition revert_patches_from_lib ::
  "os \<Rightarrow> int \<Rightarrow> ulp_process \<Rightarrow> bytes option \<Rightarrow> bytes \<Rightarrow> world \<Rightarrow> (int \<times> world) option" where
  "revert_patches_from_lib os timeout p target lib_name w =
     (let lib_name = (case target of Some nm \<Rightarrow> if lib_name = str ''target'' then nm else lib_name | None \<Rightarrow> lib_name)
      in if \<not> all_threads_hijacked p then Some (EUNKNOWN, w)
         else do {
           (r, w) \<leftarrow> set_string_buffer os p lib_name w;
           if r \<noteq> 0 then Some (ETARGETHOOK, w)
           else do {
             thread \<leftarrow> main_thread p;
             (ret, ctx, w) \<leftarrow> run_and_redirect os timeout (tid thread) (tcontext thread) (revert_all (dynobj_libpulp p)) w;
             if ret \<noteq> 0 then Some (ret, w)
             else interpret_and_return os p ctx w }})"

definition read_global_universe :: "os \<Rightarrow> int \<Rightarrow> ulp_process \<Rightarrow> world \<Rightarrow> (int \<times> ulp_process \<times> world) option" where
  "read_global_universe os timeout p w =
     (if \<not> all_threads_hijacked p then Some (EUNKNOWN, p, w)
      else do {
        thread \<leftarrow> main_thread p;
        (ret, ctx, w) \<leftarrow> run_and_redirect os timeout (tid thread) (tcontext thread) (global (dynobj_libpulp p)) w;
        if ret \<noteq> 0 then Some (-1, p, w) else Some (0, p\<lparr>global_universe := rax ctx\<rparr>, w) })"

subsection \<open>What hijacking establishes\<close>

definition tids :: "ulp_process \<Rightarrow> int set" where
  "tids p = tid ` set (threads p)"

text \<open>
  The invariant of the scans, relative to the state \<open>w0\<close> before them: the attached threads are those
  in the list, each with the registers it had, and nothing else has changed.
\<close>

definition hijack_inv :: "world \<Rightarrow> ulp_process \<Rightarrow> world \<Rightarrow> bool" where
  "hijack_inv w0 p w \<longleftrightarrow>
     distinct (map tid (threads p)) \<and> (\<forall>th \<in> set (threads p). tcontext th = tregs w0 (tid th)) \<and>
     tregs w = tregs w0 \<and> tmem w = tmem w0 \<and> (\<forall>t. traced w t \<longleftrightarrow> t \<in> tids p)"

text \<open>The main thread's entry, once the thread with the number of the process is found.\<close>

definition main_inv :: "ulp_thread option \<Rightarrow> ulp_process \<Rightarrow> bool" where
  "main_inv m0 p \<longleftrightarrow>
     (if pid p \<in> tids p then \<exists>th \<in> set (threads p). main_thread p = Some th \<and> tid th = pid p else main_thread p = m0)"

definition same_process :: "ulp_process \<Rightarrow> ulp_process \<Rightarrow> bool" where
  "same_process p p' \<longleftrightarrow> pid p' = pid p \<and> all_threads_hijacked p' = all_threads_hijacked p \<and>
     dynobj_libpulp p' = dynobj_libpulp p \<and> global_universe p' = global_universe p"

lemma search_thread_None: "search_thread ths t = None \<longleftrightarrow> t \<notin> tid ` set ths"
  by (induction ths) auto

lemma hijack_inv_syscall [simp]: "hijack_inv w0 p (syscall w) = hijack_inv w0 p w"
  by (simp add: hijack_inv_def syscall_def)

text \<open>One more thread is attached and recorded.\<close>

lemma hijack_inv_Cons:
  assumes "hijack_inv w0 p w" and "t \<notin> tids p"
    and "traced w' = (traced w)(t := True)" and "tregs w' = tregs w" and "tmem w' = tmem w"
    and "threads p' = \<lparr>tid = t, tcontext = tregs w t\<rparr> # threads p"
  shows "hijack_inv w0 p' w'"
  using assms by (auto simp: hijack_inv_def tids_def)

lemma hijack_thread_result:
  assumes "hijack_thread os fs t p w = Some (c, p', w')"
  shows "same_process p p'" "tregs w' = tregs w" "tmem w' = tmem w"
    and "c \<Longrightarrow> threads p' = \<lparr>tid = t, tcontext = tregs w t\<rparr> # threads p \<and> traced w' = (traced w)(t := True) \<and>
           main_thread p' = (if t = 0 \<or> t = pid p then Some \<lparr>tid = t, tcontext = tregs w t\<rparr> else main_thread p)"
    and "\<not> c \<Longrightarrow> p' = p \<and> (\<forall>u. u \<noteq> t \<longrightarrow> traced w' u = traced w u)"
proof -
  have "same_process p p' \<and> tregs w' = tregs w \<and> tmem w' = tmem w \<and>
    (c \<longrightarrow> threads p' = \<lparr>tid = t, tcontext = tregs w t\<rparr> # threads p \<and> traced w' = (traced w)(t := True) \<and>
      main_thread p' = (if t = 0 \<or> t = pid p then Some \<lparr>tid = t, tcontext = tregs w t\<rparr> else main_thread p)) \<and>
    (\<not> c \<longrightarrow> p' = p \<and> (\<forall>u. u \<noteq> t \<longrightarrow> traced w' u = traced w u))"
  proof (cases "alloc_ok fs (syscalls w)")
    case True
    then obtain r w1 where at: "attach os t w = Some (r, w1)"
      using assms by (auto simp: hijack_thread_def split: Option.bind_splits)
    note w1 = attach_result [OF at]
    show ?thesis
    proof (cases "r = 0")
      case r: True
      obtain r2 regs w2 where gr: "get_regs os t no_regs w1 = Some (r2, regs, w2)"
        using assms True at r by (auto simp: hijack_thread_def split: Option.bind_splits)
      note w2 = get_regs_result [OF gr]
      show ?thesis
      proof (cases "r2 = 0")
        case r2: True
        then show ?thesis using assms True at r gr w1 w2 by (auto simp: hijack_thread_def Let_def same_process_def)
      next
        case False
        then obtain r3 w3 where de: "detach os t w2 = Some (r3, w3)"
          using assms True at r gr by (auto simp: hijack_thread_def split: Option.bind_splits)
        show ?thesis using assms True at r gr False de w1 w2 detach_result [OF de]
          by (auto simp: hijack_thread_def same_process_def)
      qed
    qed (use assms True at w1 in \<open>auto simp: hijack_thread_def same_process_def\<close>)
  qed (use assms in \<open>auto simp: hijack_thread_def same_process_def\<close>)
  then show "same_process p p'" "tregs w' = tregs w" "tmem w' = tmem w"
    and "c \<Longrightarrow> threads p' = \<lparr>tid = t, tcontext = tregs w t\<rparr> # threads p \<and> traced w' = (traced w)(t := True) \<and>
           main_thread p' = (if t = 0 \<or> t = pid p then Some \<lparr>tid = t, tcontext = tregs w t\<rparr> else main_thread p)"
    and "\<not> c \<Longrightarrow> p' = p \<and> (\<forall>u. u \<noteq> t \<longrightarrow> traced w' u = traced w u)" by blast+
qed

lemma same_process_refl [simp]: "same_process p p"
  by (simp add: same_process_def)

lemma same_process_trans: "same_process p p' \<Longrightarrow> same_process p' p'' \<Longrightarrow> same_process p p''"
  by (simp add: same_process_def)

text \<open>A thread that is new: the scan goes on after it, or ends.\<close>

lemma hijack_scan_new:
  assumes "t \<noteq> 0" and "t \<notin> tids p"
  shows "hijack_scan os fs (t # ts) loop p w = do {
           (complete, p, w) \<leftarrow> hijack_thread os fs t p w;
           if complete then hijack_scan os fs ts True p w else Some (False, True, p, w) }"
  using assms search_thread_None [of "threads p" t] by (simp add: tids_def)

lemma hijack_scan_known:
  assumes "t = 0 \<or> t \<in> tids p"
  shows "hijack_scan os fs (t # ts) loop p w = hijack_scan os fs ts loop p w"
  using assms search_thread_None [of "threads p" t] by (auto simp: tids_def split: option.split)

definition scan_ok :: "world \<Rightarrow> ulp_thread option \<Rightarrow> int list \<Rightarrow> ulp_process \<Rightarrow> ulp_process \<Rightarrow> world \<Rightarrow> bool \<Rightarrow> bool" where
  "scan_ok w0 m0 ts p p' w' found \<longleftrightarrow> hijack_inv w0 p' w' \<and> main_inv m0 p' \<and> set ts - {0} \<subseteq> tids p' \<and>
     (\<exists>new. threads p' = new @ threads p \<and> (found \<longleftrightarrow> new \<noteq> []) \<and> tid ` set new \<subseteq> set ts)"

definition scan_failed :: "world \<Rightarrow> ulp_process \<Rightarrow> world \<Rightarrow> bool" where
  "scan_failed w0 p' w' \<longleftrightarrow> tregs w' = tregs w0 \<and> tmem w' = tmem w0 \<and>
     (\<exists>t. \<forall>u. traced w' u \<longrightarrow> u = t \<or> u \<in> tids p')"

lemma hijack_scan_result:
  assumes "hijack_scan os fs ts loop p w = Some (c, l, p', w')"
    and "hijack_inv w0 p w" and "main_inv m0 p"
  shows "same_process p p' \<and>
    (if c then \<exists>found. scan_ok w0 m0 ts p p' w' found \<and> (l \<longleftrightarrow> loop \<or> found) else scan_failed w0 p' w')"
  using assms
proof (induction ts arbitrary: loop p w)
  case Nil
  then show ?case by (auto simp: scan_ok_def)
next
  case (Cons t ts)
  show ?case
  proof (cases "t = 0 \<or> t \<in> tids p")
    case True
    then have run: "hijack_scan os fs ts loop p w = Some (c, l, p', w')"
      using Cons.prems(1) by (simp only: hijack_scan_known)
    have "scan_ok w0 m0 (t # ts) p p' w' found" if "scan_ok w0 m0 ts p p' w' found" for found
      using that True by (auto simp: scan_ok_def tids_def)
    then show ?thesis using Cons.IH [OF run Cons.prems(2,3)] by (auto split: if_splits)
  next
    case False
    then obtain c1 p1 w1 where th: "hijack_thread os fs t p w = Some (c1, p1, w1)"
      using Cons.prems(1) by (auto simp: hijack_scan_new simp del: hijack_scan.simps split: Option.bind_splits)
    note r = hijack_thread_result [OF th]
    show ?thesis
    proof (cases c1)
      case True
      then have run: "hijack_scan os fs ts True p1 w1 = Some (c, l, p', w')"
        using Cons.prems(1) False th by (simp add: hijack_scan_new del: hijack_scan.simps)
      have inv: "hijack_inv w0 p1 w1"
        by (rule hijack_inv_Cons [OF Cons.prems(2), of t]) (use False r True in auto)
      have mainp: "main_inv m0 p1"
        using Cons.prems(3) r(1,4) True False by (auto simp: main_inv_def tids_def same_process_def)
      have "scan_ok w0 m0 (t # ts) p p' w' True" if "scan_ok w0 m0 ts p1 p' w' found" for found
      proof -
        from that obtain new where new: "threads p' = new @ threads p1" "tid ` set new \<subseteq> set ts"
          by (auto simp: scan_ok_def)
        then have "threads p' = (new @ [\<lparr>tid = t, tcontext = tregs w t\<rparr>]) @ threads p" using r(4) True by simp
        moreover from this have "t \<in> tids p'" by (auto simp: tids_def)
        ultimately show ?thesis using that new(2) unfolding scan_ok_def
          by (intro conjI exI [of _ "new @ [\<lparr>tid = t, tcontext = tregs w t\<rparr>]"]) auto
      qed
      then show ?thesis using Cons.IH [OF run inv mainp] same_process_trans [OF r(1)] by (auto split: if_splits)
    next
      case c1: False
      then have "c = False" "p' = p" "w' = w1"
        using Cons.prems(1) False th r(5) by (auto simp: hijack_scan_new simp del: hijack_scan.simps)
      moreover have "scan_failed w0 p w1"
        using Cons.prems(2) r(2,3,5) c1 unfolding scan_failed_def hijack_inv_def by metis
      ultimately show ?thesis by simp
    qed
  qed
qed

lemma detach_all_result:
  assumes "detach_all os ths fatal w = Some (f, w')"
  shows "tregs w' = tregs w \<and> tmem w' = tmem w \<and> (\<forall>t. traced w' t \<longrightarrow> traced w t) \<and> (fatal \<longrightarrow> f) \<and>
    (\<not> f \<longrightarrow> (\<forall>th \<in> set ths. \<not> traced w' (tid th)))"
  using assms
proof (induction ths arbitrary: fatal w)
  case (Cons th ths)
  obtain r w1 where d: "detach os (tid th) w = Some (r, w1)"
    using Cons.prems by (auto split: Option.bind_splits)
  have run: "detach_all os ths (fatal \<or> r \<noteq> 0) w1 = Some (f, w')" using Cons.prems d by simp
  show ?case using Cons.IH [OF run] detach_result [OF d] by (auto split: if_splits)
qed simp

text \<open>The outcome of hijacking, relative to the process \<open>p\<close> and the state \<open>w0\<close> before it.\<close>

definition hijacked :: "procfs \<Rightarrow> world \<Rightarrow> ulp_process \<Rightarrow> ulp_process \<Rightarrow> world \<Rightarrow> bool" where
  "hijacked fs w0 p p' w' \<longleftrightarrow>
     hijack_inv w0 p' w' \<and> main_inv (main_thread p) p' \<and> all_threads_hijacked p' \<and> pid p' = pid p \<and>
     dynobj_libpulp p' = dynobj_libpulp p \<and> (\<exists>n. set (fst (task_scan fs n)) - {0} \<subseteq> tids p')"

definition released :: "world \<Rightarrow> ulp_process \<Rightarrow> int \<Rightarrow> ulp_process \<Rightarrow> world \<Rightarrow> bool" where
  "released w0 p r p' w' \<longleftrightarrow>
     same_process p p' \<and> threads p' = [] \<and> tregs w' = tregs w0 \<and> tmem w' = tmem w0 \<and>
     (r = ETHRDATTACH \<and> (\<exists>t. \<forall>u. traced w' u \<longrightarrow> u = t) \<or> r = ETHRDDETTACH)"

lemma children_restore_result:
  assumes "children_restore os p' w1 = Some (r, p'', w')" and "scan_failed w0 p' w1" and "same_process p p'"
  shows "released w0 p r p'' w'"
proof -
  obtain fatal where d: "detach_all os (threads p') False w1 = Some (fatal, w')"
    and r: "r = (if fatal then ETHRDDETTACH else ETHRDATTACH)" "p'' = p'\<lparr>threads := []\<rparr>"
    using assms(1) by (auto simp: children_restore_def split: Option.bind_splits)
  from assms(2) obtain t where t: "\<forall>u. traced w1 u \<longrightarrow> u = t \<or> u \<in> tids p'" by (auto simp: scan_failed_def)
  note da = detach_all_result [OF d]
  have "\<exists>t. \<forall>u. traced w' u \<longrightarrow> u = t" if "\<not> fatal"
    using da t that unfolding tids_def by (metis imageE)
  then show ?thesis
    using da assms(2,3) r by (auto simp: released_def scan_failed_def same_process_def)
qed

lemma hijack_inv_failed: "hijack_inv w0 p w \<Longrightarrow> scan_failed w0 p w"
  by (auto simp: hijack_inv_def scan_failed_def)

lemma hijack_loop_result:
  assumes "hijack_loop os fs p w = Some (r, p', w')"
    and "hijack_inv w0 p w" and "main_inv m0 p"
  shows "if r = 0 then hijacked fs w0 (p\<lparr>main_thread := m0\<rparr>) p' w' else released w0 p r p' w'"
proof -
  let ?Q = "\<lambda>fs p w y. hijack_inv w0 p w \<and> main_inv m0 p \<longrightarrow>
     (case y of (r, p', w') \<Rightarrow> if r = 0 then hijacked fs w0 (p\<lparr>main_thread := m0\<rparr>) p' w' else released w0 p r p' w')"
  have "?Q fs p w (r, p', w')"
  proof (rule hijack_loop.raw_induct [where P = "\<lambda>os fs p w y. ?Q fs p w y", OF _ assms(1)], intro impI)
    fix rec os fs p w y
    assume ih: "\<And>os fs p w y. rec os fs p w = Some y \<Longrightarrow> ?Q fs p w y"
      and step: "(case task_scan fs (syscalls w) of (ts, e) \<Rightarrow> do {
        (complete, loop, p, w) \<leftarrow> hijack_scan os fs ts False p (syscall w);
        if \<not> complete \<or> e \<noteq> 0 then children_restore os p w
        else if loop then rec os fs p w
        else Some (0, p\<lparr>all_threads_hijacked := True\<rparr>, w) }) = Some y"
      and inv: "hijack_inv w0 p w \<and> main_inv m0 p"
    obtain ts e where ts: "task_scan fs (syscalls w) = (ts, e)" by fastforce
    then obtain c l p1 w1 where sc: "hijack_scan os fs ts False p (syscall w) = Some (c, l, p1, w1)"
      using step by (auto split: Option.bind_splits)
    obtain r p' w' where y: "y = (r, p', w')" by (metis prod_cases3)
    note res = hijack_scan_result [OF sc, of w0 m0]
    have sp: "same_process p p1" using res inv by simp
    show "case y of (r, p', w') \<Rightarrow> if r = 0 then hijacked fs w0 (p\<lparr>main_thread := m0\<rparr>) p' w' else released w0 p r p' w'"
    proof (cases "\<not> c \<or> e \<noteq> 0")
      case True
      then have "children_restore os p1 w1 = Some (r, p', w')" using step ts sc y by simp
      moreover have "scan_failed w0 p1 w1"
        using res inv hijack_inv_failed by (auto simp: scan_ok_def split: if_splits)
      ultimately have rel: "released w0 p r p' w'" using sp by (rule children_restore_result)
      then show ?thesis using y by (auto simp: released_def)
    next
      case False
      then obtain found where ok: "scan_ok w0 m0 ts p p1 w1 found" "l = found" using res inv by auto
      then have inv1: "hijack_inv w0 p1 w1 \<and> main_inv m0 p1" by (simp add: scan_ok_def)
      show ?thesis
      proof (cases l)
        case True
        then have "rec os fs p1 w1 = Some y" using step ts sc False by simp
        from ih [OF this] inv1 y
        have "if r = 0 then hijacked fs w0 (p1\<lparr>main_thread := m0\<rparr>) p' w' else released w0 p1 r p' w'" by simp
        then show ?thesis using y sp
          by (cases "r = 0") (simp_all add: hijacked_def released_def same_process_def)
      next
        case False': False
        then have "y = (0, p1\<lparr>all_threads_hijacked := True\<rparr>, w1)" using step ts sc False by simp
        moreover have "set (fst (task_scan fs (syscalls w))) - {0} \<subseteq> tids p1" using ok ts by (simp add: scan_ok_def)
        ultimately show ?thesis using inv1 sp
          by (auto simp: hijacked_def hijack_inv_def main_inv_def tids_def same_process_def)
      qed
    qed
  qed
  with assms(2,3) show ?thesis by simp
qed

lemma hijack_threads_result:
  assumes "hijack_threads os fs p w = Some (r, p', w')"
    and "threads p = []" and "\<forall>t. \<not> traced w t" and "\<not> all_threads_hijacked p"
  shows "if r = 0 then hijacked fs w p p' w'
         else released w p r p' w' \<or> p' = p \<and> w' = syscall w \<and> task_open fs (syscalls w) \<noteq> 0"
proof -
  have inv: "hijack_inv w p (syscall w)" "main_inv (main_thread p) p"
    using assms(2,3) by (simp_all add: hijack_inv_def main_inv_def tids_def syscall_def)
  consider (opendir) "task_open fs (syscalls w) \<noteq> 0" "r \<noteq> 0" "p' = p" "w' = syscall w"
    | (loop) "hijack_loop os fs p (syscall w) = Some (r, p', w')"
    using assms(1,4) by (auto simp: hijack_threads_def Let_def split: if_splits)
  then show ?thesis
  proof cases
    case opendir
    then show ?thesis by simp
  next
    case loop
    from hijack_loop_result [OF this inv] show ?thesis by (auto split: if_splits)
  qed
qed

subsection \<open>The critical section as a step relation\<close>

inductive section_step :: "os \<Rightarrow> int \<Rightarrow> ulp_process \<times> world \<Rightarrow> ulp_process \<times> world \<Rightarrow> bool"
  for os :: os and timeout :: int where
  step_apply: "apply_patch os timeout p metadata disable_seccomp_p w = Some (r, w') \<Longrightarrow>
     section_step os timeout (p, w) (p, w')"
| step_revert: "revert_patches_from_lib os timeout p target lib_name w = Some (r, w') \<Longrightarrow>
     section_step os timeout (p, w) (p, w')"
| step_check: "patch_applied os timeout p lp_id w = Some (r, res, w') \<Longrightarrow> section_step os timeout (p, w) (p, w')"
| step_universe: "read_global_universe os timeout p w = Some (r, p', w') \<Longrightarrow>
     section_step os timeout (p, w) (p', w')"

definition section_inv :: "world \<Rightarrow> ulp_process \<Rightarrow> world \<Rightarrow> bool" where
  "section_inv w0 p w \<longleftrightarrow>
     distinct (map tid (threads p)) \<and> (\<forall>th \<in> set (threads p). tcontext th = tregs w0 (tid th)) \<and>
     (\<forall>t. traced w t \<longleftrightarrow> t \<in> tids p) \<and> (\<forall>t. t \<notin> tids p \<longrightarrow> tregs w t = tregs w0 t) \<and>
     (\<forall>th. main_thread p = Some th \<longrightarrow> tid th \<in> tids p)"

text \<open>
  A state that keeps the attached threads and all registers but those of the main thread.
\<close>

definition main_only :: "ulp_process \<Rightarrow> world \<Rightarrow> world \<Rightarrow> bool" where
  "main_only p w w' \<longleftrightarrow> traced w' = traced w \<and>
     (\<forall>t. (\<forall>th. main_thread p = Some th \<longrightarrow> t \<noteq> tid th) \<longrightarrow> tregs w' t = tregs w t)"

lemma main_only_refl [simp]: "main_only p w w"
  by (simp add: main_only_def)

lemma main_only_trans: "main_only p w w' \<Longrightarrow> main_only p w' w'' \<Longrightarrow> main_only p w w''"
  by (simp add: main_only_def)

lemma main_only_tmem [simp]: "main_only p w (w'\<lparr>tmem := m\<rparr>) = main_only p w w'"
  by (simp add: main_only_def)

lemma write_target_result:
  "write_target os bs a w = Some (r, w') \<Longrightarrow> traced w' = traced w \<and> tregs w' = tregs w"
  by (auto simp: write_target_def split: Option.bind_splits)

lemma set_id_buffer_main: "set_id_buffer os p lp_id w = Some (r, w') \<Longrightarrow> main_only p w w'"
  by (auto simp: set_id_buffer_def main_only_def split: if_splits Option.bind_splits dest: write_target_result)

lemma set_metadata_buffer_main: "set_metadata_buffer os p md w = Some (r, w') \<Longrightarrow> main_only p w w'"
  by (auto simp: set_metadata_buffer_def main_only_def split: if_splits Option.bind_splits dest: write_target_result)

lemma run_main:
  "run_and_redirect os timeout (tid th) regs routine w = Some (r, regs', w') \<Longrightarrow> main_thread p = Some th \<Longrightarrow>
     main_only p w w'"
  by (auto simp: main_only_def dest: run_and_redirect_result)

lemma disable_seccomp_main: "disable_seccomp os t w = Some (r, w') \<Longrightarrow> main_only p w w'"
  by (auto simp: main_only_def dest: disable_seccomp_result)

lemma interpret_main: "interpret_and_return os p ctx w = Some (r, w') \<Longrightarrow> main_only p w w'"
  by (auto simp: interpret_and_return_def Let_def split: Option.bind_splits if_splits)

lemmas section_mains = set_id_buffer_main set_metadata_buffer_main run_main disable_seccomp_main interpret_main

lemma apply_patch_main:
  assumes "apply_patch os timeout p md d w = Some (r, w')"
  shows "main_only p w w'"
  using assms unfolding apply_patch_def
  by (auto split: if_splits Option.bind_splits dest!: section_mains [where p = p] elim!: main_only_trans)

lemma revert_patches_main:
  assumes "revert_patches_from_lib os timeout p target lib w = Some (r, w')"
  shows "main_only p w w'"
  using assms unfolding revert_patches_from_lib_def Let_def set_string_buffer_def
  by (auto split: if_splits Option.bind_splits dest!: section_mains [where p = p] elim!: main_only_trans)

lemma patch_applied_main:
  assumes "patch_applied os timeout p lp_id w = Some (r, res, w')"
  shows "main_only p w w'"
  using assms unfolding patch_applied_def
  by (auto split: if_splits Option.bind_splits dest!: section_mains [where p = p] elim!: main_only_trans)

lemma read_global_universe_main:
  assumes "read_global_universe os timeout p w = Some (r, p', w')"
  shows "main_only p w w' \<and> threads p' = threads p \<and> main_thread p' = main_thread p"
  using assms unfolding read_global_universe_def
  by (auto split: if_splits Option.bind_splits dest!: section_mains)

lemma section_inv_main_only:
  assumes "section_inv w0 p w" and "main_only p w w'" and "threads p' = threads p" and "main_thread p' = main_thread p"
  shows "section_inv w0 p' w'"
  using assms unfolding section_inv_def main_only_def tids_def by metis

lemma section_steps_inv:
  assumes "(section_step os timeout)\<^sup>*\<^sup>* (p, w) (p', w')" and "section_inv w0 p w"
  shows "section_inv w0 p' w'"
  using assms
proof (induction "(p', w')" arbitrary: p' w' rule: rtranclp_induct)
  case (step y)
  obtain p1 w1 where y: "y = (p1, w1)" by fastforce
  then have inv: "section_inv w0 p1 w1" using step by blast
  have "main_only p1 w1 w' \<and> threads p' = threads p1 \<and> main_thread p' = main_thread p1"
    using step(2) unfolding y
    by (cases rule: section_step.cases)
       (auto dest: apply_patch_main revert_patches_main patch_applied_main read_global_universe_main)
  then show ?case using section_inv_main_only [OF inv] by blast
qed

lemma restore_loop_result:
  assumes "restore_loop os ths errors w = Some (0, w')" and "distinct (map tid ths)"
  shows "errors = 0 \<and> (\<forall>t. traced w' t \<longleftrightarrow> traced w t \<and> t \<notin> tid ` set ths) \<and>
    (\<forall>t. t \<notin> tid ` set ths \<longrightarrow> tregs w' t = tregs w t) \<and> (\<forall>th \<in> set ths. tregs w' (tid th) = tcontext th)"
  using assms
proof (induction ths arbitrary: errors w)
  case (Cons th ths)
  obtain r w1 where s: "set_regs os (tid th) (tcontext th) w = Some (r, w1)"
    using Cons.prems by (auto split: Option.bind_splits)
  obtain r' w2 where d: "detach os (tid th) w1 = Some (r', w2)"
    using Cons.prems s by (auto split: Option.bind_splits)
  have run: "restore_loop os ths (if r \<noteq> 0 \<or> r' \<noteq> 0 then 1 else errors) w2 = Some (0, w')"
    using Cons.prems s d by simp
  have "(if r \<noteq> 0 \<or> r' \<noteq> 0 then 1 else errors) = 0" using Cons.IH [OF run] Cons.prems(2) by simp
  then have ok: "r = 0" "r' = 0" "errors = 0" by (auto split: if_splits)
  note w2 = set_regs_result [OF s] detach_result [OF d]
  have "\<forall>t. traced w2 t \<longleftrightarrow> traced w t \<and> t \<noteq> tid th" "tregs w2 = (tregs w)(tid th := tcontext th)"
    using w2 ok by simp_all
  moreover have "tid th \<notin> tid ` set ths" using Cons.prems(2) by simp
  ultimately show ?case using Cons.IH [OF run] Cons.prems(2) ok by auto
qed simp

lemma hijacked_section_inv:
  assumes "hijacked fs w p p' w'" and "main_thread p = None \<or> pid p \<in> tids p'"
  shows "section_inv w p' w'"
  using assms unfolding hijacked_def hijack_inv_def main_inv_def section_inv_def tids_def
  by (auto split: if_splits)

lemma apply_patch_success:
  assumes "apply_patch os timeout p md d w = Some (0, w2)"
  shows "\<exists>th n m0 ctx m1 q. main_thread p = Some th \<and>
    resumes os n (redirected (tcontext th) (trigger (dynobj_libpulp p))) m0 = (ctx, m1) \<and>
    insnq_interpret_from_process (mem_access os) (insn_queue_addr (dynobj_libpulp p)) m1 = Some (q, tmem w2) \<and>
    (q = 0 \<or> q = EOLDLIBPULP)"
proof -
  obtain w1 th ctx w' where th: "main_thread p = Some th"
    and run: "run_and_redirect os timeout (tid th) (tcontext th) (trigger (dynobj_libpulp p)) w1 = Some (0, ctx, w')"
    and intp: "interpret_and_return os p ctx w' = Some (0, w2)"
    using assms by (auto simp: apply_patch_def split: if_splits Option.bind_splits)
  obtain n where "resumes os n (redirected (tcontext th) (trigger (dynobj_libpulp p))) (tmem w1) = (ctx, tmem w')"
    using run_and_redirect_result(3) [OF run] by blast
  moreover obtain q where "insnq_interpret_from_process (mem_access os) (insn_queue_addr (dynobj_libpulp p)) (tmem w') =
      Some (q, tmem w2)" "q = 0 \<or> q = EOLDLIBPULP"
    using intp by (auto simp: interpret_and_return_def Let_def split: Option.bind_splits if_splits)
  ultimately show ?thesis using th by blast
qed

lemma restore_threads_tmem:
  assumes "restore_threads os p w = Some (r, p', w')"
  shows "tmem w' = tmem w"
proof -
  have "restore_loop os ths errors w = Some (e, w') \<Longrightarrow> tmem w' = tmem w" for ths errors w e w'
  proof (induction ths arbitrary: errors w)
    case (Cons th ths)
    obtain r w1 where s: "set_regs os (tid th) (tcontext th) w = Some (r, w1)"
      using Cons.prems by (auto split: Option.bind_splits)
    obtain r' w2 where d: "detach os (tid th) w1 = Some (r', w2)"
      using Cons.prems s by (auto split: Option.bind_splits)
    show ?case using Cons s d set_regs_result(2) [OF s] detach_result(2) [OF d] by auto
  qed simp
  then show ?thesis using assms by (auto simp: restore_threads_def split: Option.bind_splits)
qed

lemma critical_section_restores:
  assumes "hijack_threads os fs p w = Some (0, p1, w1)"
    and "(section_step os timeout)\<^sup>*\<^sup>* (p1, w1) (p2, w2)"
    and "restore_threads os p2 w2 = Some (0, p3, w3)"
    and "threads p = []" "\<forall>t. \<not> traced w t" "\<not> all_threads_hijacked p"
    and "main_thread p = None \<or> pid p \<in> tids p1"
  shows "(\<forall>t. \<not> traced w3 t) \<and> tregs w3 = tregs w \<and> threads p3 = [] \<and> \<not> all_threads_hijacked p3"
proof -
  have "hijacked fs w p p1 w1" using hijack_threads_result [OF assms(1,4,5,6)] by simp
  then have "section_inv w p1 w1" using assms(7) by (rule hijacked_section_inv)
  then have inv: "section_inv w p2 w2" by (rule section_steps_inv [OF assms(2)])
  then have dis: "distinct (map tid (threads p2))" by (simp add: section_inv_def)
  have rl: "restore_loop os (threads p2) 0 w2 = Some (0, w3)"
    and p3: "p3 = p2\<lparr>all_threads_hijacked := False, threads := []\<rparr>"
    using assms(3) by (auto simp: restore_threads_def split: Option.bind_splits)
  note res = restore_loop_result [OF rl dis]
  have "tregs w3 t = tregs w t" for t
    using res inv by (cases "t \<in> tids p2") (auto simp: section_inv_def tids_def)
  moreover have "\<not> traced w3 t" for t using res inv by (auto simp: section_inv_def tids_def)
  ultimately show ?thesis using p3 by auto
qed

lemma hijacked_main:
  assumes "hijacked fs w p p' w'" "main_thread p = None" "main_thread p' = Some th"
  shows "tcontext th = tregs w (pid p)"
  using assms by (auto simp: hijacked_def hijack_inv_def main_inv_def split: if_splits)

subsection \<open>Hijacking ends\<close>

lemma hijack_thread_total:
  assumes "clock_runs os" and "wait_answers os"
  shows "\<exists>r. hijack_thread os fs t p w = Some r"
proof -
  obtain r w1 where 1: "attach os t w = Some (r, w1)" using attach_total [OF assms] by fast
  obtain r' regs w2 where 2: "get_regs os t no_regs w1 = Some (r', regs, w2)"
    using get_regs_total [OF assms(1)] by (metis prod_cases3)
  obtain r'' w3 where 3: "detach os t w2 = Some (r'', w3)" using detach_total [OF assms(1)] by fast
  show ?thesis by (auto simp: hijack_thread_def Let_def 1 2 3)
qed

lemma hijack_scan_total:
  assumes "clock_runs os" and "wait_answers os"
  shows "\<exists>r. hijack_scan os fs ts loop p w = Some r"
proof (induction ts arbitrary: loop p w)
  case (Cons t ts)
  show ?case
  proof (cases "t = 0 \<or> t \<in> tids p")
    case True
    then show ?thesis using Cons.IH by (simp only: hijack_scan_known)
  next
    case False
    obtain c p1 w1 where "hijack_thread os fs t p w = Some (c, p1, w1)"
      using hijack_thread_total [OF assms] by (metis prod_cases3)
    then have "hijack_scan os fs (t # ts) loop p w =
        (if c then hijack_scan os fs ts True p1 w1 else Some (False, True, p1, w1))"
      using False by (simp add: hijack_scan_new del: hijack_scan.simps)
    then show ?thesis using Cons.IH [of True p1 w1] by metis
  qed
qed (rule exI, rule hijack_scan.simps)

lemma detach_all_total: "clock_runs os \<Longrightarrow> \<exists>r. detach_all os ths fatal w = Some r"
proof (induction ths arbitrary: fatal w)
  case (Cons th ths)
  obtain r w1 where "detach os (tid th) w = Some (r, w1)" using detach_total [OF Cons.prems] by fast
  with Cons show ?case by simp
qed simp

lemma children_restore_total:
  assumes "clock_runs os"
  shows "\<exists>r. children_restore os p w = Some r"
proof -
  obtain f w' where "detach_all os (threads p) False w = Some (f, w')" using detach_all_total [OF assms] by fast
  then show ?thesis by (simp add: children_restore_def)
qed

lemma restore_threads_total:
  assumes "clock_runs os"
  shows "\<exists>r. restore_threads os p w = Some r"
proof -
  have "\<exists>e w'. restore_loop os ths errors w = Some (e, w')" for ths errors w
  proof (induction ths arbitrary: errors w)
    case (Cons th ths)
    obtain r w1 where 1: "set_regs os (tid th) (tcontext th) w = Some (r, w1)" using set_regs_total [OF assms] by fast
    obtain r' w2 where 2: "detach os (tid th) w1 = Some (r', w2)" using detach_total [OF assms] by fast
    show ?case using Cons.IH by (simp add: 1 2)
  qed simp
  then obtain e w' where "restore_loop os (threads p) 0 w = Some (e, w')" by blast
  then show ?thesis by (simp add: restore_threads_def)
qed

text \<open>
  The outer loop runs again only when a scan has found a new thread, and there are only finitely
  many thread numbers.
\<close>

lemma hijack_loop_total:
  assumes os: "clock_runs os" "wait_answers os"
    and T: "finite T" "\<forall>n. set (fst (task_scan fs n)) \<subseteq> T"
    and inv: "hijack_inv w0 p w" "main_inv m0 p"
  shows "\<exists>r. hijack_loop os fs p w = Some r"
  using inv
proof (induction "card (T - tids p)" arbitrary: p w rule: less_induct)
  case less
  obtain ts e where ts: "task_scan fs (syscalls w) = (ts, e)" by fastforce
  obtain c l p1 w1 where sc: "hijack_scan os fs ts False p (syscall w) = Some (c, l, p1, w1)"
    using hijack_scan_total [OF os] by (metis prod_cases4)
  note res = hijack_scan_result [OF sc, of w0 m0]
  show ?case
  proof (cases "c \<and> e = 0 \<and> l")
    case True
    then have ok: "scan_ok w0 m0 ts p p1 w1 True" using res less.prems by (auto split: if_splits)
    then obtain new where new: "threads p1 = new @ threads p" "new \<noteq> []" "tid ` set new \<subseteq> set ts"
      and inv1: "hijack_inv w0 p1 w1" "main_inv m0 p1" by (auto simp: scan_ok_def)
    have "set ts \<subseteq> T" using T(2) ts by (metis fst_conv)
    moreover have "hd new \<in> set new" using new(2) by simp
    ultimately have "tid (hd new) \<in> T - tids p" "tid (hd new) \<in> tids p1"
      using new(1,3) inv1(1) by (auto simp: hijack_inv_def tids_def)
    moreover have "tids p \<subseteq> tids p1" using new(1) by (auto simp: tids_def)
    ultimately have "T - tids p1 \<subset> T - tids p" by blast
    then have "card (T - tids p1) < card (T - tids p)" using T(1) by (simp add: psubset_card_mono)
    from less.hyps [OF this inv1] show ?thesis by (subst hijack_loop.simps) (simp add: ts sc True)
  next
    case False
    then show ?thesis using children_restore_total [OF os(1), of p1 w1]
      by (subst hijack_loop.simps) (auto simp: ts sc)
  qed
qed

lemma hijack_threads_total:
  assumes "clock_runs os" "wait_answers os" "finite T" "\<forall>n. set (fst (task_scan fs n)) \<subseteq> T"
    and "threads p = []" and "\<forall>t. \<not> traced w t"
  shows "\<exists>r. hijack_threads os fs p w = Some r"
proof -
  have "hijack_inv w p (syscall w)" "main_inv (main_thread p) p"
    using assms(5,6) by (simp_all add: hijack_inv_def main_inv_def tids_def syscall_def)
  from hijack_loop_total [OF assms(1-4) this] show ?thesis by (auto simp: hijack_threads_def Let_def)
qed

subsection \<open>Properties\<close>


text \<open>
  Claim C2. The target does not notice the critical section: after hijacking, any sequence of
  operations inside it, however they end, and a restoration that reports no error, no thread is attached
  and every thread of the process has the registers it had before.
\<close>

theorem critical_section_transparent:
  assumes "hijack_threads os fs p w = Some (0, p1, w1)"
    and "(section_step os timeout)\<^sup>*\<^sup>* (p1, w1) (p2, w2)"
    and "restore_threads os p2 w2 = Some (0, p3, w3)"
    and "threads p = []" "\<forall>t. \<not> traced w t" "\<not> all_threads_hijacked p"
    and "main_thread p = None \<or> pid p \<in> tids p1"
  shows "(\<forall>t. \<not> traced w3 t) \<and> tregs w3 = tregs w \<and> threads p3 = [] \<and> \<not> all_threads_hijacked p3"
  using assms by (rule critical_section_restores)

text \<open>
  What \<open>apply_patch\<close> makes of a routine that never ran: the thread was continued and stopped
  without executing anything. The code compares the return register with its old value to notice this, but
  only for values other than 0: a thread that was stopped with 0 in that register yields
  the result 0, like a patch that was applied, one with \<open>EAGAIN\<close> yields \<open>EAGAIN\<close>, and only the others
  yield \<open>EHOOKNOTRUN\<close>.
\<close>

theorem apply_patch_hook_not_run:
  assumes "all_threads_hijacked p" "main_thread p = Some th"
    and "set_metadata_buffer os p md w = Some (0, w1)"
    and "run_and_redirect os timeout (tid th) (tcontext th) (trigger (dynobj_libpulp p)) w1 = Some (0, ctx, w2)"
    and "\<forall>n regs m. resumes os n regs m = (regs, m)"
    and "insnq_interpret_from_process (mem_access os) (insn_queue_addr (dynobj_libpulp p)) (tmem w2) = Some (q, m)"
    and "q = 0 \<or> q = EOLDLIBPULP"
  shows "apply_patch os timeout p md False w =
    Some (if rax (tcontext th) = 0 then (0, w2\<lparr>tmem := m\<rparr>)
          else if rax (tcontext th) = 11 then (EAGAIN, w2\<lparr>tmem := m\<rparr>) else (EHOOKNOTRUN, w2))"
proof -
  have "rax ctx = rax (tcontext th)"
    using run_and_redirect_result(3) [OF assms(4)] assms(5) by (auto simp: redirected_def)
  moreover have "int_of_reg 0 = 0" "int_of_reg 11 = 11" by (simp_all add: int_of_reg_def)
  ultimately show ?thesis using assms by (auto simp: apply_patch_def interpret_and_return_def)
qed

text \<open>
  A failure that leaves a thread behind: when the attachment of the first thread succeeds
  and waiting for its stop fails, \<open>hijack_threads\<close> reports a failure after which everything
  is said to be restored, \<open>ETHRDATTACH\<close>, with that thread still attached and absent from the list.
\<close>

theorem hijack_leaves_thread_attached:
  assumes "\<not> all_threads_hijacked p" "threads p = []" "task_open fs (syscalls w) = 0"
    and "task_scan fs (syscalls w + 1) = (t # ts, e)" "t \<noteq> 0" "alloc_ok fs (syscalls w + 2)"
    and "pt_errno os (syscalls w + 2) = 0" "wait_ret os (syscalls w + 3) = (-1, st, err)" "err \<noteq> 0"
  shows "\<exists>w'. hijack_threads os fs p w = Some (ETHRDATTACH, p, w') \<and> traced w' t"
proof -
  let ?w = "syscall (syscall w)"
  let ?w1 = "syscall (syscall (ptrace_effect os PTRACE_ATTACH t ?w))"
  have n: "syscalls (syscall v) = syscalls v + 1" for v by (simp add: syscall_def)
  have "attach os t ?w = Some (err, ?w1)"
    using assms(7-9) attach_wait.simps [of os t "syscall (ptrace_effect os PTRACE_ATTACH t ?w)"]
    by (simp add: attach_def ulp_ptrace_ok n numeral_eq_Suc syscall_def)
  then have "hijack_thread os fs t p ?w = Some (False, p, ?w1)"
    using assms(6,9) by (simp add: hijack_thread_def n numeral_eq_Suc)
  then have "hijack_scan os fs (t # ts) False p ?w = Some (False, True, p, ?w1)"
    using assms(2,5) by (simp add: hijack_scan_new tids_def del: hijack_scan.simps)
  then have "hijack_loop os fs p (syscall w) = Some (ETHRDATTACH, p, ?w1)"
    using assms(2,4) hijack_loop.simps [of os fs p "syscall w"] by (simp add: n children_restore_def)
  then show ?thesis using assms(1,3) by (simp add: hijack_threads_def Let_def syscall_def)
qed

subsection \<open>A session\<close>

text \<open>
  A kernel that answers every request, a process with one thread, and a thread that does \<open>f\<close> when
  it is continued.
\<close>

definition demo_os :: "(nat \<Rightarrow> registers \<Rightarrow> mem \<Rightarrow> registers \<times> mem) \<Rightarrow> os" where
  "demo_os f = \<lparr>pt_errno = (\<lambda>_. 0), wait_ret = (\<lambda>n. if n \<in> {3, 9, 14} then (7, 0x137f, 0) else (-1, 0, 10)),
     time_sec = int, resumes = f, mem_access = all_ok\<rparr>"

definition demo_fs :: procfs where
  "demo_fs = \<lparr>task_open = (\<lambda>_. 0), task_scan = (\<lambda>_. ([0, 0, 7], 0)), alloc_ok = (\<lambda>_. True)\<rparr>"

definition demo_world :: world where
  "demo_world = \<lparr>syscalls = 0, traced = (\<lambda>_. False),
     tregs = (\<lambda>t. \<lparr>rip = 0x4000, rsp = 0x7ffe0018, rax = 0, gprs = (\<lambda>_. 0)\<rparr>),
     tmem = (\<lambda>_. 0), unfiltered = (\<lambda>_. False)\<rparr>"

definition demo_process :: "u64 \<Rightarrow> ulp_process" where
  "demo_process a = \<lparr>pid = 7, all_threads_hijacked = False, threads = [], main_thread = None,
     dynobj_libpulp = \<lparr>insn_queue_addr = a, insn_queue_version = 0, trigger = 0x9000, check = 0x9100,
       global = 0x9200, revert_all = 0x9300, metadata_buffer_addr = 0xA000\<rparr>, global_universe = 0\<rparr>"

definition demo_thread :: ulp_thread where
  "demo_thread = \<lparr>tid = 7, tcontext = tregs demo_world 7\<rparr>"

definition demo_hijacked :: "u64 \<Rightarrow> ulp_process" where
  "demo_hijacked a = (demo_process a)\<lparr>all_threads_hijacked := True, threads := [demo_thread], main_thread := Some demo_thread\<rparr>"

definition demo_stopped :: world where
  "demo_stopped = demo_world\<lparr>syscalls := 6, traced := (\<lambda>_. False)(7 := True)\<rparr>"

lemmas demo_defs = demo_os_def demo_fs_def demo_world_def demo_process_def demo_thread_def demo_hijacked_def
  demo_stopped_def

lemma demo_laws: "clock_runs (demo_os f)" "wait_answers (demo_os f)"
proof -
  show "clock_runs (demo_os f)" unfolding clock_runs_def demo_os_def
    by (rule allI, rule_tac x = "nat t" in exI) auto
  have "reports (demo_os f) t (n + 15)" for t n by (simp add: reports_def demo_os_def)
  then show "wait_answers (demo_os f)" unfolding wait_answers_def using le_add1 by blast
qed

lemma WIFSTOPPED_stop [simp]: "WIFSTOPPED 0x137f" "\<not> WIFEXITED 0x137f" "\<not> WCOREDUMP 0x137f"
  by (simp_all add: WIFSTOPPED_def WIFEXITED_def WCOREDUMP_def)

lemma demo_hijack: "hijack_threads (demo_os f) demo_fs (demo_process a) demo_world = Some (0, demo_hijacked a, demo_stopped)"
proof -
  let ?w = "demo_world\<lparr>syscalls := 5, traced := (\<lambda>_. False)(7 := True)\<rparr>"
  let ?p = "(demo_process a)\<lparr>threads := [demo_thread], main_thread := Some demo_thread\<rparr>"
  have "attach (demo_os f) 7 (demo_world\<lparr>syscalls := 2\<rparr>) = Some (0, demo_world\<lparr>syscalls := 4, traced := (\<lambda>_. False)(7 := True)\<rparr>)"
    by (simp add: attach_def ulp_ptrace_ok attach_wait_stopped demo_defs syscall_def)
  then have "hijack_thread (demo_os f) demo_fs 7 (demo_process a) (demo_world\<lparr>syscalls := 2\<rparr>) = Some (True, ?p, ?w)"
    by (simp add: hijack_thread_def get_regs_def ulp_ptrace_ok demo_defs syscall_def Let_def)
  then have "hijack_scan (demo_os f) demo_fs [0, 0, 7] False (demo_process a) (demo_world\<lparr>syscalls := 2\<rparr>) = Some (True, True, ?p, ?w)"
    by (simp add: demo_process_def)
  then have A: "hijack_scan (demo_os f) demo_fs [0, 0, 7] False (demo_process a) (syscall (demo_world\<lparr>syscalls := Suc 0\<rparr>)) =
     Some (True, True, ?p, ?w)"
    by (simp add: syscall_def numeral_2_eq_2 del: hijack_scan.simps)
  have B: "hijack_scan (demo_os f) demo_fs [0, 0, 7] False ?p w = Some (True, False, ?p, w)" for w
    by (simp add: demo_thread_def)
  have ts: "task_scan demo_fs n = ([0, 0, 7], 0)" for n by (simp add: demo_fs_def)
  have "hijack_loop (demo_os f) demo_fs ?p w = Some (0, ?p\<lparr>all_threads_hijacked := True\<rparr>, syscall w)" for w
    by (subst hijack_loop.simps) (simp add: ts B del: hijack_scan.simps)
  then have "hijack_loop (demo_os f) demo_fs (demo_process a) (demo_world\<lparr>syscalls := Suc 0\<rparr>) =
      Some (0, ?p\<lparr>all_threads_hijacked := True\<rparr>, syscall ?w)"
    by (subst hijack_loop.simps) (simp add: ts A del: hijack_scan.simps)
  then show ?thesis by (simp add: hijack_threads_def demo_defs syscall_def)
qed

lemma demo_metadata_written:
  assumes "length md < ULP_METADATA_BUF_LEN"
  shows "set_metadata_buffer (demo_os f) (demo_hijacked a) md demo_stopped =
     Some (0, demo_stopped\<lparr>tmem := mem_write (\<lambda>_. 0) 0xA000 md\<rparr>)"
  using assms by (simp add: set_metadata_buffer_def write_target_def write_bytes_atomic demo_defs) (simp add: all_ok_def)

lemma demo_run:
  assumes "syscalls w \<in> {6, 11}" and "f (Suc (syscalls w)) (redirected regs routine) (tmem w) = (ctx, m1)"
  shows "run_and_redirect (demo_os f) 200 7 regs routine w =
    Some (0, ctx, w\<lparr>syscalls := syscalls w + 5, tregs := (tregs w)(7 := ctx), tmem := m1\<rparr>)"
  using assms
  by (cases w) (auto simp: run_and_redirect_def Let_def ulp_ptrace_ok run_wait_stopped demo_os_def syscall_def)

lemma demo_apply_patch:
  assumes "f 7 (redirected (tregs demo_world 7) 0x9000) (mem_write (\<lambda>_. 0) 0xA000 md) = (ctx, m1)" "rax ctx = 0"
    and "length md < ULP_METADATA_BUF_LEN"
    and "insnq_interpret_from_process all_ok a m1 = Some (q, m2)" "q = 0 \<or> q = EOLDLIBPULP"
  shows "apply_patch (demo_os f) 200 (demo_hijacked a) md False demo_stopped =
    Some (0, demo_stopped\<lparr>syscalls := 11, tregs := (tregs demo_world)(7 := ctx), tmem := m2\<rparr>)"
proof -
  have p: "all_threads_hijacked (demo_hijacked a)" "main_thread (demo_hijacked a) = Some demo_thread"
    "dynobj_libpulp (demo_hijacked a) = dynobj_libpulp (demo_process a)" "tid demo_thread = 7"
    "tcontext demo_thread = tregs demo_world 7" "trigger (dynobj_libpulp (demo_process a)) = 0x9000"
    "insn_queue_addr (dynobj_libpulp (demo_process a)) = a" "mem_access (demo_os f) = all_ok"
    by (simp_all add: demo_hijacked_def demo_thread_def demo_process_def demo_os_def)
  have "int_of_reg 0 = 0" by (simp add: int_of_reg_def)
  moreover have "run_and_redirect (demo_os f) 200 7 (tregs demo_world 7) 0x9000 (demo_stopped\<lparr>tmem := mem_write (\<lambda>_. 0) 0xA000 md\<rparr>) =
      Some (0, ctx, demo_stopped\<lparr>syscalls := 11, tregs := (tregs demo_world)(7 := ctx), tmem := m1\<rparr>)"
    using demo_run [of "demo_stopped\<lparr>tmem := mem_write (\<lambda>_. 0) 0xA000 md\<rparr>" f] assms(1)
    by (simp add: demo_stopped_def)
  ultimately show ?thesis using assms
    by (auto simp: apply_patch_def interpret_and_return_def demo_metadata_written p Let_def simp del: mem_write.simps)
qed

lemma demo_restore: "\<exists>p3 w3. restore_threads (demo_os f) (demo_hijacked a) w = Some (0, p3, w3)"
  by (simp add: restore_threads_def set_regs_def detach_def ulp_ptrace_ok demo_defs syscall_def)

definition demo_routine :: "nat \<Rightarrow> registers \<Rightarrow> mem \<Rightarrow> registers \<times> mem" where
  "demo_routine n r m = (r\<lparr>rax := 0, rip := rip r + 9\<rparr>, m)"

theorem hijack_leaves_thread_attached_witness:
  "\<exists>w'. hijack_threads ((demo_os demo_routine)\<lparr>wait_ret := (\<lambda>_. (-1, 0, 10))\<rparr>) (demo_fs\<lparr>task_scan := (\<lambda>_. ([7], 0))\<rparr>)
     (demo_process 0) demo_world = Some (ETHRDATTACH, demo_process 0, w') \<and> traced w' 7"
  by (rule hijack_leaves_thread_attached [where ts = "[]" and e = 0 and st = 0 and err = 10]) (simp_all add: demo_defs)


theorem critical_section_transparent_witness:
  "\<exists>p1 w1 w2 p3 w3. hijack_threads (demo_os demo_routine) demo_fs (demo_process 0) demo_world = Some (0, p1, w1) \<and>
     apply_patch (demo_os demo_routine) 200 p1 [1, 2, 3] False w1 = Some (0, w2) \<and>
     restore_threads (demo_os demo_routine) p1 w2 = Some (0, p3, w3) \<and>
     rip (tregs w2 7) = 0x900B \<and> tregs w3 = tregs demo_world"
proof -
  let ?ctx = "(redirected (tregs demo_world 7) 0x9000)\<lparr>rax := 0, rip := 0x900B\<rparr>"
  have q: "insnq_interpret_from_process all_ok 0 m = Some (EOLDLIBPULP, m)" for m
    by (simp add: insnq_interpret_from_process_def)
  have "demo_routine 7 (redirected (tregs demo_world 7) 0x9000) m = (?ctx, m)" for m
    by (simp add: demo_routine_def redirected_def RESTART_SYSCALL_SIZE_def)
  from demo_apply_patch [where f = demo_routine and md = "[1, 2, 3]", OF this _ _ q]
  obtain w2 where ap: "apply_patch (demo_os demo_routine) 200 (demo_hijacked 0) [1, 2, 3] False demo_stopped = Some (0, w2)"
    and w2: "tregs w2 = (tregs demo_world)(7 := ?ctx)" by (simp add: ULP_METADATA_BUF_LEN_def)
  obtain p3 w3 where re: "restore_threads (demo_os demo_routine) (demo_hijacked 0) w2 = Some (0, p3, w3)"
    using demo_restore by blast
  have "(section_step (demo_os demo_routine) 200)\<^sup>*\<^sup>* (demo_hijacked 0, demo_stopped) (demo_hijacked 0, w2)"
    using step_apply [OF ap] by blast
  from critical_section_transparent [OF demo_hijack this re]
  have "tregs w3 = tregs demo_world" by (simp add: demo_process_def demo_world_def)
  moreover have "rip (tregs w2 7) = 0x900B" using w2 by simp
  ultimately show ?thesis using demo_hijack [of demo_routine 0] ap re by blast
qed

theorem apply_patch_hook_not_run_witness:
  "\<exists>w'. apply_patch (demo_os (\<lambda>_ r m. (r, m))) 200 (demo_hijacked 0) [1, 2, 3] False demo_stopped = Some (0, w')"
proof -
  let ?f = "\<lambda>(_ :: nat) (r :: registers) (m :: mem). (r, m)"
  let ?r = "redirected (tregs demo_world 7) 0x9000"
  have p: "all_threads_hijacked (demo_hijacked 0)" "main_thread (demo_hijacked 0) = Some demo_thread"
    by (simp_all add: demo_hijacked_def)
  have run: "run_and_redirect (demo_os ?f) 200 (tid demo_thread) (tcontext demo_thread) (trigger (dynobj_libpulp (demo_hijacked 0)))
      (demo_stopped\<lparr>tmem := m\<rparr>) = Some (0, ?r, demo_stopped\<lparr>syscalls := 11, tregs := (tregs demo_world)(7 := ?r), tmem := m\<rparr>)" for m
    using demo_run [of "demo_stopped\<lparr>tmem := m\<rparr>" ?f "tregs demo_world 7" "0x9000" ?r m]
    by (simp add: demo_thread_def demo_hijacked_def demo_process_def demo_stopped_def)
  have idle: "\<forall>n regs m. resumes (demo_os ?f) n regs m = (regs, m)" by (simp add: demo_os_def)
  have q: "insnq_interpret_from_process (mem_access (demo_os ?f)) (insn_queue_addr (dynobj_libpulp (demo_hijacked 0))) m =
      Some (EOLDLIBPULP, m)" for m
    by (simp add: insnq_interpret_from_process_def demo_hijacked_def demo_process_def)
  have "rax (tcontext demo_thread) = 0" by (simp add: demo_thread_def demo_world_def)
  with apply_patch_hook_not_run [OF p demo_metadata_written [of "[1, 2, 3]"] run idle q] show ?thesis
    by (auto simp: ULP_METADATA_BUF_LEN_def)
qed

end
