(* ===== verification/Dynobj.thy ===== *)
theory Dynobj
  imports Hijack Symbol_Loader
begin

text \<open>
  The image of a process as the tool finds it: \<open>src/tools/introspection.c\<close> from \<open>dig_main_link_map\<close> to
  \<open>initialize_data_structures\<close>. The target is stopped, so its memory \<open>m\<close> is fixed; structures of the ELF
  and link map formats are read from it field by field. The record \<open>intro_env\<close> holds what comes from elsewhere: the
  answers of the kernel to transfers, the lines of \<open>/proc/PID/maps\<close>, the entries of
  \<open>/proc/PID/auxv\<close> with the value of \<open>errno\<close> when they end without \<open>AT_NULL\<close>, the name of the binary, and
  the bytes an uninitialised buffer on the stack holds.

  Loops through memory that may never meet their end mark are partial functions; \<open>None\<close> also stands for an
  access behind a null pointer or outside a string.
\<close>

subsection \<open>Objects\<close>

record link_map =
  l_addr :: u64
  l_name :: u64
  l_next :: u64

record libpulp_exports = libpulp_syms +
  state_addr :: u64
  msg_queue_addr :: u64
  error_state_addr :: u64
  enable_disable_addr :: u64
  libpulp_version :: u64

record ulp_dynobj =
  filename :: bytes
  dyn_build_id :: bytes

record loaded_obj = ulp_dynobj +
  lmap :: link_map
  dynstr_addr :: u64
  dynsym_addr :: u64
  num_symbols :: int
  exports :: libpulp_exports

record intro_env =
  memory_access :: kernel
  maps_file :: "bytes list option"
  auxv :: "(u64 \<times> u64) list"
  auxv_errno :: int
  binary_name :: "bytes option"
  calloc_ok :: bool
  stack_bytes :: bytes

text \<open>
  \<open>dynobj_targets\<close> has the newest object first; \<open>libpulp_at\<close> is the position in it of the object
  \<open>dynobj_libpulp\<close> points to.
\<close>

record image =
  load_bias :: u64
  dyn_addr :: u64
  dynobj_main :: "loaded_obj option"
  dynobj_targets :: "loaded_obj list"
  libpulp_at :: "nat option"

abbreviation (input) "DT_NULL \<equiv> (0 :: u64)"
abbreviation (input) "DT_HASH_TAG \<equiv> (4 :: u64)"
abbreviation (input) "DT_STRTAB_TAG \<equiv> (5 :: u64)"
abbreviation (input) "DT_SYMTAB_TAG \<equiv> (6 :: u64)"
abbreviation (input) "DT_DEBUG \<equiv> (21 :: u64)"
abbreviation (input) "PHDR_DYNAMIC \<equiv> (2 :: u32)"
abbreviation (input) "PHDR_NOTE \<equiv> (4 :: u32)"
abbreviation (input) "PHDR_PHDR \<equiv> (6 :: u32)"
abbreviation (input) "NT_GNU_BUILD_ID \<equiv> (3 :: u32)"

definition fresh_obj :: "bytes \<Rightarrow> loaded_obj" where
  "fresh_obj nm = \<lparr>filename = nm, dyn_build_id = replicate 20 0, lmap = \<lparr>l_addr = 0, l_name = 0, l_next = 0\<rparr>,
     dynstr_addr = 0, dynsym_addr = 0, num_symbols = 0,
     exports = \<lparr>insn_queue_addr = 0, insn_queue_version = 0, trigger = 0, check = 0, global = 0, revert_all = 0,
       metadata_buffer_addr = 0, state_addr = 0, msg_queue_addr = 0, error_state_addr = 0, enable_disable_addr = 0,
       libpulp_version = 0\<rparr>\<rparr>"

definition link_map_of :: "bytes \<Rightarrow> link_map" where
  "link_map_of bs = \<lparr>l_addr = field64 bs 0, l_name = field64 bs 8, l_next = field64 bs 24\<rparr>"

subsection \<open>The chain of link maps\<close>

partial_function (option) find_r_debug :: "kernel \<Rightarrow> mem \<Rightarrow> u64 \<Rightarrow> (int \<times> u64) option" where
  "find_r_debug k m a = do {
     (r, dyn) \<leftarrow> read_memory k 16 a m (replicate 16 0);
     if r \<noteq> 0 then Some (ETARGETHOOK, 0)
     else if field64 dyn 0 = DT_NULL then Some (ENODEBUGTAG, 0)
     else if field64 dyn 0 = DT_DEBUG then Some (0, field64 dyn 8)
     else find_r_debug k m (a + 16) }"

definition dig_main_link_map :: "kernel \<Rightarrow> mem \<Rightarrow> u64 \<Rightarrow> loaded_obj \<Rightarrow> (int \<times> loaded_obj) option" where
  "dig_main_link_map k m a obj = do {
     (e, r_debug) \<leftarrow> find_r_debug k m a;
     if e \<noteq> 0 then Some (e, obj)
     else do {
       (r, ptr) \<leftarrow> read_memory k 8 (r_debug + 8) m (replicate 8 0);
       if r \<noteq> 0 then Some (ETARGETHOOK, obj)
       else do {
         (r, bs) \<leftarrow> read_memory k 40 (field64 ptr 0) m (replicate 40 0);
         Some (if r \<noteq> 0 then ETARGETHOOK else 0, obj\<lparr>lmap := link_map_of bs\<rparr>) }}}"

subsection \<open>Symbols\<close>

fun get_symbol_by_name :: "kernel \<Rightarrow> mem \<Rightarrow> nat \<Rightarrow> u64 \<Rightarrow> u64 \<Rightarrow> bytes \<Rightarrow> u64 option" where
  "get_symbol_by_name k m 0 dynsym dynstr nm = Some 0"
| "get_symbol_by_name k m (Suc len) dynsym dynstr nm = do {
     (r, sym) \<leftarrow> read_memory k 24 dynsym m (replicate 24 0);
     if r \<noteq> 0 then Some 0
     else do {
       (r, buf, _) \<leftarrow> read_string k (dynstr + ucast (field32 sym 0)) m;
       if r \<noteq> 0 then Some 0
       else if cstr buf = nm then Some (field64 sym 8)
       else get_symbol_by_name k m len (dynsym + 24) dynstr nm }}"

definition get_loaded_symbol_addr :: "kernel \<Rightarrow> mem \<Rightarrow> loaded_obj \<Rightarrow> bytes \<Rightarrow> u64 option" where
  "get_loaded_symbol_addr k m obj nm =
     (if dynsym_addr obj = 0 \<or> dynstr_addr obj = 0 \<or> num_symbols obj \<le> 0 then Some 0
      else do {
        sym_addr \<leftarrow> get_symbol_by_name k m (nat (num_symbols obj)) (dynsym_addr obj) (dynstr_addr obj) nm;
        Some (if sym_addr \<noteq> 0 then l_addr (lmap obj) + sym_addr else 0) })"

text \<open>
  One symbol of libpulp, whose name after \<open>__ulp\<close> is \<open>nm\<close>: the address is stored and a bit is set.
  The version string is read into a buffer of 32 bytes, whatever the result of the read.
\<close>

definition set_export ::
  "intro_env \<Rightarrow> mem \<Rightarrow> bytes \<Rightarrow> u64 \<Rightarrow> libpulp_exports \<Rightarrow> u32 \<Rightarrow> (libpulp_exports \<times> u32) option" where
  "set_export env m nm a ex bits =
     (if nm = str ''_trigger'' then Some (ex\<lparr>trigger := a\<rparr>, bits OR 1)
      else if nm = str ''_check_patched'' then Some (ex\<lparr>check := a\<rparr>, bits OR 2)
      else if nm = str ''_state'' then Some (ex\<lparr>state_addr := a\<rparr>, bits OR 4)
      else if nm = str ''_get_global_universe'' then Some (ex\<lparr>global := a\<rparr>, bits OR 8)
      else if nm = str ''_msg_queue'' then Some (ex\<lparr>msg_queue_addr := a\<rparr>, bits OR 16)
      else if nm = str ''_revert_all'' then Some (ex\<lparr>revert_all := a\<rparr>, bits OR 32)
      else if nm = str ''_metadata_buffer'' then Some (ex\<lparr>metadata_buffer_addr := a\<rparr>, bits OR 64)
      else if nm = str ''_error_state'' then Some (ex\<lparr>error_state_addr := a\<rparr>, bits OR 128)
      else if nm = str ''_enable_or_disable_patching'' then Some (ex\<lparr>enable_disable_addr := a\<rparr>, bits OR 256)
      else if nm = str ''_insn_queue'' then Some (ex\<lparr>insn_queue_addr := a\<rparr>, bits OR 512)
      else if nm = str ''_version'' then do {
        (_, s) \<leftarrow> read_string_allocated (memory_access env) a m (stack_bytes env);
        Some (ex\<lparr>libpulp_version := ulp_version_from_string (cstr s)\<rparr>, bits OR 1024) }
      else Some (ex, bits))"

fun extern_symbols_loop ::
  "intro_env \<Rightarrow> mem \<Rightarrow> u64 \<Rightarrow> u64 \<Rightarrow> nat \<Rightarrow> u64 \<Rightarrow> libpulp_exports \<Rightarrow> u32 \<Rightarrow> (int \<times> libpulp_exports) option" where
  "extern_symbols_loop env m base dynstr 0 dynsym ex bits = Some (0, ex)"
| "extern_symbols_loop env m base dynstr (Suc n) dynsym ex bits = do {
     (r, st_name) \<leftarrow> read_memory (memory_access env) 4 dynsym m (replicate 4 0);
     if r \<noteq> 0 then Some (1, ex)
     else do {
       let a = dynstr + ucast (bytes_u32 st_name);
       (r, front) \<leftarrow> read_memory (memory_access env) 5 a m (replicate 5 0);
       if r \<noteq> 0 then Some (1, ex)
       else if front = str ''__ulp'' then do {
         (r, nm) \<leftarrow> read_string_allocated (memory_access env) (a + 5) m (front @ replicate 59 0);
         if r \<noteq> 0 then Some (1, ex)
         else do {
           (r, sym) \<leftarrow> read_memory (memory_access env) 24 dynsym m (replicate 24 0);
           if r \<noteq> 0 then Some (1, ex)
           else do {
             (ex, bits) \<leftarrow> set_export env m (cstr nm) (base + field64 sym 8) ex bits;
             if bits = 0x7FF then Some (0, ex)
             else extern_symbols_loop env m base dynstr n (dynsym + 24) ex bits }}}
       else if bits = 0x7FF then Some (0, ex)
       else extern_symbols_loop env m base dynstr n (dynsym + 24) ex bits }}"

definition get_libpulp_extern_symbols :: "intro_env \<Rightarrow> mem \<Rightarrow> loaded_obj \<Rightarrow> (int \<times> loaded_obj) option" where
  "get_libpulp_extern_symbols env m obj =
     (if dynsym_addr obj = 0 \<or> dynstr_addr obj = 0 \<or> num_symbols obj \<le> 0 then Some (0, obj)
      else do {
        (r, ex) \<leftarrow> extern_symbols_loop env m (l_addr (lmap obj)) (dynstr_addr obj) (nat (num_symbols obj))
           (dynsym_addr obj) (exports obj) 0;
        Some (r, obj\<lparr>exports := ex\<rparr>) })"

subsection \<open>A symbol table in memory\<close>

lemma field64_append [simp]: "length xs = off \<Longrightarrow> field64 (xs @ u64_bytes v @ ys) off = v"
  and field64_front [simp]: "field64 (u64_bytes v @ ys) 0 = v"
  by (simp_all add: field64_def)

lemma field32_append [simp]: "length xs = off \<Longrightarrow> field32 (xs @ u32_bytes w @ ys) off = w"
  and field32_front [simp]: "field32 (u32_bytes w @ ys) 0 = w"
  by (simp_all add: field32_def)

text \<open>A structure at an address, which the tool can read.\<close>

definition stored_at :: "kernel \<Rightarrow> mem \<Rightarrow> u64 \<Rightarrow> bytes \<Rightarrow> bool" where
  "stored_at k m a bs \<longleftrightarrow> 0 \<le> vm_readv k a (length bs) 0 \<and> mem_read m a (length bs) = bs"

lemma read_stored:
  assumes "vm_atomic k" and "stored_at k m a bs" and "length bs = n" and "length dst = n"
  shows "read_memory k n a m dst = Some (0, bs)"
  using assms by (auto simp: read_memory_atomic stored_at_def)

definition string_at :: "kernel \<Rightarrow> mem \<Rightarrow> u64 \<Rightarrow> bytes \<Rightarrow> bool" where
  "string_at k m a s \<longleftrightarrow> holds_string m a s \<and> longs_readable k a (length s)"

lemma read_string_at:
  assumes "vm_atomic k" and "string_at k m a s"
  obtains buf cap where "read_string k a m = Some (0, buf, cap)" "cstr buf = s"
  using read_string_ok [of k m a s] assms by (auto simp: string_at_def)

text \<open>Entries of 24 bytes: the offset of the name, four bytes of attributes, the value and the size.\<close>

definition symbol_entry :: "u32 \<Rightarrow> bytes \<Rightarrow> u64 \<Rightarrow> u64 \<Rightarrow> bytes" where
  "symbol_entry off attrs v sz = u32_bytes off @ attrs @ u64_bytes v @ u64_bytes sz"

fun stored_symbols :: "kernel \<Rightarrow> mem \<Rightarrow> u64 \<Rightarrow> u64 \<Rightarrow> (bytes \<times> u64) list \<Rightarrow> bool" where
  "stored_symbols k m dynsym dynstr [] \<longleftrightarrow> True"
| "stored_symbols k m dynsym dynstr ((nm, v) # syms) \<longleftrightarrow>
     (\<exists>off attrs sz. stored_at k m dynsym (symbol_entry off attrs v sz) \<and> length attrs = 4 \<and>
        string_at k m (dynstr + ucast off) nm) \<and> stored_symbols k m (dynsym + 24) dynstr syms"

lemma symbol_entry_fields [simp]:
  assumes "length attrs = 4"
  shows "length (symbol_entry off attrs v sz) = 24" "field32 (symbol_entry off attrs v sz) 0 = off"
    "field64 (symbol_entry off attrs v sz) 8 = v"
  using assms field64_append [of "u32_bytes off @ attrs" 8] by (simp_all add: symbol_entry_def)

lemma get_symbol_by_name_first:
  assumes "vm_atomic k" and "stored_symbols k m dynsym dynstr syms"
  shows "get_symbol_by_name k m (length syms) dynsym dynstr nm =
    Some (case map_of syms nm of None \<Rightarrow> 0 | Some v \<Rightarrow> v)"
  using assms(2)
proof (induction syms arbitrary: dynsym)
  case (Cons s syms)
  obtain n v where s: "s = (n, v)" by fastforce
  with Cons.prems obtain off attrs sz where e: "stored_at k m dynsym (symbol_entry off attrs v sz)" "length attrs = 4"
    and nm: "string_at k m (dynstr + ucast off) n" and rest: "stored_symbols k m (dynsym + 24) dynstr syms"
    by auto
  have rd: "read_memory k 24 dynsym m (replicate 24 0) = Some (0, symbol_entry off attrs v sz)"
    by (rule read_stored [OF assms(1) e(1)]) (simp_all add: e(2))
  obtain buf cap where "read_string k (dynstr + ucast off) m = Some (0, buf, cap)" "cstr buf = n"
    using read_string_at [OF assms(1) nm] by blast
  then show ?case using rd e(2) Cons.IH [OF rest] by (simp add: s)
qed simp

text \<open>
  The tool's symbol lookup agrees with the dynamic symbol table of the object in the target:
  \<open>get_loaded_symbol_addr\<close> returns the load address plus the value of the first entry with the name, and 0 when
  there is none or its value is 0.
\<close>

theorem get_loaded_symbol_addr_first:
  assumes "vm_atomic k" and "stored_symbols k m (dynsym_addr obj) (dynstr_addr obj) syms"
    and "dynsym_addr obj \<noteq> 0" "dynstr_addr obj \<noteq> 0" "num_symbols obj = int (length syms)"
  shows "get_loaded_symbol_addr k m obj nm =
    Some (case map_of syms nm of None \<Rightarrow> 0 | Some v \<Rightarrow> if v = 0 then 0 else l_addr (lmap obj) + v)"
  using assms get_symbol_by_name_first [OF assms(1,2), of nm]
  by (auto simp: get_loaded_symbol_addr_def split: option.split)

subsection \<open>Runs\<close>

lemma stored_in_image:
  assumes "img = pre @ bs @ post" and "length img \<le> 2 ^ 64" and "b = a + of_nat (length pre)"
  shows "stored_at all_ok (mem_write m a img) b bs"
  using assms mem_read_write_mid [of pre bs post b a "length bs" m] by (simp add: stored_at_def all_ok_def)

lemma string_stored:
  assumes "stored_at all_ok m a (s @ [0])" and "no_nul s"
  shows "string_at all_ok m a s"
  using assms by (simp add: stored_at_def string_at_def holds_string_def longs_readable_def all_ok_def)

definition demo_symtab :: bytes where
  "demo_symtab = symbol_entry 0 [0, 0, 0, 0] 0x40 8 @ symbol_entry 2 [0, 0, 0, 0] 0x80 8 @ str ''f'' @ [0] @ str ''g'' @ [0]"

definition demo_obj :: loaded_obj where
  "demo_obj = (fresh_obj (str ''libx.so''))\<lparr>lmap := \<lparr>l_addr = 0x10000, l_name = 1, l_next = 0\<rparr>, dynsym_addr := 0x5000,
     dynstr_addr := 0x5030, num_symbols := 2\<rparr>"

lemma demo_symbols:
  "stored_symbols all_ok (mem_write (\<lambda>_. 0) 0x5000 demo_symtab) 0x5000 0x5030 [(str ''f'', 0x40), (str ''g'', 0x80)]"
proof -
  let ?m = "mem_write (\<lambda>_. 0) 0x5000 demo_symtab"
  let ?e1 = "symbol_entry 0 [0, 0, 0, 0] 0x40 8" and ?e2 = "symbol_entry 2 [0, 0, 0, 0] 0x80 8"
  have len: "length demo_symtab \<le> 2 ^ 64" by (simp add: demo_symtab_def str_def)
  note img = stored_in_image [OF _ len, where a = "0x5000" and m = "\<lambda>_. 0"]
  have "stored_at all_ok ?m 0x5000 ?e1"
    by (rule img [where pre = "[]"]) (auto simp: demo_symtab_def)
  moreover have "stored_at all_ok ?m 0x5018 ?e2"
    by (rule img [where pre = ?e1]) (auto simp: demo_symtab_def)
  moreover have "string_at all_ok ?m 0x5030 (str ''f'')"
    by (rule string_stored, rule img [where pre = "?e1 @ ?e2"]) (auto simp: demo_symtab_def str_def no_nul_def)
  moreover have "string_at all_ok ?m 0x5032 (str ''g'')"
    by (rule string_stored, rule img [where pre = "?e1 @ ?e2 @ str ''f'' @ [0]" and post = "[]"])
      (auto simp: demo_symtab_def str_def no_nul_def)
  moreover have "ucast (2 :: u32) = (2 :: u64)" by simp
  ultimately show ?thesis by (simp add: exI [of _ "[0, 0, 0, 0] :: bytes"]) fastforce
qed

theorem get_loaded_symbol_addr_first_witness:
  "get_loaded_symbol_addr all_ok (mem_write (\<lambda>_. 0) 0x5000 demo_symtab) demo_obj (str ''g'') = Some 0x10080"
proof -
  have "dynsym_addr demo_obj = 0x5000" "dynstr_addr demo_obj = 0x5030" "num_symbols demo_obj = 2" "l_addr (lmap demo_obj) = 0x10000"
    by (simp_all add: demo_obj_def fresh_obj_def)
  with get_loaded_symbol_addr_first [OF all_ok_atomic, of _ demo_obj "[(str ''f'', 0x40), (str ''g'', 0x80)]" "str ''g''"] demo_symbols
  show ?thesis by (simp add: str_def del: stored_symbols.simps)
qed

end
