(* ===== verification/Pcqueue.thy ===== *)
theory Pcqueue
  imports Main
begin

text \<open>
  The producer-consumer queue of \<open>src/tools/pcqueue.c\<close>: a ring of \<open>n\<close> slots and two counting
  semaphores, with one producer thread and one consumer thread (the mutex of
  \<open>MORE_THAN_ONE_ONE\<close> is compiled out). Each thread is a program counter that names the next
  statement of \<open>producer_consumer_enqueue\<close> or \<open>producer_consumer_dequeue\<close>; a step of the system is one
  statement of either thread, so the reachable states cover every interleaving. A wait on a semaphore
  whose value is zero has no step (the thread is blocked); a wait may fail, when a signal
  interrupts it, and the operation then returns its error. A post fails only beyond
  \<open>SEM_VALUE_MAX\<close>, which the invariant below excludes.
\<close>

subsection \<open>The queue and the two operations as statements\<close>

record 'a producer_consumer =
  qn :: nat
  head :: nat
  tail :: nat
  sem_empty :: nat
  sem_full :: nat
  elem :: "nat \<Rightarrow> 'a"

text \<open>
  \<open>producer_consumer_new\<close>: the memory of the slots is not initialised (\<open>junk\<close>); \<open>NULL\<close>, when the
  allocation or one of the two \<open>sem_init\<close> calls fails, is \<open>None\<close>.
\<close>

definition producer_consumer_init :: "bool \<Rightarrow> bool \<Rightarrow> (nat \<Rightarrow> 'a) \<Rightarrow> nat \<Rightarrow> 'a producer_consumer option" where
  "producer_consumer_init sem1 sem2 junk k =
     (if \<not> sem1 then None else if \<not> sem2 then None
      else Some \<lparr>qn = k, head = 0, tail = 0, sem_empty = 0, sem_full = k, elem = junk\<rparr>)"

definition producer_consumer_new ::
  "bool \<Rightarrow> bool \<Rightarrow> bool \<Rightarrow> (nat \<Rightarrow> 'a) \<Rightarrow> nat \<Rightarrow> 'a producer_consumer option" where
  "producer_consumer_new malloc_ok sem1 sem2 junk k =
     (if \<not> malloc_ok then None else producer_consumer_init sem1 sem2 junk k)"

text \<open>
  \<open>producer_consumer_delete\<close> of a queue that is not \<open>NULL\<close>: the results of the two \<open>sem_destroy\<close> calls
  are \<open>Some\<close> of the error number they leave. Whatever they are the memory is freed; the first component is
  the value returned.
\<close>

definition producer_consumer_destroy :: "int option \<Rightarrow> int option \<Rightarrow> int" where
  "producer_consumer_destroy full_err empty_err =
     (case full_err of Some e \<Rightarrow> e | None \<Rightarrow> (case empty_err of Some e \<Rightarrow> e | None \<Rightarrow> 0))"

definition producer_consumer_delete ::
  "int option \<Rightarrow> int option \<Rightarrow> 'a producer_consumer option \<Rightarrow> int \<times> 'a producer_consumer option" where
  "producer_consumer_delete full_err empty_err q =
     (case q of None \<Rightarrow> (0, None) | Some _ \<Rightarrow> (producer_consumer_destroy full_err empty_err, None))"

datatype 'a producer = PIdle | PWait 'a | PStore 'a | PWrap | PPost
datatype 'a consumer = CIdle | CWait | CLoad | CWrap 'a | CPost 'a

text \<open>
  The system: the queue, the two threads, and for the statements of its properties the elements whose
  store was executed, in that order, and the elements the dequeue operation returned.
\<close>

record 'a system =
  ring :: "'a producer_consumer"
  producer_at :: "'a producer"
  consumer_at :: "'a consumer"
  put_elems :: "'a list"
  got_elems :: "'a list"

definition enqueue_store :: "'a \<Rightarrow> 'a producer_consumer \<Rightarrow> 'a producer_consumer" where
  "enqueue_store e q = q\<lparr>elem := (elem q)(head q := e), head := head q + 1\<rparr>"

definition enqueue_wrap :: "'a producer_consumer \<Rightarrow> 'a producer_consumer" where
  "enqueue_wrap q = (if head q \<ge> qn q then q\<lparr>head := 0\<rparr> else q)"

definition dequeue_load :: "'a producer_consumer \<Rightarrow> 'a \<times> 'a producer_consumer" where
  "dequeue_load q = (elem q (tail q), q\<lparr>tail := tail q + 1\<rparr>)"

definition dequeue_wrap :: "'a producer_consumer \<Rightarrow> 'a producer_consumer" where
  "dequeue_wrap q = (if tail q \<ge> qn q then q\<lparr>tail := 0\<rparr> else q)"

inductive producer_step :: "'a system \<Rightarrow> 'a system \<Rightarrow> bool" where
  enqueue: "producer_at s = PIdle \<Longrightarrow> producer_step s (s\<lparr>producer_at := PWait e\<rparr>)"
| wait_full: "producer_at s = PWait e \<Longrightarrow> 0 < sem_full (ring s) \<Longrightarrow>
    producer_step s (s\<lparr>producer_at := PStore e, ring := (ring s)\<lparr>sem_full := sem_full (ring s) - 1\<rparr>\<rparr>)"
| wait_full_fails: "producer_at s = PWait e \<Longrightarrow> producer_step s (s\<lparr>producer_at := PIdle\<rparr>)"
| store: "producer_at s = PStore e \<Longrightarrow>
    producer_step s (s\<lparr>producer_at := PWrap, ring := enqueue_store e (ring s), put_elems := put_elems s @ [e]\<rparr>)"
| wrap_head: "producer_at s = PWrap \<Longrightarrow> producer_step s (s\<lparr>producer_at := PPost, ring := enqueue_wrap (ring s)\<rparr>)"
| post_empty: "producer_at s = PPost \<Longrightarrow>
    producer_step s (s\<lparr>producer_at := PIdle, ring := (ring s)\<lparr>sem_empty := sem_empty (ring s) + 1\<rparr>\<rparr>)"

inductive consumer_step :: "'a system \<Rightarrow> 'a system \<Rightarrow> bool" where
  dequeue: "consumer_at s = CIdle \<Longrightarrow> consumer_step s (s\<lparr>consumer_at := CWait\<rparr>)"
| wait_empty: "consumer_at s = CWait \<Longrightarrow> 0 < sem_empty (ring s) \<Longrightarrow>
    consumer_step s (s\<lparr>consumer_at := CLoad, ring := (ring s)\<lparr>sem_empty := sem_empty (ring s) - 1\<rparr>\<rparr>)"
| wait_empty_fails: "consumer_at s = CWait \<Longrightarrow> consumer_step s (s\<lparr>consumer_at := CIdle\<rparr>)"
| load: "consumer_at s = CLoad \<Longrightarrow> dequeue_load (ring s) = (v, q) \<Longrightarrow>
    consumer_step s (s\<lparr>consumer_at := CWrap v, ring := q\<rparr>)"
| wrap_tail: "consumer_at s = CWrap v \<Longrightarrow> consumer_step s (s\<lparr>consumer_at := CPost v, ring := dequeue_wrap (ring s)\<rparr>)"
| post_full: "consumer_at s = CPost v \<Longrightarrow>
    consumer_step s (s\<lparr>consumer_at := CIdle, ring := (ring s)\<lparr>sem_full := sem_full (ring s) + 1\<rparr>,
                       got_elems := got_elems s @ [v]\<rparr>)"

inductive_cases producer_stepE: "producer_step s s'"
inductive_cases consumer_stepE: "consumer_step s s'"

definition system_start :: "'a producer_consumer \<Rightarrow> 'a system" where
  "system_start q = \<lparr>ring = q, producer_at = PIdle, consumer_at = CIdle, put_elems = [], got_elems = []\<rparr>"

inductive pc_reachable :: "'a producer_consumer \<Rightarrow> 'a system \<Rightarrow> bool" where
  start: "pc_reachable q (system_start q)"
| by_producer: "pc_reachable q s \<Longrightarrow> producer_step s s' \<Longrightarrow> pc_reachable q s'"
| by_consumer: "pc_reachable q s \<Longrightarrow> consumer_step s s' \<Longrightarrow> pc_reachable q s'"

subsection \<open>The invariant\<close>

text \<open>
  \<open>loaded\<close> counts the loads executed: the returned elements and the one the consumer carries. A slot
  is accounted for once: it is free (\<open>sem_full\<close>), reserved by a producer about to store, holds an
  element, or was loaded and is not yet given back. Likewise each element: it is announced
  (\<open>sem_empty\<close>), about to be announced, or claimed by a consumer about to load.
\<close>

definition carried :: "'a consumer \<Rightarrow> 'a list" where
  "carried c = (case c of CWrap v \<Rightarrow> [v] | CPost v \<Rightarrow> [v] | _ \<Rightarrow> [])"

definition loaded :: "'a system \<Rightarrow> nat" where
  "loaded s = length (got_elems s @ carried (consumer_at s))"

definition pc_inv :: "nat \<Rightarrow> 'a system \<Rightarrow> bool" where
  "pc_inv k s \<longleftrightarrow>
     qn (ring s) = k \<and> loaded s \<le> length (put_elems s) \<and>
     got_elems s @ carried (consumer_at s) = take (loaded s) (put_elems s) \<and>
     sem_full (ring s) + (case producer_at s of PStore _ \<Rightarrow> 1 | _ \<Rightarrow> 0) + (length (put_elems s) - loaded s) +
       length (carried (consumer_at s)) = k \<and>
     sem_empty (ring s) + (if producer_at s = PWrap \<or> producer_at s = PPost then 1 else 0) +
       (if consumer_at s = CLoad then 1 else 0) = length (put_elems s) - loaded s \<and>
     (if producer_at s = PWrap then 0 < length (put_elems s) \<and> head (ring s) = (length (put_elems s) - 1) mod k + 1
      else head (ring s) = length (put_elems s) mod k) \<and>
     (if \<exists>v. consumer_at s = CWrap v then tail (ring s) = (loaded s - 1) mod k + 1
      else tail (ring s) = loaded s mod k) \<and>
     (\<forall>i. loaded s \<le> i \<and> i < length (put_elems s) \<longrightarrow> elem (ring s) (i mod k) = put_elems s ! i)"

lemma mod_next: "i mod k + 1 \<ge> k \<Longrightarrow> 0 < k \<Longrightarrow> (i + 1) mod k = (0 :: nat)"
  and mod_next': "\<not> i mod k + 1 \<ge> k \<Longrightarrow> (i + 1) mod k = i mod k + (1 :: nat)"
proof -
  assume "i mod k + 1 \<ge> k" "0 < k"
  moreover have "i mod k < k" using \<open>0 < k\<close> by simp
  ultimately have "i mod k + 1 = k" by linarith
  then show "(i + 1) mod k = 0" by (simp add: mod_Suc)
next
  assume "\<not> i mod k + 1 \<ge> k"
  then show "(i + 1) mod k = i mod k + 1" by (simp add: mod_Suc)
qed

lemma ring_slot_distinct:
  assumes "i < j" and "j - i < k"
  shows "i mod k \<noteq> j mod (k :: nat)"
proof
  assume "i mod k = j mod k"
  then have "k dvd j - i" using assms(1) mod_eq_dvd_iff_nat [of i j k] by simp
  then show False using assms by (auto dest: dvd_imp_le)
qed

lemma pc_inv_start: "qn q = k \<Longrightarrow> head q = 0 \<Longrightarrow> tail q = 0 \<Longrightarrow> sem_empty q = 0 \<Longrightarrow> sem_full q = k \<Longrightarrow> pc_inv k (system_start q)"
  by (simp add: pc_inv_def system_start_def loaded_def carried_def)

lemma pc_inv_store:
  assumes "pc_inv k s" and at: "producer_at s = PStore e"
  shows "pc_inv k (s\<lparr>producer_at := PWrap, ring := enqueue_store e (ring s), put_elems := put_elems s @ [e]\<rparr>)"
    (is "pc_inv k ?s")
proof -
  have inv: "loaded s \<le> length (put_elems s)"
    "head (ring s) = length (put_elems s) mod k"
    "\<And>i. loaded s \<le> i \<Longrightarrow> i < length (put_elems s) \<Longrightarrow> elem (ring s) (i mod k) = put_elems s ! i"
    "sem_full (ring s) + 1 + (length (put_elems s) - loaded s) + length (carried (consumer_at s)) = k"
    using assms by (auto simp: pc_inv_def)
  have l: "loaded ?s = loaded s" by (simp add: loaded_def)
  have "elem (ring ?s) (i mod k) = put_elems ?s ! i" if "loaded s \<le> i" "i < length (put_elems ?s)" for i
  proof (cases "i = length (put_elems s)")
    case False
    then have "i mod k \<noteq> length (put_elems s) mod k"
      using that inv(1,4) by (intro ring_slot_distinct) auto
    then show ?thesis using that inv(2,3) False by (auto simp: enqueue_store_def nth_append)
  qed (simp add: enqueue_store_def inv(2))
  then show ?thesis
    using assms inv(1) unfolding pc_inv_def l by (simp add: enqueue_store_def Suc_diff_le)
qed

lemma pc_inv_load:
  assumes "pc_inv k s" and at: "consumer_at s = CLoad" and "dequeue_load (ring s) = (v, q)"
  shows "pc_inv k (s\<lparr>consumer_at := CWrap v, ring := q\<rparr>)" (is "pc_inv k ?s")
proof -
  have inv: "loaded s < length (put_elems s)" "tail (ring s) = loaded s mod k"
    "\<And>i. loaded s \<le> i \<Longrightarrow> i < length (put_elems s) \<Longrightarrow> elem (ring s) (i mod k) = put_elems s ! i"
    "got_elems s = take (loaded s) (put_elems s)" "loaded s = length (got_elems s)"
    using assms by (auto simp: pc_inv_def carried_def loaded_def)
  have q: "v = elem (ring s) (tail (ring s))" "q = (ring s)\<lparr>tail := tail (ring s) + 1\<rparr>"
    using assms(3) by (auto simp: dequeue_load_def)
  have ne: "put_elems s \<noteq> []" using inv(1) by auto
  have v: "v = put_elems s ! loaded s" using q(1) inv(1,2,3) by simp
  have l: "loaded (s\<lparr>consumer_at := CWrap v, ring := r\<rparr>) = Suc (loaded s)" for r using inv(5) by (simp add: loaded_def carried_def)
  have "take (Suc (loaded s)) (put_elems s) = got_elems s @ [v]"
    using inv(1,4) v by (simp add: take_Suc_conv_app_nth)
  moreover have "sem_full (ring s) + (case producer_at s of PStore _ \<Rightarrow> 1 | _ \<Rightarrow> 0) +
      (length (put_elems s) - loaded s) = k"
    "sem_empty (ring s) + (if producer_at s = PWrap \<or> producer_at s = PPost then 1 else 0) + 1 =
      length (put_elems s) - loaded s"
    using assms(1) at by (auto simp: pc_inv_def carried_def)
  ultimately show ?thesis
    using assms(1) at inv(1-4) ne unfolding pc_inv_def q(2) l
    by (intro conjI) (simp_all add: carried_def Suc_diff_Suc)
qed


lemma pc_inv_wrap_head:
  assumes "pc_inv k s" and at: "producer_at s = PWrap"
  shows "pc_inv k (s\<lparr>producer_at := PPost, ring := enqueue_wrap (ring s)\<rparr>)"
proof -
  have h: "0 < length (put_elems s)" "head (ring s) = (length (put_elems s) - 1) mod k + 1" "qn (ring s) = k"
    "0 < sem_full (ring s) + (length (put_elems s) - loaded s) + length (carried (consumer_at s))" "0 < k"
    using assms by (auto simp: pc_inv_def)
  then have "head (enqueue_wrap (ring s)) = length (put_elems s) mod k"
    using mod_next [of k "length (put_elems s) - 1"] mod_next' [of k "length (put_elems s) - 1"]
    by (auto simp: enqueue_wrap_def)
  then show ?thesis
    using assms by (auto simp: pc_inv_def loaded_def enqueue_wrap_def)
qed

lemma pc_inv_wrap_tail:
  assumes "pc_inv k s" and at: "consumer_at s = CWrap v"
  shows "pc_inv k (s\<lparr>consumer_at := CPost v, ring := dequeue_wrap (ring s)\<rparr>)"
proof -
  have h: "0 < loaded s" "tail (ring s) = (loaded s - 1) mod k + 1" "qn (ring s) = k" "0 < k"
    using assms by (auto simp: pc_inv_def loaded_def carried_def)
  then have "tail (dequeue_wrap (ring s)) = loaded s mod k"
    using mod_next [of k "loaded s - 1"] mod_next' [of k "loaded s - 1"] by (auto simp: dequeue_wrap_def)
  then show ?thesis
    using assms by (auto simp: pc_inv_def loaded_def dequeue_wrap_def carried_def)
qed

lemma pc_inv_producer: "producer_step s s' \<Longrightarrow> pc_inv k s \<Longrightarrow> pc_inv k s'"
proof (induction rule: producer_step.induct)
  case (store s e)
  then show ?case by (intro pc_inv_store)
next
  case (wrap_head s)
  then show ?case by (intro pc_inv_wrap_head)
qed (auto simp: pc_inv_def loaded_def)

lemma pc_inv_consumer: "consumer_step s s' \<Longrightarrow> pc_inv k s \<Longrightarrow> pc_inv k s'"
proof (induction rule: consumer_step.induct)
  case (load s v q)
  then show ?case by (intro pc_inv_load)
next
  case (wrap_tail s v)
  then show ?case by (intro pc_inv_wrap_tail)
qed (auto simp: pc_inv_def loaded_def carried_def)

definition fresh_run :: "nat \<Rightarrow> 'a system \<Rightarrow> bool" where
  "fresh_run k s \<longleftrightarrow> (\<exists>junk q. producer_consumer_new True True True junk k = Some q \<and> pc_reachable q s)"

lemma fresh_run_inv: "fresh_run k s \<Longrightarrow> pc_inv k s"
proof -
  assume "fresh_run k s"
  then obtain junk q where q: "producer_consumer_new True True True junk k = Some q" and r: "pc_reachable q s"
    by (auto simp: fresh_run_def)
  from r q show ?thesis
  proof (induction rule: pc_reachable.induct)
    case (start q)
    then show ?case
      by (intro pc_inv_start) (auto simp: producer_consumer_new_def producer_consumer_init_def)
  qed (auto intro: pc_inv_producer pc_inv_consumer)
qed

lemma pc_inv_counts:
  assumes "pc_inv k s"
  shows "put_elems s = got_elems s @ drop (length (got_elems s)) (put_elems s)"
    and "length (drop (length (got_elems s)) (put_elems s)) \<le> k"
    and "sem_full (ring s) \<le> k" and "sem_empty (ring s) \<le> k"
proof -
  have l: "loaded s = length (got_elems s) + length (carried (consumer_at s))" by (simp add: loaded_def)
  have i: "loaded s \<le> length (put_elems s)" "got_elems s @ carried (consumer_at s) = take (loaded s) (put_elems s)"
    "sem_full (ring s) + (length (put_elems s) - loaded s) + length (carried (consumer_at s)) \<le> k"
    "sem_empty (ring s) \<le> length (put_elems s) - loaded s"
    using assms by (auto simp: pc_inv_def split: producer.splits)
  have "got_elems s = take (length (got_elems s)) (got_elems s @ carried (consumer_at s))" by simp
  also have "\<dots> = take (length (got_elems s)) (put_elems s)" unfolding i(2) l by simp
  finally show "put_elems s = got_elems s @ drop (length (got_elems s)) (put_elems s)"
    by (metis append_take_drop_id)
  show "length (drop (length (got_elems s)) (put_elems s)) \<le> k" "sem_full (ring s) \<le> k" "sem_empty (ring s) \<le> k"
    using i l by auto
qed

text \<open>
  Claim C31. The queue is a bounded first-in first-out channel under every interleaving of its
  producer and its consumer. The elements dequeued are a prefix of the elements enqueued, in their
  order; at most \<open>k\<close> are in flight; a store and a load stay inside the \<open>k\<close> slots; a store never hits
  a slot that holds an element not yet dequeued, and a load reads the oldest one; and the two threads
  are never both blocked.
\<close>

theorem pcqueue_fifo:
  assumes "fresh_run k s"
  shows "(\<exists>rest. put_elems s = got_elems s @ rest \<and> length rest \<le> k) \<and>
    (\<forall>e. producer_at s = PStore e \<longrightarrow> head (ring s) < k \<and>
       (\<forall>i. loaded s \<le> i \<and> i < length (put_elems s) \<longrightarrow> i mod k \<noteq> head (ring s))) \<and>
    (consumer_at s = CLoad \<longrightarrow> tail (ring s) < k \<and>
       length (got_elems s) < length (put_elems s) \<and>
       elem (ring s) (tail (ring s)) = put_elems s ! length (got_elems s)) \<and>
    (0 < k \<longrightarrow> \<not> ((\<exists>e. producer_at s = PWait e) \<and> sem_full (ring s) = 0 \<and>
                 consumer_at s = CWait \<and> sem_empty (ring s) = 0))"
proof (intro conjI allI impI notI)
  have inv: "pc_inv k s" using assms by (rule fresh_run_inv)
  show "\<exists>rest. put_elems s = got_elems s @ rest \<and> length rest \<le> k" using pc_inv_counts(1,2) [OF inv] by blast
  show "head (ring s) < k" if "producer_at s = PStore e" for e
    using inv that by (auto simp: pc_inv_def)
  show "i mod k = head (ring s) \<Longrightarrow> False"
    if "producer_at s = PStore e" "loaded s \<le> i \<and> i < length (put_elems s)" for e i
  proof -
    have "sem_full (ring s) + 1 + (length (put_elems s) - loaded s) + length (carried (consumer_at s)) = k"
      "head (ring s) = length (put_elems s) mod k"
      using inv that(1) by (auto simp: pc_inv_def)
    moreover have "length (put_elems s) - i \<le> length (put_elems s) - loaded s" using that(2) by (simp add: diff_le_mono2)
    ultimately show "i mod k = head (ring s) \<Longrightarrow> False"
      using that(2) ring_slot_distinct [of i "length (put_elems s)" k] by simp
  qed
  show "tail (ring s) < k" "length (got_elems s) < length (put_elems s)"
    "elem (ring s) (tail (ring s)) = put_elems s ! length (got_elems s)" if "consumer_at s = CLoad"
    using inv that by (auto simp: pc_inv_def loaded_def carried_def)
  show False if "0 < k" "(\<exists>e. producer_at s = PWait e) \<and> sem_full (ring s) = 0 \<and>
                 consumer_at s = CWait \<and> sem_empty (ring s) = 0"
    using inv that by (auto simp: pc_inv_def loaded_def carried_def)
qed

lemma fresh_run_steps:
  "producer_consumer_new True True True junk k = Some q \<Longrightarrow> fresh_run k (system_start q)"
  "fresh_run k s \<Longrightarrow> producer_step s s' \<Longrightarrow> fresh_run k s'"
  "fresh_run k s \<Longrightarrow> consumer_step s s' \<Longrightarrow> fresh_run k s'"
  unfolding fresh_run_def by (blast intro: pc_reachable.intros)+

definition demo_ring :: "nat producer_consumer" where
  "demo_ring = \<lparr>qn = 1, head = 0, tail = 0, sem_empty = 0, sem_full = 1, elem = (\<lambda>_. 0)\<rparr>"

definition demo_system :: "nat system" where
  "demo_system = \<lparr>ring = demo_ring\<lparr>sem_full := 0, elem := (\<lambda>_. 0)(0 := 7)\<rparr>,
     producer_at = PIdle, consumer_at = CLoad, put_elems = [7], got_elems = []\<rparr>"

lemma demo_system_run: "fresh_run 1 demo_system"
proof -
  let ?sys = "\<lambda>q p c st. \<lparr>ring = q, producer_at = p, consumer_at = c, put_elems = st, got_elems = [] :: nat list\<rparr>"
  let ?q = "demo_ring\<lparr>sem_full := 0, elem := (\<lambda>_. 0)(0 := 7)\<rparr>"
  have "fresh_run 1 (?sys demo_ring PIdle CIdle [])"
    using fresh_run_steps(1) [of "\<lambda>_. 0" 1 demo_ring]
    by (simp add: producer_consumer_new_def producer_consumer_init_def demo_ring_def system_start_def)
  from fresh_run_steps(2) [OF this producer_step.enqueue [of _ 7]]
  have "fresh_run 1 (?sys demo_ring (PWait 7) CIdle [])" by simp
  from fresh_run_steps(2) [OF this producer_step.wait_full [of _ 7]]
  have "fresh_run 1 (?sys (demo_ring\<lparr>sem_full := 0\<rparr>) (PStore 7) CIdle [])" by (simp add: demo_ring_def)
  from fresh_run_steps(2) [OF this producer_step.store [of _ 7]]
  have "fresh_run 1 (?sys (?q\<lparr>head := 1\<rparr>) PWrap CIdle [7])" by (simp add: demo_ring_def enqueue_store_def)
  from fresh_run_steps(2) [OF this producer_step.wrap_head]
  have "fresh_run 1 (?sys ?q PPost CIdle [7])" by (simp add: demo_ring_def enqueue_wrap_def)
  from fresh_run_steps(2) [OF this producer_step.post_empty]
  have "fresh_run 1 (?sys (?q\<lparr>sem_empty := 1\<rparr>) PIdle CIdle [7])" by (simp add: demo_ring_def)
  from fresh_run_steps(3) [OF this consumer_step.dequeue]
  have "fresh_run 1 (?sys (?q\<lparr>sem_empty := 1\<rparr>) PIdle CWait [7])" by simp
  from fresh_run_steps(3) [OF this consumer_step.wait_empty]
  have "fresh_run 1 (?sys ?q PIdle CLoad [7])" by (simp add: demo_ring_def)
  then show ?thesis by (simp add: demo_system_def)
qed

theorem pcqueue_fifo_witness:
  "tail (ring demo_system) < 1 \<and> elem (ring demo_system) (tail (ring demo_system)) = 7"
  using pcqueue_fifo [OF demo_system_run] by (simp add: demo_system_def)

subsection \<open>The channel as its clients see it\<close>

text \<open>
  What a client relies on: whatever was received is a prefix of what was sent. A consumer that stops at
  an end mark then sees, of a stream that the producer closes with that mark, the part before the
  first mark, and all of it once it has seen the mark.
\<close>

locale fifo_channel =
  fixes run :: "'s \<Rightarrow> bool"
    and sent received :: "'s \<Rightarrow> 'a list"
  assumes received_prefix: "run s \<Longrightarrow> \<exists>rest. sent s = received s @ rest"
begin

lemma stream_prefix:
  assumes "run s" and "sent s = take j (es @ [mark])"
  shows "\<exists>rest. takeWhile (\<lambda>x. x \<noteq> mark) es = takeWhile (\<lambda>x. x \<noteq> mark) (received s) @ rest"
    and "mark \<in> set (received s) \<Longrightarrow>
         takeWhile (\<lambda>x. x \<noteq> mark) (received s) = takeWhile (\<lambda>x. x \<noteq> mark) es"
proof -
  obtain rest where r: "sent s = received s @ rest" using received_prefix [OF assms(1)] by blast
  obtain post where all: "es @ [mark] = received s @ post"
    using assms(2) r by (metis append.assoc append_take_drop_id)
  have cut: "takeWhile (\<lambda>x. x \<noteq> mark) es = takeWhile (\<lambda>x. x \<noteq> mark) (es @ [mark])"
    by (induction es) auto
  show eq: "takeWhile (\<lambda>x. x \<noteq> mark) (received s) = takeWhile (\<lambda>x. x \<noteq> mark) es" if "mark \<in> set (received s)"
    unfolding cut all using that by (intro takeWhile_append1 [symmetric]) auto
  show "\<exists>rest. takeWhile (\<lambda>x. x \<noteq> mark) es = takeWhile (\<lambda>x. x \<noteq> mark) (received s) @ rest"
  proof (cases "mark \<in> set (received s)")
    case False
    then have "takeWhile (\<lambda>x. x \<noteq> mark) (received s) = received s" by (auto simp: takeWhile_eq_all_conv)
    moreover have "takeWhile (\<lambda>x. x \<noteq> mark) (es @ [mark]) =
        received s @ takeWhile (\<lambda>x. x \<noteq> mark) post"
      unfolding all using False by (intro takeWhile_append2) auto
    ultimately show ?thesis unfolding cut by metis
  qed (use eq in auto)
qed

end

interpretation pcq: fifo_channel "fresh_run k" put_elems got_elems
proof
  fix s :: "'a system"
  assume "fresh_run k s"
  then show "\<exists>rest. put_elems s = got_elems s @ rest" using pc_inv_counts(1) [OF fresh_run_inv] by blast
qed

end
