(* ===== verification/Process_List.thy ===== *)
theory Process_List
  imports Symbol_Loader Pcqueue
begin

text \<open>
  The iteration over the processes that can be live patched, \<open>src/tools/patches.c\<close>
  (\<open>process_list_begin\<close>, \<open>process_list_next\<close>, \<open>process_list_end\<close> and the loop macro of
  \<open>src/tools/patches.h\<close>), in both of its modes: without threads the generator is called once per
  process, with threads it runs on its own and sends the processes through the queue of
  \<open>Pcqueue\<close>, a \<open>NULL\<close> pointer last. The parts of \<open>src/common/common.c\<close> that read \<open>/proc\<close> are
  modelled on the content of the files they open. A process structure is its pid; the list the
  structures are chained in is only its head \<open>last\<close>, which is all the iteration looks at. Whether
  \<open>initialize_data_structures\<close> can introspect a process is a fact of that process, given by the
  environment.
\<close>

subsection \<open>What is read from the system\<close>

record proc_env =
  comm_file :: "int \<Rightarrow> bytes option option"
  loginuid_stat :: "int \<Rightarrow> nat option"
  maps_file :: "int \<Rightarrow> bytes list option"
  pw_name :: "nat \<Rightarrow> bytes option"
  fnmatch :: "bytes \<Rightarrow> bytes \<Rightarrow> bool"
  initialize_ret :: "int \<Rightarrow> int"
  self_pid :: int

text \<open>
  \<open>get_target_binary_name\<close>: the file may not open (outer \<open>None\<close>) or yield no line (inner \<open>None\<close>); the
  name is kept in a static buffer, which in the second case still has the previous name.
\<close>

definition get_target_binary_name :: "proc_env \<Rightarrow> int \<Rightarrow> bytes \<Rightarrow> bytes \<times> bytes" where
  "get_target_binary_name env pid binary_name =
     (case comm_file env pid of
        None \<Rightarrow> (str ''(null)'', binary_name)
      | Some None \<Rightarrow> (binary_name, binary_name)
      | Some (Some cmdline) \<Rightarrow>
          let name = takeWhile (\<lambda>c. c \<noteq> newline) (get_basename cmdline) in (name, name))"

definition get_process_owner :: "proc_env \<Rightarrow> int \<Rightarrow> nat" where
  "get_process_owner env pid = (case loginuid_stat env pid of None \<Rightarrow> 0 | Some uid \<Rightarrow> uid)"

fun libpulp_loaded :: "bytes list \<Rightarrow> bool" where
  "libpulp_loaded [] = False"
| "libpulp_loaded (line # lines) = (if strstr line (str ''libpulp.so'') then True else libpulp_loaded lines)"

definition has_libpulp_loaded :: "proc_env \<Rightarrow> int \<Rightarrow> bool" where
  "has_libpulp_loaded env pid =
     (case maps_file env pid of None \<Rightarrow> False | Some lines \<Rightarrow> libpulp_loaded lines)"

definition insert_target_process :: "proc_env \<Rightarrow> int \<Rightarrow> int option \<Rightarrow> int \<times> int option" where
  "insert_target_process env pid list =
     (let ret = initialize_ret env pid in if ret \<noteq> 0 then (ret, list) else (0, Some pid))"

subsection \<open>The generator\<close>

record process_iterator =
  wildcard :: "bytes option"
  user_wildcard :: "bytes option"
  target_uid :: nat

text \<open>
  The tests of the loop body, in its order; each failing test is a \<open>continue\<close>. The result is the pid
  of an entry that passes, and the static name buffer.
\<close>

definition wildcard_skips :: "proc_env \<Rightarrow> process_iterator \<Rightarrow> int \<Rightarrow> bytes \<Rightarrow> bool \<times> bytes" where
  "wildcard_skips env it pid nm =
     (case wildcard it of
        None \<Rightarrow> (False, nm)
      | Some w \<Rightarrow> (case get_target_binary_name env pid nm of (name, nm) \<Rightarrow> (\<not> fnmatch env w name, nm)))"

definition user_skips :: "proc_env \<Rightarrow> process_iterator \<Rightarrow> int \<Rightarrow> bool" where
  "user_skips env it pid =
     (case user_wildcard it of
        None \<Rightarrow> False
      | Some u \<Rightarrow>
          let uid = get_process_owner env pid
          in if target_uid it > 0 then uid \<noteq> target_uid it
             else if uid > 0 then (case pw_name env uid of None \<Rightarrow> False | Some usr \<Rightarrow> \<not> fnmatch env u usr)
             else False)"

definition select_entry :: "proc_env \<Rightarrow> process_iterator \<Rightarrow> bytes \<Rightarrow> bytes \<Rightarrow> int option \<times> bytes" where
  "select_entry env it d_name nm =
     (if \<not> isnumber (Some d_name) then (None, nm)
      else
        let pid = atoi_digits d_name
        in case wildcard_skips env it pid nm of (skips, nm) \<Rightarrow>
             if skips then (None, nm)
             else if user_skips env it pid then (None, nm)
             else if pid = self_pid env then (None, nm)
             else if has_libpulp_loaded env pid then (Some pid, nm)
             else (None, nm))"

text \<open>
  \<open>generate_ulp_list_thread\<close> without threads: scan on to the next process and return the head of the
  list. The other components are the directory entries left, the head and the name buffer.
\<close>

fun generate_next ::
  "proc_env \<Rightarrow> process_iterator \<Rightarrow> bytes list \<Rightarrow> int option \<Rightarrow> bytes \<Rightarrow>
   int option \<times> bytes list \<times> int option \<times> bytes" where
  "generate_next env it [] lst nm = (None, [], lst, nm)"
| "generate_next env it (d # ds) lst nm =
     (case select_entry env it d nm of
        (None, nm) \<Rightarrow> generate_next env it ds lst nm
      | (Some pid, nm) \<Rightarrow>
          let lst = snd (insert_target_process env pid lst) in (lst, ds, lst, nm))"

text \<open>With threads: the pointers it enqueues, one after the other.\<close>

fun generate_enqueues ::
  "proc_env \<Rightarrow> process_iterator \<Rightarrow> bytes list \<Rightarrow> int option \<Rightarrow> bytes \<Rightarrow> int option list" where
  "generate_enqueues env it [] lst nm = [None]"
| "generate_enqueues env it (d # ds) lst nm =
     (case select_entry env it d nm of
        (None, nm) \<Rightarrow> generate_enqueues env it ds lst nm
      | (Some pid, nm) \<Rightarrow>
          let lst = snd (insert_target_process env pid lst) in lst # generate_enqueues env it ds lst nm)"

subsection \<open>The loop\<close>

lemma generate_next_shorter:
  "generate_next env it ds lst nm = (Some p, ds', lst', nm') \<Longrightarrow> length ds' < length ds"
  by (induction env it ds lst nm rule: generate_next.induct)
     (auto simp: Let_def split: prod.splits option.splits)

function visit_unthreaded ::
  "proc_env \<Rightarrow> process_iterator \<Rightarrow> bytes list \<Rightarrow> int option \<Rightarrow> bytes \<Rightarrow> int list" where
  "visit_unthreaded env it ds lst nm =
     (case generate_next env it ds lst nm of
        (None, _) \<Rightarrow> []
      | (Some p, ds', lst', nm') \<Rightarrow> p # visit_unthreaded env it ds' lst' nm')"
  by pat_completeness auto
termination
  by (relation "measure (\<lambda>(env, it, ds, lst, nm). length ds)") (auto dest: sym intro: generate_next_shorter)

declare visit_unthreaded.simps [simp del]

text \<open>The consumer's loop visits what it dequeues up to the first \<open>NULL\<close>.\<close>

definition visit_received :: "int option list \<Rightarrow> int list" where
  "visit_received got = map the (takeWhile (\<lambda>x. x \<noteq> None) got)"

text \<open>
  \<open>process_list_begin\<close> and the loop without threads. \<open>opendir\<close> of \<open>/proc\<close> may fail (\<open>None\<close>). A
  wildcard that is a number is a pid: that process is visited, if it can be introspected, and the
  error, if not, is what \<open>run_patches\<close> reports.
\<close>

definition process_list :: "proc_env \<Rightarrow> bytes option \<Rightarrow> bytes option \<Rightarrow> bytes list option \<Rightarrow> int list \<times> int" where
  "process_list env procname user slashproc =
     (if isnumber procname then
        case insert_target_process env (atoi_digits (the procname)) None of
          (ret, lst) \<Rightarrow> (case lst of None \<Rightarrow> [] | Some p \<Rightarrow> [p], ret)
      else
        let it = \<lparr>wildcard = procname, user_wildcard = user,
                  target_uid = (if isnumber user then unat (of_nat (min (digits_val 0 (the user)) (2 ^ 63 - 1)) :: u32) else 0)\<rparr>
        in case slashproc of
             None \<Rightarrow> ([], 0)
           | Some ds \<Rightarrow> (visit_unthreaded env it ds None [], 0))"

text \<open>\<open>run_patches\<close> prints each process of the list and turns the error into its exit status.\<close>

definition run_patches :: "proc_env \<Rightarrow> bytes option \<Rightarrow> bytes option \<Rightarrow> bytes list option \<Rightarrow> int list \<times> int" where
  "run_patches env procname user slashproc =
     (case process_list env procname user slashproc of
        (visited, any_error) \<Rightarrow> (visited, if any_error = 0 then 0 else 1))"

subsection \<open>What the loop visits\<close>

lemma generate_enqueues_ends: "\<exists>es. generate_enqueues env it ds lst nm = es @ [None]"
proof (induction env it ds lst nm rule: generate_enqueues.induct)
  case (2 env it d ds lst nm)
  obtain r nm' where sel: "select_entry env it d nm = (r, nm')" by (rule prod.exhaust)
  show ?case
  proof (cases r)
    case None
    then show ?thesis using 2(1) [OF sel [symmetric]] sel by simp
  next
    case (Some pid)
    define lst' where "lst' = snd (insert_target_process env pid lst)"
    obtain es where "generate_enqueues env it ds lst' nm' = es @ [None]"
      using 2(2) [OF sel [symmetric] Some lst'_def] by blast
    then show ?thesis using sel Some by (intro exI [of _ "lst' # es"]) (simp add: lst'_def Let_def)
  qed
qed simp

lemma visit_received_end [simp]: "visit_received (es @ [None]) = visit_received es"
  unfolding visit_received_def by (induction es) auto

lemma visit_unthreaded_enqueues: "visit_unthreaded env it ds lst nm = visit_received (generate_enqueues env it ds lst nm)"
proof (induction ds arbitrary: lst nm)
  case Nil
  then show ?case by (simp add: visit_unthreaded.simps visit_received_def)
next
  case (Cons d ds)
  obtain r nm' where sel: "select_entry env it d nm = (r, nm')" by (rule prod.exhaust)
  show ?case
  proof (cases r)
    case None
    then have "visit_unthreaded env it (d # ds) lst nm = visit_unthreaded env it ds lst nm'"
      using sel by (simp add: visit_unthreaded.simps)
    then show ?thesis using Cons.IH None sel by simp
  next
    case (Some pid)
    define lst' where "lst' = snd (insert_target_process env pid lst)"
    have "generate_next env it (d # ds) lst nm = (lst', ds, lst', nm')"
      "generate_enqueues env it (d # ds) lst nm = lst' # generate_enqueues env it ds lst' nm'"
      using sel Some by (simp_all add: lst'_def Let_def)
    then show ?thesis
      using Cons.IH [of lst' nm'] by (cases lst') (simp_all add: visit_unthreaded.simps [of env it "d # ds"] visit_received_def)
  qed
qed


fun selected :: "proc_env \<Rightarrow> process_iterator \<Rightarrow> bytes list \<Rightarrow> bytes \<Rightarrow> int list" where
  "selected env it [] nm = []"
| "selected env it (d # ds) nm =
     (case select_entry env it d nm of
        (None, nm) \<Rightarrow> selected env it ds nm
      | (Some pid, nm) \<Rightarrow> pid # selected env it ds nm)"

text \<open>The head of the list after each selected process: the last one that could be introspected.\<close>

fun heads :: "proc_env \<Rightarrow> int list \<Rightarrow> int option \<Rightarrow> int option list" where
  "heads env [] lst = []"
| "heads env (pid # pids) lst =
     (let lst' = (if initialize_ret env pid = 0 then Some pid else lst) in lst' # heads env pids lst')"

lemma generate_enqueues_heads:
  "generate_enqueues env it ds lst nm = heads env (selected env it ds nm) lst @ [None]"
  by (induction env it ds lst nm rule: generate_enqueues.induct)
     (auto simp: insert_target_process_def Let_def split: prod.splits option.splits)

lemma heads_all_ok: "\<forall>p \<in> set pids. initialize_ret env p = 0 \<Longrightarrow> heads env pids lst = map Some pids"
  by (induction pids arbitrary: lst) (auto simp: Let_def)

lemma visit_unthreaded_selected:
  "visit_unthreaded env it ds lst nm = visit_received (heads env (selected env it ds nm) lst)"
  by (simp add: visit_unthreaded_enqueues generate_enqueues_heads)

text \<open>
  Which processes are visited. When every selected process can be introspected the loop
  visits exactly the selected ones, in the order of the directory. A process that cannot be
  introspected is not just left out: when it is the first selected one the loop ends there and visits
  nothing, whatever follows; when the process selected before it was fine, that one is visited twice.
\<close>

theorem process_list_visits:
  assumes "selected env it ds nm = p # ps"
  shows "((\<forall>q \<in> set (p # ps). initialize_ret env q = 0) \<longrightarrow> visit_unthreaded env it ds None nm = p # ps) \<and>
    (initialize_ret env p \<noteq> 0 \<longrightarrow> visit_unthreaded env it ds None nm = []) \<and>
    (\<forall>q qs. ps = q # qs \<and> initialize_ret env p = 0 \<and> initialize_ret env q \<noteq> 0 \<longrightarrow>
       (\<exists>rest. visit_unthreaded env it ds None nm = p # p # rest))"
proof (intro conjI allI impI)
  assume "\<forall>q \<in> set (p # ps). initialize_ret env q = 0"
  then show "visit_unthreaded env it ds None nm = p # ps"
    by (simp only: visit_unthreaded_selected assms heads_all_ok)
       (simp add: visit_received_def comp_def takeWhile_map)
qed (use assms in \<open>auto simp: visit_unthreaded_selected visit_received_def Let_def\<close>)

definition demo_proc_env :: proc_env where
  "demo_proc_env = \<lparr>comm_file = (\<lambda>_. None), loginuid_stat = (\<lambda>_. None),
     maps_file = (\<lambda>_. Some [str ''7f00-7f01 r-xp /usr/lib64/libpulp.so.0'']), pw_name = (\<lambda>_. None),
     fnmatch = (=), initialize_ret = (\<lambda>pid. if pid = 7 then 263 else 0), self_pid = 5\<rparr>"

definition demo_iterator :: process_iterator where
  "demo_iterator = \<lparr>wildcard = None, user_wildcard = None, target_uid = 0\<rparr>"

lemma demo_selected: "selected demo_proc_env demo_iterator (map str [''self'', ''7'', ''5'', ''12'']) [] = [7, 12]"
proof -
  have lib: "has_libpulp_loaded demo_proc_env pid" for pid
  proof -
    have "libpulp_loaded [str ''7f00-7f01 r-xp /usr/lib64/libpulp.so.0'']" by code_simp
    then show ?thesis by (simp add: has_libpulp_loaded_def demo_proc_env_def)
  qed
  have num: "isnumber (Some (str ''7''))" "isnumber (Some (str ''5''))" "isnumber (Some (str ''12''))"
    "\<not> isnumber (Some (str ''self''))"
    by code_simp+
  have val: "atoi_digits (str ''7'') = 7" "atoi_digits (str ''5'') = 5" "atoi_digits (str ''12'') = 12"
    by (simp_all add: atoi_digits_def str_def)
  show ?thesis
    by (simp add: select_entry_def num val lib wildcard_skips_def user_skips_def demo_iterator_def)
       (simp add: demo_proc_env_def)
qed

theorem process_list_visits_witness:
  "visit_unthreaded demo_proc_env demo_iterator (map str [''self'', ''7'', ''5'', ''12'']) None [] = []"
  using process_list_visits [OF demo_selected] by (simp add: demo_proc_env_def)


end
