(* ===== verification/Trigger.thy ===== *)
theory Trigger
  imports Dynobj Process_List
begin

text \<open>
  The trigger command, \<open>src/tools/trigger.c\<close>, with the checks of \<open>src/tools/introspection.c\<close> that decide
  whether a patch suits a process.

  The record \<open>trigger_env\<close> holds what the tool asks of its surroundings: the operating system, the section
  \<open>.ulp\<close> (or \<open>.ulp.rev\<close>) libelf finds in a container, the resolved path of a file, the
  symbol names of a container, whether a process is chrooted into \<open>/proc\<close>, the lines of its
  \<open>maps\<close> file, the program counters libunwind finds on the stack of a thread (with \<open>False\<close> when the walk
  ends in an error), the entries of a directory, and the match of a name with a wildcard. \<open>None\<close>
  stands for a failure.
\<close>

subsection \<open>Processes and their objects\<close>

record ulp_target =
  proc :: ulp_process
  dynobjs :: "ulp_dynobj list"
  results :: "(bytes \<times> int) list"

record trigger_env =
  kernel_os :: os
  kernel_fs :: procfs
  rr_timeout :: int
  so_section :: "bytes \<Rightarrow> bool \<Rightarrow> bytes option"
  real_path :: "bytes \<Rightarrow> bytes option"
  so_symbols :: "bytes \<Rightarrow> bytes list option"
  parse_alloc :: "nat \<Rightarrow> bool"
  proc_chroot :: "int \<Rightarrow> bool"
  maps_lines :: "int \<Rightarrow> bytes list option"
  unwind :: "int \<Rightarrow> u64 list \<times> bool"
  list_dir :: "bytes \<Rightarrow> bytes list option"
  is_dir :: "bytes \<Rightarrow> bool"
  matches :: "bytes \<Rightarrow> bytes \<Rightarrow> bool"

definition BUILDID_LEN :: nat where "BUILDID_LEN = 20"

definition skippable_error :: "int \<Rightarrow> bool" where
  "skippable_error err \<longleftrightarrow> err = EBUILDID \<or> err = ENOTARGETLIB \<or> err = EUSRBLOCKED \<or> err = EWILDNOMATCH \<or>
     err = EAPPLIED \<or> err = ENOPATCH \<or> err = ESRCH"

subsection \<open>Does the patch suit the process?\<close>

text \<open>\<open>get_symbol_with_name\<close> of \<open>src/tools/extract.c\<close>, on the names of the symbols.\<close>

fun get_symbol_with_name :: "bytes list \<Rightarrow> bytes \<Rightarrow> bytes option" where
  "get_symbol_with_name [] s = None"
| "get_symbol_with_name (x # xs) s = (if x = s then Some x else get_symbol_with_name xs s)"

fun units_present :: "bytes list \<Rightarrow> ulp_unit list \<Rightarrow> int" where
  "units_present syms [] = 0"
| "units_present syms (u # us) =
     (case get_symbol_with_name syms (cstr (new_fname u)) of None \<Rightarrow> 1 | Some _ \<Rightarrow> units_present syms us)"

definition check_livepatch_functions_matches_metadata :: "trigger_env \<Rightarrow> ulp_metadata \<Rightarrow> bytes option \<Rightarrow> int" where
  "check_livepatch_functions_matches_metadata env ulp prefix =
     (let so = cstr (so_filename ulp);
          so' = (case prefix of None \<Rightarrow> Some so
                 | Some pre \<Rightarrow> if take (length pre) so = pre then Some (drop (length pre) so) else None)
      in case so' of None \<Rightarrow> EINVAL
         | Some path \<Rightarrow> (case so_symbols env path of None \<Rightarrow> EINVAL
             | Some syms \<Rightarrow> units_present syms (units (objs ulp))))"

text \<open>
  The loop over the objects of the process: the first object whose base name and build id both match,
  and the build id of the last object passed whose name matches.
\<close>

fun find_target :: "bytes \<Rightarrow> bytes \<Rightarrow> ulp_dynobj list \<Rightarrow> bytes option \<Rightarrow> ulp_dynobj option \<times> bytes option" where
  "find_target target bid [] buildid = (None, buildid)"
| "find_target target bid (d # ds) buildid =
     (let name_match = get_basename (filename d) = target;
          buildid = (if name_match then Some (dyn_build_id d) else buildid);
          buildid_match = take BUILDID_LEN bid = take BUILDID_LEN (dyn_build_id d)
      in if name_match \<and> buildid_match then (Some d, buildid) else find_target target bid ds buildid)"

definition check_patch_sanity :: "trigger_env \<Rightarrow> ulp_metadata \<Rightarrow> ulp_dynobj list \<Rightarrow> bytes option \<Rightarrow> int" where
  "check_patch_sanity env ulp ds prefix =
     (if check_livepatch_functions_matches_metadata env ulp prefix \<noteq> 0 then EUNKNOWN
      else case find_target (get_basename (cstr (obj_name (objs ulp)))) (build_id (objs ulp)) ds None of
        (Some _, _) \<Rightarrow> 0
      | (None, Some _) \<Rightarrow> EBUILDID
      | (None, None) \<Rightarrow> ENOTARGETLIB)"

definition adjust_prefix_for_chroot :: "trigger_env \<Rightarrow> int \<Rightarrow> bytes option \<Rightarrow> bytes option" where
  "adjust_prefix_for_chroot env t user_prefix =
     (if proc_chroot env t
      then Some (str ''/1/root/'' @ (case user_prefix of None \<Rightarrow> [] | Some pre \<Rightarrow> take (PATH_MAX - 1) pre))
      else user_prefix)"

subsection \<open>Is a thread inside the library?\<close>

fun range_lines :: "bytes \<Rightarrow> bytes list \<Rightarrow> u64 \<Rightarrow> u64 \<Rightarrow> u64 \<times> u64" where
  "range_lines libname [] lo hi = (lo, hi)"
| "range_lines libname (line # lines) lo hi =
     (if \<not> strstr line libname then range_lines libname lines lo hi
      else let (addr1, end1) = strtoul16 0 line; (addr2, _) = strtoul16 0 (drop 1 end1)
           in range_lines libname lines (if addr1 < lo then addr1 else lo) (if hi < addr2 then addr2 else hi))"

definition library_range_detect :: "trigger_env \<Rightarrow> int \<Rightarrow> bytes \<Rightarrow> int \<times> u64 \<times> u64" where
  "library_range_detect env t libname =
     (case maps_lines env t of
        None \<Rightarrow> (ENOENT, - 1, 0)
      | Some lines \<Rightarrow> (0, range_lines libname lines (- 1) 0))"

text \<open>The stack of one thread: 1 when a frame is inside, -1 when the walk fails before that, 0 otherwise.\<close>

fun check_frames :: "u64 \<Rightarrow> u64 \<Rightarrow> u64 list \<Rightarrow> bool \<Rightarrow> int" where
  "check_frames lo hi [] ok = (if ok then 0 else -1)"
| "check_frames lo hi (pc # pcs) ok = (if lo < pc \<and> pc < hi then 1 else check_frames lo hi pcs ok)"

fun check_stacks :: "trigger_env \<Rightarrow> u64 \<Rightarrow> u64 \<Rightarrow> ulp_thread list \<Rightarrow> int" where
  "check_stacks env lo hi [] = 0"
| "check_stacks env lo hi (th # ths) =
     (let (pcs, ok) = unwind env (tid th); r = check_frames lo hi pcs ok
      in if r \<noteq> 0 then r else check_stacks env lo hi ths)"

definition coarse_library_range_check :: "trigger_env \<Rightarrow> ulp_process \<Rightarrow> bytes \<Rightarrow> int" where
  "coarse_library_range_check env p libname =
     (case library_range_detect env (pid p) libname of (r, lo, hi) \<Rightarrow>
        if r \<noteq> 0 then -1 else check_stacks env lo hi (threads p))"

subsection \<open>One patch, one process\<close>

text \<open>
  A pass of the retry loop inside the critical section: the reversal of the patches of a library, when one is
  given, then the application of the patch \<open>lp\<close>, its metadata as bytes and parsed. Beside \<open>result\<close> and the
  state the passes return \<open>again\<close>, which is \<open>False\<close> after an assignment \<open>retry = 0\<close>.
\<close>

definition revert_pass ::
  "trigger_env \<Rightarrow> (bytes \<times> ulp_metadata) option \<Rightarrow> bytes option \<Rightarrow> ulp_process \<Rightarrow> int \<Rightarrow> world \<Rightarrow>
     (int \<times> bool \<times> bool \<times> world) option" where
  "revert_pass env lp revert_library p result w =
     (case revert_library of
        None \<Rightarrow> Some (result, False, True, w)
      | Some lib \<Rightarrow> do {
          (result, w) \<leftarrow> revert_patches_from_lib (kernel_os env) (rr_timeout env) p
             (map_option (\<lambda>(_, ulp). cstr (obj_name (objs ulp))) lp) lib w;
          let again = (result \<noteq> -1);
          let result = (if lp \<noteq> None \<and> (result = ENOTARGETLIB \<or> result = ENOPATCH) then 0 else result);
          if result \<noteq> 0 then Some (result, True, again, w) else Some (result, False, False, w) })"

definition apply_pass ::
  "trigger_env \<Rightarrow> (bytes \<times> ulp_metadata) option \<Rightarrow> bool \<Rightarrow> ulp_process \<Rightarrow> int \<times> bool \<times> bool \<times> world \<Rightarrow>
     (int \<times> bool \<times> world) option" where
  "apply_pass env lp disable_seccomp_p p = (\<lambda>(result, skip_patch_apply, again, w).
     (case lp of
        None \<Rightarrow> Some (result, again, w)
      | Some (livepatch, _) \<Rightarrow>
          if skip_patch_apply then Some (result, again, w)
          else do {
            (result, w) \<leftarrow> apply_patch (kernel_os env) (rr_timeout env) p livepatch disable_seccomp_p w;
            Some (result, again \<and> result \<noteq> -1 \<and> result \<noteq> 0, w) }))"

text \<open>The library the stack check is about: the target of the patch. Without a patch the code reads \<open>NULL\<close>.\<close>

definition stack_check :: "trigger_env \<Rightarrow> (bytes \<times> ulp_metadata) option \<Rightarrow> bool \<Rightarrow> ulp_process \<Rightarrow> int option" where
  "stack_check env lp check_stack p =
     (if \<not> check_stack then Some 0
      else case lp of None \<Rightarrow> None
           | Some (_, ulp) \<Rightarrow> Some (coarse_library_range_check env p (cstr (obj_name (objs ulp)))))"

definition section_pass ::
  "trigger_env \<Rightarrow> (bytes \<times> ulp_metadata) option \<Rightarrow> bytes option \<Rightarrow> bool \<Rightarrow> bool \<Rightarrow> ulp_process \<Rightarrow> int \<Rightarrow> world \<Rightarrow>
     (int \<times> bool \<times> world) option" where
  "section_pass env lp lib dsec chk p result w = do {
     found \<leftarrow> stack_check env lp chk p;
     if found \<noteq> 0 then Some (result, True, w)
     else do {
       r \<leftarrow> revert_pass env lp lib p result w;
       apply_pass env lp dsec p r }}"

text \<open>\<open>while (retry)\<close>, with the value of \<open>ret\<close> at the label \<open>metadata_clean\<close>.\<close>

fun trigger_loop ::
  "trigger_env \<Rightarrow> (bytes \<times> ulp_metadata) option \<Rightarrow> bytes option \<Rightarrow> bool \<Rightarrow> bool \<Rightarrow> nat \<Rightarrow> int \<Rightarrow> ulp_process \<Rightarrow> world \<Rightarrow>
     (int \<times> ulp_process \<times> world) option" where
  "trigger_loop env lp lib dsec chk 0 result p w = Some (result, p, w)"
| "trigger_loop env lp lib dsec chk (Suc retry) result p w = do {
     (ret, p, w) \<leftarrow> hijack_threads (kernel_os env) (kernel_fs env) p w;
     if ret = ETHRDDETTACH \<or> ret > 0 then Some (ret, p, w)
     else do {
       (result, again, w) \<leftarrow> section_pass env lp lib dsec chk p result w;
       (ret, p, w) \<leftarrow> restore_threads (kernel_os env) p w;
       if again \<and> ret = 0 then trigger_loop env lp lib dsec chk retry result p w else Some (result, p, w) }}"

text \<open>
  The metadata of the container: 0 and the patch, or an error. A parse that writes behind an
  allocation does not return.
\<close>

definition load_livepatch ::
  "trigger_env \<Rightarrow> ulp_target \<Rightarrow> bytes option \<Rightarrow> bytes \<Rightarrow> bool \<Rightarrow> (int \<times> (bytes \<times> ulp_metadata) option) option" where
  "load_livepatch env t final_prefix container_path rvt =
     (case so_section env container_path rvt of
        None \<Rightarrow> Some (ENOMETA, None)
      | Some sec \<Rightarrow>
          (case extract_ulp_from_so_to_mem sec final_prefix
                  (case real_path env container_path of None \<Rightarrow> container_path | Some rp \<Rightarrow> rp) of
             TooLarge \<Rightarrow> Some (ENOMETA, None)
           | OutOfBounds \<Rightarrow> None
           | Extracted md \<Rightarrow>
               (case parse_metadata_from_mem md (parse_alloc env) (pstart 0 0) of
                  Inl (PErr e) \<Rightarrow> Some (e, None)
                | Inl POverflow \<Rightarrow> None
                | Inr (ulp, _) \<Rightarrow> Some (check_patch_sanity env ulp (dynobjs t) final_prefix, Some (md, ulp)))))"

definition result_name :: "bytes option \<Rightarrow> bytes option \<Rightarrow> bytes" where
  "result_name container_path lib =
     (case container_path of Some c \<Rightarrow> c
      | None \<Rightarrow> take 127 (str ''reverted all patches from '' @ [39] @
          (case lib of Some l \<Rightarrow> l | None \<Rightarrow> str ''(null)'') @ [39]))"

definition trigger_one_process ::
  "trigger_env \<Rightarrow> bytes option \<Rightarrow> bool \<Rightarrow> nat \<Rightarrow> bytes option \<Rightarrow> bytes option \<Rightarrow> bool \<Rightarrow> bool \<Rightarrow> ulp_target \<Rightarrow> world \<Rightarrow>
     (int \<times> ulp_target \<times> world) option" where
  "trigger_one_process env prefix dsec retries container_path lib chk rvt t w =
     (let finish = (\<lambda>ret p w. Some (ret, t\<lparr>proc := p, results := (result_name container_path lib, ret) # results t\<rparr>, w))
      in do {
        (compatible, d) \<leftarrow> insnq_check_compatibility (mem_access (kernel_os env)) (tmem w)
           (libpulp_dynobj.truncate (dynobj_libpulp (proc t)));
        let p = (proc t)\<lparr>dynobj_libpulp := (dynobj_libpulp (proc t))\<lparr>insn_queue_version := insn_queue_version d\<rparr>\<rparr>;
        if \<not> compatible then finish EOLDULP p w
        else do {
          (ret, lp) \<leftarrow> (case container_path of
             None \<Rightarrow> Some (0, None)
           | Some c \<Rightarrow> load_livepatch env t (adjust_prefix_for_chroot env (pid p) prefix) c rvt);
          if ret \<noteq> 0 then finish ret p w
          else do {
            (ret, p, w) \<leftarrow> trigger_loop env lp lib dsec chk retries (-1) p w;
            finish ret p w }}})"

subsection \<open>Many patches, many processes\<close>

record trigger_args =
  arg_prefix :: "bytes option"
  arg_seccomp :: bool
  arg_retries :: nat
  arg_library :: "bytes option"
  arg_check_stack :: bool
  arg_revert :: bool
  arg_recursive :: bool

definition trigger_args_one :: "trigger_env \<Rightarrow> trigger_args \<Rightarrow> bytes option \<Rightarrow> ulp_target \<Rightarrow> world \<Rightarrow> (int \<times> ulp_target \<times> world) option" where
  "trigger_args_one env ar path t w =
     trigger_one_process env (arg_prefix ar) (arg_seccomp ar) (arg_retries ar) path (arg_library ar)
       (arg_check_stack ar) (arg_revert ar) t w"

definition PROCESS_PATCH_SUCCESS :: int where "PROCESS_PATCH_SUCCESS = 1"

definition PROCESS_PATCH_SKIPPED :: int where "PROCESS_PATCH_SKIPPED = 2"

definition PROCESS_PATCH_ERROR :: int where "PROCESS_PATCH_ERROR = 4"

definition outcome_flag :: "int \<Rightarrow> int" where
  "outcome_flag r = (if r = 0 then PROCESS_PATCH_SUCCESS
     else if skippable_error r then PROCESS_PATCH_SKIPPED else PROCESS_PATCH_ERROR)"

text \<open>A name whose part from the last dot on is \<open>.so\<close>.\<close>

definition has_so_extension :: "bytes \<Rightarrow> bool" where
  "has_so_extension nm \<longleftrightarrow> (case strrchr nm 46 of None \<Rightarrow> False | Some i \<Rightarrow> drop i nm = str ''.so'')"

text \<open>
  The loop of \<open>trigger_many_ulps\<close> over the entries of \<open>folder\<close>, the directory of the wildcard path, whose base
  name is \<open>wild\<close>. A directory is entered in recursive mode with the same wildcard; its own result
  is not used, and the name buffer, which then holds the wildcard path below the directory, is what the tests
  behind it go on with.
\<close>

function (sequential) trigger_many_ulps ::
  "trigger_env \<Rightarrow> trigger_args \<Rightarrow> bytes \<Rightarrow> bytes \<Rightarrow> bytes list \<Rightarrow> int \<Rightarrow> ulp_target \<Rightarrow> world \<Rightarrow> (int \<times> ulp_target \<times> world) option" where
  "trigger_many_ulps env ar folder wild [] ret t w = Some (ret, t, w)"
| "trigger_many_ulps env ar folder wild (d_name # ds) ret t w =
     (let path = folder @ [47] @ d_name;
          rest = (\<lambda>path t w.
            if \<not> has_so_extension d_name \<or> \<not> matches env wild d_name then trigger_many_ulps env ar folder wild ds ret t w
            else do {
              (r, t, w) \<leftarrow> trigger_args_one env ar (Some path) t w;
              trigger_many_ulps env ar folder wild ds (ret OR outcome_flag r) t w })
      in if length path \<ge> ULP_PATH_LEN \<or> d_name = str ''.'' \<or> d_name = str ''..''
         then trigger_many_ulps env ar folder wild ds ret t w
         else if is_dir env path then
           (if \<not> arg_recursive ar \<or> length path + length wild + 1 \<ge> ULP_PATH_LEN
            then trigger_many_ulps env ar folder wild ds ret t w
            else (case list_dir env path of
                    None \<Rightarrow> rest (path @ [47] @ wild) t w
                  | Some es \<Rightarrow> do {
                      (_, t, w) \<leftarrow> trigger_many_ulps env ar path wild es 0 t w;
                      rest (path @ [47] @ wild) t w }))
         else rest path t w)"
  by pat_completeness auto
termination
  by (relation "measures [\<lambda>(env, ar, folder, wild, ds, ret, t, w). ULP_PATH_LEN - length folder,
        \<lambda>(env, ar, folder, wild, ds, ret, t, w). length ds]") auto

record trigger_counts =
  successes :: nat
  skippes :: nat
  failures :: nat

definition count_one :: "bool \<Rightarrow> int \<Rightarrow> trigger_counts \<Rightarrow> trigger_counts" where
  "count_one is_wildcard r c =
     (if is_wildcard then
        (let c = (if r AND PROCESS_PATCH_SUCCESS \<noteq> 0 then c\<lparr>successes := successes c + 1\<rparr>
                  else if r AND PROCESS_PATCH_SKIPPED \<noteq> 0 then c\<lparr>skippes := skippes c + 1\<rparr> else c)
         in if r AND PROCESS_PATCH_ERROR \<noteq> 0 then c\<lparr>failures := failures c + 1\<rparr> else c)
      else if skippable_error r then c\<lparr>skippes := skippes c + 1\<rparr>
      else if r = 0 then c\<lparr>successes := successes c + 1\<rparr> else c\<lparr>failures := failures c + 1\<rparr>)"

text \<open>
  The loop over the processes, each with the state of its threads. \<open>folder\<close> and \<open>wild\<close> are the directory
  and the base name of the path when it has a star; a directory that cannot be read gives the result 0,
  \<open>PROCESS_OTHER_ERROR\<close>.
\<close>

definition trigger_process ::
  "trigger_env \<Rightarrow> trigger_args \<Rightarrow> bool \<Rightarrow> bytes \<Rightarrow> bytes \<Rightarrow> bytes option \<Rightarrow> ulp_target \<Rightarrow> world \<Rightarrow> (int \<times> ulp_target \<times> world) option" where
  "trigger_process env ar is_wildcard folder wild path t w =
     (if is_wildcard then
        (case list_dir env folder of None \<Rightarrow> Some (0, t, w)
         | Some es \<Rightarrow> trigger_many_ulps env ar folder wild es 0 t w)
      else trigger_args_one env ar path t w)"

fun trigger_many_processes ::
  "trigger_env \<Rightarrow> trigger_args \<Rightarrow> bytes \<Rightarrow> bytes \<Rightarrow> bytes option \<Rightarrow> (ulp_target \<times> world) list \<Rightarrow> int \<Rightarrow> trigger_counts \<Rightarrow>
     (int \<times> trigger_counts \<times> (ulp_target \<times> world) list) option" where
  "trigger_many_processes env ar folder wild path [] ret c = Some (ret, c, [])"
| "trigger_many_processes env ar folder wild path ((t, w) # ts) ret c =
     (let is_wildcard = (case path of None \<Rightarrow> False | Some f \<Rightarrow> 42 \<in> set f)
      in do {
        (r, t, w) \<leftarrow> trigger_process env ar is_wildcard folder wild path t w;
        (ret, c, ts) \<leftarrow> trigger_many_processes env ar folder wild path ts
          (if is_wildcard \<or> skippable_error r then ret else ret OR r) (count_one is_wildcard r c);
        Some (ret, c, (t, w) # ts) })"

subsection \<open>What a successful run went through\<close>

lemma units_present_iff: "units_present syms us = 0 \<longleftrightarrow> (\<forall>u \<in> set us. cstr (new_fname u) \<in> set syms)"
proof -
  have "get_symbol_with_name syms s = None \<longleftrightarrow> s \<notin> set syms" for s by (induction syms) auto
  then show ?thesis by (induction us) (auto split: option.split, metis option.distinct(1))
qed

lemma find_target_result:
  "find_target target bid ds b = (r, b') \<Longrightarrow>
     (r \<noteq> None \<longleftrightarrow> (\<exists>d \<in> set ds. get_basename (filename d) = target \<and> take BUILDID_LEN bid = take BUILDID_LEN (dyn_build_id d))) \<and>
     (r = None \<longrightarrow> (b' \<noteq> None \<longleftrightarrow> b \<noteq> None \<or> (\<exists>d \<in> set ds. get_basename (filename d) = target)))"
proof (induction ds arbitrary: b)
  case (Cons d ds)
  show ?case
  proof (cases "get_basename (filename d) = target \<and> take BUILDID_LEN bid = take BUILDID_LEN (dyn_build_id d)")
    case True
    then show ?thesis using Cons.prems by auto
  next
    case False
    then have "find_target target bid ds (if get_basename (filename d) = target then Some (dyn_build_id d) else b) = (r, b')"
      using Cons.prems by auto
    from Cons.IH [OF this] False show ?thesis by (auto split: if_splits)
  qed
qed simp

text \<open>The patch suits the process: an object of its target's name and build id is loaded.\<close>

definition target_loaded :: "ulp_metadata \<Rightarrow> ulp_dynobj list \<Rightarrow> bool" where
  "target_loaded ulp ds \<longleftrightarrow> (\<exists>d \<in> set ds. get_basename (filename d) = get_basename (cstr (obj_name (objs ulp))) \<and>
     take BUILDID_LEN (build_id (objs ulp)) = take BUILDID_LEN (dyn_build_id d))"

lemma suitable_patch_loaded:
  assumes "check_patch_sanity env ulp ds prefix = 0"
  shows "target_loaded ulp ds" "check_livepatch_functions_matches_metadata env ulp prefix = 0"
proof -
  obtain r b where f: "find_target (get_basename (cstr (obj_name (objs ulp)))) (build_id (objs ulp)) ds None = (r, b)" by fastforce
  then have "r \<noteq> None" and c: "check_livepatch_functions_matches_metadata env ulp prefix = 0"
    using assms by (auto simp: check_patch_sanity_def split: if_splits option.splits)
  then show "target_loaded ulp ds" using find_target_result [OF f] by (auto simp: target_loaded_def)
  from c show "check_livepatch_functions_matches_metadata env ulp prefix = 0" .
qed

lemma check_livepatch_functions_0:
  assumes "check_livepatch_functions_matches_metadata env ulp prefix = 0"
  shows "\<exists>path syms. so_symbols env path = Some syms \<and> units_present syms (units (objs ulp)) = 0 \<and>
    cstr (so_filename ulp) = (case prefix of None \<Rightarrow> [] | Some pre \<Rightarrow> pre) @ path"
proof (cases prefix)
  case None
  then show ?thesis using assms
    by (auto simp: check_livepatch_functions_matches_metadata_def split: option.splits)
next
  case (Some pre)
  then have "take (length pre) (cstr (so_filename ulp)) = pre"
    using assms by (auto simp: check_livepatch_functions_matches_metadata_def Let_def split: if_splits)
  then have "cstr (so_filename ulp) = pre @ drop (length pre) (cstr (so_filename ulp))"
    by (metis append_take_drop_id)
  then show ?thesis using assms Some
    by (auto simp: check_livepatch_functions_matches_metadata_def Let_def split: option.splits if_splits)
qed

lemma section_pass_0:
  assumes "section_pass env (Some (md, ulp)) lib dsec chk p result w = Some (0, again, w')" and "result \<noteq> 0"
  shows "\<exists>w1. apply_patch (kernel_os env) (rr_timeout env) p md dsec w1 = Some (0, w')"
proof -
  obtain found where found: "stack_check env (Some (md, ulp)) chk p = Some found"
    using assms(1) by (auto simp: section_pass_def split: Option.bind_splits)
  with assms obtain res skip ag w1 where r: "revert_pass env (Some (md, ulp)) lib p result w = Some (res, skip, ag, w1)"
    and ap: "apply_pass env (Some (md, ulp)) dsec p (res, skip, ag, w1) = Some (0, again, w')"
    by (auto simp: section_pass_def split: Option.bind_splits if_splits)
  have "skip \<Longrightarrow> res \<noteq> 0"
    using r by (auto simp: revert_pass_def Let_def split: option.splits Option.bind_splits if_splits)
  with ap have "\<not> skip" by (auto simp: apply_pass_def)
  with ap show ?thesis by (auto simp: apply_pass_def split: Option.bind_splits)
qed

lemma section_pass_again:
  assumes "section_pass env lp lib dsec chk p result w = Some (0, again, w')" and "result \<noteq> 0"
  shows "\<not> again"
  using assms
  by (auto simp: section_pass_def revert_pass_def apply_pass_def Let_def split: option.splits Option.bind_splits if_splits)

lemma trigger_loop_0:
  assumes "trigger_loop env (Some (md, ulp)) lib dsec chk retry result p w = Some (0, p', w')" and "result \<noteq> 0"
  shows "\<exists>p1 w1 w2. apply_patch (kernel_os env) (rr_timeout env) p1 md dsec w1 = Some (0, w2)"
  using assms
proof (induction retry arbitrary: result p w)
  case (Suc retry)
  obtain ret p1 w1 where hij: "hijack_threads (kernel_os env) (kernel_fs env) p w = Some (ret, p1, w1)"
    using Suc.prems(1) by (auto split: Option.bind_splits)
  then have ret: "\<not> (ret = ETHRDDETTACH \<or> ret > 0)" using Suc.prems(1) by auto
  obtain res again w2 where pass: "section_pass env (Some (md, ulp)) lib dsec chk p1 result w1 = Some (res, again, w2)"
    using Suc.prems(1) hij ret by (auto split: Option.bind_splits)
  obtain ret2 p3 w3 where rest: "restore_threads (kernel_os env) p1 w2 = Some (ret2, p3, w3)"
    using Suc.prems(1) hij ret pass by (auto split: Option.bind_splits)
  have run: "(if again \<and> ret2 = 0 then trigger_loop env (Some (md, ulp)) lib dsec chk retry res p3 w3
      else Some (res, p3, w3)) = Some (0, p', w')"
    using Suc.prems(1) hij ret pass rest by simp
  show ?case
  proof (cases "res = 0")
    case True
    then show ?thesis using section_pass_0 pass Suc.prems(2) by blast
  next
    case False
    then have "trigger_loop env (Some (md, ulp)) lib dsec chk retry res p3 w3 = Some (0, p', w')"
      using run by (auto split: if_splits)
    then show ?thesis using Suc.IH False by blast
  qed
qed simp

lemma load_livepatch_0:
  assumes "load_livepatch env t prefix c rvt = Some (0, lp)"
  shows "\<exists>md ulp. lp = Some (md, ulp) \<and> check_patch_sanity env ulp (dynobjs t) prefix = 0 \<and>
    (\<exists>st. parse_metadata_from_mem md (parse_alloc env) (pstart 0 0) = Inr (ulp, st))"
  using assms parse_fails_nonzero
  by (auto simp: load_livepatch_def fails_nonzero_def split: option.splits extracted.splits sum.splits perr.splits)

subsection \<open>Properties\<close>


text \<open>
  Replacing the patches of a library is not retried. Once the reversal has succeeded, a
  process whose locks are busy when the new patch is applied is given up at once, however many attempts are
  left: the old patches are gone and the new one is not applied.
\<close>

theorem trigger_no_retry_after_revert:
  assumes "hijack_threads (kernel_os env) (kernel_fs env) p w = Some (0, p1, w1)"
    and "revert_patches_from_lib (kernel_os env) (rr_timeout env) p1 (Some (cstr (obj_name (objs ulp)))) lib w1 = Some (0, w2)"
    and "apply_patch (kernel_os env) (rr_timeout env) p1 md dsec w2 = Some (EAGAIN, w3)"
    and "restore_threads (kernel_os env) p1 w3 = Some (0, p2, w4)"
  shows "trigger_loop env (Some (md, ulp)) (Some lib) dsec False (Suc retry) result p w = Some (EAGAIN, p2, w4)"
  using assms by (simp add: section_pass_def stack_check_def revert_pass_def apply_pass_def)

text \<open>
  With a wildcard the exit status says nothing: whatever happens to the processes, even when every
  patch fails in every one of them, \<open>trigger_many_processes\<close> returns the 0 it started with; without a
  wildcard it returns 0 only when no process failed.
\<close>

theorem trigger_exit_status:
  assumes "trigger_many_processes env ar folder wild path ts 0 c = Some (ret, c', ts')"
  shows "if (\<exists>f. path = Some f \<and> 42 \<in> set f) then ret = 0 else ret = 0 \<longrightarrow> failures c' = failures c"
proof -
  have "if (\<exists>f. path = Some f \<and> 42 \<in> set f) then ret = ret0 else ret = 0 \<longrightarrow> ret0 = 0 \<and> failures c' = failures c"
    if "trigger_many_processes env ar folder wild path ts ret0 c = Some (ret, c', ts')" for ret0
    using that
  proof (induction ts arbitrary: ret0 c ts')
    case (Cons tw ts)
    obtain t w where tw: "tw = (t, w)" by fastforce
    let ?wild = "case path of None \<Rightarrow> False | Some f \<Rightarrow> 42 \<in> set f"
    obtain r t1 w1 where r: "trigger_process env ar ?wild folder wild path t w = Some (r, t1, w1)"
      using Cons.prems by (auto simp: tw Let_def split: Option.bind_splits)
    obtain ts1 where run: "trigger_many_processes env ar folder wild path ts
        (if ?wild \<or> skippable_error r then ret0 else ret0 OR r) (count_one ?wild r c) = Some (ret, c', ts1)"
      using Cons.prems r by (auto simp: tw Let_def split: Option.bind_splits)
    show ?case using Cons.IH [OF run]
      by (cases path) (auto simp: count_one_def or_eq_0_iff split: if_splits)
  qed simp
  from this [OF assms] show ?thesis by auto
qed

subsection \<open>Runs\<close>

definition demo_tenv :: "(nat \<Rightarrow> registers \<Rightarrow> mem \<Rightarrow> registers \<times> mem) \<Rightarrow> trigger_env" where
  "demo_tenv f = \<lparr>kernel_os = demo_os f, kernel_fs = demo_fs, rr_timeout = 200,
     so_section = (\<lambda>c _. if c = str ''/p.so'' then Some (create_patch_metadata_file demo_metadata) else None),
     real_path = (\<lambda>_. None), so_symbols = (\<lambda>_. Some [str ''f_lp'']), parse_alloc = (\<lambda>_. True),
     proc_chroot = (\<lambda>_. False), maps_lines = (\<lambda>_. None), unwind = (\<lambda>_. ([], True)),
     list_dir = (\<lambda>_. Some [str ''q.so'']), is_dir = (\<lambda>_. False), matches = (\<lambda>_ _. True)\<rparr>"

definition demo_target :: ulp_target where
  "demo_target = \<lparr>proc = demo_process 0,
     dynobjs = [\<lparr>filename = str ''/bin/app'', dyn_build_id = replicate 20 1\<rparr>,
                \<lparr>filename = str ''/lib/libc.so.6'', dyn_build_id = replicate 20 5\<rparr>], results = []\<rparr>"

lemma demo_load:
  obtains md where "load_livepatch (demo_tenv f) demo_target None (str ''/p.so'') False =
      Some (0, Some (md, stored demo_metadata (str ''/p.so'')))" "length md < ULP_METADATA_BUF_LEN"
proof -
  have len: "length (create_patch_metadata_file demo_metadata) = 138" "length (write_reverse_patch demo_metadata) = 70"
    by (simp_all add: create_patch_metadata_file_def write_reverse_patch_def demo_metadata_def put_str_def
        put_unit_def str_def cstr_def)
  obtain md where md: "extract_ulp_from_so_to_mem (create_patch_metadata_file demo_metadata) None (str ''/p.so'') = Extracted md"
    "length md < ULP_METADATA_BUF_LEN"
    using len by (simp add: extract_ulp_from_so_to_mem_def str_def PATH_MAX_def ULP_METADATA_BUF_LEN_def)
  obtain g where g: "extract_ulp_from_so_to_mem (write_reverse_patch demo_metadata) None (str ''/p.so'') = Extracted g"
    using len by (simp add: extract_ulp_from_so_to_mem_def str_def PATH_MAX_def ULP_METADATA_BUF_LEN_def)
  have "no_nul (str ''/p.so'')" "str ''/p.so'' \<noteq> []" by (simp_all add: str_def no_nul_def)
  with parse_extracted [OF demo_metadata_wf _ _ _ md(1) g, of "\<lambda>_. True" "[]" 0 0]
  obtain st where parse: "parse_metadata_from_mem md (\<lambda>_. True) (pstart 0 0) = Inr (stored demo_metadata (str ''/p.so''), st)" by auto
  have "check_patch_sanity (demo_tenv f) (stored demo_metadata (str ''/p.so'')) (dynobjs demo_target) None = 0"
  proof -
    have "get_basename (str ''/lib/libc.so.6'') = str ''libc.so.6''" "get_basename (str ''libc.so.6'') = str ''libc.so.6''"
      "get_basename (str ''/bin/app'') \<noteq> str ''libc.so.6''" "cstr (str ''f_lp'') = str ''f_lp''"
      "cstr (str ''f_lp'' @ [0]) = str ''f_lp''" "cstr (str ''libc.so.6'' @ [0]) = str ''libc.so.6''"
      "cstr (str ''libc.so.6'') = str ''libc.so.6''"
      by code_simp+
    then show ?thesis
      by (simp add: check_patch_sanity_def check_livepatch_functions_matches_metadata_def stored_def stored_object_def
          stored_unit_def demo_metadata_def demo_tenv_def demo_target_def Let_def)
  qed
  with md parse have "load_livepatch (demo_tenv f) demo_target None (str ''/p.so'') False =
      Some (0, Some (md, stored demo_metadata (str ''/p.so'')))"
    by (simp add: load_livepatch_def demo_tenv_def)
  then show ?thesis using md(2) that by blast
qed

definition demo_busy :: "nat \<Rightarrow> registers \<Rightarrow> mem \<Rightarrow> registers \<times> mem" where
  "demo_busy n r m = (r\<lparr>rax := (if rip r = 0x9002 then 11 else 0)\<rparr>, m)"

lemma demo_compatible:
  "insnq_check_compatibility k m (libpulp_dynobj.truncate (dynobj_libpulp (demo_process 0))) =
     Some (True, libpulp_dynobj.truncate (dynobj_libpulp (demo_process 0)))"
  by (simp add: insnq_check_compatibility_def demo_process_def libpulp_dynobj.truncate_def)

lemma demo_env_fields:
  "kernel_os (demo_tenv f) = demo_os f" "kernel_fs (demo_tenv f) = demo_fs" "rr_timeout (demo_tenv f) = 200"
  "adjust_prefix_for_chroot (demo_tenv f) t None = None" "proc demo_target = demo_process 0" "results demo_target = []"
  "(demo_process 0)\<lparr>dynobj_libpulp := (dynobj_libpulp (demo_process 0))
     \<lparr>insn_queue_version := insn_queue_version (libpulp_dynobj.truncate (dynobj_libpulp (demo_process 0)))\<rparr>\<rparr> = demo_process 0"
  by (simp_all add: demo_tenv_def adjust_prefix_for_chroot_def demo_target_def demo_process_def libpulp_dynobj.truncate_def)

lemma demo_trigger_one:
  "trigger_one_process (demo_tenv f) None dsec n (Some c) lib chk rvt demo_target demo_world = do {
     (ret, lp) \<leftarrow> load_livepatch (demo_tenv f) demo_target None c rvt;
     if ret \<noteq> 0 then Some (ret, demo_target\<lparr>proc := demo_process 0, results := [(c, ret)]\<rparr>, demo_world)
     else do {
       (ret, p, w) \<leftarrow> trigger_loop (demo_tenv f) lp lib dsec chk n (-1) (demo_process 0) demo_world;
       Some (ret, demo_target\<lparr>proc := p, results := [(c, ret)]\<rparr>, w) }}"
  by (simp add: trigger_one_process_def demo_env_fields demo_compatible result_name_def) (simp add: Let_def)


definition demo_args :: trigger_args where
  "demo_args = \<lparr>arg_prefix = None, arg_seccomp = False, arg_retries = 1, arg_library = None,
     arg_check_stack = False, arg_revert = False, arg_recursive = False\<rparr>"

theorem trigger_exit_status_witness:
  "\<exists>ret ts'. trigger_many_processes (demo_tenv demo_routine) demo_args (str ''/x'') (str ''*.so'') (Some (str ''/x/*.so''))
     [(demo_target, demo_world)] 0 \<lparr>successes = 0, skippes = 0, failures = 0\<rparr> =
     Some (ret, \<lparr>successes = 0, skippes = 0, failures = 1\<rparr>, ts') \<and> ret = 0"
proof -
  have n: "has_so_extension (str ''q.so'')" "42 \<in> set (str ''/x/*.so'')" "str ''q.so'' \<noteq> str ''.''" "str ''q.so'' \<noteq> str ''..''"
    "str ''/x'' @ 47 # str ''q.so'' \<noteq> str ''/p.so''" "length (str ''/x'') + length (str ''q.so'') < 99"
    by code_simp+
  have "load_livepatch (demo_tenv demo_routine) demo_target None (str ''/x'' @ 47 # str ''q.so'') False = Some (ENOMETA, None)"
    using n by (simp add: load_livepatch_def demo_tenv_def)
  then obtain t w where one: "trigger_args_one (demo_tenv demo_routine) demo_args (Some (str ''/x'' @ 47 # str ''q.so''))
      demo_target demo_world = Some (ENOMETA, t, w)"
    by (simp add: trigger_args_one_def demo_args_def demo_trigger_one)
  have env: "list_dir (demo_tenv demo_routine) d = Some [str ''q.so'']" "\<not> is_dir (demo_tenv demo_routine) d"
    "matches (demo_tenv demo_routine) d e" for d e by (simp_all add: demo_tenv_def)
  have "\<exists>t w. trigger_process (demo_tenv demo_routine) demo_args True (str ''/x'') (str ''*.so'') (Some (str ''/x/*.so'')) demo_target demo_world =
      Some (4, t, w)"
    using n one by (simp add: trigger_process_def env outcome_flag_def skippable_error_def PROCESS_PATCH_ERROR_def ULP_PATH_LEN_def)
  then obtain ret c ts' where run: "trigger_many_processes (demo_tenv demo_routine) demo_args (str ''/x'') (str ''*.so'') (Some (str ''/x/*.so''))
     [(demo_target, demo_world)] 0 \<lparr>successes = 0, skippes = 0, failures = 0\<rparr> = Some (ret, c, ts')"
    and c: "c = \<lparr>successes = 0, skippes = 0, failures = 1\<rparr>"
    using n by (auto simp: count_one_def PROCESS_PATCH_ERROR_def PROCESS_PATCH_SUCCESS_def PROCESS_PATCH_SKIPPED_def)
  then show ?thesis using trigger_exit_status [OF run] n(2) by auto
qed

theorem trigger_no_retry_after_revert_witness:
  "\<exists>p' w'. trigger_loop (demo_tenv demo_busy) (Some ([1, 2, 3], demo_metadata)) (Some (str ''libc.so.6'')) False False 100 (-1)
     (demo_process 0) demo_world = Some (EAGAIN, p', w')"
proof -
  let ?os = "demo_os demo_busy" and ?p = "demo_hijacked 0"
  let ?nm = "cstr (obj_name (objs demo_metadata))"
  have p: "all_threads_hijacked ?p" "main_thread ?p = Some demo_thread" "tid demo_thread = 7"
    "trigger (dynobj_libpulp ?p) = 0x9000" "revert_all (dynobj_libpulp ?p) = 0x9300" "insn_queue_addr (dynobj_libpulp ?p) = 0"
    "rax (tcontext demo_thread) = 0" "syscalls demo_stopped = 6"
    by (simp_all add: demo_defs)
  have wr: "write_target ?os bs a w = Some (0, w\<lparr>tmem := mem_write (tmem w) a bs\<rparr>)" for bs a w
    by (simp add: write_target_def write_bytes_atomic demo_os_def) (simp add: all_ok_def)
  have i: "int_of_reg 0 = 0" "int_of_reg 11 = 11" by (simp_all add: int_of_reg_def)
  have len: "length (str ''libc.so.6'') < 100" "str ''libc.so.6'' \<noteq> str ''target''" by code_simp+
  obtain w2 where rv: "revert_patches_from_lib ?os 200 ?p (Some ?nm) (str ''libc.so.6'') demo_stopped = Some (0, w2)"
    and w2: "syscalls w2 = 11"
    using len by (simp add: revert_patches_from_lib_def Let_def set_string_buffer_def set_metadata_buffer_def p wr demo_run
        demo_busy_def redirected_def RESTART_SYSCALL_SIZE_def interpret_and_return_def insnq_interpret_from_process_def i
        ULP_METADATA_BUF_LEN_def)
  obtain w3 where ap: "apply_patch ?os 200 ?p [1, 2, 3] False w2 = Some (EAGAIN, w3)"
    using w2 by (simp add: apply_patch_def set_metadata_buffer_def p wr demo_run demo_busy_def redirected_def
        RESTART_SYSCALL_SIZE_def interpret_and_return_def insnq_interpret_from_process_def i ULP_METADATA_BUF_LEN_def)
  obtain p3 w4 where re: "restore_threads ?os ?p w3 = Some (0, p3, w4)" using demo_restore by blast
  have "trigger_loop (demo_tenv demo_busy) (Some ([1, 2, 3], demo_metadata)) (Some (str ''libc.so.6'')) False False (Suc 99) (-1)
     (demo_process 0) demo_world = Some (EAGAIN, p3, w4)"
    by (rule trigger_no_retry_after_revert) (use rv ap re demo_hijack in \<open>simp_all add: demo_env_fields\<close>)
  then show ?thesis by (simp del: trigger_loop.simps)
qed

end
