(* ===== verification/Post.thy ===== *)
theory Post
  imports Arch_X86 Ptrace "HOL-Library.Monad_Syntax"
begin

text \<open>
  Post-processing of libraries, \<open>src/tools/post.c\<close> and \<open>src/tools/arch/x86_64/post-arch.c\<close>: the two one-byte
  nops at the entry of every livepatchable function are merged into one two-byte nop, so that a running thread
  is never between the two when the entry is rewritten. The theory also has \<open>check_preamble\<close>, which looks at the
  same bytes in a running process.

  The file is what libelf shows of it: the sections in order, the null section first, each with the
  header fields the code reads and the data \<open>elf_getdata\<close> returns. A result \<open>None\<close> is a run that ends before the
  file is written: by \<open>errx\<close>, a failed assertion, or an access outside a section's data.
\<close>

record elf_scn =
  scn_name :: bytes
  sh_addr :: u64
  sh_size :: nat
  d_buf :: "bytes option"

record elf_file =
  has_shstrndx :: bool
  scns :: "elf_scn list"

fun nextscn_named :: "bytes \<Rightarrow> nat \<Rightarrow> elf_scn list \<Rightarrow> nat option" where
  "nextscn_named name i [] = None"
| "nextscn_named name i (s # ss) = (if name = scn_name s then Some i else nextscn_named name (Suc i) ss)"

definition find_section_by_name :: "elf_file \<Rightarrow> bytes \<Rightarrow> nat option option" where
  "find_section_by_name elf name =
     (if \<not> has_shstrndx elf then None else Some (nextscn_named name 1 (drop 1 (scns elf))))"

text \<open>The scan of the symbol table for an address; its result is the index of the section of the first symbol there.\<close>

function symbol_scan :: "bytes \<Rightarrow> u64 \<Rightarrow> nat \<Rightarrow> nat \<Rightarrow> nat option option" where
  "symbol_scan buf addr sz i =
     (if i \<ge> sz then Some None
      else if i + 16 > length buf then None
      else if field64 buf (i + 8) = addr then Some (Some (field16 buf (i + 6)))
      else symbol_scan buf addr sz (i + 24))"
  by pat_completeness auto
termination
  by (relation "measure (\<lambda>(buf, addr, sz, i). sz - i)") auto

declare symbol_scan.simps [simp del]

definition merge_in_section :: "elf_file \<Rightarrow> nat \<Rightarrow> u64 \<Rightarrow> elf_file option" where
  "merge_in_section elf k addr =
     (if k \<ge> length (scns elf) then None
      else do {
        buf \<leftarrow> d_buf (scns elf ! k);
        let func_addr = unat (addr - sh_addr (scns elf ! k));
        if func_addr + 4 > length buf then None
        else let func_addr = (if take 4 (drop func_addr buf) = insn_endbr64 then func_addr + 4 else func_addr)
             in if func_addr + 2 > length buf then None
                else if \<not> (buf ! (func_addr + 1) = 0x90 \<and> (buf ! func_addr = 0x90 \<or> buf ! func_addr = 0x66)) then None
                else Some (elf\<lparr>scns := (scns elf)[k := (scns elf ! k)\<lparr>d_buf := Some (buf[func_addr := 0x66])\<rparr>]\<rparr>) })"

definition symbol_section :: "elf_file \<Rightarrow> nat option option" where
  "symbol_section elf = do {
     scn \<leftarrow> find_section_by_name elf (str ''.symtab'');
     if scn = None then find_section_by_name elf (str ''.dynsym'') else Some scn }"

definition merge_nops_at_addr :: "elf_file \<Rightarrow> u64 \<Rightarrow> nat \<Rightarrow> elf_file option" where
  "merge_nops_at_addr elf addr amount =
     (if amount < 2 then Some elf
      else if amount > 2 then Some elf
      else do {
        scn \<leftarrow> symbol_section elf;
        case scn of
          None \<Rightarrow> Some elf
        | Some k \<Rightarrow> do {
            buf \<leftarrow> d_buf (scns elf ! k);
            sym \<leftarrow> symbol_scan buf addr (sh_size (scns elf ! k)) 0;
            case sym of None \<Rightarrow> Some elf | Some shndx \<Rightarrow> merge_in_section elf shndx addr } })"

function fixup_loop :: "nat \<Rightarrow> nat \<Rightarrow> nat \<Rightarrow> elf_file \<Rightarrow> elf_file option" where
  "fixup_loop k sz i elf =
     (if i \<ge> sz then Some elf
      else do {
        buf \<leftarrow> d_buf (scns elf ! k);
        if i + 8 > length buf then None
        else do {
          elf \<leftarrow> merge_nops_at_addr elf (field64 buf i + of_nat PRE_NOPS_LEN) (ULP_NOPS_LEN - PRE_NOPS_LEN);
          fixup_loop k sz (i + 8) elf } })"
  by pat_completeness auto
termination
  by (relation "measure (\<lambda>(k, sz, i, elf). sz - i)") auto

declare fixup_loop.simps [simp del]

definition patchable_function_entries :: bytes where
  "patchable_function_entries = str ''__patchable_function_entries''"

definition nops_fixup :: "elf_file \<Rightarrow> elf_file option" where
  "nops_fixup elf = do {
     scn \<leftarrow> find_section_by_name elf patchable_function_entries;
     case scn of
       None \<Rightarrow> Some elf
     | Some k \<Rightarrow> if d_buf (scns elf ! k) = None then None else fixup_loop k (sh_size (scns elf ! k)) 0 elf }"

text \<open>The command: the opened file, and whether libelf can write it back.\<close>

definition run_post :: "elf_file option \<Rightarrow> bool \<Rightarrow> (int \<times> elf_file) option" where
  "run_post file update_ok = do {
     elf \<leftarrow> file;
     scn \<leftarrow> find_section_by_name elf patchable_function_entries;
     if scn = None then None
     else do {
       elf \<leftarrow> nops_fixup elf;
       if update_ok then Some (0, elf) else None } }"

definition check_preamble :: "kernel \<Rightarrow> u64 \<Rightarrow> mem \<Rightarrow> bool option" where
  "check_preamble k sym_address m = do {
     (r, bs) \<leftarrow> read_memory k 2 sym_address m [0, 0];
     Some (r = 0 \<and> ((bs ! 0 = 0x90 \<or> bs ! 0 = 0x66) \<and> bs ! 1 = 0x90)) }"

subsection \<open>What the tool should do\<close>

text \<open>The tables as lists, and the places of the nops the entries name.\<close>

definition symbols :: "bytes \<Rightarrow> (u64 \<times> nat) list" where
  "symbols b = map (\<lambda>j. (field64 b (24 * j + 8), field16 b (24 * j + 6))) [0..<length b div 24]"

definition entries :: "bytes \<Rightarrow> u64 list" where
  "entries b = map (\<lambda>j. field64 b (8 * j)) [0..<length b div 8]"

definition nop_offset :: "bytes \<Rightarrow> nat \<Rightarrow> nat" where
  "nop_offset b off = (if take 4 (drop off b) = insn_endbr64 then off + 4 else off)"

definition scn_data :: "elf_file \<Rightarrow> nat \<Rightarrow> bytes" where
  "scn_data elf k = the (d_buf (scns elf ! k))"

definition nop_site :: "elf_file \<Rightarrow> bytes \<Rightarrow> u64 \<Rightarrow> (nat \<times> nat) option" where
  "nop_site elf symtab addr =
     map_option (\<lambda>(_, k). (k, nop_offset (scn_data elf k) (unat (addr - sh_addr (scns elf ! k)))))
       (find (\<lambda>(v, _). v = addr) (symbols symtab))"

definition nop_sites :: "elf_file \<Rightarrow> nat \<Rightarrow> nat \<Rightarrow> (nat \<times> nat) set" where
  "nop_sites elf ks ke =
     {s. \<exists>a \<in> set (entries (scn_data elf ke)). nop_site elf (scn_data elf ks) (a + 14) = Some s}"

text \<open>The file with \<open>0x66\<close> at a set of places.\<close>

definition merge_at :: "(nat \<times> nat) set \<Rightarrow> elf_file \<Rightarrow> elf_file" where
  "merge_at S elf = elf\<lparr>scns := map (\<lambda>k. (scns elf ! k)\<lparr>d_buf :=
       map_option (\<lambda>b. map (\<lambda>i. if (k, i) \<in> S then 0x66 else b ! i) [0..<length b]) (d_buf (scns elf ! k))\<rparr>)
     [0..<length (scns elf)]\<rparr>"

text \<open>
  A file a compiler produced with \<open>-fpatchable-function-entry=16,14\<close>: both tables are whole, every place named by an entry holds a
  nop pair in a section other than the tables, and no two pairs overlap.
\<close>

definition table :: "elf_file \<Rightarrow> nat \<Rightarrow> nat \<Rightarrow> bool" where
  "table elf k n \<longleftrightarrow> k < length (scns elf) \<and>
     (\<exists>b. d_buf (scns elf ! k) = Some b \<and> sh_size (scns elf ! k) = length b \<and> n dvd length b)"

definition nop_pair :: "elf_file \<Rightarrow> nat \<times> nat \<Rightarrow> bool" where
  "nop_pair elf = (\<lambda>(k, i). k < length (scns elf) \<and> d_buf (scns elf ! k) \<noteq> None \<and> i + 4 \<le> length (scn_data elf k) \<and>
     scn_data elf k ! i \<in> {0x90, 0x66} \<and> scn_data elf k ! (i + 1) = 0x90)"

definition livepatchable_elf :: "elf_file \<Rightarrow> nat \<Rightarrow> nat \<Rightarrow> bool" where
  "livepatchable_elf elf ks ke \<longleftrightarrow>
     symbol_section elf = Some (Some ks) \<and> find_section_by_name elf patchable_function_entries = Some (Some ke) \<and>
     table elf ks 24 \<and> table elf ke 8 \<and>
     (\<forall>s \<in> nop_sites elf ks ke. fst s \<noteq> ks \<and> fst s \<noteq> ke \<and> nop_pair elf s \<and> (fst s, snd s + 1) \<notin> nop_sites elf ks ke)"

subsection \<open>The loops over the tables\<close>

lemma symbol_scan_find:
  assumes "length b = 24 * n" "j \<le> n"
  shows "symbol_scan b a (length b) (24 * j) = Some (map_option snd
    (find (\<lambda>(v, _). v = a) (map (\<lambda>j. (field64 b (24 * j + 8), field16 b (24 * j + 6))) [j..<n])))"
  using assms(2)
proof (induction j rule: inc_induct)
  case base
  then show ?case using assms(1) by (subst symbol_scan.simps) simp
next
  case (step j)
  then have "24 * j + 16 \<le> length b" "24 * j < length b" using assms(1) by auto
  moreover have "[j..<n] = j # [Suc j..<n]" using step.hyps by (simp add: upt_conv_Cons)
  ultimately show ?case using step.IH by (subst symbol_scan.simps) (simp add: add.commute)
qed

lemma symbol_scan_symbols:
  assumes "24 dvd length b"
  shows "symbol_scan b a (length b) 0 = Some (map_option snd (find (\<lambda>(v, _). v = a) (symbols b)))"
  using symbol_scan_find [of b "length b div 24" 0 a] assms by (simp add: symbols_def)

subsection \<open>Merging\<close>

lemma merge_at_simps [simp]:
  "has_shstrndx (merge_at S elf) = has_shstrndx elf" "length (scns (merge_at S elf)) = length (scns elf)"
  by (simp_all add: merge_at_def)

lemma merge_at_scn [simp]:
  assumes "k < length (scns elf)"
  shows "sh_addr (scns (merge_at S elf) ! k) = sh_addr (scns elf ! k)"
    "sh_size (scns (merge_at S elf) ! k) = sh_size (scns elf ! k)"
    "scn_name (scns (merge_at S elf) ! k) = scn_name (scns elf ! k)"
    "d_buf (scns (merge_at S elf) ! k) =
       map_option (\<lambda>b. map (\<lambda>i. if (k, i) \<in> S then 0x66 else b ! i) [0..<length b]) (d_buf (scns elf ! k))"
  using assms by (simp_all add: merge_at_def)

lemma merge_at_empty: "merge_at {} elf = elf"
proof -
  have "map (\<lambda>k. scns elf ! k) [0..<length (scns elf)] = scns elf" by (rule map_nth)
  moreover have "map_option (\<lambda>b. map ((!) b) [0..<length b]) d = d" for d :: "bytes option"
    by (cases d) (simp_all add: map_nth)
  ultimately show ?thesis by (simp add: merge_at_def)
qed

lemma merge_at_twice: "merge_at S (merge_at T elf) = merge_at (S \<union> T) elf"
proof -
  have "map_option (\<lambda>b. map (\<lambda>i. if (k, i) \<in> S then 0x66 else b ! i) [0..<length b])
      (map_option (\<lambda>b. map (\<lambda>i. if (k, i) \<in> T then 0x66 else b ! i) [0..<length b]) d) =
    map_option (\<lambda>b. map (\<lambda>i. if (k, i) \<in> S \<union> T then 0x66 else b ! i) [0..<length b]) d" for k and d :: "bytes option"
    by (cases d) auto
  then show ?thesis by (simp add: merge_at_def cong: map_cong)
qed

lemma merge_at_other: "k < length (scns elf) \<Longrightarrow> k \<notin> fst ` S \<Longrightarrow> scns (merge_at S elf) ! k = scns elf ! k"
proof -
  assume k: "k < length (scns elf)" "k \<notin> fst ` S"
  then have "(k, i) \<notin> S" for i by force
  then have "map_option (\<lambda>b. map (\<lambda>i. if (k, i) \<in> S then 0x66 else b ! i) [0..<length b]) d = d" for d :: "bytes option"
    by (cases d) (simp_all add: map_nth)
  then show ?thesis using k(1) by (simp add: merge_at_def)
qed

lemma nextscn_named_cong: "map scn_name ss = map scn_name ss' \<Longrightarrow> nextscn_named n i ss = nextscn_named n i ss'"
proof (induction ss arbitrary: i ss')
  case (Cons s ss)
  then show ?case by (cases ss') auto
qed simp

lemma merge_at_names: "map scn_name (scns (merge_at S elf)) = map scn_name (scns elf)"
  by (rule nth_equalityI) simp_all

lemma merge_at_find [simp]: "find_section_by_name (merge_at S elf) n = find_section_by_name elf n"
proof -
  have "map scn_name (drop 1 (scns (merge_at S elf))) = map scn_name (drop 1 (scns elf))"
    using merge_at_names [of S elf] by (simp flip: drop_map)
  then show ?thesis by (simp add: find_section_by_name_def cong: nextscn_named_cong)
qed

lemma merge_at_symbol_section [simp]: "symbol_section (merge_at S elf) = symbol_section elf"
  unfolding symbol_section_def merge_at_find ..

text \<open>One more place, as the code stores it.\<close>

lemma merge_at_insert:
  assumes "k < length (scns elf)" "d_buf (scns (merge_at S elf) ! k) = Some b" "i < length b"
  shows "(merge_at S elf)\<lparr>scns := (scns (merge_at S elf))[k := (scns (merge_at S elf) ! k)\<lparr>d_buf := Some (b[i := 0x66])\<rparr>]\<rparr>
    = merge_at (insert (k, i) S) elf"
proof -
  have "(scns (merge_at S elf))[k := (scns (merge_at S elf) ! k)\<lparr>d_buf := Some (b[i := 0x66])\<rparr>] = scns (merge_at (insert (k, i) S) elf)"
  proof (rule nth_equalityI)
    fix j assume "j < length ((scns (merge_at S elf))[k := (scns (merge_at S elf) ! k)\<lparr>d_buf := Some (b[i := 0x66])\<rparr>])"
    then have j: "j < length (scns elf)" by simp
    show "(scns (merge_at S elf))[k := (scns (merge_at S elf) ! k)\<lparr>d_buf := Some (b[i := 0x66])\<rparr>] ! j = scns (merge_at (insert (k, i) S) elf) ! j"
    proof (cases "j = k")
      case True
      obtain b0 where b0: "d_buf (scns elf ! k) = Some b0"
        "b = map (\<lambda>i. if (k, i) \<in> S then 0x66 else b0 ! i) [0..<length b0]" using assms(1,2) by auto
      have "b[i := 0x66] = map (\<lambda>j. if (k, j) \<in> insert (k, i) S then 0x66 else b0 ! j) [0..<length b0]"
        using assms(3) b0(2) by (auto intro!: nth_equalityI simp: nth_list_update)
      then show ?thesis using True assms(1) b0(1) by (simp add: merge_at_def)
    next
      case False
      have "map_option (\<lambda>b. map (\<lambda>n. if (j, n) \<in> insert (k, i) S then 0x66 else b ! n) [0..<length b]) =
          map_option (\<lambda>b. map (\<lambda>n. if (j, n) \<in> S then (0x66 :: u8) else b ! n) [0..<length b])"
        using False by auto
      then show ?thesis using False j by (simp add: merge_at_def)
    qed
  qed simp
  then show ?thesis by (simp add: merge_at_def)
qed

lemma take4: "off + 4 \<le> length b \<Longrightarrow> take 4 (drop off b) = [b ! off, b ! (off + 1), b ! (off + 2), b ! (off + 3)]"
  by (rule nth_equalityI) (auto simp: less_Suc_eq numeral_eq_Suc)

lemma take2: "off + 2 \<le> length b \<Longrightarrow> take 2 (drop off b) = [b ! off, b ! (off + 1)]"
  by (rule nth_equalityI) (auto simp: less_Suc_eq numeral_eq_Suc)

lemma nop_offset_merge:
  assumes "\<forall>i < length b. (k, i) \<in> S \<longrightarrow> b ! i \<in> {0x90, 0x66}"
  shows "nop_offset (map (\<lambda>i. if (k, i) \<in> S then 0x66 else b ! i) [0..<length b]) off = nop_offset b off"
proof (cases "off + 4 \<le> length b")
  case True
  let ?b = "map (\<lambda>i. if (k, i) \<in> S then 0x66 else b ! i) [0..<length b]"
  have "?b ! i = x \<longleftrightarrow> b ! i = x" if "i < length b" "x \<in> set insn_endbr64" for i x
    using assms that by (auto simp: insn_endbr64_def)
  then have "take 4 (drop off ?b) = insn_endbr64 \<longleftrightarrow> take 4 (drop off b) = insn_endbr64"
    using True by (simp add: take4 insn_endbr64_def)
  then show ?thesis by (simp add: nop_offset_def)
next
  case False
  then have "length (take 4 (drop off c)) \<noteq> length insn_endbr64" if "length c = length b" for c :: bytes
    using that by simp
  then have "take 4 (drop off c) \<noteq> insn_endbr64" if "length c = length b" for c :: bytes
    using that by metis
  then show ?thesis by (simp add: nop_offset_def)
qed

lemma merge_in_section_eq:
  "merge_in_section elf k addr =
     (if k \<ge> length (scns elf) then None
      else Option.bind (d_buf (scns elf ! k)) (\<lambda>b.
        let off = unat (addr - sh_addr (scns elf ! k)); i = nop_offset b off
        in if length b < off + 4 \<or> length b < i + 2 \<or> \<not> (b ! (i + 1) = 0x90 \<and> (b ! i = 0x90 \<or> b ! i = 0x66)) then None
           else Some (elf\<lparr>scns := (scns elf)[k := (scns elf ! k)\<lparr>d_buf := Some (b[i := 0x66])\<rparr>]\<rparr>)))"
  unfolding merge_in_section_def nop_offset_def Let_def by (auto intro!: Option.bind_cong)

lemma merge_in_section_pair:
  assumes "nop_pair elf (k, i)" "i = nop_offset (scn_data elf k) (unat (addr - sh_addr (scns elf ! k)))"
    and "\<forall>s \<in> S. nop_pair elf s" "(k, i + 1) \<notin> S"
  shows "merge_in_section (merge_at S elf) k addr = Some (merge_at (insert (k, i) S) elf)"
proof -
  obtain b where k: "k < length (scns elf)" and b: "d_buf (scns elf ! k) = Some b" "scn_data elf k = b"
    and i: "i + 4 \<le> length b" "b ! i \<in> {0x90, 0x66}" "b ! (i + 1) = 0x90"
    using assms(1) by (auto simp: nop_pair_def scn_data_def)
  let ?b = "map (\<lambda>i. if (k, i) \<in> S then 0x66 else b ! i) [0..<length b]"
  let ?off = "unat (addr - sh_addr (scns elf ! k))"
  have S: "\<forall>i < length b. (k, i) \<in> S \<longrightarrow> b ! i \<in> {0x90, 0x66}"
    using assms(3) b(2) by (auto simp: nop_pair_def)
  then have off: "nop_offset ?b ?off = i" using assms(2) b(2) nop_offset_merge [OF S] by simp
  have d: "d_buf (scns (merge_at S elf) ! k) = Some ?b" using k b(1) by simp
  have "?off \<le> i" using off by (auto simp: nop_offset_def split: if_splits)
  moreover have "?b ! i \<in> {0x90, 0x66}" "?b ! (i + 1) = 0x90" using i assms(4) by auto
  ultimately have ok: "nop_offset ?b ?off = i" "\<not> length ?b < ?off + 4" "\<not> length ?b < i + 2"
    "?b ! (i + 1) = 0x90 \<and> (?b ! i = 0x90 \<or> ?b ! i = 0x66)" using i(1) off by (simp_all del: nth_map)
  have "merge_in_section (merge_at S elf) k addr =
      Some ((merge_at S elf)\<lparr>scns := (scns (merge_at S elf))[k := (scns (merge_at S elf) ! k)\<lparr>d_buf := Some (?b[i := 0x66])\<rparr>]\<rparr>)"
    using k ok unfolding merge_in_section_eq d Let_def by (simp del: merge_at_scn(4) nth_map)
  then show ?thesis using merge_at_insert [OF k d] i(1) by simp
qed

lemma merge_nops_entry:
  assumes "livepatchable_elf elf ks ke" "S \<subseteq> nop_sites elf ks ke" "a \<in> set (entries (scn_data elf ke))"
  shows "merge_nops_at_addr (merge_at S elf) (a + 14) 2 =
    Some (merge_at (S \<union> set_option (nop_site elf (scn_data elf ks) (a + 14))) elf)"
proof -
  note good = assms(1) [unfolded livepatchable_elf_def]
  obtain sb where sb: "ks < length (scns elf)" "d_buf (scns elf ! ks) = Some sb" "sh_size (scns elf ! ks) = length sb" "24 dvd length sb"
    using good by (auto simp: table_def)
  then have "scn_data elf ks = sb" by (simp add: scn_data_def)
  have "ks \<notin> fst ` S" using good assms(2) by blast
  then have same: "scns (merge_at S elf) ! ks = scns elf ! ks" using merge_at_other sb(1) by blast
  show ?thesis
  proof (cases "find (\<lambda>(v, _). v = a + 14) (symbols sb)")
    case None
    then have "merge_nops_at_addr (merge_at S elf) (a + 14) 2 = Some (merge_at S elf)"
      using good sb by (simp add: merge_nops_at_addr_def same symbol_scan_symbols)
    then show ?thesis using None \<open>scn_data elf ks = sb\<close> by (simp add: nop_site_def)
  next
    case (Some vk)
    obtain v k where vk: "vk = (v, k)" by force
    let ?i = "nop_offset (scn_data elf k) (unat (a + 14 - sh_addr (scns elf ! k)))"
    have site: "nop_site elf (scn_data elf ks) (a + 14) = Some (k, ?i)"
      using Some vk \<open>scn_data elf ks = sb\<close> by (simp add: nop_site_def)
    then have mem: "(k, ?i) \<in> nop_sites elf ks ke" using assms(3) by (auto simp: nop_sites_def)
    have "merge_in_section (merge_at S elf) k (a + 14) = Some (merge_at (insert (k, ?i) S) elf)"
    proof (rule merge_in_section_pair)
      show "nop_pair elf (k, ?i)" "\<forall>s \<in> S. nop_pair elf s" "(k, ?i + 1) \<notin> S"
        using good mem assms(2) by force+
    qed simp
    then have "merge_nops_at_addr (merge_at S elf) (a + 14) 2 = Some (merge_at (insert (k, ?i) S) elf)"
      using good sb Some vk by (simp add: merge_nops_at_addr_def same symbol_scan_symbols)
    then show ?thesis using site by simp
  qed
qed

lemma fixup_loop_merges:
  assumes "livepatchable_elf elf ks ke" "S \<subseteq> nop_sites elf ks ke" "length (scn_data elf ke) = 8 * n" "j \<le> n"
  shows "fixup_loop ke (8 * n) (8 * j) (merge_at S elf) = Some (merge_at (S \<union>
    (\<Union>a \<in> set (drop j (entries (scn_data elf ke))). set_option (nop_site elf (scn_data elf ks) (a + 14)))) elf)"
  using assms(4,2)
proof (induction j arbitrary: S rule: inc_induct)
  case base
  then show ?case using assms(3) by (subst fixup_loop.simps) (simp add: entries_def)
next
  case (step j S)
  let ?es = "entries (scn_data elf ke)"
  note good = assms(1) [unfolded livepatchable_elf_def]
  obtain eb where eb: "ke < length (scns elf)" "d_buf (scns elf ! ke) = Some eb" using good by (auto simp: table_def)
  have "ke \<notin> fst ` S" using good step.prems by blast
  then have "scns (merge_at S elf) ! ke = scns elf ! ke" using merge_at_other eb(1) by blast
  then have same: "d_buf (scns (merge_at S elf) ! ke) = Some (scn_data elf ke)" using eb(2) by (simp add: scn_data_def)
  have len: "length ?es = n" using assms(3) by (simp add: entries_def)
  then have e: "drop j ?es = ?es ! j # drop (Suc j) ?es" "?es ! j \<in> set ?es" "?es ! j = field64 (scn_data elf ke) (8 * j)"
    using step.hyps assms(3) by (simp_all add: Cons_nth_drop_Suc) (simp add: entries_def)
  let ?T = "set_option (nop_site elf (scn_data elf ks) (?es ! j + 14))"
  have sub: "S \<union> ?T \<subseteq> nop_sites elf ks ke" using step.prems e(2) by (auto simp: nop_sites_def)
  have "merge_nops_at_addr (merge_at S elf) (field64 (scn_data elf ke) (8 * j) + of_nat PRE_NOPS_LEN) (ULP_NOPS_LEN - PRE_NOPS_LEN) =
      Some (merge_at (S \<union> ?T) elf)"
    using merge_nops_entry [OF assms(1) step.prems e(2)] e(3) by (simp add: PRE_NOPS_LEN_def ULP_NOPS_LEN_def)
  then have "fixup_loop ke (8 * n) (8 * j) (merge_at S elf) = fixup_loop ke (8 * n) (8 * Suc j) (merge_at (S \<union> ?T) elf)"
    using step.hyps assms(3) by (subst fixup_loop.simps) (simp add: same add.commute)
  then show ?case using step.IH [OF sub] e(1) by (simp add: Un_assoc)
qed

lemma nops_fixup_merges:
  assumes "livepatchable_elf elf ks ke"
  shows "nops_fixup elf = Some (merge_at (nop_sites elf ks ke) elf)"
proof -
  obtain eb n where eb: "find_section_by_name elf patchable_function_entries = Some (Some ke)" "d_buf (scns elf ! ke) = Some eb"
    "sh_size (scns elf ! ke) = length eb" "length eb = 8 * n"
    using assms by (auto simp: livepatchable_elf_def table_def elim: dvdE)
  then have "length (scn_data elf ke) = 8 * n" by (simp add: scn_data_def)
  from fixup_loop_merges [OF assms _ this, of "{}" 0]
  have "fixup_loop ke (8 * n) 0 elf = Some (merge_at (\<Union>a \<in> set (entries (scn_data elf ke)).
      set_option (nop_site elf (scn_data elf ks) (a + 14))) elf)" by (simp add: merge_at_empty)
  moreover have "(\<Union>a \<in> set (entries (scn_data elf ke)). set_option (nop_site elf (scn_data elf ks) (a + 14))) = nop_sites elf ks ke"
    by (auto simp: nop_sites_def)
  ultimately show ?thesis using eb by (simp add: nops_fixup_def)
qed

subsection \<open>Properties\<close>

lemma sites_merge_at:
  assumes "livepatchable_elf elf ks ke"
  shows "nop_sites (merge_at (nop_sites elf ks ke) elf) ks ke = nop_sites elf ks ke"
proof -
  let ?S = "nop_sites elf ks ke" let ?elf = "merge_at ?S elf"
  note good = assms [unfolded livepatchable_elf_def]
  have "ks < length (scns elf)" "ke < length (scns elf)" "ks \<notin> fst ` ?S" "ke \<notin> fst ` ?S" using good by (auto simp: table_def)
  then have same: "scn_data ?elf ks = scn_data elf ks" "scn_data ?elf ke = scn_data elf ke"
    using merge_at_other by (simp_all add: scn_data_def)
  have site: "nop_site ?elf (scn_data elf ks) (a + 14) = nop_site elf (scn_data elf ks) (a + 14)"
    if "a \<in> set (entries (scn_data elf ke))" for a
  proof (cases "find (\<lambda>(v, _). v = a + 14) (symbols (scn_data elf ks))")
    case (Some vk)
    obtain v k where vk: "vk = (v, k)" by force
    have "\<exists>i. (k, i) \<in> ?S" using Some vk that by (auto simp: nop_sites_def nop_site_def)
    then obtain b where b: "k < length (scns elf)" "d_buf (scns elf ! k) = Some b" using good by (auto simp: nop_pair_def)
    have "\<forall>i < length b. (k, i) \<in> ?S \<longrightarrow> b ! i \<in> {0x90, 0x66}"
      using good b(2) by (fastforce simp: nop_pair_def scn_data_def)
    from nop_offset_merge [OF this] show ?thesis using Some vk b by (simp add: nop_site_def scn_data_def)
  qed (simp add: nop_site_def)
  have "s \<in> nop_sites ?elf ks ke \<longleftrightarrow>
      (\<exists>a \<in> set (entries (scn_data ?elf ke)). nop_site ?elf (scn_data ?elf ks) (a + 14) = Some s)" for s
    by (subst nop_sites_def) blast
  then have "s \<in> nop_sites ?elf ks ke \<longleftrightarrow> (\<exists>a \<in> set (entries (scn_data elf ke)). nop_site elf (scn_data elf ks) (a + 14) = Some s)" for s
    unfolding same by (simp add: site cong: bex_cong)
  then show ?thesis by (auto simp: nop_sites_def [of elf])
qed

lemma livepatchable_merge_at:
  assumes "livepatchable_elf elf ks ke"
  shows "livepatchable_elf (merge_at (nop_sites elf ks ke) elf) ks ke"
proof -
  let ?S = "nop_sites elf ks ke" let ?elf = "merge_at ?S elf"
  note good = assms [unfolded livepatchable_elf_def]
  have "table ?elf ks 24" "table ?elf ke 8" using good by (auto simp: table_def)
  moreover have "nop_pair ?elf s" if "s \<in> ?S" for s
  proof -
    obtain k i where s: "s = (k, i)" by force
    have "(k, i + 1) \<notin> ?S" "nop_pair elf (k, i)" using good that s by force+
    then show ?thesis using that s by (auto simp: nop_pair_def scn_data_def)
  qed
  ultimately show ?thesis using good unfolding livepatchable_elf_def sites_merge_at [OF assms] by simp
qed


text \<open>A section in the memory of a process, at the load address of its object.\<close>

definition loaded_at :: "mem \<Rightarrow> u64 \<Rightarrow> elf_scn \<Rightarrow> bool" where
  "loaded_at m base scn \<longleftrightarrow> (\<forall>b. d_buf scn = Some b \<longrightarrow> mem_read m (base + sh_addr scn) (length b) = b)"

lemma mem_read_section:
  assumes "mem_read m a (length b) = b" "i + n \<le> length b"
  shows "mem_read m (a + of_nat i) n = take n (drop i b)"
proof (rule nth_equalityI)
  fix j assume "j < length (mem_read m (a + of_nat i) n)"
  then have j: "i + j < length b" "j < n" using assms(2) by auto
  then have "mem_read m a (length b) ! (i + j) = m (a + of_nat (i + j))" by simp
  then show "mem_read m (a + of_nat i) n ! j = take n (drop i b) ! j"
    using j assms(1) by (simp add: add.assoc)
qed (use assms(2) in simp)



lemma check_preamble_eq:
  assumes "vm_atomic k"
  shows "check_preamble k a m =
    Some (\<not> vm_readv k a 2 0 < 0 \<and> patchable m a \<and> mem_read m a 4 \<noteq> insn_endbr64 \<and> m a \<noteq> 0xEB)"
proof -
  have "mem_read m a 4 = insn_endbr64 \<Longrightarrow> m a = 0xf3" by (simp add: mem_read_4 insn_endbr64_def)
  then have "patchable m a \<and> mem_read m a 4 \<noteq> insn_endbr64 \<and> m a \<noteq> 0xEB \<longleftrightarrow> (m a = 0x90 \<or> m a = 0x66) \<and> m (a + 1) = 0x90"
    by (auto simp: patchable_def entry_def)
  moreover have "mem_read m a 2 ! 0 = m a" "mem_read m a 2 ! 1 = m (a + 1)" by simp_all
  ultimately show ?thesis
    using read_memory_atomic [OF assms, of "[0, 0]" 2 a m] by (auto simp: check_preamble_def)
qed

text \<open>
  The report on livepatchable functions knows less than the library: \<open>check_preamble\<close> answers yes exactly for
  an entry that libpulp accepts, has no \<open>endbr64\<close> in front and is not redirected at the moment. A patched function, and
  every function compiled with control flow protection, is reported as not livepatchable. When the bytes cannot be
  read the answer is no.
\<close>

theorem check_preamble_misses:
  assumes "vm_atomic k"
  shows "check_preamble k a m =
    Some (\<not> vm_readv k a 2 0 < 0 \<and> patchable m a \<and> mem_read m a 4 \<noteq> insn_endbr64 \<and> m a \<noteq> 0xEB)"
  using assms by (rule check_preamble_eq)

subsection \<open>Runs\<close>

definition demo_text :: bytes where
  "demo_text = replicate 14 0x90 @ insn_endbr64 @ [0x90, 0x90, 0xc3, 0xcc]"

definition demo_elf :: elf_file where
  "demo_elf = \<lparr>has_shstrndx = True, scns =
     [\<lparr>scn_name = [], sh_addr = 0, sh_size = 0, d_buf = None\<rparr>,
      \<lparr>scn_name = str ''.text'', sh_addr = 0x1000, sh_size = 22, d_buf = Some demo_text\<rparr>,
      \<lparr>scn_name = str ''.symtab'', sh_addr = 0, sh_size = 24,
        d_buf = Some ([1, 0, 0, 0, 0x12, 0, 1, 0] @ u64_bytes 0x100e @ u64_bytes 8)\<rparr>,
      \<lparr>scn_name = str ''__patchable_function_entries'', sh_addr = 0x3000, sh_size = 8, d_buf = Some (u64_bytes 0x1000)\<rparr>]\<rparr>"

lemma demo_elf_data:
  "scn_data demo_elf 1 = demo_text" "entries (scn_data demo_elf 3) = [0x1000]" "symbols (scn_data demo_elf 2) = [(0x100e, 1)]"
  by (simp_all add: demo_elf_def scn_data_def entries_def symbols_def field64_def field16_def numeral_2_eq_2)

lemma demo_elf_site: "nop_site demo_elf (scn_data demo_elf 2) 0x100e = Some (1, 18)"
proof -
  have "sh_addr (scns demo_elf ! 1) = 0x1000" by (simp add: demo_elf_def)
  moreover have "nop_offset demo_text 14 = 18"
    by (simp add: nop_offset_def demo_text_def)
  ultimately show ?thesis
    using demo_elf_data by (simp add: nop_site_def)
qed

lemma demo_elf_sites: "nop_sites demo_elf 2 3 = {(1, 18)}"
  using demo_elf_data demo_elf_site by (simp add: nop_sites_def)

lemma demo_elf_livepatchable: "livepatchable_elf demo_elf 2 3"
proof -
  have "symbol_section demo_elf = Some (Some 2)" "find_section_by_name demo_elf patchable_function_entries = Some (Some 3)"
    by (simp_all add: symbol_section_def find_section_by_name_def patchable_function_entries_def demo_elf_def str_def)
  moreover have "table demo_elf 2 24" "table demo_elf 3 8" by (simp_all add: table_def demo_elf_def)
  moreover have "nop_pair demo_elf (1, 18)"
    using demo_elf_data(1) by (simp add: nop_pair_def) (simp add: demo_text_def demo_elf_def numeral_eq_Suc insn_endbr64_def)
  ultimately show ?thesis by (simp add: livepatchable_elf_def demo_elf_sites)
qed



theorem check_preamble_misses_witness:
  "check_preamble \<lparr>peek_ok = \<lambda>_. True, vm_readv = \<lambda>_ n _. int n, vm_writev = \<lambda>_ n _. int n\<rparr> 0x1000
     (mem_write (\<lambda>_. 0) 0x1000 [0xf3, 0x0f, 0x1e, 0xfa, 0x66, 0x90]) = Some False \<and>
   patchable (mem_write (\<lambda>_. 0) 0x1000 [0xf3, 0x0f, 0x1e, 0xfa, 0x66, 0x90]) 0x1000"
proof -
  let ?m = "mem_write (\<lambda>_. 0) 0x1000 [0xf3, 0x0f, 0x1e, 0xfa, 0x66, 0x90]"
  have e: "mem_read ?m 0x1000 4 = insn_endbr64" "?m 0x1004 = 0x66" "?m 0x1005 = 0x90"
    by (simp_all add: mem_read_4 insn_endbr64_def)
  then have "patchable ?m 0x1000" by (simp add: patchable_def entry_def del: mem_write.simps)
  with e show ?thesis
    by (subst check_preamble_misses) (simp_all add: vm_atomic_def del: mem_write.simps)
qed

end
