(* ===== verification/Process_Image.thy ===== *)
theory Process_Image
  imports Dynobj
begin

text \<open>
  The second half of the introspection of a process (\<open>src/tools/introspection.c\<close>): the ELF headers of an object,
  the load bias, the list of libraries and \<open>initialize_data_structures\<close>.
\<close>

subsection \<open>The ELF headers of an object\<close>

text \<open>
  The file name in a line of \<open>/proc/PID/maps\<close>: the seventh token, the first ends at a dash. A line
  without one, and a path without a base name, are accesses outside a string.
\<close>

definition maps_line :: "bytes \<Rightarrow> bytes option \<times> bytes option" where
  "maps_line line =
     (let (addr1, s) = strtok 45 line; s = ((\<lambda>s. snd (strtok 32 s)) ^^ 5) s in (addr1, fst (strtok 32 s)))"

fun ehdr_in_maps :: "bytes \<Rightarrow> bytes list \<Rightarrow> u64 option" where
  "ehdr_in_maps main_name [] = Some 0"
| "ehdr_in_maps main_name (line # lines) = do {
     path \<leftarrow> snd (maps_line line);
     let bin = get_basename path;
     if bin = [] then None
     else if (if last bin = 10 then butlast bin else bin) = main_name
     then map_option (\<lambda>a. fst (strtoul16 0 a)) (fst (maps_line line))
     else ehdr_in_maps main_name lines }"

definition get_ehdr_addr :: "intro_env \<Rightarrow> bytes \<Rightarrow> loaded_obj \<Rightarrow> u64 option" where
  "get_ehdr_addr env main_name obj =
     (if l_addr (lmap obj) \<noteq> 0 then Some (l_addr (lmap obj))
      else case maps_file env of None \<Rightarrow> Some 0 | Some lines \<Rightarrow> ehdr_in_maps main_name lines)"

text \<open>What the program headers yield.\<close>

record elf_scan =
  e_dynsym :: u64
  e_dynstr :: u64
  e_hash :: u64
  e_buildid :: u64
  e_buildid_len :: u32
  pt_dynamic_ran :: bool
  pt_note_ran :: bool

definition elf_scan_start :: elf_scan where
  "elf_scan_start = \<lparr>e_dynsym = 0, e_dynstr = 0, e_hash = 0, e_buildid = 0, e_buildid_len = 0,
     pt_dynamic_ran = False, pt_note_ran = False\<rparr>"

definition dynamic_tag :: "u64 \<Rightarrow> u64 \<Rightarrow> elf_scan \<Rightarrow> elf_scan" where
  "dynamic_tag tag val s =
     (if tag = DT_SYMTAB_TAG then s\<lparr>e_dynsym := val\<rparr>
      else if tag = DT_STRTAB_TAG then s\<lparr>e_dynstr := val\<rparr>
      else if tag = DT_HASH_TAG then s\<lparr>e_hash := val\<rparr> else s)"

partial_function (option) dynamic_loop :: "kernel \<Rightarrow> mem \<Rightarrow> u64 \<Rightarrow> elf_scan \<Rightarrow> (int \<times> elf_scan) option" where
  "dynamic_loop k m a s = do {
     (r, dyn) \<leftarrow> read_memory k 16 a m (replicate 16 0);
     if r \<noteq> 0 then Some (ETARGETHOOK, s)
     else do {
       let s = dynamic_tag (field64 dyn 0) (field64 dyn 8) s;
       if e_dynsym s \<noteq> 0 \<and> e_dynstr s \<noteq> 0 \<and> e_hash s \<noteq> 0 then Some (0, s\<lparr>pt_dynamic_ran := True\<rparr>)
       else if field64 dyn 0 \<noteq> DT_NULL then dynamic_loop k m (a + 16) s
       else Some (0, s) }}"

text \<open>The alignment of the sizes in a note, as written.\<close>

definition note_align :: "u32 \<Rightarrow> u32" where
  "note_align n = n + n mod 4"

partial_function (option) note_loop :: "kernel \<Rightarrow> mem \<Rightarrow> u64 \<Rightarrow> u64 \<Rightarrow> elf_scan \<Rightarrow> (int \<times> elf_scan) option" where
  "note_loop k m note_addr note_addr_end s =
     (if pt_note_ran s then Some (0, s)
      else do {
        (r, note) \<leftarrow> read_memory k 12 note_addr m (replicate 12 0);
        if r \<noteq> 0 then Some (ETARGETHOOK, s)
        else do {
          let name_len = note_align (field32 note 0);
          let s = s\<lparr>e_buildid_len := note_align (field32 note 4)\<rparr>;
          if field32 note 8 = NT_GNU_BUILD_ID
          then Some (0, s\<lparr>e_buildid := note_addr + 12 + ucast name_len, pt_note_ran := True\<rparr>)
          else do {
            let note_addr = note_addr + ucast (e_buildid_len s + name_len + 12);
            if note_addr < note_addr_end then note_loop k m note_addr note_addr_end s else Some (0, s) }}})"

fun phdr_loop :: "kernel \<Rightarrow> mem \<Rightarrow> u64 \<Rightarrow> nat \<Rightarrow> u64 \<Rightarrow> elf_scan \<Rightarrow> (int \<times> elf_scan) option" where
  "phdr_loop k m base 0 a s = Some (0, s)"
| "phdr_loop k m base (Suc n) a s = do {
     (r, phdr) \<leftarrow> read_memory k 56 a m (replicate 56 0);
     if r \<noteq> 0 then Some (ETARGETHOOK, s)
     else do {
       let vaddr = base + field64 phdr 16;
       (r, s) \<leftarrow> (if field32 phdr 0 = PHDR_DYNAMIC \<and> \<not> pt_dynamic_ran s then dynamic_loop k m vaddr s
          else if field32 phdr 0 = PHDR_NOTE
          then note_loop k m vaddr (vaddr + ucast (ucast (field64 phdr 40) :: u32)) s
          else Some (0, s));
       if r \<noteq> 0 then Some (r, s)
       else if pt_dynamic_ran s \<and> pt_note_ran s then Some (0, s)
       else phdr_loop k m base n (a + 56) s }}"

text \<open>The build id is stored even when its read fails half way, and whatever the hash table says.\<close>

definition store_build_id :: "kernel \<Rightarrow> mem \<Rightarrow> elf_scan \<Rightarrow> loaded_obj \<Rightarrow> loaded_obj option" where
  "store_build_id k m s obj =
     (if e_buildid s \<noteq> 0 \<and> e_buildid_len s = 20
      then map_option (\<lambda>(_, bs). obj\<lparr>dyn_build_id := bs\<rparr>) (read_memory k 20 (e_buildid s) m (dyn_build_id obj))
      else Some obj)"

definition parse_dynobj_elf_headers :: "intro_env \<Rightarrow> mem \<Rightarrow> bytes \<Rightarrow> loaded_obj \<Rightarrow> (int \<times> loaded_obj) option" where
  "parse_dynobj_elf_headers env m main_name obj =
     (if l_name (lmap obj) = 0 then Some (ENOLINKMAP, obj)
      else do {
        let k = memory_access env;
        ehdr_addr \<leftarrow> get_ehdr_addr env main_name obj;
        (r, ehdr) \<leftarrow> read_memory k 64 ehdr_addr m (replicate 64 0);
        if r \<noteq> 0 then Some (ETARGETHOOK, obj)
        else if field16 ehdr 54 \<noteq> 56 then Some (ENOPHDR, obj)
        else do {
          (r, s) \<leftarrow> phdr_loop k m (l_addr (lmap obj)) (field16 ehdr 56) (ehdr_addr + field64 ehdr 32) elf_scan_start;
          if r \<noteq> 0 then Some (r, obj)
          else do {
            obj \<leftarrow> store_build_id k m s obj;
            (r, n) \<leftarrow> (if e_hash s \<noteq> 0 then read_memory k 4 (e_hash s + 4) m (replicate 4 0) else Some (0, replicate 4 0));
            if r \<noteq> 0 then Some (ETARGETHOOK, obj)
            else Some (0, obj\<lparr>dynstr_addr := e_dynstr s, dynsym_addr := e_dynsym s, num_symbols := u32_int n\<rparr>) }}})"

subsection \<open>The main executable\<close>

record auxv_values =
  at_entry :: u64
  at_phdr :: u64
  at_phnum :: int
  at_phent :: int

definition auxv_step :: "u64 \<times> u64 \<Rightarrow> auxv_values \<Rightarrow> auxv_values" where
  "auxv_step = (\<lambda>(a_type, a_val) v.
     if a_type = 9 then v\<lparr>at_entry := a_val\<rparr>
     else if a_type = 3 then v\<lparr>at_phdr := a_val\<rparr>
     else if a_type = 5 then v\<lparr>at_phnum := sint (ucast a_val :: u32)\<rparr>
     else if a_type = 4 then v\<lparr>at_phent := sint (ucast a_val :: u32)\<rparr> else v)"

text \<open>\<open>None\<close> when the file ends before an entry of type \<open>AT_NULL\<close>.\<close>

fun read_auxv :: "(u64 \<times> u64) list \<Rightarrow> auxv_values \<Rightarrow> auxv_values option" where
  "read_auxv [] v = None"
| "read_auxv (at # ats) v = (if fst at = 0 then Some (auxv_step at v) else read_auxv ats (auxv_step at v))"

fun bias_phdrs :: "kernel \<Rightarrow> mem \<Rightarrow> nat \<Rightarrow> u64 \<Rightarrow> u64 \<Rightarrow> u64 \<Rightarrow> (int \<times> u64 \<times> u64) option" where
  "bias_phdrs k m 0 a pt_phdr adyn = Some (0, pt_phdr, adyn)"
| "bias_phdrs k m (Suc n) a pt_phdr adyn = do {
     (r, phdr) \<leftarrow> read_memory k 56 a m (replicate 56 0);
     if r \<noteq> 0 then Some (ETARGETHOOK, pt_phdr, adyn)
     else bias_phdrs k m n (a + 56)
       (if field32 phdr 0 = PHDR_PHDR then field64 phdr 16 else pt_phdr)
       (if field32 phdr 0 = PHDR_DYNAMIC then field64 phdr 16 else adyn) }"

definition dig_load_bias :: "intro_env \<Rightarrow> mem \<Rightarrow> image \<Rightarrow> (int \<times> image) option" where
  "dig_load_bias env m p =
     (case read_auxv (auxv env) \<lparr>at_entry = 0, at_phdr = 0, at_phnum = 0, at_phent = 0\<rparr> of
        None \<Rightarrow> Some (auxv_errno env, p)
      | Some v \<Rightarrow>
          if at_entry v = 0 then Some (ENOPENTRY, p)
          else if at_phdr v = 0 \<or> at_phent v \<noteq> 56 then Some (ENOPHDR, p)
          else do {
            (r, pt_phdr, adyn) \<leftarrow> bias_phdrs (memory_access env) m (nat (at_phnum v)) (at_phdr v) 0 0;
            if r \<noteq> 0 then Some (r, p)
            else if pt_phdr \<noteq> 0
            then Some (0, p\<lparr>load_bias := at_phdr v - pt_phdr, dyn_addr := adyn + (at_phdr v - pt_phdr)\<rparr>)
            else Some (0, p\<lparr>load_bias := 0, dyn_addr := adyn\<rparr>) })"

definition parse_main_dynobj :: "intro_env \<Rightarrow> mem \<Rightarrow> image \<Rightarrow> (int \<times> image) option" where
  "parse_main_dynobj env m p =
     (case binary_name env of
        None \<Rightarrow> Some (EINVAL, p)
      | Some nm \<Rightarrow>
          if \<not> calloc_ok env then Some (ENOMEM, p)
          else do {
            let obj = fresh_obj nm;
            (r, p) \<leftarrow> dig_load_bias env m (p\<lparr>dynobj_main := Some obj\<rparr>);
            if r \<noteq> 0 then Some (r, p)
            else do {
              (r, obj) \<leftarrow> dig_main_link_map (memory_access env) m (dyn_addr p) obj;
              if r \<noteq> 0 then Some (r, p\<lparr>dynobj_main := Some obj\<rparr>)
              else do {
                (_, obj) \<leftarrow> parse_dynobj_elf_headers env m nm obj;
                Some (0, p\<lparr>dynobj_main := Some obj\<rparr>) }}})"

subsection \<open>The libraries\<close>

text \<open>The address of the next link map, or \<open>None\<close> after a failure.\<close>

definition get_libname_dynobj :: "kernel \<Rightarrow> mem \<Rightarrow> u64 \<Rightarrow> image \<Rightarrow> (u64 option \<times> image) option" where
  "get_libname_dynobj k m a p = do {
     (r, bs) \<leftarrow> read_memory k 40 a m (replicate 40 0);
     if r \<noteq> 0 then Some (None, p)
     else do {
       (r, buf, _) \<leftarrow> read_string k (l_name (link_map_of bs)) m;
       if r \<noteq> 0 then Some (None, p)
       else Some (Some (l_next (link_map_of bs)),
         p\<lparr>dynobj_targets := (fresh_obj (cstr buf))\<lparr>lmap := link_map_of bs\<rparr> # dynobj_targets p,
           libpulp_at := (if strstr (cstr buf) (str ''libpulp.so'') then Some 0 else map_option Suc (libpulp_at p))\<rparr>) }}"

partial_function (option) link_map_loop :: "kernel \<Rightarrow> mem \<Rightarrow> u64 \<Rightarrow> image \<Rightarrow> image option" where
  "link_map_loop k m a p =
     (if a = 0 then Some p
      else do {
        (nxt, p) \<leftarrow> get_libname_dynobj k m a p;
        case nxt of None \<Rightarrow> Some p | Some b \<Rightarrow> link_map_loop k m b p })"

definition is_vdso :: "bytes \<Rightarrow> bool" where
  "is_vdso nm \<longleftrightarrow> nm = str ''linux-vdso.so.1'' \<or> nm = str ''linux-vdso64.so.1''"

definition has_entry_points :: "libpulp_exports \<Rightarrow> bool" where
  "has_entry_points ex \<longleftrightarrow> trigger ex \<noteq> 0 \<and> check ex \<noteq> 0 \<and> state_addr ex \<noteq> 0 \<and> global ex \<noteq> 0 \<and>
     revert_all ex \<noteq> 0 \<and> metadata_buffer_addr ex \<noteq> 0"

definition parse_lib_dynobj :: "intro_env \<Rightarrow> mem \<Rightarrow> nat \<Rightarrow> image \<Rightarrow> (int \<times> image) option" where
  "parse_lib_dynobj env m i p =
     (case dynobj_main p of
        None \<Rightarrow> Some (EUNKNOWN, p)
      | Some main \<Rightarrow>
          let obj = dynobj_targets p ! i
          in if num_symbols obj > 0 \<and> dynstr_addr obj \<noteq> 0 \<and> dynsym_addr obj \<noteq> 0 then Some (0, p)
             else do {
               (_, obj) \<leftarrow> (if is_vdso (filename obj) then Some (0, obj)
                  else parse_dynobj_elf_headers env m (filename main) obj);
               if strstr (filename obj) (str ''libpulp.so'') then do {
                 (_, obj) \<leftarrow> get_libpulp_extern_symbols env m obj;
                 Some (0, p\<lparr>dynobj_targets := (dynobj_targets p)[i := obj],
                   libpulp_at := (if has_entry_points (exports obj) then Some i else libpulp_at p)\<rparr>) }
               else Some (0, p\<lparr>dynobj_targets := (dynobj_targets p)[i := obj]\<rparr>) })"

fun parse_targets :: "intro_env \<Rightarrow> mem \<Rightarrow> nat list \<Rightarrow> image \<Rightarrow> image option" where
  "parse_targets env m [] p = Some p"
| "parse_targets env m (i # is) p =
     (if libpulp_at p = Some i then parse_targets env m is p
      else do {
        (r, p) \<leftarrow> parse_lib_dynobj env m i p;
        if r \<noteq> 0 then Some p else parse_targets env m is p })"

definition parse_libs_dynobj :: "intro_env \<Rightarrow> mem \<Rightarrow> image \<Rightarrow> (int \<times> image) option" where
  "parse_libs_dynobj env m p = do {
     main \<leftarrow> dynobj_main p;
     p \<leftarrow> link_map_loop (memory_access env) m (l_next (lmap main)) p;
     case libpulp_at p of
       None \<Rightarrow> Some (ENOLIBPULP, p)
     | Some i \<Rightarrow> do {
         (r, p) \<leftarrow> parse_lib_dynobj env m i p;
         if r \<noteq> 0 then Some (ENOLIBPULP, p)
         else do {
           p \<leftarrow> parse_targets env m [0..<length (dynobj_targets p)] p;
           Some (0, p) }}}"

subsection \<open>The whole process\<close>

text \<open>Libpulp is ready once its constructor has set \<open>load_state\<close>, the first field of \<open>__ulp_state\<close>.\<close>

definition libpulp_ready :: "intro_env \<Rightarrow> mem \<Rightarrow> image \<Rightarrow> int option" where
  "libpulp_ready env m p = do {
     i \<leftarrow> libpulp_at p;
     (r, st) \<leftarrow> read_memory (memory_access env) 16 (state_addr (exports (dynobj_targets p ! i))) m (replicate 16 0);
     Some (if r \<noteq> 0 \<or> field32 st 0 = 0 then EAGAIN else 0) }"

definition inspect_process :: "intro_env \<Rightarrow> mem \<Rightarrow> image \<Rightarrow> (int \<times> image) option" where
  "inspect_process env m p = do {
     (ret, p) \<leftarrow> parse_main_dynobj env m p;
     if ret \<noteq> 0 then Some (ret, p)
     else do {
       (ret, p) \<leftarrow> parse_libs_dynobj env m p;
       if ret \<noteq> 0 then Some (ret, p)
       else do {
         ret \<leftarrow> libpulp_ready env m p;
         Some (ret, p) }}}"

definition initialize_data_structures ::
  "os \<Rightarrow> intro_env \<Rightarrow> int \<Rightarrow> image \<Rightarrow> world \<Rightarrow> (int \<times> image \<times> world) option" where
  "initialize_data_structures os env t p w = do {
     (r, w) \<leftarrow> attach os t w;
     (ret, p) \<leftarrow> (if r \<noteq> 0 then Some (ETARGETHOOK, p) else inspect_process env (tmem w) p);
     (_, w) \<leftarrow> detach os t w;
     Some (ret, p, w) }"

subsection \<open>A chain of link maps in memory\<close>

definition link_map_entry :: "u64 \<Rightarrow> u64 \<Rightarrow> u64 \<Rightarrow> u64 \<Rightarrow> u64 \<Rightarrow> bytes" where
  "link_map_entry base np ld nxt prv = u64_bytes base @ u64_bytes np @ u64_bytes ld @ u64_bytes nxt @ u64_bytes prv"

lemma link_map_entry_fields [simp]:
  "length (link_map_entry base np ld nxt prv) = 40"
  "link_map_of (link_map_entry base np ld nxt prv) = \<lparr>l_addr = base, l_name = np, l_next = nxt\<rparr>"
  by (simp_all add: link_map_entry_def link_map_of_def field64_def)

text \<open>The load addresses and names of the objects, in the order the loader links them.\<close>

fun stored_chain :: "kernel \<Rightarrow> mem \<Rightarrow> u64 \<Rightarrow> (u64 \<times> bytes) list \<Rightarrow> bool" where
  "stored_chain k m a [] \<longleftrightarrow> a = 0"
| "stored_chain k m a ((base, nm) # libs) \<longleftrightarrow> a \<noteq> 0 \<and>
     (\<exists>np ld nxt prv. stored_at k m a (link_map_entry base np ld nxt prv) \<and> string_at k m np nm \<and> stored_chain k m nxt libs)"

definition obj_ident :: "loaded_obj \<Rightarrow> u64 \<times> bytes" where
  "obj_ident obj = (l_addr (lmap obj), filename obj)"

definition is_libpulp :: "bytes \<Rightarrow> bool" where
  "is_libpulp nm \<longleftrightarrow> strstr nm (str ''libpulp.so'')"

text \<open>\<open>dynobj_libpulp\<close> is NULL, or an object of the list with libpulp's name.\<close>

definition libpulp_valid :: "image \<Rightarrow> bool" where
  "libpulp_valid p \<longleftrightarrow> (case libpulp_at p of
      None \<Rightarrow> \<not> (\<exists>obj \<in> set (dynobj_targets p). is_libpulp (filename obj))
    | Some i \<Rightarrow> i < length (dynobj_targets p) \<and> is_libpulp (filename (dynobj_targets p ! i)))"

lemma link_map_loop_chain:
  assumes "vm_atomic k" and "stored_chain k m a libs" and "libpulp_valid p"
  shows "\<exists>p'. link_map_loop k m a p = Some p' \<and> dynobj_main p' = dynobj_main p \<and> libpulp_valid p' \<and>
    map obj_ident (dynobj_targets p') = rev libs @ map obj_ident (dynobj_targets p)"
  using assms(2,3)
proof (induction libs arbitrary: a p)
  case Nil
  then show ?case by (subst link_map_loop.simps) simp
next
  case (Cons lib libs)
  obtain base nm where lib: "lib = (base, nm)" by fastforce
  with Cons.prems(1) obtain np ld nxt prv where e: "a \<noteq> 0" "stored_at k m a (link_map_entry base np ld nxt prv)"
    and nm: "string_at k m np nm" and rest: "stored_chain k m nxt libs" by auto
  have rd: "read_memory k 40 a m (replicate 40 0) = Some (0, link_map_entry base np ld nxt prv)"
    by (rule read_stored [OF assms(1) e(2)]) simp_all
  obtain buf cap where str: "read_string k np m = Some (0, buf, cap)" "cstr buf = nm"
    using read_string_at [OF assms(1) nm] by blast
  let ?obj = "(fresh_obj nm)\<lparr>lmap := \<lparr>l_addr = base, l_name = np, l_next = nxt\<rparr>\<rparr>"
  let ?p = "p\<lparr>dynobj_targets := ?obj # dynobj_targets p,
      libpulp_at := (if strstr nm (str ''libpulp.so'') then Some 0 else map_option Suc (libpulp_at p))\<rparr>"
  have get: "get_libname_dynobj k m a p = Some (Some nxt, ?p)"
    by (simp add: get_libname_dynobj_def rd str)
  have f: "filename ?obj = nm" "obj_ident ?obj = lib" by (simp_all add: fresh_obj_def obj_ident_def lib)
  have "libpulp_valid ?p" using Cons.prems(2) f(1)
    by (auto simp: libpulp_valid_def is_libpulp_def split: option.splits)
  from Cons.IH [OF rest this] obtain p' where "link_map_loop k m nxt ?p = Some p'" "dynobj_main p' = dynobj_main p"
    "libpulp_valid p'" "map obj_ident (dynobj_targets p') = rev libs @ lib # map obj_ident (dynobj_targets p)"
    by (auto simp: f(2))
  then show ?case using e(1) get by (subst link_map_loop.simps) simp
qed

subsection \<open>Parsing keeps the list\<close>

lemma parse_dynobj_elf_headers_ident:
  assumes "parse_dynobj_elf_headers env m nm obj = Some (r, obj')"
  shows "lmap obj' = lmap obj \<and> filename obj' = filename obj"
  using assms
  by (auto simp: parse_dynobj_elf_headers_def store_build_id_def Let_def split: Option.bind_splits if_splits)

lemma extern_symbols_ident:
  assumes "get_libpulp_extern_symbols env m obj = Some (r, obj')"
  shows "lmap obj' = lmap obj \<and> filename obj' = filename obj"
  using assms by (auto simp: get_libpulp_extern_symbols_def split: Option.bind_splits if_splits)

lemma targets_update:
  assumes "lmap obj = lmap (os ! i)" "filename obj = filename (os ! i)"
  shows "map obj_ident (os[i := obj]) = map obj_ident os" "map filename (os[i := obj]) = map filename os"
proof -
  have "obj_ident obj = obj_ident (os ! i)" using assms by (simp add: obj_ident_def)
  then show "map obj_ident (os[i := obj]) = map obj_ident os" "map filename (os[i := obj]) = map filename os"
    using assms(2) by (metis list_update_id map_update)+
qed

lemma libpulp_valid_names:
  assumes "map filename (dynobj_targets p) = map filename (dynobj_targets q)" and "libpulp_at p = libpulp_at q"
  shows "libpulp_valid p \<longleftrightarrow> libpulp_valid q"
proof -
  have len: "length (dynobj_targets p) = length (dynobj_targets q)" using assms(1) by (metis length_map)
  have "filename (dynobj_targets p ! j) = filename (dynobj_targets q ! j)" if "j < length (dynobj_targets q)" for j
    using assms(1) that len by (metis nth_map)
  moreover have "filename ` set (dynobj_targets p) = filename ` set (dynobj_targets q)" using assms(1) by (metis image_set)
  then have "(\<exists>ob \<in> set (dynobj_targets p). is_libpulp (filename ob)) = (\<exists>ob \<in> set (dynobj_targets q). is_libpulp (filename ob))"
    by (metis (mono_tags, lifting) image_iff)
  ultimately show ?thesis using assms(2) len by (auto simp: libpulp_valid_def split: option.split)
qed

lemma libpulp_valid_found:
  assumes "libpulp_valid p"
  shows "(\<exists>obj \<in> set (dynobj_targets p). is_libpulp (filename obj)) \<longleftrightarrow> libpulp_at p \<noteq> None"
  using assms nth_mem by (cases "libpulp_at p") (auto simp: libpulp_valid_def)

text \<open>What the parsing of one object may change in the image: neither the names nor the load addresses.\<close>

definition same_objects :: "image \<Rightarrow> image \<Rightarrow> bool" where
  "same_objects p p' \<longleftrightarrow> map obj_ident (dynobj_targets p') = map obj_ident (dynobj_targets p) \<and>
     dynobj_main p' = dynobj_main p \<and> libpulp_valid p' \<and> (libpulp_at p \<noteq> None \<longrightarrow> libpulp_at p' \<noteq> None)"

lemma parse_lib_dynobj_keeps:
  assumes run: "parse_lib_dynobj env m i p = Some (r, p')" and val: "libpulp_valid p" and i: "i < length (dynobj_targets p)"
    and main: "dynobj_main p = Some main"
  shows "r = 0 \<and> same_objects p p'"
proof (cases "num_symbols (dynobj_targets p ! i) > 0 \<and> dynstr_addr (dynobj_targets p ! i) \<noteq> 0 \<and> dynsym_addr (dynobj_targets p ! i) \<noteq> 0")
  case True
  then show ?thesis using run val main by (simp add: parse_lib_dynobj_def same_objects_def)
next
  case False
  let ?os = "dynobj_targets p"
  obtain r1 obj where o1: "(if is_vdso (filename (?os ! i)) then Some (0, ?os ! i)
      else parse_dynobj_elf_headers env m (filename main) (?os ! i)) = Some (r1, obj)"
    using run main False by (auto simp: parse_lib_dynobj_def Let_def split: Option.bind_splits)
  then have id: "lmap obj = lmap (?os ! i)" "filename obj = filename (?os ! i)"
    using parse_dynobj_elf_headers_ident by (auto split: if_splits)
  show ?thesis
  proof (cases "strstr (filename obj) (str ''libpulp.so'')")
    case True
    then obtain r2 obj2 where o2: "get_libpulp_extern_symbols env m obj = Some (r2, obj2)"
      using run main False o1 by (auto simp: parse_lib_dynobj_def Let_def split: Option.bind_splits)
    let ?p = "p\<lparr>dynobj_targets := ?os[i := obj2], libpulp_at := (if has_entry_points (exports obj2) then Some i else libpulp_at p)\<rparr>"
    have p': "r = 0" "p' = ?p" using run main False o1 o2 True by (simp_all add: parse_lib_dynobj_def Let_def)
    have id2: "lmap obj2 = lmap (?os ! i)" "filename obj2 = filename (?os ! i)"
      using extern_symbols_ident [OF o2] id by simp_all
    have "libpulp_valid (p\<lparr>dynobj_targets := ?os[i := obj2], libpulp_at := Some i\<rparr>)"
      using True id(2) id2(2) i by (simp add: libpulp_valid_def is_libpulp_def)
    moreover have "libpulp_valid (p\<lparr>dynobj_targets := ?os[i := obj2], libpulp_at := libpulp_at p\<rparr>)"
      using libpulp_valid_names [of _ p] targets_update(2) [OF id2] val by simp
    ultimately show ?thesis using targets_update(1) [OF id2] p' by (simp add: same_objects_def)
  next
    case no: False
    then have "r = 0" "p' = p\<lparr>dynobj_targets := ?os[i := obj]\<rparr>"
      using run main False o1 by (simp_all add: parse_lib_dynobj_def Let_def)
    then show ?thesis using targets_update [OF id] val libpulp_valid_names [of p' p] by (simp add: same_objects_def)
  qed
qed

lemma same_objects_trans: "same_objects p q \<Longrightarrow> same_objects q s \<Longrightarrow> same_objects p s"
  by (auto simp: same_objects_def)

lemma same_objects_length: "same_objects p q \<Longrightarrow> length (dynobj_targets q) = length (dynobj_targets p)"
  unfolding same_objects_def by (metis length_map)

lemma parse_targets_keeps:
  assumes "parse_targets env m is p = Some p'" and "libpulp_valid p" and "\<forall>i \<in> set is. i < length (dynobj_targets p)"
    and "dynobj_main p = Some main"
  shows "same_objects p p'"
  using assms
proof (induction "is" arbitrary: p)
  case Nil
  then show ?case by (simp add: same_objects_def)
next
  case (Cons i "is")
  show ?case
  proof (cases "libpulp_at p = Some i")
    case True
    then show ?thesis using Cons by simp
  next
    case False
    then obtain r p1 where p1: "parse_lib_dynobj env m i p = Some (r, p1)"
      and rest: "r = 0 \<Longrightarrow> parse_targets env m is p1 = Some p'"
      using Cons.prems(1) by (auto split: Option.bind_splits if_splits)
    have k: "r = 0" "same_objects p p1" using parse_lib_dynobj_keeps [OF p1 Cons.prems(2) _ Cons.prems(4)] Cons.prems(3) by auto
    have "same_objects p1 p'"
      using Cons.IH [OF rest] k Cons.prems same_objects_length [OF k(2)] by (auto simp: same_objects_def)
    with k(2) show ?thesis by (rule same_objects_trans)
  qed
qed

text \<open>
  Claim C11. The list of libraries is the loader's: for a process whose chain of link maps is in memory,
  \<open>parse_libs_dynobj\<close>, when the headers it meets let it return, has collected every object of the chain, the newest first,
  with its load address and name; it returns 0 when one of the names contains \<open>libpulp.so\<close> and then points to
  such an object, and \<open>ENOLIBPULP\<close> otherwise.
\<close>

theorem parse_libs_dynobj_chain:
  assumes "vm_atomic (memory_access env)" and "dynobj_main p = Some main" "dynobj_targets p = []" "libpulp_at p = None"
    and "stored_chain (memory_access env) m (l_next (lmap main)) libs"
    and "parse_libs_dynobj env m p = Some (r, p')"
  shows "map obj_ident (dynobj_targets p') = rev libs \<and>
    (if \<exists>lib \<in> set libs. is_libpulp (snd lib)
     then r = 0 \<and> (\<exists>i < length libs. libpulp_at p' = Some i \<and> is_libpulp (filename (dynobj_targets p' ! i)))
     else r = ENOLIBPULP)"
proof -
  have "libpulp_valid p" using assms(3,4) by (simp add: libpulp_valid_def)
  from link_map_loop_chain [OF assms(1,5) this] obtain p1 where
    p1: "link_map_loop (memory_access env) m (l_next (lmap main)) p = Some p1" "dynobj_main p1 = Some main"
      "libpulp_valid p1" "map obj_ident (dynobj_targets p1) = rev libs"
    using assms(2,3) by auto
  then have len: "length (dynobj_targets p1) = length libs" by (metis length_map length_rev)
  have "snd ` set libs = filename ` set (dynobj_targets p1)"
    using arg_cong [OF p1(4), of "\<lambda>xs. snd ` set xs"] by (simp add: image_image obj_ident_def)
  then have "(\<exists>lib \<in> set libs. is_libpulp (snd lib)) \<longleftrightarrow> (\<exists>obj \<in> set (dynobj_targets p1). is_libpulp (filename obj))"
    by (metis (mono_tags, lifting) image_iff)
  also have "\<dots> \<longleftrightarrow> libpulp_at p1 \<noteq> None" by (rule libpulp_valid_found [OF p1(3)])
  finally have names: "(\<exists>lib \<in> set libs. is_libpulp (snd lib)) \<longleftrightarrow> libpulp_at p1 \<noteq> None" .
  show ?thesis
  proof (cases "libpulp_at p1")
    case None
    then show ?thesis using assms(2,6) p1 names by (simp add: parse_libs_dynobj_def)
  next
    case (Some i)
    then have i: "i < length (dynobj_targets p1)" using p1(3) by (simp add: libpulp_valid_def)
    obtain r2 p2 where p2: "parse_lib_dynobj env m i p1 = Some (r2, p2)"
      using assms(2,6) p1(1) Some by (auto split: Option.bind_splits simp: parse_libs_dynobj_def)
    have k2: "r2 = 0" "same_objects p1 p2" using parse_lib_dynobj_keeps [OF p2 p1(3) i p1(2)] by auto
    then obtain p3 where p3: "parse_targets env m [0..<length (dynobj_targets p2)] p2 = Some p3" "r = 0" "p' = p3"
      using assms(2,6) p1(1) Some p2 by (auto split: Option.bind_splits simp: parse_libs_dynobj_def)
    have "same_objects p2 p3"
      by (rule parse_targets_keeps [OF p3(1)]) (use k2 p1(2) in \<open>auto simp: same_objects_def\<close>)
    with k2(2) have "same_objects p1 p3" by (rule same_objects_trans)
    then show ?thesis using p1(4) names Some p3(2,3) len same_objects_length [of p1 p3]
      by (auto simp: same_objects_def libpulp_valid_def)
  qed
qed


subsection \<open>Notes\<close>

text \<open>The ELF format pads the name and the contents of a note to multiples of four bytes.\<close>

definition elf_pad :: "nat \<Rightarrow> nat" where
  "elf_pad n = (n + 3) div 4 * 4"

lemma elf_pad_le: "elf_pad n \<le> n + 3"
  by (simp add: elf_pad_def)

text \<open>The sizes of name and contents, and the type.\<close>

type_synonym elf_note = "u32 \<times> u32 \<times> u32"

definition note_size :: "elf_note \<Rightarrow> nat" where
  "note_size = (\<lambda>(namesz, descsz, _). 12 + elf_pad (unat namesz) + elf_pad (unat descsz))"

fun stored_notes :: "kernel \<Rightarrow> mem \<Rightarrow> u64 \<Rightarrow> elf_note list \<Rightarrow> bool" where
  "stored_notes k m a [] \<longleftrightarrow> True"
| "stored_notes k m a (nt # nts) \<longleftrightarrow>
     (case nt of (namesz, descsz, ty) \<Rightarrow> stored_at k m a (u32_bytes namesz @ u32_bytes descsz @ u32_bytes ty)) \<and>
     stored_notes k m (a + of_nat (note_size nt)) nts"

lemma align_even: "n + n mod 4 = (n + 3) div 4 * 4 \<longleftrightarrow> even n" for n :: nat
proof -
  obtain q r where n: "n = 4 * q + r" and "r < 4" by (metis mod_less_divisor mult_div_mod_eq zero_less_numeral)
  then have "r = 0 \<or> r = 1 \<or> r = 2 \<or> r = 3" by auto
  then show ?thesis unfolding n by (elim disjE) (simp_all add: div_add1_eq mod_Suc)
qed

lemma note_align_iff:
  assumes "unat n < 2 ^ 31"
  shows "note_align n = of_nat (elf_pad (unat n)) \<longleftrightarrow> even (unat n)"
proof -
  have "unat (note_align n) = unat n + unat n mod 4"
    using assms by (simp add: note_align_def unat_word_ariths unat_mod)
  moreover have "unat (of_nat (elf_pad (unat n)) :: u32) = elf_pad (unat n)"
    using assms elf_pad_le [of "unat n"] by (simp add: unsigned_of_nat take_bit_nat_eq_self)
  ultimately have "note_align n = of_nat (elf_pad (unat n)) \<longleftrightarrow> unat n + unat n mod 4 = (unat n + 3) div 4 * 4"
    by (metis elf_pad_def word_unat_eq_iff)
  also have "\<dots> \<longleftrightarrow> even (unat n)" by (rule align_even)
  finally show ?thesis .
qed

definition plain_note :: "elf_note \<Rightarrow> bool" where
  "plain_note = (\<lambda>(namesz, descsz, ty). even (unat namesz) \<and> even (unat descsz) \<and> unat namesz < 2 ^ 28 \<and> unat descsz < 2 ^ 28)"

lemma note_step:
  assumes "plain_note (namesz, descsz, ty)"
  shows "ucast (note_align descsz + note_align namesz + 12) = (of_nat (note_size (namesz, descsz, ty)) :: u64)"
    and "note_align namesz = of_nat (elf_pad (unat namesz))" "note_align descsz = of_nat (elf_pad (unat descsz))"
proof -
  show al: "note_align namesz = of_nat (elf_pad (unat namesz))" "note_align descsz = of_nat (elf_pad (unat descsz))"
    using assms note_align_iff by (auto simp: plain_note_def)
  have "note_align descsz + note_align namesz + 12 = (of_nat (note_size (namesz, descsz, ty)) :: u32)"
    by (simp add: al note_size_def)
  moreover have "note_size (namesz, descsz, ty) < 2 ^ 32"
    using assms elf_pad_le [of "unat namesz"] elf_pad_le [of "unat descsz"] by (simp add: note_size_def plain_note_def)
  ultimately show "ucast (note_align descsz + note_align namesz + 12) = (of_nat (note_size (namesz, descsz, ty)) :: u64)"
    by (simp add: unsigned_of_nat take_bit_nat_eq_self)
qed

text \<open>
  The build id is found: in a segment of notes with even sizes, the scan stops at the first note of type
  \<open>NT_GNU_BUILD_ID\<close> and stores the address and the size of its contents. Sizes have to be even, because the code
  adds the remainder to align them; for an odd size the next note is sought at a wrong address.
\<close>

theorem note_loop_build_id:
  assumes "vm_atomic k" and "\<not> pt_note_ran s"
    and "stored_notes k m a (pre @ (namesz, descsz, NT_GNU_BUILD_ID) # post)"
    and "\<forall>nt \<in> set pre. plain_note nt \<and> snd (snd nt) \<noteq> NT_GNU_BUILD_ID" "plain_note (namesz, descsz, NT_GNU_BUILD_ID)"
    and "unat a + sum_list (map note_size pre) < unat note_end"
  shows "note_loop k m a note_end s =
    Some (0, s\<lparr>e_buildid_len := of_nat (elf_pad (unat descsz)),
      e_buildid := a + of_nat (sum_list (map note_size pre)) + 12 + of_nat (elf_pad (unat namesz)), pt_note_ran := True\<rparr>)"
  using assms(2-)
proof (induction pre arbitrary: a s)
  case Nil
  then have "stored_at k m a (u32_bytes namesz @ u32_bytes descsz @ u32_bytes 3)" by simp
  then have rd: "read_memory k 12 a m (replicate 12 0) = Some (0, u32_bytes namesz @ u32_bytes descsz @ u32_bytes 3)"
    by (rule read_stored [OF assms(1)]) simp_all
  have f: "field32 (u32_bytes namesz @ u32_bytes descsz @ u32_bytes 3) 4 = descsz"
    "field32 (u32_bytes namesz @ u32_bytes descsz @ u32_bytes 3) 8 = 3" by (simp_all add: field32_def)
  have "elf_pad (unat namesz) < 2 ^ 32" using Nil.prems(4) elf_pad_le [of "unat namesz"] by (simp add: plain_note_def)
  then have "ucast (of_nat (elf_pad (unat namesz)) :: u32) = (of_nat (elf_pad (unat namesz)) :: u64)"
    by (simp add: unsigned_of_nat take_bit_nat_eq_self)
  then show ?case using Nil.prems(1) rd f note_step(2,3) [OF Nil.prems(4)]
    by (subst note_loop.simps) (simp add: Let_def)
next
  case (Cons nt pre)
  obtain ns ds ty where nt: "nt = (ns, ds, ty)" by (cases nt)
  with Cons.prems have st: "stored_at k m a (u32_bytes ns @ u32_bytes ds @ u32_bytes ty)"
    and rest: "stored_notes k m (a + of_nat (note_size nt)) (pre @ (namesz, descsz, 3) # post)"
    and ty: "ty \<noteq> 3" and pl: "plain_note (ns, ds, ty)" by auto
  have rd: "read_memory k 12 a m (replicate 12 0) = Some (0, u32_bytes ns @ u32_bytes ds @ u32_bytes ty)"
    by (rule read_stored [OF assms(1) st]) simp_all
  have f: "field32 (u32_bytes ns @ u32_bytes ds @ u32_bytes ty) 4 = ds"
    "field32 (u32_bytes ns @ u32_bytes ds @ u32_bytes ty) 8 = ty" by (simp_all add: field32_def)
  have sum: "unat a + note_size nt + sum_list (map note_size pre) < unat note_end" using Cons.prems(5) by simp
  then have "unat a + note_size nt < 2 ^ 64" using unsigned_less [of note_end, where 'a = nat] by simp
  then have ua: "unat (a + of_nat (note_size nt)) = unat a + note_size nt"
    by (simp add: unat_word_ariths unsigned_of_nat take_bit_nat_eq_self)
  then have lt: "a + of_nat (note_size nt) < note_end" using sum by (simp add: word_less_nat_alt)
  let ?s = "s\<lparr>e_buildid_len := note_align ds\<rparr>"
  have "note_loop k m (a + of_nat (note_size nt)) note_end ?s =
    Some (0, ?s\<lparr>e_buildid_len := of_nat (elf_pad (unat descsz)),
      e_buildid := a + of_nat (note_size nt) + of_nat (sum_list (map note_size pre)) + 12 + of_nat (elf_pad (unat namesz)),
      pt_note_ran := True\<rparr>)"
    by (rule Cons.IH) (use Cons.prems rest ua sum in auto)
  then show ?case using Cons.prems(1) rd f ty lt note_step(1) [OF pl]
    by (subst note_loop.simps) (simp add: nt Let_def add.assoc)
qed

subsection \<open>Runs\<close>

text \<open>
  A process: a main program with a table of program headers, a dynamic section and the loader's chain, and one
  library, libpulp, with the symbol \<open>__ulp_state\<close>.
\<close>

definition demo_phdr :: "u32 \<Rightarrow> u64 \<Rightarrow> bytes" where
  "demo_phdr ty vaddr = u32_bytes ty @ u32_bytes 0 @ u64_bytes 0 @ u64_bytes vaddr @ u64_bytes 0 @ u64_bytes 0 @ u64_bytes 0 @ u64_bytes 0"

definition demo_ehdr :: bytes where
  "demo_ehdr = replicate 32 0 @ u64_bytes 0x40 @ replicate 14 0 @ [56, 0, 1, 0] @ replicate 6 0"

definition demo_image :: bytes where
  "demo_image =
     demo_phdr 6 0x1000 @ \<comment> \<open>0x1000: PT_PHDR\<close>
     demo_phdr 2 0x1070 @ \<comment> \<open>0x1038: PT_DYNAMIC\<close>
     u64_bytes 21 @ u64_bytes 0x1080 @ \<comment> \<open>0x1070: DT_DEBUG\<close>
     u64_bytes 1 @ u64_bytes 0x1090 @ \<comment> \<open>0x1080: r_debug\<close>
     link_map_entry 0 0 0 0x10B8 0 @ \<comment> \<open>0x1090\<close>
     link_map_entry 0x1100 0x10E0 0 0 0x1090 @ \<comment> \<open>0x10B8\<close>
     (str ''/libpulp.so.0'' @ [0]) @ replicate 18 0 @ \<comment> \<open>0x10E0\<close>
     demo_ehdr @ \<comment> \<open>0x1100: ELF header\<close>
     demo_phdr 2 0x78 @ \<comment> \<open>0x1140\<close>
     u64_bytes 6 @ u64_bytes 0x11B0 @ u64_bytes 5 @ u64_bytes 0x11C8 @ u64_bytes 4 @ u64_bytes 0x11A8 @ \<comment> \<open>0x1178\<close>
     u32_bytes 1 @ u32_bytes 1 @ \<comment> \<open>0x11A8: hash table\<close>
     symbol_entry 0 [0, 0, 0, 0] 0x200 16 @ \<comment> \<open>0x11B0\<close>
     str ''__ulp'' @ (str ''_state'' @ [0, 0]) @ replicate 299 0 @ \<comment> \<open>0x11C8\<close>
     u32_bytes 1 @ replicate 12 0 \<comment> \<open>0x1300: libpulp's state\<close>"

definition demo_intro :: intro_env where
  "demo_intro = \<lparr>memory_access = all_ok, maps_file = None, auxv = [(9, 0x1000), (3, 0x1000), (5, 2), (4, 56), (0, 0)],
     auxv_errno = 0, binary_name = Some (str ''app''), calloc_ok = True, stack_bytes = replicate 32 0\<rparr>"

definition demo_blank :: image where
  "demo_blank = \<lparr>load_bias = 0, dyn_addr = 0, dynobj_main = None, dynobj_targets = [], libpulp_at = None\<rparr>"

definition demo_image_mem :: mem where
  "demo_image_mem = mem_write (\<lambda>_. 0) 0x1000 demo_image"

lemma read_image:
  assumes "unat (b - a) + n \<le> length img" "length img \<le> 2 ^ 64" "length dst = n"
  shows "read_memory all_ok n b (mem_write m a img) dst = Some (0, take n (drop (unat (b - a)) img))"
proof -
  let ?k = "unat (b - a)"
  have "img = take ?k img @ take n (drop ?k img) @ drop (?k + n) img"
    by (metis add.commute append_take_drop_id drop_drop)
  then have "stored_at all_ok (mem_write m a img) b (take n (drop ?k img))"
    by (rule stored_in_image) (use assms in simp_all)
  then show ?thesis by (rule read_stored [OF all_ok_atomic]) (use assms in auto)
qed

lemma length_demo_image: "length demo_image = 0x310"
  by (simp add: demo_image_def demo_ehdr_def demo_phdr_def str_def link_map_entry_def symbol_entry_def)

lemmas demo_read = read_image [where a = "0x1000" and img = demo_image and m = "\<lambda>_. 0", folded demo_image_mem_def,
  unfolded length_demo_image]

lemma demo_reads:
  "read_memory all_ok 56 0x1000 demo_image_mem (replicate 56 0) = Some (0, demo_phdr 6 0x1000)"
  "read_memory all_ok 56 0x1038 demo_image_mem (replicate 56 0) = Some (0, demo_phdr 2 0x1070)"
  "read_memory all_ok 16 0x1070 demo_image_mem (replicate 16 0) = Some (0, u64_bytes 21 @ u64_bytes 0x1080)"
  "read_memory all_ok 8 0x1088 demo_image_mem (replicate 8 0) = Some (0, u64_bytes 0x1090)"
  "read_memory all_ok 40 0x1090 demo_image_mem (replicate 40 0) = Some (0, link_map_entry 0 0 0 0x10B8 0)"
  "read_memory all_ok 40 0x10B8 demo_image_mem (replicate 40 0) = Some (0, link_map_entry 0x1100 0x10E0 0 0 0x1090)"
  "read_memory all_ok 64 0x1100 demo_image_mem (replicate 64 0) = Some (0, demo_ehdr)"
  "read_memory all_ok 56 0x1140 demo_image_mem (replicate 56 0) = Some (0, demo_phdr 2 0x78)"
  "read_memory all_ok 16 0x1178 demo_image_mem (replicate 16 0) = Some (0, u64_bytes 6 @ u64_bytes 0x11B0)"
  "read_memory all_ok 16 0x1188 demo_image_mem (replicate 16 0) = Some (0, u64_bytes 5 @ u64_bytes 0x11C8)"
  "read_memory all_ok 16 0x1198 demo_image_mem (replicate 16 0) = Some (0, u64_bytes 4 @ u64_bytes 0x11A8)"
  "read_memory all_ok 4 0x11AC demo_image_mem (replicate 4 0) = Some (0, u32_bytes 1)"
  "read_memory all_ok 24 0x11B0 demo_image_mem (replicate 24 0) = Some (0, symbol_entry 0 [0, 0, 0, 0] 0x200 16)"
  "read_memory all_ok 4 0x11B0 demo_image_mem (replicate 4 0) = Some (0, u32_bytes 0)"
  "read_memory all_ok 5 0x11C8 demo_image_mem (replicate 5 0) = Some (0, str ''__ulp'')"
  "length dst = 8 \<Longrightarrow> read_memory all_ok 8 0x11CD demo_image_mem dst = Some (0, str ''_state'' @ [0, 0])"
  "read_memory all_ok 16 0x1300 demo_image_mem (replicate 16 0) = Some (0, u32_bytes 1 @ replicate 12 0)"
  by (simp_all add: demo_read demo_image_def demo_ehdr_def demo_phdr_def str_def link_map_entry_def symbol_entry_def)

lemma demo_fields:
  "field64 (u64_bytes a @ u64_bytes b) 8 = b"
  "field32 (demo_phdr ty v) 0 = ty" "field64 (demo_phdr ty v) 16 = v"
  "field16 demo_ehdr 54 = 56" "field16 demo_ehdr 56 = 1" "field64 demo_ehdr 32 = 0x40"
  "field64 (u64_bytes a) 0 = a"
  by (simp_all add: field64_def field32_def field16_def demo_phdr_def demo_ehdr_def)

lemma demo_main:
  "parse_main_dynobj demo_intro demo_image_mem demo_blank =
     Some (0, demo_blank\<lparr>dyn_addr := 0x1070,
       dynobj_main := Some ((fresh_obj (str ''app''))\<lparr>lmap := \<lparr>l_addr = 0, l_name = 0, l_next = 0x10B8\<rparr>\<rparr>)\<rparr>)"
proof -
  have "bias_phdrs all_ok demo_image_mem 2 0x1000 0 0 = Some (0, 0x1000, 0x1070)"
    unfolding numeral_2_eq_2 by (simp add: demo_reads demo_fields)
  then have "dig_load_bias demo_intro demo_image_mem p = Some (0, p\<lparr>load_bias := 0, dyn_addr := 0x1070\<rparr>)" for p
    by (simp add: dig_load_bias_def demo_intro_def auxv_step_def)
  moreover have "find_r_debug all_ok demo_image_mem 0x1070 = Some (0, 0x1080)"
    by (subst find_r_debug.simps) (simp add: demo_reads demo_fields)
  then have "dig_main_link_map all_ok demo_image_mem 0x1070 obj =
      Some (0, obj\<lparr>lmap := \<lparr>l_addr = 0, l_name = 0, l_next = 0x10B8\<rparr>\<rparr>)" for obj
    by (simp add: dig_main_link_map_def demo_reads demo_fields)
  ultimately show ?thesis
    by (simp add: parse_main_dynobj_def parse_dynobj_elf_headers_def demo_intro_def demo_blank_def)
qed

text \<open>The object of libpulp before and after its headers and symbols have been read.\<close>

definition demo_libpulp :: loaded_obj where
  "demo_libpulp = (fresh_obj (str ''/libpulp.so.0''))\<lparr>lmap := \<lparr>l_addr = 0x1100, l_name = 0x10E0, l_next = 0\<rparr>\<rparr>"

definition demo_libpulp_read :: loaded_obj where
  "demo_libpulp_read = demo_libpulp\<lparr>dynstr_addr := 0x11C8, dynsym_addr := 0x11B0, num_symbols := 1\<rparr>"

lemma demo_headers: "parse_dynobj_elf_headers demo_intro demo_image_mem nm demo_libpulp = Some (0, demo_libpulp_read)"
proof -
  have 3: "dynamic_loop all_ok demo_image_mem 0x1198 (elf_scan_start\<lparr>e_dynsym := 0x11B0, e_dynstr := 0x11C8\<rparr>) =
      Some (0, elf_scan_start\<lparr>e_dynsym := 0x11B0, e_dynstr := 0x11C8, e_hash := 0x11A8, pt_dynamic_ran := True\<rparr>)"
    by (subst dynamic_loop.simps) (simp add: demo_reads demo_fields dynamic_tag_def elf_scan_start_def)
  have 2: "dynamic_loop all_ok demo_image_mem 0x1188 (elf_scan_start\<lparr>e_dynsym := 0x11B0\<rparr>) =
      Some (0, elf_scan_start\<lparr>e_dynsym := 0x11B0, e_dynstr := 0x11C8, e_hash := 0x11A8, pt_dynamic_ran := True\<rparr>)"
    using 3 by (subst dynamic_loop.simps) (simp add: demo_reads demo_fields dynamic_tag_def elf_scan_start_def)
  have "dynamic_loop all_ok demo_image_mem 0x1178 elf_scan_start =
      Some (0, elf_scan_start\<lparr>e_dynsym := 0x11B0, e_dynstr := 0x11C8, e_hash := 0x11A8, pt_dynamic_ran := True\<rparr>)"
    using 2 by (subst dynamic_loop.simps) (simp add: demo_reads demo_fields dynamic_tag_def elf_scan_start_def)
  then have "phdr_loop all_ok demo_image_mem 0x1100 1 0x1140 elf_scan_start =
      Some (0, elf_scan_start\<lparr>e_dynsym := 0x11B0, e_dynstr := 0x11C8, e_hash := 0x11A8, pt_dynamic_ran := True\<rparr>)"
    by (simp add: demo_reads demo_fields elf_scan_start_def)
  moreover have "u32_int (u32_bytes 1) = 1" by (simp add: u32_int_def)
  ultimately show ?thesis
    by (simp add: parse_dynobj_elf_headers_def demo_libpulp_def demo_libpulp_read_def demo_intro_def get_ehdr_addr_def
        demo_reads demo_fields store_build_id_def elf_scan_start_def del: One_nat_def)
qed

lemma demo_extern:
  "get_libpulp_extern_symbols demo_intro demo_image_mem demo_libpulp_read =
     Some (0, demo_libpulp_read\<lparr>exports := (exports demo_libpulp_read)\<lparr>state_addr := 0x1300\<rparr>\<rparr>)"
proof -
  have 8: "0 \<in> set (str ''_state'' @ [0, 0])" "length (str ''_state'' @ [0, 0]) = 8" by (simp_all add: str_def)
  then have z: "hasbytezero (bytes_u64 (str ''_state'' @ [0, 0]))" by (simp add: hasbytezero_bytes)
  have len: "length (take 8 (str ''__ulp'' @ replicate 59 0)) = 8" by (simp add: str_def)
  have rs: "read_string_allocated all_ok 0x11CD demo_image_mem (str ''__ulp'' @ replicate 59 0) =
      Some (0, str ''_state'' @ [0, 0] @ drop 8 (str ''__ulp'' @ replicate 59 0))"
  proof -
    have "read_string_longs all_ok (Suc 7) 0x11CD demo_image_mem [] (str ''__ulp'' @ replicate 59 0) =
        Some (0, True, str ''_state'' @ [0, 0], drop 8 (str ''__ulp'' @ replicate 59 0), 0x11CD)"
      unfolding read_string_longs.simps(2) read_long_def demo_reads(16) [OF len]
      using z by (simp del: take_append drop_append)
    moreover have "length (str ''__ulp'' @ replicate 59 0) = 64" by (simp add: str_def)
    ultimately show ?thesis by (simp add: read_string_allocated_def)
  qed
  moreover have "cstr (str ''_state'' @ [0, 0] @ xs) = str ''_state''" for xs by (simp add: str_def cstr_def)
  ultimately have "extern_symbols_loop demo_intro demo_image_mem 0x1100 0x11C8 (Suc 0) 0x11B0 ex 0 = Some (0, ex\<lparr>state_addr := 0x1300\<rparr>)" for ex
    by (simp add: demo_intro_def demo_reads set_export_def str_def)
  then show ?thesis
    by (simp add: get_libpulp_extern_symbols_def demo_libpulp_read_def demo_libpulp_def)
qed

lemma demo_libpulp_name: "string_at all_ok demo_image_mem 0x10E0 (str ''/libpulp.so.0'')"
  unfolding demo_image_mem_def
  by (rule string_stored, rule stored_in_image [where pre = "take 0xE0 demo_image" and post = "drop 0xEE demo_image"])
    (simp_all add: length_demo_image, simp_all add: demo_image_def demo_phdr_def str_def link_map_entry_def no_nul_def)

lemma demo_libs:
  "link_map_loop all_ok demo_image_mem 0x10B8 p =
     Some (p\<lparr>dynobj_targets := demo_libpulp # dynobj_targets p, libpulp_at := Some 0\<rparr>)"
proof -
  obtain buf cap where "read_string all_ok 0x10E0 demo_image_mem = Some (0, buf, cap)" "cstr buf = str ''/libpulp.so.0''"
    by (rule read_string_at [OF all_ok_atomic demo_libpulp_name])
  moreover have "strstr (str ''/libpulp.so.0'') (str ''libpulp.so'')" by (simp add: strstr_def str_def)
  ultimately have "get_libname_dynobj all_ok demo_image_mem 0x10B8 p = Some (Some 0,
      p\<lparr>dynobj_targets := demo_libpulp # dynobj_targets p, libpulp_at := Some 0\<rparr>)"
    by (simp add: get_libname_dynobj_def demo_reads demo_libpulp_def)
  moreover have "link_map_loop k m 0 q = Some q" for k m q by (subst link_map_loop.simps) simp
  ultimately show ?thesis by (subst link_map_loop.simps) simp
qed

lemma demo_parse_libs:
  assumes "dynobj_main p = Some main" "l_next (lmap main) = 0x10B8" "dynobj_targets p = []"
  shows "parse_libs_dynobj demo_intro demo_image_mem p = Some (0,
    p\<lparr>dynobj_targets := [demo_libpulp_read\<lparr>exports := (exports demo_libpulp_read)\<lparr>state_addr := 0x1300\<rparr>\<rparr>], libpulp_at := Some 0\<rparr>)"
proof -
  have "\<not> has_entry_points ((exports demo_libpulp_read)\<lparr>state_addr := 0x1300\<rparr>)"
    by (simp add: has_entry_points_def demo_libpulp_read_def demo_libpulp_def fresh_obj_def)
  moreover have "\<not> is_vdso (filename demo_libpulp)" "strstr (filename demo_libpulp_read) (str ''libpulp.so'')" "num_symbols demo_libpulp = 0"
    by (simp_all add: is_vdso_def demo_libpulp_read_def demo_libpulp_def fresh_obj_def str_def strstr_def)
  moreover have "memory_access demo_intro = all_ok" by (simp add: demo_intro_def)
  ultimately show ?thesis using assms
    by (simp add: parse_libs_dynobj_def demo_libs parse_lib_dynobj_def demo_headers demo_extern)
qed

theorem parse_libs_dynobj_chain_witness:
  "\<exists>r p'. parse_libs_dynobj demo_intro demo_image_mem
       (demo_blank\<lparr>dynobj_main := Some ((fresh_obj (str ''app''))\<lparr>lmap := \<lparr>l_addr = 0, l_name = 0, l_next = 0x10B8\<rparr>\<rparr>)\<rparr>) = Some (r, p') \<and>
     map obj_ident (dynobj_targets p') = [(0x1100, str ''/libpulp.so.0'')] \<and> r = 0"
proof -
  let ?main = "(fresh_obj (str ''app''))\<lparr>lmap := \<lparr>l_addr = 0, l_name = 0, l_next = 0x10B8\<rparr>\<rparr>"
  let ?p = "demo_blank\<lparr>dynobj_main := Some ?main\<rparr>"
  obtain p' where run: "parse_libs_dynobj demo_intro demo_image_mem ?p = Some (0, p')"
    using demo_parse_libs [of ?p ?main] by (simp add: demo_blank_def)
  have st: "stored_at all_ok demo_image_mem 0x10B8 (link_map_entry 0x1100 0x10E0 0 0 0x1090)"
    unfolding demo_image_mem_def
    by (rule stored_in_image [where pre = "take 0xB8 demo_image" and post = "drop 0xE0 demo_image"])
      (simp_all add: length_demo_image, simp_all add: demo_image_def demo_phdr_def)
  have "stored_chain all_ok demo_image_mem 0x10B8 [(0x1100, str ''/libpulp.so.0'')]"
    using st demo_libpulp_name by auto
  moreover have "is_libpulp (str ''/libpulp.so.0'')" by (simp add: is_libpulp_def strstr_def str_def)
  moreover have "memory_access demo_intro = all_ok" by (simp add: demo_intro_def)
  ultimately have "map obj_ident (dynobj_targets p') = [(0x1100, str ''/libpulp.so.0'')]"
    using parse_libs_dynobj_chain [of demo_intro ?p ?main demo_image_mem "[(0x1100, str ''/libpulp.so.0'')]" 0 p'] run
    by (simp add: demo_blank_def)
  with run show ?thesis by (intro exI conjI) auto
qed


theorem note_loop_build_id_witness:
  "note_loop all_ok (mem_write (\<lambda>_. 0) 0x5000 (u32_bytes 4 @ u32_bytes 16 @ u32_bytes 5 @ replicate 20 0 @
      u32_bytes 4 @ u32_bytes 20 @ u32_bytes 3)) 0x5000 0x5040 elf_scan_start =
     Some (0, elf_scan_start\<lparr>e_buildid_len := 20, e_buildid := 0x5030, pt_note_ran := True\<rparr>)"
proof -
  let ?img = "u32_bytes 4 @ u32_bytes 16 @ u32_bytes 5 @ replicate 20 0 @ u32_bytes 4 @ u32_bytes 20 @ u32_bytes 3"
  let ?m = "mem_write (\<lambda>_. 0) 0x5000 ?img"
  have "stored_at all_ok ?m 0x5000 (u32_bytes 4 @ u32_bytes 16 @ u32_bytes 5)"
    by (rule stored_in_image [where pre = "[]"]) auto
  moreover have "stored_at all_ok ?m 0x5020 (u32_bytes 4 @ u32_bytes 20 @ u32_bytes 3)"
    by (rule stored_in_image [where pre = "u32_bytes 4 @ u32_bytes 16 @ u32_bytes 5 @ replicate 20 0" and post = "[]"]) auto
  ultimately show ?thesis
    using note_loop_build_id [OF all_ok_atomic, of elf_scan_start ?m "0x5000" "[(4, 16, 5)]" 4 20 "[]" "0x5040"]
    by (simp add: plain_note_def note_size_def elf_pad_def elf_scan_start_def)
qed

end
