(* ===== verification/Remote_State.thy ===== *)
theory Remote_State
  imports Ulp_Api Hijack
begin

text \<open>
  The tool's view of libpulp's records: \<open>read_ulp_applied_patch\<close>, \<open>ulp_read_state\<close> and
  \<open>get_libpulp_error_state_remote\<close> of \<open>src/tools/introspection.c\<close>, on the layout of \<open>struct ulp_applied_patch\<close>
  and \<open>struct ulp_patching_state\<close> in \<open>src/include/ulp_common.h\<close>.

  The list in the target is linked through addresses; reading a list that never ends does not
  return. A field that held a string's address in the target holds the tool's copy afterwards, or still
  the foreign address when the string could not be read.
\<close>

subsection \<open>Reading the list\<close>

datatype remote_str = RNull | RString bytes | RForeign u64

record remote_patch =
  r_patch_id :: bytes
  r_lib_name :: remote_str
  r_container_name :: remote_str
  r_timestamp :: u64

definition read_remote_str :: "kernel \<Rightarrow> mem \<Rightarrow> u64 \<Rightarrow> remote_str option" where
  "read_remote_str k m a =
     (if a = 0 then Some RNull
      else map_option (\<lambda>(r, buf, _). if r = 0 then RString (cstr buf) else RForeign a) (read_string k a m))"

text \<open>The structure without \<open>timestamp\<close>, its last field, before version 0.3.1.\<close>

definition a_patch_size :: "u64 \<Rightarrow> nat" where
  "a_patch_size ver = (if ver < ULP_VERSION_TRIPLET 0 3 1 then 72 else 80)"

partial_function (option) read_ulp_applied_patch ::
  "kernel \<Rightarrow> mem \<Rightarrow> (nat \<Rightarrow> bool) \<Rightarrow> u64 \<Rightarrow> nat \<Rightarrow> u64 \<Rightarrow> remote_patch list option" where
  "read_ulp_applied_patch k m aok ver n addr =
     (if addr = 0 then Some []
      else if \<not> aok n then Some []
      else do {
        (r, bs) \<leftarrow> read_memory k (a_patch_size ver) addr m (replicate (a_patch_size ver) 0);
        if r \<noteq> 0 then Some []
        else do {
          let a_state = bs @ replicate (80 - length bs) 0;
          lib \<leftarrow> read_remote_str k m (field64 a_state 32);
          container \<leftarrow> read_remote_str k m (field64 a_state 40);
          rest \<leftarrow> read_ulp_applied_patch k m aok ver (Suc n) (field64 a_state 56);
          Some (\<lparr>r_patch_id = take 32 a_state, r_lib_name = lib, r_container_name = container,
                 r_timestamp = field64 a_state 72\<rparr> # rest) }})"

text \<open>
  \<open>ulp_read_state\<close> stops the main thread while it reads. \<open>dyn\<close> holds the address of \<open>__ulp_state\<close> and libpulp's version,
  when libpulp is loaded. The thread is detached in every case, also after a failed attachment.
\<close>

definition ulp_read_state ::
  "os \<Rightarrow> (nat \<Rightarrow> bool) \<Rightarrow> int \<Rightarrow> (u64 \<times> u64) option \<Rightarrow> world \<Rightarrow> (remote_patch list \<times> world) option" where
  "ulp_read_state os aok t dyn w =
     (case dyn of
        None \<Rightarrow> Some ([], w)
      | Some (state, ver) \<Rightarrow>
          if state = 0 then Some ([], w)
          else do {
            (r, w) \<leftarrow> attach os t w;
            ret \<leftarrow> (if r \<noteq> 0 then Some []
              else do {
                (r, st) \<leftarrow> read_memory (mem_access os) 16 state (tmem w) (replicate 16 0);
                if r \<noteq> 0 then Some []
                else read_ulp_applied_patch (mem_access os) (tmem w) aok ver 0 (field64 st 8) });
            (_, w) \<leftarrow> detach os t w;
            Some (ret, w) })"

text \<open>\<open>dyn\<close> holds the addresses of the error state and of the trigger, 0 when libpulp does not have them.\<close>

definition get_libpulp_error_state_remote :: "kernel \<Rightarrow> mem \<Rightarrow> (u64 \<times> u64) option \<Rightarrow> int option" where
  "get_libpulp_error_state_remote k m dyn =
     (case dyn of
        None \<Rightarrow> Some ENOLIBPULP
      | Some (err_state_addr, trig) \<Rightarrow>
          if err_state_addr \<noteq> 0 then do {
            (r, bs) \<leftarrow> read_memory k 4 err_state_addr m (u32_bytes (of_int EUNKNOWN));
            Some (if r \<noteq> 0 then EUNKNOWN else u32_int bs) }
          else if trig \<noteq> 0 then Some EOLDLIBPULP
          else Some EUNKNOWN)"

subsection \<open>A list in memory\<close>

text \<open>The string pointer \<open>a\<close> leads to \<open>s\<close>, and the tool can read it.\<close>

definition remote_string :: "kernel \<Rightarrow> mem \<Rightarrow> u64 \<Rightarrow> bytes \<Rightarrow> bool" where
  "remote_string k m a s \<longleftrightarrow> a \<noteq> 0 \<and> holds_string m a s \<and> longs_readable k a (length s)"

text \<open>One record of libpulp at an address, with the address of the next; \<open>rest\<close> are the fields the tool does not use.\<close>

definition stored_patch :: "kernel \<Rightarrow> mem \<Rightarrow> u64 \<Rightarrow> ulp_applied_patch \<Rightarrow> u64 \<Rightarrow> bool" where
  "stored_patch k m a p next_addr \<longleftrightarrow> a \<noteq> 0 \<and> 0 \<le> vm_readv k a 80 0 \<and> length (a_patch_id p) = 32 \<and>
     (\<exists>lib cont us ds. remote_string k m lib (lib_name p) \<and> remote_string k m cont (container_name p) \<and>
        mem_read m a 80 = a_patch_id p @ u64_bytes lib @ u64_bytes cont @ u64_bytes us @ u64_bytes next_addr @
          u64_bytes ds @ u64_bytes (of_int (timestamp p)))"

fun stored_patches :: "kernel \<Rightarrow> mem \<Rightarrow> u64 \<Rightarrow> ulp_applied_patch list \<Rightarrow> bool" where
  "stored_patches k m a [] \<longleftrightarrow> a = 0"
| "stored_patches k m a (p # ps) \<longleftrightarrow> (\<exists>b. stored_patch k m a p b \<and> stored_patches k m b ps)"

definition view :: "ulp_applied_patch \<Rightarrow> remote_patch" where
  "view p = \<lparr>r_patch_id = a_patch_id p, r_lib_name = RString (lib_name p),
     r_container_name = RString (container_name p), r_timestamp = of_int (timestamp p)\<rparr>"

lemma read_remote_str_ok:
  assumes "vm_atomic k" and "remote_string k m a s"
  shows "read_remote_str k m a = Some (RString s)"
proof -
  obtain buf cap where "read_string k a m = Some (0, buf, cap)" "cstr buf = s"
    using read_string_ok [of k m a s] assms by (auto simp: remote_string_def)
  then show ?thesis using assms(2) by (simp add: read_remote_str_def remote_string_def)
qed

lemma read_ulp_applied_patch_ok:
  assumes "vm_atomic k" and "\<forall>n. aok n" and "ULP_VERSION_TRIPLET 0 3 1 \<le> ver" and "stored_patches k m a ps"
  shows "read_ulp_applied_patch k m aok ver n a = Some (map view ps)"
  using assms(4)
proof (induction ps arbitrary: a n)
  case Nil
  then show ?case by (subst read_ulp_applied_patch.simps) simp
next
  case (Cons p ps)
  then obtain b where st: "stored_patch k m a p b" and rest: "stored_patches k m b ps" by auto
  then obtain lib cont us ds where lib: "remote_string k m lib (lib_name p)" and cont: "remote_string k m cont (container_name p)"
    and mem: "mem_read m a 80 = a_patch_id p @ u64_bytes lib @ u64_bytes cont @ u64_bytes us @ u64_bytes b @
          u64_bytes ds @ u64_bytes (of_int (timestamp p))" and id: "length (a_patch_id p) = 32"
    by (auto simp: stored_patch_def)
  have sz: "a_patch_size ver = 80" using assms(3) by (simp add: a_patch_size_def not_less)
  have rd: "read_memory k 80 a m (replicate 80 0) = Some (0, mem_read m a 80)"
    using assms(1) st by (simp add: read_memory_atomic stored_patch_def)
  have f: "take 32 (mem_read m a 80) = a_patch_id p" "field64 (mem_read m a 80) 32 = lib" "field64 (mem_read m a 80) 40 = cont"
    "field64 (mem_read m a 80) 56 = b" "field64 (mem_read m a 80) 72 = of_int (timestamp p)"
    using id by (simp_all add: mem field64_def)
  have "a \<noteq> 0" using st by (simp add: stored_patch_def)
  then show ?case
    using Cons.IH [OF rest, of "Suc n"] assms(2) [rule_format, of n] rd f read_remote_str_ok [OF assms(1) lib] read_remote_str_ok [OF assms(1) cont]
    by (subst read_ulp_applied_patch.simps) (simp add: sz view_def [of p])
qed

text \<open>\<open>__ulp_state\<close> of a libpulp in state \<open>s\<close>: its load state, padding and the head of the list.\<close>

definition stored_state :: "kernel \<Rightarrow> mem \<Rightarrow> u64 \<Rightarrow> ulp_state \<Rightarrow> bool" where
  "stored_state k m a s \<longleftrightarrow> 0 \<le> vm_readv k a 16 0 \<and>
     (\<exists>front first. mem_read m a 16 = front @ u64_bytes first \<and> length front = 8 \<and> stored_patches k m first (patches s))"

subsection \<open>Properties\<close>

text \<open>
  Claim C12. The tool sees the records libpulp keeps: when libpulp's state is in the memory of a process the
  tool can attach to, \<open>ulp_read_state\<close> returns the applied patches in their order, each with its
  identifier, library, container and time, and leaves registers and memory of the process as they were.
\<close>

theorem ulp_read_state_faithful:
  assumes "clock_runs os" and "vm_atomic (mem_access os)" and "\<forall>n. aok n" and "ULP_VERSION_TRIPLET 0 3 1 \<le> ver"
    and "attach os t w = Some (0, w1)" and "a \<noteq> 0" and "stored_state (mem_access os) (tmem w) a s"
  shows "\<exists>w'. ulp_read_state os aok t (Some (a, ver)) w = Some (map view (patches s), w') \<and>
    tregs w' = tregs w \<and> tmem w' = tmem w"
proof -
  let ?k = "mem_access os"
  obtain front first where st: "mem_read (tmem w) a 16 = front @ u64_bytes first" "length front = 8"
    "stored_patches ?k (tmem w) first (patches s)" "0 \<le> vm_readv ?k a 16 0"
    using assms(7) by (auto simp: stored_state_def)
  have "read_memory ?k 16 a (tmem w) (replicate 16 0) = Some (0, mem_read (tmem w) a 16)"
    using assms(2) st(4) by (simp add: read_memory_atomic)
  moreover have "field64 (mem_read (tmem w) a 16) 8 = first" using st(1,2) by (simp add: field64_def)
  moreover have "read_ulp_applied_patch ?k (tmem w) aok ver 0 first = Some (map view (patches s))"
    by (rule read_ulp_applied_patch_ok [OF assms(2-4) st(3)])
  moreover obtain r w2 where "detach os t w1 = Some (r, w2)" using detach_total [OF assms(1), of t w1] by fastforce
  ultimately show ?thesis
    using assms(5,6) attach_result(1,2) [OF assms(5)] detach_result(1,2) [of os t w1 r w2]
    by (simp add: ulp_read_state_def)
qed

subsection \<open>Runs\<close>

definition demo_state_image :: bytes where
  "demo_state_image = replicate 8 0 @ u64_bytes 0x5010 @ replicate 32 7 @ u64_bytes 0x5060 @ u64_bytes 0x5068 @ u64_bytes 0 @
     u64_bytes 0 @ u64_bytes 0 @ u64_bytes 0 @ str ''libx.so'' @ [0] @ str ''/p.so'' @ [0]"

definition demo_state_world :: world where
  "demo_state_world = demo_world\<lparr>syscalls := 2, tmem := mem_write (\<lambda>_. 0) 0x5000 demo_state_image\<rparr>"

lemma demo_stored_state: "stored_state all_ok (tmem demo_state_world) 0x5000 demo_patched"
proof -
  let ?m = "mem_write (\<lambda>_. 0) 0x5000 demo_state_image"
  have len: "length demo_state_image \<le> 2 ^ 64" by (simp add: demo_state_image_def str_def)
  have rd: "mem_read ?m b n = mid"
    if "demo_state_image = pre @ mid @ post" "b = 0x5000 + of_nat (length pre)" "n = length mid" for pre mid post b n
    unfolding that(1) by (rule mem_read_write_mid) (use len that in auto)
  let ?head = "replicate 8 0 @ u64_bytes 0x5010"
  let ?rec = "replicate 32 7 @ u64_bytes 0x5060 @ u64_bytes 0x5068 @ u64_bytes 0 @ u64_bytes 0 @ u64_bytes 0 @ u64_bytes 0"
  let ?lib = "str ''libx.so'' @ [0]" let ?cont = "str ''/p.so'' @ [0]"
  have img: "demo_state_image = ?head @ ?rec @ ?lib @ ?cont" by (simp add: demo_state_image_def)
  have 1: "mem_read ?m 0x5000 16 = ?head" using rd [of "[]" ?head] img by simp
  have 2: "mem_read ?m 0x5010 80 = ?rec" using rd [of ?head ?rec] img by simp
  have 3: "mem_read ?m 0x5060 (length (str ''libx.so'') + 1) = ?lib" using img by (intro rd [of "?head @ ?rec" ?lib ?cont]) (simp_all add: str_def)
  have 4: "mem_read ?m 0x5068 (length (str ''/p.so'') + 1) = ?cont" using img by (intro rd [of "?head @ ?rec @ ?lib" ?cont "[]"]) (simp_all add: str_def)
  have "remote_string all_ok ?m 0x5060 (str ''libx.so'')" "remote_string all_ok ?m 0x5068 (str ''/p.so'')"
    using 3 4 by (simp_all add: remote_string_def holds_string_def longs_readable_def all_ok_def str_def no_nul_def)
  then have "stored_patches all_ok ?m 0x5010 (patches demo_patched)"
    using 2 by (auto simp: stored_patch_def all_ok_def demo_patched_def)
  then show ?thesis using 1 by (auto simp: stored_state_def all_ok_def demo_state_world_def)
qed

theorem ulp_read_state_faithful_witness:
  "\<exists>w'. ulp_read_state (demo_os demo_routine) (\<lambda>_. True) 7 (Some (0x5000, ULP_VERSION_TRIPLET 0 3 1)) demo_state_world =
     Some ([\<lparr>r_patch_id = replicate 32 7, r_lib_name = RString (str ''libx.so''),
             r_container_name = RString (str ''/p.so''), r_timestamp = 0\<rparr>], w')"
proof -
  have "attach (demo_os demo_routine) 7 demo_state_world = Some (0, demo_state_world\<lparr>syscalls := 4, traced := (\<lambda>_. False)(7 := True)\<rparr>)"
    by (simp add: attach_def ulp_ptrace_ok attach_wait_stopped demo_state_world_def demo_defs syscall_def)
  moreover have "mem_access (demo_os demo_routine) = all_ok" by (simp add: demo_os_def)
  moreover have "map view (patches demo_patched) = [\<lparr>r_patch_id = replicate 32 7, r_lib_name = RString (str ''libx.so''),
             r_container_name = RString (str ''/p.so''), r_timestamp = 0\<rparr>]" by (simp add: view_def demo_patched_def)
  ultimately show ?thesis
    using ulp_read_state_faithful [OF demo_laws(1) _ _ order_refl, of demo_routine "\<lambda>_. True" 7 demo_state_world _ "0x5000" demo_patched]
      demo_stored_state by fastforce
qed

end
