(* ===== verification/Patches.thy ===== *)
theory Patches
  imports Post Process_Image Remote_State
begin

text \<open>
  The report of the \<open>patches\<close> command, \<open>src/tools/patches.c\<close>: what is printed of a process, which of its libraries are listed
  as livepatchable, which patches are listed for each, and the bug labels found in the comments of a patch.

  Output is the text written to standard output. The record \<open>report_env\<close> has what comes from elsewhere: whether
  colours are off, the date in the time zone of the user, the text of system errors, the contents of the section
  \<open>.ulp.comments\<close> of a container as libelf finds it, and the value an uninitialised variable happens to have. \<open>None\<close> is a run
  that does not return, or reads through a pointer or index that is not valid.
\<close>

subsection \<open>Bug labels\<close>

definition tolower :: "u8 \<Rightarrow> u8" where
  "tolower c = (if 0x41 \<le> c \<and> c \<le> 0x5a then c + 0x20 else c)"

definition isalpha :: "u8 \<Rightarrow> bool" where
  "isalpha c \<longleftrightarrow> 0x61 \<le> tolower c \<and> tolower c \<le> 0x7a"

text \<open>\<open>strncasecmp\<close> of the text with a prefix in lower case: it stops at the first difference.\<close>

fun starts_nocase :: "bytes \<Rightarrow> bytes \<Rightarrow> bool option" where
  "starts_nocase [] s = Some True"
| "starts_nocase (p # ps) [] = None"
| "starts_nocase (p # ps) (c # s) = (if tolower c \<noteq> p then Some False else starts_nocase ps s)"

fun skip_while :: "(u8 \<Rightarrow> bool) \<Rightarrow> bytes \<Rightarrow> (bytes \<times> bytes) option" where
  "skip_while P [] = None"
| "skip_while P (c # s) =
     (if c \<noteq> 0 \<and> P c then map_option (\<lambda>(t, r). (c # t, r)) (skip_while P s) else Some ([], c # s))"

definition after_dash :: "bytes \<Rightarrow> (bytes \<times> bytes) option" where
  "after_dash s = (if hd s = 45 then map_option (\<lambda>(t, r). (45 # t, r)) (skip_while isdigit (tl s)) else Some ([], s))"

text \<open>The three kinds of labels: the label, and the text from the byte that ends it.\<close>

definition scan_label :: "bytes \<Rightarrow> (bytes \<times> bytes) option option" where
  "scan_label s = do {
     bsc \<leftarrow> starts_nocase (str ''bsc#'') s;
     if bsc then do {
       (t, r) \<leftarrow> skip_while isdigit (drop 4 s);
       Some (Some (take 4 s @ t, r)) }
     else do {
       jsc \<leftarrow> starts_nocase (str ''jsc#'') s;
       if jsc then do {
         (t, r) \<leftarrow> skip_while (\<lambda>c. isalpha c \<and> c \<noteq> 45) (drop 4 s);
         (u, r) \<leftarrow> after_dash r;
         Some (Some (take 4 s @ t @ u, r)) }
       else do {
         cve \<leftarrow> starts_nocase (str ''cve-'') s;
         if cve then do {
           (t, r) \<leftarrow> skip_while (\<lambda>c. c \<noteq> 45 \<and> isdigit c) (drop 4 s);
           (u, r) \<leftarrow> after_dash r;
           Some (Some (take 4 s @ t @ u, r)) }
         else Some None } } }"

lemma starts_nocase_length: "starts_nocase p s = Some True \<Longrightarrow> length p \<le> length s"
proof (induction p arbitrary: s)
  case (Cons x p)
  then show ?case by (cases s) (simp_all split: if_split_asm)
qed simp

lemma skip_while_split:
  "skip_while P s = Some (t, r) \<Longrightarrow> s = t @ r \<and> r \<noteq> [] \<and> (\<forall>c \<in> set t. c \<noteq> 0 \<and> P c) \<and> \<not> (hd r \<noteq> 0 \<and> P (hd r))"
proof (induction s arbitrary: t)
  case (Cons c s)
  then show ?case by (cases "c \<noteq> 0 \<and> P c") auto
qed simp

lemma after_dash_split: "r \<noteq> [] \<Longrightarrow> after_dash r = Some (t, r') \<Longrightarrow> r = t @ r' \<and> r' \<noteq> []"
  by (cases r) (auto simp: after_dash_def split: if_splits dest!: skip_while_split)

text \<open>The three branches have one shape: a prefix of four bytes, a run of letters or digits, perhaps a second run.\<close>

lemma scan_label_cases:
  assumes "scan_label s = Some (Some (l, r))"
  obtains p P t u r' where "starts_nocase p s = Some True" "length p = 4" "skip_while P (drop 4 s) = Some (t, r')"
    "u = [] \<and> r = r' \<or> after_dash r' = Some (u, r)" "l = take 4 s @ t @ u"
proof -
  have n: "length (str ''bsc#'') = 4" "length (str ''jsc#'') = 4" "length (str ''cve-'') = 4" by (simp_all add: str_def)
  consider (bsc) "starts_nocase (str ''bsc#'') s = Some True"
    | (jsc) "starts_nocase (str ''bsc#'') s = Some False" "starts_nocase (str ''jsc#'') s = Some True"
    | (cve) "starts_nocase (str ''bsc#'') s = Some False" "starts_nocase (str ''jsc#'') s = Some False" "starts_nocase (str ''cve-'') s = Some True"
    using assms by (fastforce simp: scan_label_def bind_eq_Some_conv)
  then show ?thesis
  proof cases
    case bsc
    then obtain t where "skip_while isdigit (drop 4 s) = Some (t, r)" "l = take 4 s @ t"
      using assms by (auto simp: scan_label_def bind_eq_Some_conv)
    then show ?thesis using that [of _ isdigit t r "[]"] bsc n(1) by simp
  next
    case jsc
    then obtain t r' u where "skip_while (\<lambda>c. isalpha c \<and> c \<noteq> 45) (drop 4 s) = Some (t, r')" "after_dash r' = Some (u, r)" "l = take 4 s @ t @ u"
      using assms by (auto simp: scan_label_def bind_eq_Some_conv)
    then show ?thesis using that jsc(2) n(2) by blast
  next
    case cve
    then obtain t r' u where "skip_while (\<lambda>c. c \<noteq> 45 \<and> isdigit c) (drop 4 s) = Some (t, r')" "after_dash r' = Some (u, r)" "l = take 4 s @ t @ u"
      using assms by (auto simp: scan_label_def bind_eq_Some_conv)
    then show ?thesis using that cve(3) n(3) by blast
  qed
qed

lemma scan_label_split:
  assumes "scan_label s = Some (Some (l, r))"
  shows "s = l @ r \<and> r \<noteq> [] \<and> 4 \<le> length l"
proof -
  obtain p P t u r' where l: "starts_nocase p s = Some True" "length p = 4" "skip_while P (drop 4 s) = Some (t, r')"
    "u = [] \<and> r = r' \<or> after_dash r' = Some (u, r)" "l = take 4 s @ t @ u"
    using scan_label_cases [OF assms] .
  have "4 \<le> length s" using starts_nocase_length [OF l(1)] l(2) by simp
  moreover have d: "drop 4 s = t @ r'" "r' \<noteq> []" using skip_while_split [OF l(3)] by auto
  moreover have "r' = u @ r" "r \<noteq> []" using l(4) d(2) after_dash_split by auto
  ultimately show ?thesis using l(5) append_take_drop_id [of 4 s] by simp
qed

function relevant_labels :: "bytes \<Rightarrow> bytes list option" where
  "relevant_labels [] = None"
| "relevant_labels (c # s) =
     (if c = 0 then Some []
      else case scan_label (c # s) of
        None \<Rightarrow> None
      | Some None \<Rightarrow> relevant_labels s
      | Some (Some (label, r)) \<Rightarrow> map_option ((#) label) (relevant_labels (tl r)))"
  by pat_completeness auto
termination
proof (relation "measure length", simp, simp)
  fix c s x y l r
  assume "scan_label (c # s) = Some x" "x = Some y" "(l, r) = y"
  then have "length (c # s) = length l + length r" "4 \<le> length l"
    using scan_label_split [of "c # s" l r] by (metis length_append)+
  then show "(tl r, c # s) \<in> measure length" by simp
qed


subsection \<open>The report\<close>

record report_env =
  no_color :: bool
  date :: "u64 \<Rightarrow> bytes"
  system_error :: "int \<Rightarrow> string"
  comments_section :: "bytes \<Rightarrow> bytes option"
  uninitialised :: bool
  record_alloc :: "nat \<Rightarrow> bool"

definition change_color :: "report_env \<Rightarrow> string \<Rightarrow> bytes" where
  "change_color renv code = (if \<not> no_color renv then 0x1b # str code else [])"

definition extract_ulp_comment_to_mem :: "report_env \<Rightarrow> bytes \<Rightarrow> bytes option" where
  "extract_ulp_comment_to_mem renv livepatch =
     (case comments_section renv livepatch of
        None \<Rightarrow> None
      | Some data \<Rightarrow> if data = [] then None else Some data)"

definition print_relevant_labels :: "report_env \<Rightarrow> bytes \<Rightarrow> bytes option" where
  "print_relevant_labels renv lib_path =
     (case extract_ulp_comment_to_mem renv lib_path of
        None \<Rightarrow> Some []
      | Some buf \<Rightarrow>
          map_option (\<lambda>labels. if labels = [] then []
            else str ''        bug labels: '' @ concat (map (\<lambda>l. l @ [32]) labels) @ [10]) (relevant_labels buf))"

text \<open>A string of a record that was not read is no string of the tool's own memory.\<close>

definition own_string :: "remote_str \<Rightarrow> bytes option" where
  "own_string s = (case s of RString b \<Rightarrow> Some b | _ \<Rightarrow> None)"

fun print_lib_patches :: "report_env \<Rightarrow> remote_patch list \<Rightarrow> bytes \<Rightarrow> bytes option" where
  "print_lib_patches renv [] libname = Some []"
| "print_lib_patches renv (p # ps) libname = do {
     lib \<leftarrow> own_string (r_lib_name p);
     out \<leftarrow> (if get_basename libname = lib then do {
         container \<leftarrow> own_string (r_container_name p);
         labels \<leftarrow> print_relevant_labels renv container;
         Some (str ''      livepatch: '' @ get_basename container @
           (if r_timestamp p \<noteq> 0 then str '' loaded on '' @ date renv (r_timestamp p) else []) @ labels) }
       else Some []);
     rest \<leftarrow> print_lib_patches renv ps libname;
     Some (out @ rest) }"

fun has_livepatch_loaded :: "remote_patch list \<Rightarrow> bytes \<Rightarrow> bool option" where
  "has_livepatch_loaded [] libname = Some False"
| "has_livepatch_loaded (p # ps) libname = do {
     lib \<leftarrow> own_string (r_lib_name p);
     if get_basename libname = lib then Some True else has_livepatch_loaded ps libname }"

text \<open>The loop over the dynamic symbols; \<open>ret\<close> is the value of the variable when the loop is entered.\<close>

fun preamble_loop :: "kernel \<Rightarrow> mem \<Rightarrow> u64 \<Rightarrow> nat \<Rightarrow> u64 \<Rightarrow> bool \<Rightarrow> bool option" where
  "preamble_loop k m ehdr_addr 0 addr ret = Some ret"
| "preamble_loop k m ehdr_addr (Suc n) addr ret = do {
     (r, sym) \<leftarrow> read_memory k 24 addr m (replicate 24 0);
     if r \<noteq> 0 then Some False
     else do {
       p \<leftarrow> check_preamble k (ehdr_addr + field64 sym 8) m;
       if p then Some True else preamble_loop k m ehdr_addr n (addr + 24) False } }"

definition is_library_livepatchable ::
  "report_env \<Rightarrow> os \<Rightarrow> intro_env \<Rightarrow> int \<Rightarrow> bytes \<Rightarrow> remote_patch list \<Rightarrow> loaded_obj \<Rightarrow> world \<Rightarrow> (bool \<times> world) option" where
  "is_library_livepatchable renv os env t main_name patch obj w = do {
     loaded \<leftarrow> has_livepatch_loaded patch (filename obj);
     if loaded then Some (True, w)
     else do {
       (r, w) \<leftarrow> attach os t w;
       ret \<leftarrow> (if r \<noteq> 0 then Some False
         else do {
           ehdr_addr \<leftarrow> get_ehdr_addr env main_name obj;
           preamble_loop (mem_access os) (tmem w) ehdr_addr (nat (min (num_symbols obj) 8000)) (dynsym_addr obj) (uninitialised renv) });
       (r, w) \<leftarrow> detach os t w;
       Some (r = 0 \<and> ret, w) } }"

definition print_remote_err_status :: "report_env \<Rightarrow> kernel \<Rightarrow> mem \<Rightarrow> (u64 \<times> u64) option \<Rightarrow> bytes option" where
  "print_remote_err_status renv k m dyn = do {
     state \<leftarrow> get_libpulp_error_state_remote k m dyn;
     Some (str ''  Livepatching status: '' @
       (if state = ENONE \<or> state = EOLDLIBPULP then change_color renv ''[32;1m'' @ str ''enabled'' @ [10]
        else if state = EUSRBLOCKED then change_color renv ''[33;1m'' @ str ''disabled by user'' @ [10]
        else change_color renv ''[31;1m'' @ str ''disabled (internal error: '' @
          str (libpulp_strerror (system_error renv) state) @ str '')'' @ [10]) @
       change_color renv ''[0m'') }"

fun print_objects ::
  "report_env \<Rightarrow> os \<Rightarrow> intro_env \<Rightarrow> int \<Rightarrow> bytes \<Rightarrow> remote_patch list \<Rightarrow> bool \<Rightarrow> loaded_obj list \<Rightarrow> world \<Rightarrow> (bytes \<times> world) option" where
  "print_objects renv os env t main_name patch print_buildid [] w = Some ([], w)"
| "print_objects renv os env t main_name patch print_buildid (obj # items) w = do {
     (yes, w) \<leftarrow> is_library_livepatchable renv os env t main_name patch obj w;
     out \<leftarrow> (if yes then do {
         lps \<leftarrow> print_lib_patches renv patch (filename obj);
         Some (str ''    in '' @ filename obj @
           (if print_buildid then str '' ('' @ buildid_to_string (dyn_build_id obj) @ str '')'' else []) @
           (if libpulp_version (exports obj) \<noteq> 0
            then str '' (version '' @ ulp_version_as_string (libpulp_version (exports obj)) @ str '')'' else []) @
           str '':'' @ [10] @ lps) }
       else Some []);
     (rest, w) \<leftarrow> print_objects renv os env t main_name patch print_buildid items w;
     Some (out @ rest, w) }"

text \<open>The objects in the order of \<open>dynobj_first\<close> and \<open>dynobj_next\<close>, and the one that is libpulp.\<close>

definition dynobjs :: "image \<Rightarrow> loaded_obj list" where
  "dynobjs p = (case dynobj_main p of None \<Rightarrow> [] | Some main \<Rightarrow> main # dynobj_targets p)"

definition dynobj_libpulp_of :: "image \<Rightarrow> libpulp_exports option" where
  "dynobj_libpulp_of p = map_option (\<lambda>i. exports (dynobj_targets p ! i)) (libpulp_at p)"

definition int_dec :: "int \<Rightarrow> bytes" where
  "int_dec i = (if i < 0 then 45 # dec (nat (- i)) else dec (nat i))"

definition print_process ::
  "report_env \<Rightarrow> os \<Rightarrow> intro_env \<Rightarrow> int \<Rightarrow> image \<Rightarrow> bool \<Rightarrow> bool \<Rightarrow> world \<Rightarrow> (bytes \<times> world) option" where
  "print_process renv os env t p print_buildid only_livepatched w = do {
     (patch, w) \<leftarrow> ulp_read_state os (record_alloc renv) t
       (map_option (\<lambda>x. (state_addr x, libpulp_version x)) (dynobj_libpulp_of p)) w;
     if only_livepatched \<and> patch = [] then Some ([], w)
     else do {
       main \<leftarrow> dynobj_main p;
       status \<leftarrow> print_remote_err_status renv (mem_access os) (tmem w)
         (map_option (\<lambda>x. (error_state_addr x, trigger x)) (dynobj_libpulp_of p));
       (items, w) \<leftarrow> print_objects renv os env t (filename main) patch print_buildid (dynobjs p) w;
       Some (str ''PID: '' @ int_dec t @ str '', name: '' @ get_basename (filename main) @ [10] @ status @
         str ''  Livepatchable libraries:'' @ [10] @ items @ [10], w) } }"

subsection \<open>Labels\<close>

text \<open>The labels of the three bug trackers, and the bytes that may end one.\<close>

definition is_label :: "bytes \<Rightarrow> bool" where
  "is_label l \<longleftrightarrow> (\<exists>p t u. l = p @ t @ u \<and> (u = [] \<or> (\<exists>d. u = 45 # d \<and> list_all isdigit d)) \<and>
     (map tolower p = str ''bsc#'' \<and> list_all isdigit t \<and> u = [] \<or>
      map tolower p = str ''jsc#'' \<and> list_all isalpha t \<or>
      map tolower p = str ''cve-'' \<and> list_all isdigit t))"

definition ends_label :: "u8 \<Rightarrow> bool" where
  "ends_label c \<longleftrightarrow> \<not> isdigit c \<and> \<not> isalpha c \<and> c \<noteq> 45"

lemma zero_no_letter: "isdigit c \<Longrightarrow> c \<noteq> 0 \<and> c \<noteq> 45" "isalpha c \<Longrightarrow> c \<noteq> 0 \<and> c \<noteq> 45"
  by (auto simp: isdigit_def isalpha_def tolower_def)

lemma starts_nocase_prefix:
  "length p = length q \<Longrightarrow> starts_nocase q (p @ s) = Some (map tolower p = q)"
proof (induction p arbitrary: q)
  case (Cons c p)
  then show ?case by (cases q) auto
qed simp

lemma skip_while_run: "(\<forall>c \<in> set t. c \<noteq> 0 \<and> P c) \<Longrightarrow> c = 0 \<or> \<not> P c \<Longrightarrow> skip_while P (t @ c # s) = Some (t, c # s)"
  by (induction t) auto

lemma after_dash_run:
  assumes "u = [] \<or> (\<exists>d. u = 45 # d \<and> list_all isdigit d)" "ends_label c"
  shows "after_dash (u @ c # s) = Some (u, c # s)"
  using assms skip_while_run [of "tl u" isdigit c s] by (auto simp: after_dash_def ends_label_def list_all_iff zero_no_letter)

lemma scan_label_run:
  assumes "is_label l" "ends_label c"
  shows "scan_label (l @ c # s) = Some (Some (l, c # s))"
proof -
  obtain p t u where l: "l = p @ t @ u" and u: "u = [] \<or> (\<exists>d. u = 45 # d \<and> list_all isdigit d)"
    and pt: "map tolower p = str ''bsc#'' \<and> list_all isdigit t \<and> u = [] \<or> map tolower p = str ''jsc#'' \<and> list_all isalpha t \<or>
      map tolower p = str ''cve-'' \<and> list_all isdigit t"
    using assms(1) by (auto simp: is_label_def)
  have "length (map tolower p) = 4" using pt by (auto simp: str_def simp del: length_map)
  then have p4: "length p = 4" by simp
  obtain x xs where x: "u @ c # s = x # xs" "x = c \<or> x = 45" using u by (cases "u @ c # s") auto
  then have stop: "\<not> isdigit x" "\<not> (isalpha x \<and> x \<noteq> 45)"
    using assms(2) zero_no_letter [of x] by (auto simp: ends_label_def)
  have run: "skip_while P (t @ u @ c # s) = Some (t, u @ c # s)"
    if "\<forall>b \<in> set t. b \<noteq> 0 \<and> P b" "\<not> P x" for P using skip_while_run [of t P x xs] that x(1) by simp
  have split: "take 4 (l @ c # s) = p" "drop 4 (l @ c # s) = t @ u @ c # s" using l p4 by simp_all
  have pre: "starts_nocase q (l @ c # s) = Some (map tolower p = q)" if "length q = 4" for q
    using starts_nocase_prefix [of p q "t @ u @ c # s"] that p4 l by simp
  note starts = pre [of "str ''bsc#''"] pre [of "str ''jsc#''"] pre [of "str ''cve-''"]
  note dash = after_dash_run [OF u assms(2), of s]
  have ne: "str ''bsc#'' \<noteq> str ''jsc#''" "str ''bsc#'' \<noteq> str ''cve-''" "str ''jsc#'' \<noteq> str ''cve-''" by (simp_all add: str_def)
  have len: "length (str ''bsc#'') = 4" "length (str ''jsc#'') = 4" "length (str ''cve-'') = 4" by (simp_all add: str_def)
  from pt show ?thesis
  proof (elim disjE conjE)
    assume a: "map tolower p = str ''bsc#''" "list_all isdigit t" "u = []"
    have "skip_while isdigit (t @ u @ c # s) = Some (t, u @ c # s)"
      by (rule run) (use a(2) stop zero_no_letter in \<open>auto simp: list_all_iff\<close>)
    then show ?thesis unfolding scan_label_def split starts(1) [OF len(1)] using a l by simp
  next
    assume a: "map tolower p = str ''jsc#''" "list_all isalpha t"
    have "skip_while (\<lambda>c. isalpha c \<and> c \<noteq> 45) (t @ u @ c # s) = Some (t, u @ c # s)"
      by (rule run) (use a(2) stop zero_no_letter in \<open>auto simp: list_all_iff\<close>)
    then show ?thesis unfolding scan_label_def split starts(1) [OF len(1)] starts(2) [OF len(2)] using a l dash ne by simp
  next
    assume a: "map tolower p = str ''cve-''" "list_all isdigit t"
    have "skip_while (\<lambda>c. c \<noteq> 45 \<and> isdigit c) (t @ u @ c # s) = Some (t, u @ c # s)"
      by (rule run) (use a(2) stop zero_no_letter in \<open>auto simp: list_all_iff\<close>)
    then show ?thesis unfolding scan_label_def split starts(1) [OF len(1)] starts(2) [OF len(2)] starts(3) [OF len(3)]
      using a l dash ne by simp
  qed
qed

lemma is_label_first: "is_label l \<Longrightarrow> \<exists>c s. l = c # s \<and> c \<noteq> 0"
proof -
  assume "is_label l"
  then obtain p r where "l = p @ r" "map tolower p \<in> {str ''bsc#'', str ''jsc#'', str ''cve-''}"
    unfolding is_label_def by blast
  then show ?thesis by (cases p) (auto simp: str_def tolower_def)
qed

lemma relevant_labels_step:
  assumes "is_label l" "ends_label c"
  shows "relevant_labels (l @ c # s) = map_option ((#) l) (relevant_labels s)"
proof -
  obtain x xs where l: "l = x # xs" "x \<noteq> 0" using is_label_first [OF assms(1)] by blast
  then show ?thesis using scan_label_run [OF assms, of s] by simp
qed

lemma relevant_labels_list:
  "\<forall>(l, c) \<in> set lcs. is_label l \<and> ends_label c \<Longrightarrow>
     relevant_labels (concat (map (\<lambda>(l, c). l @ [c]) lcs) @ s) = map_option ((@) (map fst lcs)) (relevant_labels s)"
proof (induction lcs)
  case (Cons lc lcs)
  then show ?case by (cases lc) (auto simp: relevant_labels_step option.map_comp comp_def)
next
  case Nil
  then show ?case by (simp add: option.map_ident)
qed

text \<open>
  The labels of a comment: a text of labels of the three bug trackers, each ended by a byte that is no letter, digit or
  dash, is read as exactly these labels, in order and in any case of letters. But when the last label ends at the terminating
  NUL of the buffer, the scan steps over the NUL and reads behind the buffer.
\<close>

theorem relevant_labels_found:
  assumes "\<forall>(l, c) \<in> set lcs. is_label l \<and> ends_label c"
  shows "relevant_labels (concat (map (\<lambda>(l, c). l @ [c]) lcs) @ [0]) = Some (map fst lcs) \<and>
    (is_label l \<longrightarrow> relevant_labels (concat (map (\<lambda>(l, c). l @ [c]) lcs) @ l @ [0]) = None)"
proof -
  have "ends_label 0" by (simp add: ends_label_def isdigit_def isalpha_def tolower_def)
  from relevant_labels_step [OF _ this, of l "[]"] show ?thesis
    using relevant_labels_list [OF assms, of "[0]"] relevant_labels_list [OF assms, of "l @ [0]"] by simp
qed

subsection \<open>Livepatchable libraries\<close>

lemma has_livepatch_loaded_iff:
  assumes "\<forall>p \<in> set ps. \<exists>b. r_lib_name p = RString b"
  shows "has_livepatch_loaded ps lib = Some (\<exists>p \<in> set ps. r_lib_name p = RString (get_basename lib))"
  using assms
proof (induction ps)
  case (Cons p ps)
  then obtain b where "r_lib_name p = RString b" by auto
  with Cons show ?case by (auto simp: own_string_def)
qed simp

text \<open>The entry of a symbol as \<open>check_preamble\<close> accepts it.\<close>

definition nop_entry :: "mem \<Rightarrow> u64 \<Rightarrow> bool" where
  "nop_entry m a \<longleftrightarrow> patchable m a \<and> mem_read m a 4 \<noteq> insn_endbr64 \<and> m a \<noteq> 0xEB"

definition sym_value :: "mem \<Rightarrow> u64 \<Rightarrow> nat \<Rightarrow> u64" where
  "sym_value m tab i = field64 (mem_read m (tab + 24 * of_nat i) 24) 8"

lemma preamble_loop_iff:
  assumes "vm_atomic k" "\<forall>a n. 0 \<le> vm_readv k a n 0"
  shows "preamble_loop k m e n tab ret = Some (if n = 0 then ret else \<exists>i < n. nop_entry m (e + sym_value m tab i))"
proof (induction n arbitrary: tab ret)
  case (Suc n)
  have "sym_value m tab (Suc i) = sym_value m (tab + 24) i" for i by (simp add: sym_value_def algebra_simps)
  then have ex: "(\<exists>i < Suc n. nop_entry m (e + sym_value m tab i)) \<longleftrightarrow>
      nop_entry m (e + sym_value m tab 0) \<or> (\<exists>i < n. nop_entry m (e + sym_value m (tab + 24) i))"
    by (auto simp: less_Suc_eq_0_disj)
  have "check_preamble k a m = Some (nop_entry m a)" for a
    using check_preamble_eq [OF assms(1)] assms(2) by (simp add: nop_entry_def not_less)
  moreover have "read_memory k 24 tab m (replicate 24 0) = Some (0, mem_read m tab 24)"
    using read_memory_atomic [OF assms(1)] assms(2) by (simp add: not_less)
  ultimately show ?case using Suc ex by (auto simp: sym_value_def)
qed simp

text \<open>
  Which libraries the report lists: in a process the tool can attach to and read, a library is listed exactly
  when a patch for its base name is recorded, or one of its first 8000 dynamic symbols has the nop pair at its very entry; for an
  object without symbols the answer is whatever the uninitialised variable held. The process is left as it was.
\<close>

theorem is_library_livepatchable_iff:
  assumes "vm_atomic (mem_access os)" "\<forall>a n. 0 \<le> vm_readv (mem_access os) a n 0"
    and "\<forall>p \<in> set ps. \<exists>b. r_lib_name p = RString b"
    and "attach os t w = Some (0, w1)" "detach os t w1 = Some (0, w2)" "get_ehdr_addr env main_name obj = Some e"
  shows "\<exists>w'. is_library_livepatchable renv os env t main_name ps obj w =
      Some ((\<exists>p \<in> set ps. r_lib_name p = RString (get_basename (filename obj))) \<or>
        (if num_symbols obj \<le> 0 then uninitialised renv
         else \<exists>i < nat (min (num_symbols obj) 8000). nop_entry (tmem w) (e + sym_value (tmem w) (dynsym_addr obj) i)), w') \<and>
    tregs w' = tregs w \<and> tmem w' = tmem w"
proof (cases "\<exists>p \<in> set ps. r_lib_name p = RString (get_basename (filename obj))")
  case True
  then show ?thesis using has_livepatch_loaded_iff [OF assms(3)] by (simp add: is_library_livepatchable_def)
next
  case False
  note att = attach_result(1,2) [OF assms(4)] and det = detach_result(1,2) [OF assms(5)]
  have "nat (min (num_symbols obj) 8000) = 0 \<longleftrightarrow> num_symbols obj \<le> 0" by auto
  then show ?thesis
    using False att det has_livepatch_loaded_iff [OF assms(3), of "filename obj"] assms(4-6)
      preamble_loop_iff [OF assms(1,2), of "tmem w" e "nat (min (num_symbols obj) 8000)" "dynsym_addr obj" "uninitialised renv"]
    by (auto simp: is_library_livepatchable_def)
qed

subsection \<open>Runs\<close>

lemma demo_labels: "is_label (str ''BSC#12'')" "is_label (str ''cve-2021-1'')" "ends_label 10"
proof -
  show "is_label (str ''BSC#12'')"
    unfolding is_label_def
    by (rule exI [of _ "str ''BSC#''"], rule exI [of _ "str ''12''"]) (simp add: str_def tolower_def isdigit_def)
  show "is_label (str ''cve-2021-1'')"
    unfolding is_label_def
    by (rule exI [of _ "str ''cve-''"], rule exI [of _ "str ''2021''"], rule exI [of _ "45 # str ''1''"])
       (simp add: str_def tolower_def isdigit_def)
  show "ends_label 10" by (simp add: ends_label_def isdigit_def isalpha_def tolower_def)
qed

theorem relevant_labels_found_witness:
  "relevant_labels (str ''BSC#12'' @ [10] @ str ''cve-2021-1'' @ [10, 0]) = Some [str ''BSC#12'', str ''cve-2021-1''] \<and>
   relevant_labels (str ''BSC#12'' @ [10] @ str ''cve-2021-1'' @ [0]) = None"
  using relevant_labels_found [of "[(str ''BSC#12'', 10), (str ''cve-2021-1'', 10)]" "[]"]
    relevant_labels_found [of "[(str ''BSC#12'', 10)]" "str ''cve-2021-1''"] demo_labels
  by simp

definition demo_lib_world :: world where
  "demo_lib_world = demo_world\<lparr>syscalls := 2, tmem := mem_write (mem_write (\<lambda>_. 0) 0x6008 (u64_bytes 0x100)) 0x10100 [0x66, 0x90]\<rparr>"

definition demo_lib :: loaded_obj where
  "demo_lib = (fresh_obj (str ''/lib/libx.so''))\<lparr>lmap := \<lparr>l_addr = 0x10000, l_name = 0, l_next = 0\<rparr>, dynsym_addr := 0x6000, num_symbols := 1\<rparr>"

theorem is_library_livepatchable_iff_witness:
  "\<exists>renv w'. is_library_livepatchable renv (demo_os demo_routine) demo_intro 7 [] [] demo_lib demo_lib_world = Some (True, w')"
proof -
  let ?os = "demo_os demo_routine" let ?w = demo_lib_world let ?m = "tmem ?w"
  have k: "mem_access ?os = all_ok" by (simp add: demo_os_def)
  have at: "attach ?os 7 ?w = Some (0, ?w\<lparr>syscalls := 4, traced := (\<lambda>_. False)(7 := True)\<rparr>)"
    by (simp add: attach_def ulp_ptrace_ok attach_wait_stopped demo_lib_world_def demo_defs syscall_def)
  obtain w2 where dt: "detach ?os 7 (?w\<lparr>syscalls := 4, traced := (\<lambda>_. False)(7 := True)\<rparr>) = Some (0, w2)"
    by (simp add: detach_def ulp_ptrace_ok demo_lib_world_def demo_defs syscall_def)
  have e: "get_ehdr_addr demo_intro [] demo_lib = Some 0x10000" by (simp add: get_ehdr_addr_def demo_lib_def)
  have "mem_read ?m 0x6008 8 = u64_bytes 0x100"
    unfolding demo_lib_world_def
    by (simp add: mem_read_write_apart apart_def mem_read_write_same [of "u64_bytes 0x100", simplified] del: mem_write.simps)
  then have v: "sym_value ?m 0x6000 0 = 0x100"
    using mem_read_append [of ?m "0x6000" 8 16] mem_read_append [of ?m "0x6008" 8 8] by (simp add: sym_value_def field64_def)
  have "?m 0x10100 = 0x66" "?m 0x10101 = 0x90" by (simp_all add: demo_lib_world_def)
  then have "nop_entry ?m (0x10000 + sym_value ?m 0x6000 0)"
    using v mem_read_4_first [of ?m "0x10100" "0xf3"] by (auto simp: nop_entry_def patchable_def entry_def insn_endbr64_def)
  moreover have "vm_atomic (mem_access ?os)" "\<forall>a n. 0 \<le> vm_readv (mem_access ?os) a n 0"
    unfolding k by (simp, simp add: all_ok_def)
  ultimately show ?thesis
    using is_library_livepatchable_iff [where ps = "[]", OF _ _ _ at dt e] by (fastforce simp: demo_lib_def)
qed
end
