(* ===== verification/Msg_Queue.thy ===== *)
theory Msg_Queue
  imports Ulp_Prelude
begin

text \<open>
  The message queue libpulp keeps for \<open>ulp messages\<close>: the circular buffer of
  \<open>src/lib/msg_queue.c\<close> and \<open>src/include/msg_queue.h\<close>, and the printer of
  \<open>src/tools/messages.c\<close>. \<open>mtop\<close> (\<open>top\<close> in the source) and \<open>bottom\<close> are positions of the buffer and stay natural numbers;
  \<open>distance\<close> is an \<open>int\<close> that the loop compares as a \<open>size_t\<close>, so the comparison is modulo
  \<open>2 ^ 64\<close>. Both loops may run forever and are partial functions whose value is then \<open>None\<close>. The
  expansion of a format string is the parameter \<open>s\<close>, the bytes \<open>vsnprintf\<close> would write without its
  bound; the timestamp is the string \<open>strftime\<close> produced, empty when it failed.
\<close>

subsection \<open>The queue and its operations\<close>

definition MSGQ_BUFFER_MAX :: nat where
  "MSGQ_BUFFER_MAX = 2 * 1024 * 1024"

record msg_queue =
  mbuf :: buf
  mtop :: nat
  bottom :: nat
  distance :: int

definition strlen_at :: "buf \<Rightarrow> nat \<Rightarrow> nat" where
  "strlen_at b i = length (cstr (buf_read b i (MSGQ_BUFFER_MAX - i)))"

definition buf_zero :: "buf \<Rightarrow> nat \<Rightarrow> buf" where
  "buf_zero b i = (\<lambda>j. if i \<le> j \<and> j < MSGQ_BUFFER_MAX then 0 else b j)"

partial_function (option) skip_nuls :: "buf \<Rightarrow> nat \<Rightarrow> nat \<Rightarrow> (nat \<times> nat) option" where
  "skip_nuls b bt travel =
     (if b bt = 0 then skip_nuls b ((bt + 1) mod MSGQ_BUFFER_MAX) (travel + 1)
      else Some (bt, travel))"

partial_function (option) make_room :: "buf \<Rightarrow> nat \<Rightarrow> nat \<Rightarrow> int \<Rightarrow> (nat \<times> int) option" where
  "make_room b msg_size bt dist =
     (if (dist + int msg_size) mod 2 ^ 64 \<ge> int MSGQ_BUFFER_MAX then
        let travel = strlen_at b bt + 1;
            bt = (bt + travel) mod MSGQ_BUFFER_MAX
        in case skip_nuls b bt travel of
             None \<Rightarrow> None
           | Some (bt, travel) \<Rightarrow> make_room b msg_size bt (dist - int travel)
      else Some (bt, dist))"

definition msgq_strpush :: "bytes \<Rightarrow> nat \<Rightarrow> msg_queue \<Rightarrow> msg_queue option" where
  "msgq_strpush msg msg_size q =
     (if cstr msg = [] \<or> msg_size > MSGQ_BUFFER_MAX then Some q
      else
        let (b, tp, dist) =
              (if mtop q + msg_size \<ge> MSGQ_BUFFER_MAX
               then (buf_zero (mbuf q) (mtop q), 0, distance q + int (MSGQ_BUFFER_MAX - mtop q))
               else (mbuf q, mtop q, distance q))
        in case make_room b msg_size (bottom q) dist of
             None \<Rightarrow> None
           | Some (bt, dist) \<Rightarrow>
               Some \<lparr>mbuf = buf_write b tp (take msg_size msg), mtop = (tp + msg_size) mod MSGQ_BUFFER_MAX,
                     bottom = bt, distance = dist + int msg_size\<rparr>)"

definition msgq_vpush :: "bytes \<Rightarrow> msg_queue \<Rightarrow> msg_queue option" where
  "msgq_vpush s q = msgq_strpush (take (MSGQ_BUFFER_MAX - 1) s @ [0]) (length s + 1) q"

definition msgq_push :: "bytes \<Rightarrow> msg_queue \<Rightarrow> msg_queue option" where
  "msgq_push s q = msgq_strpush (take (MSGQ_BUFFER_MAX - 1) s @ [0]) (length s + 1) q"

definition ulp_warn :: "bytes \<Rightarrow> bytes \<Rightarrow> msg_queue \<Rightarrow> msg_queue option" where
  "ulp_warn timestamp s q =
     (case (if length timestamp > 0 then msgq_strpush (timestamp @ [0]) (length timestamp + 1) q else Some q) of
        None \<Rightarrow> None
      | Some q \<Rightarrow> msgq_vpush s q)"

text \<open>The tool's side: \<open>msgq_print\<close> writes \<open>distance\<close> bytes from \<open>bottom\<close> on to its output.\<close>

fun msgq_print_loop :: "buf \<Rightarrow> nat \<Rightarrow> nat \<Rightarrow> bytes" where
  "msgq_print_loop b bt 0 = []"
| "msgq_print_loop b bt (Suc n) = b bt # msgq_print_loop b ((bt + 1) mod MSGQ_BUFFER_MAX) n"

definition msgq_print :: "msg_queue \<Rightarrow> bytes" where
  "msgq_print q = msgq_print_loop (mbuf q) (bottom q) (nat (distance q))"

definition msgq_init :: msg_queue where
  "msgq_init = \<lparr>mbuf = (\<lambda>_. 0), mtop = 0, bottom = 0, distance = 0\<rparr>"

subsection \<open>The messages a queue holds\<close>

text \<open>
  \<open>laid b p ms e\<close>: the messages \<open>ms\<close> with their terminators fill the buffer from \<open>p\<close> to \<open>e\<close>. A queue
  is in one piece, or in two: messages up to some \<open>e\<close>, NUL bytes from there to the end of the buffer,
  and the newer messages at its start. The byte at position 0 is not NUL once anything was stored;
  the loop that skips NUL bytes stops there.
\<close>

fun laid :: "buf \<Rightarrow> nat \<Rightarrow> bytes list \<Rightarrow> nat \<Rightarrow> bool" where
  "laid b p [] e \<longleftrightarrow> p = e"
| "laid b p (m # ms) e \<longleftrightarrow>
     m \<noteq> [] \<and> no_nul m \<and> buf_read b p (length m + 1) = m @ [0] \<and> laid b (p + length m + 1) ms e"

definition two_parts :: "buf \<Rightarrow> nat \<Rightarrow> bytes list \<Rightarrow> nat \<Rightarrow> bytes list \<Rightarrow> nat \<Rightarrow> bool" where
  "two_parts b bt ms1 e ms2 tp \<longleftrightarrow>
     ms1 \<noteq> [] \<and> laid b bt ms1 e \<and> e \<le> MSGQ_BUFFER_MAX \<and> (\<forall>i. e \<le> i \<and> i < MSGQ_BUFFER_MAX \<longrightarrow> b i = 0) \<and>
     laid b 0 ms2 tp \<and> b 0 \<noteq> 0"

definition msgq_holds :: "msg_queue \<Rightarrow> bytes list \<Rightarrow> bool" where
  "msgq_holds q ms \<longleftrightarrow>
     mtop q < MSGQ_BUFFER_MAX \<and>
     (laid (mbuf q) (bottom q) ms (mtop q) \<and> distance q = int (mtop q) - int (bottom q) \<and>
        (0 < mtop q \<longrightarrow> ms \<noteq> [] \<and> mbuf q 0 \<noteq> 0) \<or>
      (\<exists>ms1 e ms2. ms = ms1 @ ms2 \<and> ms2 \<noteq> [] \<and> two_parts (mbuf q) (bottom q) ms1 e ms2 (mtop q) \<and>
         mtop q < bottom q \<and> distance q = int (MSGQ_BUFFER_MAX - bottom q) + int (mtop q)))"

lemma laid_le: "laid b p ms e \<Longrightarrow> p \<le> e"
  by (induction ms arbitrary: p) force+

lemma laid_head:
  assumes "laid b p (m # ms) e"
  shows "b p \<noteq> 0" and "p + length m + 1 \<le> e" and "p < e"
proof -
  have m: "m \<noteq> []" "no_nul m" and r: "buf_read b p (length m + 1) = m @ [0]"
    and l: "laid b (p + length m + 1) ms e"
    using assms by auto
  have "buf_read b p (length m + 1) ! 0 = b p"
    by (simp add: buf_read_def del: upt_Suc)
  then have "b p = m ! 0" using m(1) r by (simp add: nth_append)
  then have "b p \<in> set m" using m(1) by simp
  then show "b p \<noteq> 0" using m(2) by (auto simp: no_nul_def)
  show "p + length m + 1 \<le> e" using laid_le [OF l] .
  then show "p < e" by simp
qed

lemma laid_append: "laid b p (ms @ ns) e \<longleftrightarrow> (\<exists>e'. laid b p ms e' \<and> laid b e' ns e)"
  by (induction ms arbitrary: p) auto

lemma buf_read_cong: "(\<And>i. p \<le> i \<Longrightarrow> i < p + n \<Longrightarrow> b i = b' i) \<Longrightarrow> buf_read b p n = buf_read b' p n"
  by (simp add: buf_read_def)

lemma laid_cong:
  assumes "laid b p ms e" and "\<And>i. p \<le> i \<Longrightarrow> i < e \<Longrightarrow> b' i = b i"
  shows "laid b' p ms e"
  using assms
proof (induction ms arbitrary: p)
  case (Cons m ms)
  have le: "p + length m + 1 \<le> e" using laid_head(2) [OF Cons.prems(1)] .
  then have "buf_read b' p (length m + 1) = buf_read b p (length m + 1)"
    by (intro buf_read_cong Cons.prems(2)) auto
  moreover have "laid b' (p + length m + 1) ms e"
    by (rule Cons.IH) (use Cons.prems in auto)
  ultimately show ?case using Cons.prems(1) by simp
qed simp

lemma laid_snoc:
  assumes "laid b p ms e" and "m \<noteq> []" and "no_nul m"
  shows "laid (buf_write b e (m @ [0])) p (ms @ [m]) (e + length m + 1)"
proof -
  have "laid (buf_write b e (m @ [0])) p ms e"
    by (rule laid_cong [OF assms(1)]) (simp add: buf_write_apply)
  moreover have "buf_read (buf_write b e (m @ [0])) e (length m + 1) = m @ [0]"
    using buf_read_write_same [of b e "m @ [0]"] by simp
  ultimately show ?thesis using assms(2,3) by (auto simp: laid_append)
qed

lemma strlen_laid:
  assumes "laid b p (m # ms) e" and "e \<le> MSGQ_BUFFER_MAX"
  shows "strlen_at b p = length m"
proof -
  define k where "k = MSGQ_BUFFER_MAX - p - (length m + 1)"
  have "p + length m + 1 \<le> e" using laid_head(2) [OF assms(1)] .
  then have "MSGQ_BUFFER_MAX - p = (length m + 1) + k" using assms(2) by (simp add: k_def)
  then have "buf_read b p (MSGQ_BUFFER_MAX - p) = m @ 0 # buf_read b (p + (length m + 1)) k"
    using assms(1) buf_read_append [of b p "length m + 1" k] by simp
  then show ?thesis using assms(1) by (simp add: strlen_at_def)
qed

lemma skip_nuls_stop: "b p \<noteq> 0 \<Longrightarrow> skip_nuls b p k = Some (p, k)"
  by (subst skip_nuls.simps) simp

lemma skip_nuls_end:
  assumes "\<And>i. p \<le> i \<Longrightarrow> i < MSGQ_BUFFER_MAX \<Longrightarrow> b i = 0" and "b 0 \<noteq> 0" and "p \<le> MSGQ_BUFFER_MAX"
  shows "skip_nuls b (p mod MSGQ_BUFFER_MAX) k = Some (0, k + (MSGQ_BUFFER_MAX - p))"
  using assms
proof (induction "MSGQ_BUFFER_MAX - p" arbitrary: p k)
  case 0
  then show ?case by (simp add: skip_nuls_stop)
next
  case (Suc n)
  then have p: "p < MSGQ_BUFFER_MAX" by simp
  then have "skip_nuls b (p mod MSGQ_BUFFER_MAX) k = skip_nuls b ((p + 1) mod MSGQ_BUFFER_MAX) (k + 1)"
    using Suc.prems(1) [of p] by (subst skip_nuls.simps) simp
  also have "\<dots> = Some (0, (k + 1) + (MSGQ_BUFFER_MAX - (p + 1)))"
    by (rule Suc.hyps(1)) (use Suc.hyps(2) Suc.prems p in auto)
  finally show ?case using p by simp
qed

lemma MSGQ_MAX_bounds: "0 < MSGQ_BUFFER_MAX" "int MSGQ_BUFFER_MAX < 2 ^ 62"
  by (simp_all add: MSGQ_BUFFER_MAX_def)

lemma make_room_done:
  "0 \<le> dist \<Longrightarrow> dist + int n < int MSGQ_BUFFER_MAX \<Longrightarrow> make_room b n p dist = Some (p, dist)"
  using MSGQ_MAX_bounds(2) by (subst make_room.simps) simp

lemma make_room_more:
  assumes "int MSGQ_BUFFER_MAX \<le> dist + int n" and "dist + int n < 2 ^ 64"
    and "skip_nuls b ((p + (strlen_at b p + 1)) mod MSGQ_BUFFER_MAX) (strlen_at b p + 1) = Some (p', t)"
  shows "make_room b n p dist = make_room b n p' (dist - int t)"
  using assms MSGQ_MAX_bounds(2) by (subst make_room.simps) (simp add: Let_def)

text \<open>Removing the oldest message of a queue in two parts.\<close>

lemma two_parts_first:
  assumes "two_parts b p (m # ms) e ms2 tp"
  shows "ms \<noteq> [] \<Longrightarrow> two_parts b (p + length m + 1) ms e ms2 tp \<and> p + length m + 1 < MSGQ_BUFFER_MAX \<and>
      skip_nuls b ((p + (strlen_at b p + 1)) mod MSGQ_BUFFER_MAX) (strlen_at b p + 1) = Some (p + length m + 1, length m + 1)"
    and "ms = [] \<Longrightarrow> 
      skip_nuls b ((p + (strlen_at b p + 1)) mod MSGQ_BUFFER_MAX) (strlen_at b p + 1) = Some (0, MSGQ_BUFFER_MAX - p)"
proof -
  have l: "laid b p (m # ms) e" and e: "e \<le> MSGQ_BUFFER_MAX" using assms by (auto simp: two_parts_def)
  have s: "strlen_at b p = length m" using strlen_laid [OF l e] .
  {
    assume "ms \<noteq> []"
    then obtain m' ms' where ms: "ms = m' # ms'" by (cases ms) auto
    then have l': "laid b (p + length m + 1) (m' # ms') e" using l by simp
    then have "b (p + length m + 1) \<noteq> 0" "p + length m + 1 < MSGQ_BUFFER_MAX"
      using laid_head [OF l'] e by auto
    then show "two_parts b (p + length m + 1) ms e ms2 tp \<and> p + length m + 1 < MSGQ_BUFFER_MAX \<and>
      skip_nuls b ((p + (strlen_at b p + 1)) mod MSGQ_BUFFER_MAX) (strlen_at b p + 1) = Some (p + length m + 1, length m + 1)"
      using assms ms s skip_nuls_stop by (simp add: two_parts_def)
  }
  {
    assume "ms = []"
    then have pe: "p + (length m + 1) = e" using l by simp
    have "skip_nuls b (e mod MSGQ_BUFFER_MAX) (length m + 1) = Some (0, length m + 1 + (MSGQ_BUFFER_MAX - e))"
      by (rule skip_nuls_end) (use assms e in \<open>auto simp: two_parts_def\<close>)
    moreover have "length m + 1 + (MSGQ_BUFFER_MAX - e) = MSGQ_BUFFER_MAX - p" using pe e by simp
    ultimately show "skip_nuls b ((p + (strlen_at b p + 1)) mod MSGQ_BUFFER_MAX) (strlen_at b p + 1) = Some (0, MSGQ_BUFFER_MAX - p)"
      by (simp only: s pe)
  }
qed

lemma make_room_two_parts:
  assumes "two_parts b p ms1 e ms2 tp" and "tp + n < MSGQ_BUFFER_MAX"
  shows "\<exists>k p'. k \<le> length ms1 \<and> 
      make_room b n p (int (MSGQ_BUFFER_MAX - p) + int tp) =
        Some (p', if k < length ms1 then int (MSGQ_BUFFER_MAX - p') + int tp else int tp) \<and>
      (if k < length ms1 then two_parts b p' (drop k ms1) e ms2 tp \<and> tp + n < p' else p' = 0) \<and>
      (tp + n < p \<longrightarrow> k = 0)"
  using assms(1)
proof (induction ms1 arbitrary: p)
  case Nil
  then show ?case by (simp add: two_parts_def)
next
  case (Cons m ms)
  have pe: "p < e" "e \<le> MSGQ_BUFFER_MAX" using Cons.prems laid_head [of b p m ms e] by (auto simp: two_parts_def)
  let ?d = "int (MSGQ_BUFFER_MAX - p) + int tp"
  show ?case
  proof (cases "tp + n < p")
    case True
    then have "make_room b n p ?d = Some (p, ?d)" using pe by (intro make_room_done) auto
    then show ?thesis using True Cons.prems by (intro exI [of _ 0] exI [of _ p]) simp
  next
    case False
    have big: "int MSGQ_BUFFER_MAX \<le> ?d + int n" "?d + int n < 2 ^ 64"
      using False pe assms(2) MSGQ_MAX_bounds(2) by auto
    note step = make_room_more [OF big]
    show ?thesis
    proof (cases "ms = []")
      case True
      then have "make_room b n p ?d = make_room b n 0 (?d - int (MSGQ_BUFFER_MAX - p))"
        using step two_parts_first(2) [OF Cons.prems] by blast
      also have "\<dots> = Some (0, int tp)" using make_room_done [of "int tp" n b 0] assms(2) by simp
      finally show ?thesis using False True by (intro exI [of _ 1] exI [of _ 0]) simp
    next
      case ms: False
      let ?p = "p + length m + 1"
      have tp': "two_parts b ?p ms e ms2 tp" and lt: "?p < MSGQ_BUFFER_MAX"
        and sk: "skip_nuls b ((p + (strlen_at b p + 1)) mod MSGQ_BUFFER_MAX) (strlen_at b p + 1) = Some (?p, length m + 1)"
        using two_parts_first(1) [OF Cons.prems ms] by auto
      have "?d - int (length m + 1) = int (MSGQ_BUFFER_MAX - ?p) + int tp" using lt by simp
      then have eq: "make_room b n p ?d = make_room b n ?p (int (MSGQ_BUFFER_MAX - ?p) + int tp)"
        using step [OF sk] by (simp only:)
      obtain k p' where "k \<le> length ms" "make_room b n ?p (int (MSGQ_BUFFER_MAX - ?p) + int tp) =
        Some (p', if k < length ms then int (MSGQ_BUFFER_MAX - p') + int tp else int tp)"
        "if k < length ms then two_parts b p' (drop k ms) e ms2 tp \<and> tp + n < p' else p' = 0"
        using Cons.IH [OF tp'] by blast
      then show ?thesis using eq False by (intro exI [of _ "Suc k"] exI [of _ p']) (simp split: if_splits)
    qed
  qed
qed


lemma buf_zero_apply: "buf_zero b i j = (if i \<le> j \<and> j < MSGQ_BUFFER_MAX then 0 else b j)"
  by (simp add: buf_zero_def)

lemma strlen_at_nul: "b p = 0 \<Longrightarrow> p < MSGQ_BUFFER_MAX \<Longrightarrow> strlen_at b p = 0"
  using buf_read_append [of b p 1 "MSGQ_BUFFER_MAX - p - 1"]
  by (simp add: strlen_at_def buf_read_def cstr_def)

text \<open>Storing the message, in one piece and in two.\<close>

lemma commit_one:
  assumes "laid b p ms tp" and "m \<noteq> []" "no_nul m" and "tp + (length m + 1) < MSGQ_BUFFER_MAX"
    and "0 < tp \<longrightarrow> b 0 \<noteq> 0"
  shows "msgq_holds \<lparr>mbuf = buf_write b tp (m @ [0]), mtop = tp + (length m + 1), bottom = p,
    distance = int tp - int p + int (length m + 1)\<rparr> (ms @ [m])"
proof -
  have "buf_write b tp (m @ [0]) 0 \<noteq> 0"
  proof (cases "tp = 0")
    case True
    then have "buf_write b tp (m @ [0]) 0 = m ! 0" using assms(2) by (simp add: buf_write_apply nth_append)
    moreover have "m ! 0 \<in> set m" using assms(2) by simp
    ultimately show ?thesis using assms(3) by (auto simp: no_nul_def)
  qed (use assms(5) in \<open>simp add: buf_write_apply\<close>)
  then show ?thesis
    using laid_snoc [OF assms(1-3)] assms(4) by (simp add: msgq_holds_def)
qed

lemma commit_two:
  assumes "two_parts b p ms1 e ms2 tp" and "m \<noteq> []" "no_nul m" and "tp + (length m + 1) < p"
  shows "msgq_holds \<lparr>mbuf = buf_write b tp (m @ [0]), mtop = tp + (length m + 1), bottom = p,
    distance = int (MSGQ_BUFFER_MAX - p) + int tp + int (length m + 1)\<rparr> (ms1 @ ms2 @ [m])"
proof -
  let ?b = "buf_write b tp (m @ [0])"
  have l: "laid b p ms1 e" "e \<le> MSGQ_BUFFER_MAX" "ms1 \<noteq> []" "laid b 0 ms2 tp" "b 0 \<noteq> 0"
    using assms(1) by (auto simp: two_parts_def)
  obtain a as where ms1: "ms1 = a # as" using l(3) by (cases ms1) auto
  have pe: "p < e" using laid_head(3) l(1) ms1 by blast
  have keep: "?b i = b i" if "p \<le> i" for i using that assms(4) by (simp add: buf_write_apply)
  have zero: "?b 0 \<noteq> 0" using commit_one [OF l(4) assms(2,3)] pe l assms(4) by (auto simp: msgq_holds_def two_parts_def)
  have "two_parts ?b p ms1 e (ms2 @ [m]) (tp + (length m + 1))"
    unfolding two_parts_def
  proof (intro conjI)
    show "laid ?b p ms1 e" by (rule laid_cong [OF l(1)]) (simp add: keep)
    show "\<forall>i. e \<le> i \<and> i < MSGQ_BUFFER_MAX \<longrightarrow> ?b i = 0" using keep pe assms(1) by (auto simp: two_parts_def)
    show "laid ?b 0 (ms2 @ [m]) (tp + (length m + 1))" using laid_snoc [OF l(4) assms(2,3)] by simp
  qed (use l zero in auto)
  then show ?thesis
    unfolding msgq_holds_def using assms(4) pe l(2) by (intro conjI disjI2 exI [of _ ms1] exI [of _ e] exI [of _ "ms2 @ [m]"]) auto
qed

lemma push_two_parts:
  assumes "two_parts b p ms1 e ms2 tp" and "m \<noteq> []" "no_nul m" and "tp + (length m + 1) < MSGQ_BUFFER_MAX"
  shows "\<exists>k p' d'. make_room b (length m + 1) p (int (MSGQ_BUFFER_MAX - p) + int tp) = Some (p', d') \<and>
    msgq_holds \<lparr>mbuf = buf_write b tp (m @ [0]), mtop = tp + (length m + 1), bottom = p',
      distance = d' + int (length m + 1)\<rparr> (drop k (ms1 @ ms2) @ [m]) \<and> (tp + (length m + 1) < p \<longrightarrow> k = 0)"
proof -
  obtain k p' where k: "k \<le> length ms1" "make_room b (length m + 1) p (int (MSGQ_BUFFER_MAX - p) + int tp) =
        Some (p', if k < length ms1 then int (MSGQ_BUFFER_MAX - p') + int tp else int tp)"
      "if k < length ms1 then two_parts b p' (drop k ms1) e ms2 tp \<and> tp + (length m + 1) < p' else p' = 0"
      "tp + (length m + 1) < p \<longrightarrow> k = 0"
    using make_room_two_parts [OF assms(1,4)] by blast
  show ?thesis
  proof (cases "k < length ms1")
    case True
    then show ?thesis using k commit_two [of b p' "drop k ms1" e ms2 tp m] assms(2,3)
      by (intro exI [of _ k] exI [of _ p'] exI [of _ "int (MSGQ_BUFFER_MAX - p') + int tp"]) simp
  next
    case False
    then have "k = length ms1" "p' = 0" using k by auto
    then show ?thesis using k False commit_one [of b 0 ms2 tp m] assms
      by (intro exI [of _ k] exI [of _ p'] exI [of _ "int tp"]) (auto simp: two_parts_def)
  qed
qed

lemma msgq_strpush_unfold:
  assumes "m \<noteq> []" "no_nul m" "length m + 1 < MSGQ_BUFFER_MAX"
    and "(b, tp, d) = (if mtop q + (length m + 1) \<ge> MSGQ_BUFFER_MAX
               then (buf_zero (mbuf q) (mtop q), 0, distance q + int (MSGQ_BUFFER_MAX - mtop q))
               else (mbuf q, mtop q, distance q))"
    and "make_room b (length m + 1) (bottom q) d = Some (p', d')"
  shows "msgq_strpush (m @ [0]) (length m + 1) q = Some \<lparr>mbuf = buf_write b tp (m @ [0]), mtop = tp + (length m + 1), bottom = p',
      distance = d' + int (length m + 1)\<rparr>"
proof -
  have "tp + (length m + 1) < MSGQ_BUFFER_MAX" using assms(3,4) by (auto split: if_splits)
  then show ?thesis
    using assms by (cases "mtop q + (length m + 1) \<ge> MSGQ_BUFFER_MAX") (auto simp: msgq_strpush_def Let_def)
qed


lemma push_from_two:
  assumes "two_parts b p ms1 e ms2 tp" and "m \<noteq> []" "no_nul m" and "length m + 1 < MSGQ_BUFFER_MAX"
    and "(b, tp, d) = (if mtop q + (length m + 1) \<ge> MSGQ_BUFFER_MAX
               then (buf_zero (mbuf q) (mtop q), 0, distance q + int (MSGQ_BUFFER_MAX - mtop q))
               else (mbuf q, mtop q, distance q))"
    and "make_room b (length m + 1) (bottom q) d =
         make_room b (length m + 1) p (int (MSGQ_BUFFER_MAX - p) + int tp)"
  shows "\<exists>k q'. msgq_strpush (m @ [0]) (length m + 1) q = Some q' \<and>
    msgq_holds q' (drop k (ms1 @ ms2) @ [m]) \<and> (tp + (length m + 1) < p \<longrightarrow> k = 0)"
proof -
  have "tp + (length m + 1) < MSGQ_BUFFER_MAX" using assms(4,5) by (auto split: if_splits)
  then obtain k p' d' where
    r: "make_room b (length m + 1) p (int (MSGQ_BUFFER_MAX - p) + int tp) = Some (p', d')"
    and h: "msgq_holds \<lparr>mbuf = buf_write b tp (m @ [0]), mtop = tp + (length m + 1), bottom = p',
      distance = d' + int (length m + 1)\<rparr> (drop k (ms1 @ ms2) @ [m])" "tp + (length m + 1) < p \<longrightarrow> k = 0"
    using push_two_parts [OF assms(1-3)] by blast
  show ?thesis
    using msgq_strpush_unfold [OF assms(2-5)] h r assms(6) by (intro exI [of _ k]) auto
qed

text \<open>The wrap-around: the rest of the buffer is cleared and what lay there is skipped.\<close>

lemma push_wrap_one:
  assumes "laid b p ms tp" "ms \<noteq> []" "b 0 \<noteq> 0" "0 < tp" "tp < MSGQ_BUFFER_MAX"
  shows "two_parts (buf_zero b tp) p ms tp [] 0"
  unfolding two_parts_def
proof (intro conjI)
  show "laid (buf_zero b tp) p ms tp" by (rule laid_cong [OF assms(1)]) (simp add: buf_zero_apply)
qed (use assms in \<open>auto simp: buf_zero_apply\<close>)

lemma push_wrap_two:
  assumes "two_parts b p ms1 e ms2 tp" "ms2 \<noteq> []" "tp < p" "n < MSGQ_BUFFER_MAX" "MSGQ_BUFFER_MAX \<le> tp + n"
  shows "make_room (buf_zero b tp) n p (int (MSGQ_BUFFER_MAX - p) + int tp + int (MSGQ_BUFFER_MAX - tp)) =
         make_room (buf_zero b tp) n 0 (int (MSGQ_BUFFER_MAX - 0) + int 0)"
    and "two_parts (buf_zero b tp) 0 ms2 tp [] 0"
proof -
  obtain m2 ms2' where ms2: "ms2 = m2 # ms2'" using assms(2) by (cases ms2) auto
  obtain m1 ms1' where ms1: "ms1 = m1 # ms1'" using assms(1) by (cases ms1) (auto simp: two_parts_def)
  have l: "laid b 0 ms2 tp" "b 0 \<noteq> 0" "laid b p ms1 e" "e \<le> MSGQ_BUFFER_MAX"
    using assms(1) by (auto simp: two_parts_def)
  have tp: "0 < tp" using laid_head(3) l(1) ms2 by blast
  have p: "p < MSGQ_BUFFER_MAX" using laid_head(3) [of b p m1 ms1' e] l ms1 by simp
  show "two_parts (buf_zero b tp) 0 ms2 tp [] 0"
    using push_wrap_one [OF l(1) assms(2) l(2) tp] p assms(3) by simp
  let ?b = "buf_zero b tp"
  have s: "strlen_at ?b p = 0" using p assms(3) by (intro strlen_at_nul) (auto simp: buf_zero_apply)
  have "skip_nuls ?b ((p + 1) mod MSGQ_BUFFER_MAX) 1 = Some (0, 1 + (MSGQ_BUFFER_MAX - (p + 1)))"
    by (rule skip_nuls_end) (use p assms(3) tp l(2) in \<open>auto simp: buf_zero_apply\<close>)
  then have sk: "skip_nuls ?b ((p + (strlen_at ?b p + 1)) mod MSGQ_BUFFER_MAX) (strlen_at ?b p + 1) = Some (0, MSGQ_BUFFER_MAX - p)"
    using p s by simp
  have d: "int (MSGQ_BUFFER_MAX - p) + int tp + int (MSGQ_BUFFER_MAX - tp) = int (MSGQ_BUFFER_MAX - p) + int MSGQ_BUFFER_MAX"
    using assms(3) p by simp
  show "make_room ?b n p (int (MSGQ_BUFFER_MAX - p) + int tp + int (MSGQ_BUFFER_MAX - tp)) =
         make_room ?b n 0 (int (MSGQ_BUFFER_MAX - 0) + int 0)"
    unfolding d using make_room_more [OF _ _ sk, of "int (MSGQ_BUFFER_MAX - p) + int MSGQ_BUFFER_MAX" n]
      assms(4) MSGQ_MAX_bounds(2) by simp
qed

lemma msgq_strpush_step:
  assumes "msgq_holds q ms" and "m \<noteq> []" "no_nul m" and "length m + 1 < MSGQ_BUFFER_MAX"
  shows "\<exists>k q'. msgq_strpush (m @ [0]) (length m + 1) q = Some q' \<and> msgq_holds q' (drop k ms @ [m]) \<and>
    (mtop q + (length m + 1) < MSGQ_BUFFER_MAX \<and> distance q + int (length m + 1) < int MSGQ_BUFFER_MAX \<longrightarrow> k = 0)"
proof -
  let ?n = "length m + 1" and ?N = MSGQ_BUFFER_MAX
  note push = msgq_strpush_unfold [OF assms(2-4)]
  have tN: "mtop q < ?N" using assms(1) by (simp add: msgq_holds_def)
  consider (one) "laid (mbuf q) (bottom q) ms (mtop q)" "distance q = int (mtop q) - int (bottom q)"
      "0 < mtop q \<longrightarrow> ms \<noteq> [] \<and> mbuf q 0 \<noteq> 0"
    | (two) ms1 e ms2 where "ms = ms1 @ ms2" "ms2 \<noteq> []" "two_parts (mbuf q) (bottom q) ms1 e ms2 (mtop q)"
      "mtop q < bottom q" "distance q = int (?N - bottom q) + int (mtop q)"
    using assms(1) by (auto simp: msgq_holds_def)
  then show ?thesis
  proof cases
    case one
    have le: "bottom q \<le> mtop q" using laid_le [OF one(1)] .
    show ?thesis
    proof (cases "mtop q + ?n < ?N")
      case True
      then have "make_room (mbuf q) ?n (bottom q) (distance q) = Some (bottom q, distance q)"
        using one(2) le by (intro make_room_done) auto
      then show ?thesis
        using push [of "mbuf q" "mtop q" "distance q" q] True commit_one [OF one(1) assms(2,3) True] one(2,3)
        by (intro exI [of _ 0]) (auto simp: not_le)
    next
      case False
      have pos: "0 < mtop q" using False assms(4) by simp
      have tp: "two_parts (buf_zero (mbuf q) (mtop q)) (bottom q) ms (mtop q) [] 0"
        using push_wrap_one [OF one(1)] one(3) pos tN by simp
      have "distance q + int (?N - mtop q) = int (?N - bottom q) + int 0" using one(2) le tN by simp
      then show ?thesis
        using push_from_two [OF tp assms(2-4), of "distance q + int (?N - mtop q)" q] False by (auto simp: not_less)
    qed
  next
    case two
    show ?thesis
    proof (cases "mtop q + ?n < ?N")
      case True
      then have "\<exists>k q'. msgq_strpush (m @ [0]) ?n q = Some q' \<and> msgq_holds q' (drop k ms @ [m]) \<and>
          (mtop q + ?n < bottom q \<longrightarrow> k = 0)"
        using push_from_two [OF two(3) assms(2-4), of "distance q" q] two(1,5) by (simp add: not_le)
      moreover have "mtop q + ?n < bottom q" if "distance q + int ?n < int ?N"
        using that two(5) by (cases "bottom q \<le> ?N") auto
      ultimately show ?thesis by blast
    next
      case False
      have wrap: "make_room (buf_zero (mbuf q) (mtop q)) ?n (bottom q) (distance q + int (?N - mtop q)) =
         make_room (buf_zero (mbuf q) (mtop q)) ?n 0 (int (?N - 0) + int 0)"
        "two_parts (buf_zero (mbuf q) (mtop q)) 0 ms2 (mtop q) [] 0"
        using push_wrap_two [OF two(3,2,4) assms(4)] False two(5) by auto
      then obtain k q' where "msgq_strpush (m @ [0]) ?n q = Some q'" "msgq_holds q' (drop k (ms2 @ []) @ [m])"
        using push_from_two [OF wrap(2) assms(2-4), of "distance q + int (?N - mtop q)" q] False
        by (auto simp: not_less)
      then show ?thesis using two(1) False by (intro exI [of _ "length ms1 + k"]) auto
    qed
  qed
qed


text \<open>What the tool prints.\<close>

lemma print_loop_add:
  "p < MSGQ_BUFFER_MAX \<Longrightarrow>
   msgq_print_loop b p (n + k) = msgq_print_loop b p n @ msgq_print_loop b ((p + n) mod MSGQ_BUFFER_MAX) k"
  by (induction n arbitrary: p) (auto simp: MSGQ_MAX_bounds mod_simps)

lemma print_loop_read: "p + n \<le> MSGQ_BUFFER_MAX \<Longrightarrow> msgq_print_loop b p n = buf_read b p n"
proof (induction n arbitrary: p)
  case (Suc n)
  have "buf_read b p (Suc n) = b p # buf_read b (p + 1) n"
    by (simp add: buf_read_def upt_conv_Cons del: upt_Suc)
  moreover have "msgq_print_loop b ((p + 1) mod MSGQ_BUFFER_MAX) n = buf_read b (p + 1) n"
  proof (cases "p + 1 < MSGQ_BUFFER_MAX")
    case False
    then have "n = 0" using Suc.prems by simp
    then show ?thesis by (simp add: buf_read_def)
  qed (use Suc in simp)
  ultimately show ?case by simp
qed (simp add: buf_read_def)

lemma laid_text: "laid b p ms e \<Longrightarrow> filter (\<lambda>x. x \<noteq> 0) (buf_read b p (e - p)) = concat ms"
proof (induction ms arbitrary: p)
  case (Cons m ms)
  have "p + length m + 1 \<le> e" using laid_head(2) [OF Cons.prems] .
  then have e: "e - p = (length m + 1) + (e - (p + length m + 1))" by simp
  have "buf_read b p (length m + 1) = m @ [0]" using Cons.prems by simp
  then have "buf_read b p (e - p) = (m @ [0]) @ buf_read b (p + length m + 1) (e - (p + length m + 1))"
    by (subst e, subst buf_read_append) (simp only: add.assoc)
  moreover have "filter (\<lambda>x. x \<noteq> 0) m = m" using Cons.prems by (auto simp: no_nul_def filter_id_conv)
  ultimately show ?case using Cons by simp
qed (simp add: buf_read_def)

lemma msgq_print_messages:
  assumes "msgq_holds q ms"
  shows "filter (\<lambda>x. x \<noteq> 0) (msgq_print q) = concat ms"
proof -
  let ?N = MSGQ_BUFFER_MAX
  have tN: "mtop q < ?N" using assms by (simp add: msgq_holds_def)
  consider (one) "laid (mbuf q) (bottom q) ms (mtop q)" "distance q = int (mtop q) - int (bottom q)"
    | (two) ms1 e ms2 where "ms = ms1 @ ms2" "ms2 \<noteq> []" "two_parts (mbuf q) (bottom q) ms1 e ms2 (mtop q)"
      "mtop q < bottom q" "distance q = int (?N - bottom q) + int (mtop q)"
    using assms by (auto simp: msgq_holds_def)
  then show ?thesis
  proof cases
    case one
    have "bottom q \<le> mtop q" using laid_le [OF one(1)] .
    then show ?thesis using one tN laid_text [OF one(1)] by (simp add: msgq_print_def print_loop_read nat_diff_distrib)
  next
    case two
    have l: "laid (mbuf q) (bottom q) ms1 e" "e \<le> ?N" "\<forall>i. e \<le> i \<and> i < ?N \<longrightarrow> mbuf q i = 0" "laid (mbuf q) 0 ms2 (mtop q)" "ms1 \<noteq> []"
      using two(3) by (auto simp: two_parts_def)
    have be: "bottom q < e" using l(1,5) laid_head(3) by (cases ms1) auto
    have d: "nat (distance q) = (?N - bottom q) + mtop q" using two(5) by simp
    have "msgq_print q = buf_read (mbuf q) (bottom q) (?N - bottom q) @ buf_read (mbuf q) 0 (mtop q)"
      unfolding msgq_print_def d using be l(2) tN by (subst print_loop_add) (simp_all add: print_loop_read)
    moreover have "?N - bottom q = (e - bottom q) + (?N - e)" "bottom q + (e - bottom q) = e" using be l(2) by simp_all
    then have "buf_read (mbuf q) (bottom q) (?N - bottom q) =
        buf_read (mbuf q) (bottom q) (e - bottom q) @ buf_read (mbuf q) e (?N - e)"
      by (simp only: buf_read_append)
    moreover have "filter (\<lambda>x. x \<noteq> 0) (buf_read (mbuf q) e (?N - e)) = []"
      using l(3) by (auto simp: filter_empty_conv buf_read_def)
    ultimately show ?thesis
      using laid_text [OF l(1)] laid_text [OF l(4)] two(1) by simp
  qed
qed

lemma skip_nuls_all_zero:
  assumes "\<And>i. b i = 0"
  shows "skip_nuls b p k = None"
proof (rule ccontr)
  assume "skip_nuls b p k \<noteq> None"
  then obtain r where ret: "skip_nuls b p k = Some r" by auto
  have "\<not> (\<forall>i. b i = 0)"
    by (rule skip_nuls.raw_induct [where P = "\<lambda>b p k r. \<not> (\<forall>i. b i = 0)", OF _ ret]) (auto split: if_splits)
  then show False using assms by simp
qed

text \<open>
  The longest message the length check admits makes an empty queue loop: with
  \<open>msg_size = MSGQ_BUFFER_MAX\<close> the whole buffer is cleared, and the loop that skips NUL bytes finds none
  to stop at.
\<close>

theorem msgq_strpush_hangs:
  assumes "cstr msg \<noteq> []"
  shows "msgq_strpush msg MSGQ_BUFFER_MAX msgq_init = None"
proof -
  have z: "buf_zero (\<lambda>_. 0) 0 = (\<lambda>_. 0)" by (rule ext) (simp add: buf_zero_def)
  have "make_room (\<lambda>_. 0) MSGQ_BUFFER_MAX 0 (int MSGQ_BUFFER_MAX) = None"
    using MSGQ_MAX_bounds by (subst make_room.simps) (simp add: Let_def skip_nuls_all_zero)
  then show ?thesis using assms by (simp add: msgq_strpush_def msgq_init_def z Let_def)
qed

theorem msgq_strpush_hangs_witness: "msgq_strpush (str ''a'') MSGQ_BUFFER_MAX msgq_init = None"
  by (rule msgq_strpush_hangs) (simp add: str_def cstr_def)

subsection \<open>A log that forgets its oldest entries\<close>

text \<open>
  The contract of the queue: storing an entry that fits ends, and leaves the old entries without some
  of the oldest, then the new one; an entry that does not fit is left out. What follows from it for
  a whole sequence of entries is proved once in the locale.
\<close>

locale bounded_log =
  fixes keeps :: "'q \<Rightarrow> 'm list \<Rightarrow> bool"
    and store :: "'m \<Rightarrow> 'q \<Rightarrow> 'q option"
    and admissible :: "'m \<Rightarrow> bool"
    and fits :: "'m \<Rightarrow> bool"
  assumes store_fits:
      "keeps q ms \<Longrightarrow> admissible m \<Longrightarrow> fits m \<Longrightarrow>
       \<exists>k q'. store m q = Some q' \<and> keeps q' (drop k ms @ [m])"
    and store_skips: "keeps q ms \<Longrightarrow> admissible m \<Longrightarrow> \<not> fits m \<Longrightarrow> store m q = Some q"
begin

primrec store_all :: "'m list \<Rightarrow> 'q \<Rightarrow> 'q option" where
  "store_all [] q = Some q"
| "store_all (m # ms) q = (case store m q of None \<Rightarrow> None | Some q \<Rightarrow> store_all ms q)"

lemma store_all_suffix:
  assumes "keeps q ms" and "\<forall>m \<in> set xs. admissible m"
  shows "\<exists>k q'. store_all xs q = Some q' \<and> keeps q' (drop k (ms @ filter fits xs)) \<and>
    (ms @ filter fits xs \<noteq> [] \<longrightarrow> k < length (ms @ filter fits xs))"
  using assms
proof (induction xs arbitrary: q ms)
  case Nil
  then show ?case by (intro exI [of _ 0] exI [of _ q]) simp
next
  case (Cons x xs)
  show ?case
  proof (cases "fits x")
    case True
    then obtain j q1 where q1: "store x q = Some q1" "keeps q1 (drop j ms @ [x])"
      using store_fits Cons.prems by force
    then obtain k q' where k: "store_all xs q1 = Some q'"
      "keeps q' (drop k ((drop j ms @ [x]) @ filter fits xs))"
      "k < length ((drop j ms @ [x]) @ filter fits xs)"
      using Cons.IH [OF q1(2)] Cons.prems(2) by auto
    let ?j = "min j (length ms)"
    have "(drop j ms @ [x]) @ filter fits xs = drop ?j (ms @ x # filter fits xs)" by (simp add: min_def)
    then have "drop k ((drop j ms @ [x]) @ filter fits xs) = drop (k + ?j) (ms @ x # filter fits xs)" by simp
    moreover have "k + ?j < length (ms @ x # filter fits xs)" using k(3) by auto
    ultimately show ?thesis using k(1,2) q1 True by (intro exI [of _ "k + ?j"]) auto
  next
    case False
    then show ?thesis using store_skips Cons by force
  qed
qed

end

definition msgq_admissible :: "bytes \<Rightarrow> bool" where
  "msgq_admissible s \<longleftrightarrow> no_nul s \<and> length s + 1 \<noteq> MSGQ_BUFFER_MAX"

definition msgq_fits :: "bytes \<Rightarrow> bool" where
  "msgq_fits s \<longleftrightarrow> s \<noteq> [] \<and> length s + 1 < MSGQ_BUFFER_MAX"

interpretation msgq: bounded_log msgq_holds msgq_push msgq_admissible msgq_fits
proof
  fix q ms m
  assume h: "msgq_holds q ms" and a: "msgq_admissible m"
  {
    assume f: "msgq_fits m"
    then have "take (MSGQ_BUFFER_MAX - 1) m = m" by (intro take_all) (auto simp: msgq_fits_def)
    then have "msgq_push m q = msgq_strpush (m @ [0]) (length m + 1) q" by (simp add: msgq_push_def)
    then show "\<exists>k q'. msgq_push m q = Some q' \<and> msgq_holds q' (drop k ms @ [m])"
      using msgq_strpush_step [OF h, of m] a f by (auto simp: msgq_admissible_def msgq_fits_def)
  }
  {
    assume "\<not> msgq_fits m"
    then have "m = [] \<or> length m + 1 > MSGQ_BUFFER_MAX" using a by (auto simp: msgq_fits_def msgq_admissible_def)
    then show "msgq_push m q = Some q" by (auto simp: msgq_push_def msgq_strpush_def cstr_def)
  }
qed

primrec msgq_push_all :: "bytes list \<Rightarrow> msg_queue \<Rightarrow> msg_queue option" where
  "msgq_push_all [] q = Some q"
| "msgq_push_all (s # ss) q = (case msgq_push s q of None \<Rightarrow> None | Some q \<Rightarrow> msgq_push_all ss q)"

lemma msgq_push_all_eq: "msgq_push_all ss q = msgq.store_all ss q"
  by (induction ss arbitrary: q) (auto split: option.splits)

lemma msgq_init_holds: "msgq_holds msgq_init []"
  by (simp add: msgq_holds_def msgq_init_def MSGQ_MAX_bounds)

text \<open>
  Claim C26. The message log as a user sees it. After any sequence of messages, empty and oversized
  ones included, every push has returned, and \<open>ulp messages\<close> prints an uninterrupted run of the newest
  messages that fit the buffer, in the order they were pushed, the last one always among them.
\<close>

theorem msgq_log_suffix:
  assumes "\<forall>s \<in> set ss. no_nul s \<and> length s + 1 \<noteq> MSGQ_BUFFER_MAX"
  shows "\<exists>k q. msgq_push_all ss msgq_init = Some q \<and>
    filter (\<lambda>x. x \<noteq> 0) (msgq_print q) = concat (drop k (filter msgq_fits ss)) \<and>
    (filter msgq_fits ss \<noteq> [] \<longrightarrow> k < length (filter msgq_fits ss))"
proof -
  have "\<forall>s \<in> set ss. msgq_admissible s" using assms by (simp add: msgq_admissible_def)
  then show ?thesis
    using msgq.store_all_suffix [OF msgq_init_holds] msgq_print_messages msgq_push_all_eq by fastforce
qed

theorem msgq_log_suffix_witness:
  "\<exists>k q. msgq_push_all [str ''a'', [], str ''b''] msgq_init = Some q \<and>
    filter (\<lambda>x. x \<noteq> 0) (msgq_print q) = concat (drop k [str ''a'', str ''b'']) \<and> k < 2"
proof -
  let ?ss = "[str ''a'', [], str ''b'']"
  have f: "filter msgq_fits ?ss = [str ''a'', str ''b'']"
    by (simp add: msgq_fits_def str_def MSGQ_BUFFER_MAX_def)
  have "\<forall>s \<in> set ?ss. no_nul s \<and> length s + 1 \<noteq> MSGQ_BUFFER_MAX"
    by (simp add: no_nul_def str_def MSGQ_BUFFER_MAX_def)
  from msgq_log_suffix [OF this] show ?thesis
    unfolding f by (simp only: list.size) (auto simp: numeral_2_eq_2)
qed

end
