(* ===== verification/Extract.thy ===== *)
theory Extract
  imports Ulp_Common Ulp_Metadata "HOL-Library.Monad_Syntax"
begin

text \<open>
  What the tool knows of a library, \<open>src/tools/extract.c\<close>: its name, build id and symbols, collected from an ELF file or
  read back from the JSON file of the \<open>extract\<close> command. The functions of \<open>src/tools/packer.c\<close> and \<open>src/tools/elf-extra.c\<close>
  that find the build id and the symbol tables are modelled with them.

  libelf and json-c are parameters. An ELF file is the list of its sections as libelf shows them, with
  the symbols \<open>gelf_getsym\<close> and the notes \<open>gelf_getnote\<close> yield; a JSON file is a value, and the record \<open>jsonc\<close> has the
  two directions between values and text, and what the accessors make of a value of another type than the one
  asked for. \<open>None\<close> as a result of a function that returns an object is the null pointer; a crash is
  an outer \<open>None\<close>.
\<close>

subsection \<open>Libraries\<close>

definition BUILDID_LEN :: nat where
  "BUILDID_LEN = 20"

record symbol =
  sym_name :: bytes
  sym_offset :: u64
  sym_size :: u32
  sym_info :: u8
  sym_other :: u8

record ulp_so_info =
  so_name :: bytes
  so_buildid :: bytes
  so_symbols :: "symbol list"

fun get_symbol_with_name :: "symbol list \<Rightarrow> bytes \<Rightarrow> symbol option" where
  "get_symbol_with_name [] name = None"
| "get_symbol_with_name (s # ss) name = (if sym_name s = name then Some s else get_symbol_with_name ss name)"

fun symbols_equal :: "symbol list \<Rightarrow> symbol list \<Rightarrow> bool" where
  "symbols_equal (a # as) (b # bs) =
     (if sym_name a \<noteq> sym_name b \<or> sym_offset a \<noteq> sym_offset b \<or> sym_size a \<noteq> sym_size b \<or>
         sym_info a \<noteq> sym_info b \<or> sym_other a \<noteq> sym_other b
      then False else symbols_equal as bs)"
| "symbols_equal [] [] = True"
| "symbols_equal as bs = False"

definition so_info_equal :: "ulp_so_info \<Rightarrow> ulp_so_info \<Rightarrow> bool" where
  "so_info_equal a b =
     (if so_name a \<noteq> so_name b then False
      else if so_buildid a \<noteq> so_buildid b then False
      else symbols_equal (so_symbols a) (so_symbols b))"

text \<open>Build ids that differ are only reported.\<close>

definition merge_ulp_so_infos :: "ulp_so_info \<Rightarrow> ulp_so_info \<Rightarrow> ulp_so_info" where
  "merge_ulp_so_infos a b = a\<lparr>so_symbols := so_symbols a @ so_symbols b\<rparr>"

subsection \<open>ELF files\<close>

record elf_note =
  n_type :: u32
  n_desc :: bytes

datatype sh_type = SHT_SYMTAB | SHT_DYNSYM | SHT_OTHER

text \<open>
  A symbol is an entry of the table with the name \<open>elf_strptr\<close> finds. The notes are what \<open>gelf_getnote\<close>
  returns at an offset.
\<close>

record elf_section =
  sec_name :: bytes
  sec_type :: sh_type
  sec_data_ok :: bool
  sec_syms :: "symbol list"
  note_at :: "nat \<Rightarrow> elf_note option"

fun get_elfscn_by_name :: "elf_section list \<Rightarrow> bytes \<Rightarrow> elf_section option" where
  "get_elfscn_by_name [] name = None"
| "get_elfscn_by_name (s # ss) name = (if sec_name s = name then Some s else get_elfscn_by_name ss name)"

fun get_elf_section :: "elf_section list \<Rightarrow> sh_type \<Rightarrow> elf_section option" where
  "get_elf_section [] t = None"
| "get_elf_section (s # ss) t = (if sec_type s = t then Some s else get_elf_section ss t)"

definition get_dynsym :: "elf_section list \<Rightarrow> elf_section option" where
  "get_dynsym elf = get_elf_section elf SHT_DYNSYM"

definition get_symtab :: "elf_section list \<Rightarrow> elf_section option" where
  "get_symtab elf = get_elf_section elf SHT_SYMTAB"

definition get_build_id_note :: "elf_section list \<Rightarrow> elf_section option" where
  "get_build_id_note elf = get_elfscn_by_name elf (str ''.note.gnu.build-id'')"

text \<open>
  The loop over the notes: the comparison in \<open>n = gelf_getnote(...) > 0\<close> binds tighter than the assignment, so the next
  offset is 1, whatever the size of the note. The second component of the result is whether the loop
  ends: after offset 1 it looks at the same place for ever.
\<close>

definition find_build_id_note :: "(nat \<Rightarrow> elf_note option) \<Rightarrow> elf_note option option" where
  "find_build_id_note note =
     (case note 0 of
        None \<Rightarrow> Some None
      | Some x \<Rightarrow>
          if n_type x = 3 then Some (Some x)
          else case note 1 of
            None \<Rightarrow> Some None
          | Some y \<Rightarrow> if n_type y = 3 then Some (Some y) else None)"

text \<open>
  \<open>get_build_id\<close> and \<open>parse_build_id\<close>: the contents of the note, or an error. \<open>get_elf_buildid\<close> copies them to a buffer of
  \<open>BUILDID_LEN\<close> bytes before it asserts the length.
\<close>

definition get_build_id :: "elf_section \<Rightarrow> bytes option option" where
  "get_build_id s =
     (if \<not> sec_data_ok s then Some None else map_option (map_option n_desc) (find_build_id_note (note_at s)))"

definition get_elf_buildid :: "elf_section list \<Rightarrow> bytes option option" where
  "get_elf_buildid elf =
     (case get_build_id_note elf of
        None \<Rightarrow> Some None
      | Some s \<Rightarrow> do {
          r \<leftarrow> get_build_id s;
          case r of None \<Rightarrow> Some None | Some b \<Rightarrow> if length b \<noteq> BUILDID_LEN then None else Some (Some b) })"

fun get_list_of_symbols_in_section :: "symbol list \<Rightarrow> symbol list \<Rightarrow> symbol list" where
  "get_list_of_symbols_in_section [] symbol_head = symbol_head"
| "get_list_of_symbols_in_section (s # ss) symbol_head =
     get_list_of_symbols_in_section ss (if sym_name s = [] then symbol_head else s # symbol_head)"

definition list_section :: "elf_section option \<Rightarrow> symbol list" where
  "list_section s = (case s of None \<Rightarrow> [] | Some s \<Rightarrow> if \<not> sec_data_ok s then [] else get_list_of_symbols_in_section (sec_syms s) [])"

definition build_symbols_list :: "elf_section list \<Rightarrow> symbol list" where
  "build_symbols_list elf = list_section (get_dynsym elf) @ list_section (get_symtab elf)"

text \<open>A file that cannot be loaded is a null handle, in which libelf finds no section.\<close>

definition parse_so_elf :: "(bytes \<Rightarrow> elf_section list option) \<Rightarrow> bool \<Rightarrow> bytes \<Rightarrow> ulp_so_info option option" where
  "parse_so_elf load_elf alloc_ok target_path =
     (if \<not> alloc_ok then Some None
      else case load_elf target_path of
        None \<Rightarrow> Some None
      | Some elf \<Rightarrow> do {
          b \<leftarrow> get_elf_buildid elf;
          Some (map_option (\<lambda>b. \<lparr>so_name = get_basename target_path, so_buildid = b, so_symbols = build_symbols_list elf\<rparr>) b) })"

subsection \<open>JSON files\<close>

datatype json = JString bytes | JInt int | JArray "json list" | JObject "(string \<times> json) list" | JOther bytes

record jsonc =
  to_text :: "json \<Rightarrow> bytes"
  of_text :: "bytes \<Rightarrow> json option"
  coerce_int :: "json \<Rightarrow> int"
  coerce_string :: "json \<Rightarrow> bytes option"
  length_aborts :: bool
  scan_val :: "bytes \<Rightarrow> u8"

text \<open>\<open>json_object_new_int\<close> takes a 32-bit integer; \<open>json_object_get_int\<close> returns one, cut off at its limits.\<close>

definition JINT :: "u64 \<Rightarrow> json" where
  "JINT x = JInt (sint (ucast x :: 32 word))"

definition json_get_int :: "jsonc \<Rightarrow> json \<Rightarrow> int" where
  "json_get_int c j = (case j of JInt i \<Rightarrow> max (- (2 ^ 31)) (min (2 ^ 31 - 1) i) | _ \<Rightarrow> coerce_int c j)"

definition json_get_string :: "jsonc \<Rightarrow> json \<Rightarrow> bytes option" where
  "json_get_string c j = (case j of JString s \<Rightarrow> Some s | _ \<Rightarrow> coerce_string c j)"

definition json_get :: "json \<Rightarrow> string \<Rightarrow> json option" where
  "json_get j key = (case j of JObject kvs \<Rightarrow> map_of kvs key | _ \<Rightarrow> None)"

definition get_json_symbol :: "symbol \<Rightarrow> json" where
  "get_json_symbol s = JObject [(''name'', JString (sym_name s)), (''offset'', JINT (sym_offset s)),
     (''size'', JINT (ucast (sym_size s))), (''st_info'', JINT (ucast (sym_info s))), (''st_other'', JINT (ucast (sym_other s)))]"

definition so_info_json :: "ulp_so_info \<Rightarrow> json" where
  "so_info_json info = JObject [(''library'', JObject
     [(''name'', JString (so_name info)), (''buildid'', JString (buildid_to_string (so_buildid info))),
      (''symbols'', JArray (map get_json_symbol (so_symbols info)))])]"

definition write_ulp_so_info_json :: "jsonc \<Rightarrow> ulp_so_info \<Rightarrow> bytes" where
  "write_ulp_so_info_json c info = to_text c (so_info_json info)"

text \<open>Two hexadecimal digits; what \<open>sscanf\<close> leaves in \<open>val\<close> for any other text is a parameter.\<close>

definition sscanf_02x :: "jsonc \<Rightarrow> bytes \<Rightarrow> u8" where
  "sscanf_02x c s =
     (case s of
        x # y # _ \<Rightarrow> (case (hex_val x, hex_val y) of (Some a, Some b) \<Rightarrow> of_nat (16 * a + b) | _ \<Rightarrow> scan_val c s)
      | _ \<Rightarrow> scan_val c s)"

definition str_to_buildid :: "jsonc \<Rightarrow> bytes \<Rightarrow> bytes option option" where
  "str_to_buildid c s =
     (if length s < BUILDID_LEN then Some None
      else if length s < 2 * (BUILDID_LEN - 1) then None
      else Some (Some (map (\<lambda>i. sscanf_02x c (drop (2 * i) s)) [0..<BUILDID_LEN])))"

text \<open>A missing member is a null pointer, for which \<open>json_object_get_int\<close> returns 0 and \<open>strdup\<close> of the string crashes.\<close>

definition get_int_member :: "jsonc \<Rightarrow> json \<Rightarrow> string \<Rightarrow> int" where
  "get_int_member c j key = (case json_get j key of None \<Rightarrow> 0 | Some v \<Rightarrow> json_get_int c v)"

definition parse_symbol_json :: "jsonc \<Rightarrow> json \<Rightarrow> symbol option" where
  "parse_symbol_json c obj = do {
     jname \<leftarrow> json_get obj ''name'';
     name \<leftarrow> json_get_string c jname;
     Some \<lparr>sym_name = name, sym_offset = of_int (get_int_member c obj ''offset''), sym_size = of_int (get_int_member c obj ''size''),
       sym_info = of_int (get_int_member c obj ''st_info''), sym_other = of_int (get_int_member c obj ''st_other'')\<rparr> }"

fun parse_symbols_loop :: "jsonc \<Rightarrow> json list \<Rightarrow> symbol list option" where
  "parse_symbols_loop c [] = Some []"
| "parse_symbols_loop c (j # js) = do { s \<leftarrow> parse_symbol_json c j; ss \<leftarrow> parse_symbols_loop c js; Some (s # ss) }"

text \<open>For a value that is no array the length is not defined; json-c may abort, and otherwise the list is empty.\<close>

definition parse_symbols_json :: "jsonc \<Rightarrow> json option \<Rightarrow> symbol list option" where
  "parse_symbols_json c symbol_array = (case symbol_array of Some (JArray js) \<Rightarrow> parse_symbols_loop c js
     | _ \<Rightarrow> if length_aborts c then None else Some [])"

definition parse_so_json :: "jsonc \<Rightarrow> bytes \<Rightarrow> ulp_so_info option option" where
  "parse_so_json c contents =
     (case of_text c contents of
        None \<Rightarrow> Some None
      | Some root \<Rightarrow>
          (case json_get root ''library'' of
             None \<Rightarrow> Some None
           | Some library \<Rightarrow>
               (case json_get library ''name'' of
                  None \<Rightarrow> Some None
                | Some name \<Rightarrow>
                    (case json_get library ''buildid'' of
                       None \<Rightarrow> Some None
                     | Some buildid \<Rightarrow> do {
                         nm \<leftarrow> json_get_string c name;
                         bs \<leftarrow> json_get_string c buildid;
                         b \<leftarrow> str_to_buildid c bs;
                         case b of
                           None \<Rightarrow> Some None
                         | Some b \<Rightarrow> do {
                             ss \<leftarrow> parse_symbols_json c (json_get library ''symbols'');
                             Some (Some \<lparr>so_name = nm, so_buildid = b, so_symbols = ss\<rparr>) } }))))"

subsection \<open>Files of either kind\<close>

record so_files =
  file_contents :: "bytes \<Rightarrow> bytes option"
  load_elf :: "bytes \<Rightarrow> elf_section list option"
  so_alloc :: bool
  json_lib :: jsonc

definition ulp_so_info_open :: "so_files \<Rightarrow> bytes \<Rightarrow> ulp_so_info option option" where
  "ulp_so_info_open fs path =
     (case file_contents fs path of
        None \<Rightarrow> Some None
      | Some bs \<Rightarrow>
          if length bs < 5 then Some None
          else if take 4 bs = [127, 0x45, 0x4c, 0x46] then parse_so_elf (load_elf fs) (so_alloc fs) path
          else parse_so_json (json_lib fs) bs)"

text \<open>The command: the exit status and the text it writes, with the place it is written to.\<close>

definition run_extract ::
  "so_files \<Rightarrow> bytes \<Rightarrow> bytes option \<Rightarrow> bytes option \<Rightarrow> (bytes \<Rightarrow> bool) \<Rightarrow> (int \<times> (bytes \<times> bytes) option) option" where
  "run_extract fs input_file debuginfo_file metadata can_write = do {
     let output_file = (case metadata of None \<Rightarrow> str ''out.json'' | Some f \<Rightarrow> f);
     info \<leftarrow> parse_so_elf (load_elf fs) (so_alloc fs) input_file;
     case info of
       None \<Rightarrow> Some (1, None)
     | Some info \<Rightarrow> do {
         info \<leftarrow> (case debuginfo_file of
             None \<Rightarrow> Some info
           | Some f \<Rightarrow> do {
               debuginfo \<leftarrow> parse_so_elf (load_elf fs) (so_alloc fs) f;
               debuginfo \<leftarrow> debuginfo;
               Some (merge_ulp_so_infos info debuginfo) });
         if output_file \<noteq> str ''-'' \<and> \<not> can_write output_file then None
         else Some (0, Some (output_file, write_ulp_so_info_json (json_lib fs) info)) } }"

subsection \<open>Build ids and numbers survive the trip\<close>

lemma hex_val_digit: "d < 16 \<Longrightarrow> hex_val (hex_digit d) = Some d"
proof -
  assume d: "d < 16"
  have "unat (of_nat n :: u8) = n" if "n < 256" for n using that by (simp add: unat_of_nat take_bit_nat_eq_self)
  then have "unat (hex_digit d) = (if d < 10 then 0x30 + d else 0x57 + d)"
    using d unfolding hex_digit_def by (simp del: of_nat_add)
  then show ?thesis using d by (simp add: hex_val_def Let_def)
qed

lemma sscanf_buildid: "sscanf_02x c (buildid_to_string (b # bs)) = b"
proof -
  have "unat b < 256" using unsigned_less [of b, where 'a = nat] by simp
  then have "unat b div 16 < 16" "unat b mod 16 < 16" by auto
  then show ?thesis
    by (simp add: sscanf_02x_def buildid_to_string_Cons hex_val_digit del: of_nat_add of_nat_mult)
qed

lemma drop_buildid: "drop (2 * i) (buildid_to_string bs) = buildid_to_string (drop i bs)"
proof (induction i arbitrary: bs)
  case (Suc i)
  then show ?case by (cases bs) (simp_all add: buildid_to_string_Cons, simp add: buildid_to_string_def)
qed simp

lemma str_to_buildid_to_string:
  assumes "length bs = BUILDID_LEN"
  shows "str_to_buildid c (buildid_to_string bs) = Some (Some bs)"
proof -
  have "map (\<lambda>i. sscanf_02x c (drop (2 * i) (buildid_to_string bs))) [0..<BUILDID_LEN] = bs"
  proof (rule nth_equalityI)
    fix i assume "i < length (map (\<lambda>i. sscanf_02x c (drop (2 * i) (buildid_to_string bs))) [0..<BUILDID_LEN])"
    then have i: "i < BUILDID_LEN" by simp
    then have "drop i bs = bs ! i # drop (Suc i) bs" using assms by (simp add: Cons_nth_drop_Suc)
    then show "map (\<lambda>i. sscanf_02x c (drop (2 * i) (buildid_to_string bs))) [0..<BUILDID_LEN] ! i = bs ! i"
      using i by (simp add: drop_buildid sscanf_buildid)
  qed (use assms in simp)
  then show ?thesis using assms by (simp add: str_to_buildid_def BUILDID_LEN_def)
qed

lemma json_int: "json_get_int c (JINT x) = sint (ucast x :: 32 word)"
proof -
  have "- (2 ^ 31) \<le> sint (ucast x :: 32 word)" "sint (ucast x :: 32 word) < 2 ^ 31"
    using sint_range_size [of "ucast x :: 32 word"] by (simp_all add: word_size)
  then show ?thesis by (simp add: JINT_def json_get_int_def)
qed

text \<open>The symbol as the JSON file has it: the offset is cut to 32 bits and extended with its sign.\<close>

definition json_symbol :: "symbol \<Rightarrow> symbol" where
  "json_symbol s = s\<lparr>sym_offset := scast (ucast (sym_offset s) :: 32 word)\<rparr>"

lemma casts_back:
  "(scast (ucast (ucast (b :: u8) :: u64) :: u32) :: u8) = b" "(ucast (ucast (x :: u32) :: u64) :: u32) = x"
  by (rule bit_word_eqI; simp add: bit_simps)+

lemma parse_symbol_json_back: "parse_symbol_json c (get_json_symbol s) = Some (json_symbol s)"
proof -
  have "json_get (get_json_symbol s) ''name'' = Some (JString (sym_name s))"
    "json_get (get_json_symbol s) ''offset'' = Some (JINT (sym_offset s))"
    "json_get (get_json_symbol s) ''size'' = Some (JINT (ucast (sym_size s)))"
    "json_get (get_json_symbol s) ''st_info'' = Some (JINT (ucast (sym_info s)))"
    "json_get (get_json_symbol s) ''st_other'' = Some (JINT (ucast (sym_other s)))"
    by (simp_all add: json_get_def get_json_symbol_def)
  then show ?thesis
    by (cases s) (simp add: parse_symbol_json_def json_get_string_def get_int_member_def json_int casts_back json_symbol_def)
qed

lemma parse_symbols_back: "parse_symbols_loop c (map get_json_symbol ss) = Some (map json_symbol ss)"
  by (induction ss) (simp_all add: parse_symbol_json_back)

lemma symbols_equal_iff: "symbols_equal as bs \<longleftrightarrow> as = bs"
  by (induction as bs rule: symbols_equal.induct) (auto simp: symbol.equality)

lemma so_info_equal_iff: "so_info_equal a b \<longleftrightarrow> a = b"
  by (auto simp: so_info_equal_def symbols_equal_iff)

lemma offset_fits: "scast (ucast (x :: u64) :: u32) = x \<longleftrightarrow> - (2 ^ 31) \<le> sint x \<and> sint x < 2 ^ 31"
proof -
  have y: "sint (scast y :: u64) = sint y" for y :: u32
    by (rule bit_eqI) (simp add: bit_simps min_def)
  have "sint (ucast x :: u32) = signed_take_bit 31 (sint x)"
    by (rule bit_eqI) (simp add: bit_simps min_def)
  with y have "sint (scast (ucast x :: u32) :: u64) = signed_take_bit 31 (sint x)" by (simp only: y)
  then have "scast (ucast x :: u32) = x \<longleftrightarrow> signed_take_bit 31 (sint x) = sint x" by (metis signed_word_eqI)
  then show ?thesis by (simp add: signed_take_bit_int_eq_self_iff)
qed

subsection \<open>Properties\<close>

text \<open>
  Claim C40. The \<open>extract\<close> command and the packer agree on a library: when json-c reads back the value it wrote, the JSON file
  of a library is read as a library of the same name, build id and symbols, and it is the same library exactly when all
  offsets are within 2 GiB of zero, because they are written as 32-bit integers; an offset beyond is read back as another one.
\<close>

theorem so_info_json_roundtrip:
  assumes "of_text c (to_text c (so_info_json info)) = Some (so_info_json info)" and "length (so_buildid info) = BUILDID_LEN"
  shows "\<exists>info'. parse_so_json c (write_ulp_so_info_json c info) = Some (Some info') \<and>
    so_name info' = so_name info \<and> so_buildid info' = so_buildid info \<and> map sym_name (so_symbols info') = map sym_name (so_symbols info) \<and>
    (so_info_equal info' info \<longleftrightarrow> (\<forall>s \<in> set (so_symbols info). - (2 ^ 31) \<le> sint (sym_offset s) \<and> sint (sym_offset s) < 2 ^ 31))"
proof -
  let ?i = "info\<lparr>so_symbols := map json_symbol (so_symbols info)\<rparr>"
  have "parse_so_json c (write_ulp_so_info_json c info) = Some (Some ?i)"
    using assms by (simp add: parse_so_json_def write_ulp_so_info_json_def so_info_json_def json_get_def json_get_string_def
        str_to_buildid_to_string parse_symbols_json_def parse_symbols_back)
  moreover have "json_symbol s = s \<longleftrightarrow> - (2 ^ 31) \<le> sint (sym_offset s) \<and> sint (sym_offset s) < 2 ^ 31" for s
    unfolding offset_fits [symmetric] by (cases s) (simp add: json_symbol_def)
  then have "?i = info \<longleftrightarrow> (\<forall>s \<in> set (so_symbols info). - (2 ^ 31) \<le> sint (sym_offset s) \<and> sint (sym_offset s) < 2 ^ 31)"
    by (cases info) (simp add: list_eq_iff_nth_eq all_set_conv_all_nth)
  ultimately show ?thesis by (auto simp: so_info_equal_iff json_symbol_def)
qed

lemma get_symbol_with_name_find: "get_symbol_with_name ss n = find (\<lambda>s. sym_name s = n) ss"
  by (induction ss) auto

lemma get_list_of_symbols: "get_list_of_symbols_in_section ss t = rev (filter (\<lambda>s. sym_name s \<noteq> []) ss) @ t"
  by (induction ss arbitrary: t) auto

text \<open>
  Symbols of the file: the lookup of a name finds its last entry in the dynamic symbol table, or else its last
  entry in the static one; with debug information merged in, the entries of the library come first.
\<close>

theorem build_symbols_lookup:
  assumes "n \<noteq> []" "get_dynsym elf = Some d" "get_symtab elf = Some t" "sec_data_ok d" "sec_data_ok t"
  shows "get_symbol_with_name (build_symbols_list elf) n =
    (case find (\<lambda>s. sym_name s = n) (rev (sec_syms d)) of
       Some s \<Rightarrow> Some s | None \<Rightarrow> find (\<lambda>s. sym_name s = n) (rev (sec_syms t)))"
proof -
  have f: "find (\<lambda>s. sym_name s = n) (filter (\<lambda>s. sym_name s \<noteq> []) ss) = find (\<lambda>s. sym_name s = n) ss" for ss
    using assms(1) by (induction ss) auto
  have ap: "find P (as @ bs) = (case find P as of Some s \<Rightarrow> Some s | None \<Rightarrow> find P bs)" for P and as bs :: "symbol list"
    by (induction as) auto
  show ?thesis
    using assms by (simp add: build_symbols_list_def list_section_def get_list_of_symbols get_symbol_with_name_find ap f rev_filter split: option.split)
qed

text \<open>
  A build id that is not the first note is not found: when the first note is another one, the second is sought at offset 1,
  and if libelf finds a note there that is no build id either, the loop does not end.
\<close>

theorem build_id_first_note_only:
  assumes "note_at s 0 = Some x" "n_type x \<noteq> 3" "sec_data_ok s"
  shows "get_build_id s = (case note_at s 1 of None \<Rightarrow> Some None | Some y \<Rightarrow> if n_type y = 3 then Some (Some (n_desc y)) else None)"
  using assms by (simp add: get_build_id_def find_build_id_note_def split: option.split)

subsection \<open>Runs\<close>

definition demo_info :: ulp_so_info where
  "demo_info = \<lparr>so_name = str ''libx.so'', so_buildid = replicate 20 0xab,
     so_symbols = [\<lparr>sym_name = str ''f'', sym_offset = 0x1000, sym_size = 16, sym_info = 0x12, sym_other = 0\<rparr>,
                   \<lparr>sym_name = str ''g'', sym_offset = 0x80001000, sym_size = 16, sym_info = 0x12, sym_other = 0\<rparr>]\<rparr>"

definition demo_jsonc :: jsonc where
  "demo_jsonc = \<lparr>to_text = (\<lambda>j. if j = so_info_json demo_info then [0x7b] else []),
     of_text = (\<lambda>t. if t = [0x7b] then Some (so_info_json demo_info) else None),
     coerce_int = (\<lambda>_. 0), coerce_string = (\<lambda>_. None), length_aborts = True, scan_val = (\<lambda>_. 0)\<rparr>"

theorem so_info_json_roundtrip_witness:
  "\<exists>info'. parse_so_json demo_jsonc (write_ulp_so_info_json demo_jsonc demo_info) = Some (Some info') \<and> \<not> so_info_equal info' demo_info"
  using so_info_json_roundtrip [of demo_jsonc demo_info]
  by (auto simp: demo_jsonc_def demo_info_def BUILDID_LEN_def)

end
