(* ===== verification/Md4.thy ===== *)
theory Md4
  imports Ulp_Prelude
begin

text \<open>
  The message digest of the packer, \<open>src/tools/md4.c\<close>, from which patch ids are built, beside the
  definition of MD4 that RFC 1320 gives. The function of the source is modelled with its 64-bit
  length arithmetic, its zero-filled buffer that is overwritten in place, and its 32-bit words; the
  sixteen operations of a round are four groups of four, as the source lays them out. The reference
  pads a list and folds a table of forty-eight operations over a rotating quadruple, the way the RFC
  states them.
\<close>

subsection \<open>The function of the source\<close>

abbreviation (input) "BLOCK_LENGTH \<equiv> (64 :: u64)"
abbreviation (input) "BLOCK_PADDING \<equiv> (56 :: u64)"
abbreviation (input) "SIZE_FIELD \<equiv> (8 :: u64)"

type_synonym quadruple = "u32 \<times> u32 \<times> u32 \<times> u32"

definition md4_F :: "u32 \<Rightarrow> u32 \<Rightarrow> u32 \<Rightarrow> u32" where
  "md4_F x y z = (x AND y) OR ((NOT x) AND z)"

definition md4_G :: "u32 \<Rightarrow> u32 \<Rightarrow> u32 \<Rightarrow> u32" where
  "md4_G x y z = (x AND y) OR (x AND z) OR (y AND z)"

definition md4_H :: "u32 \<Rightarrow> u32 \<Rightarrow> u32 \<Rightarrow> u32" where
  "md4_H x y z = x XOR y XOR z"

definition md4_rot :: "nat \<Rightarrow> u32 \<Rightarrow> u32" where
  "md4_rot s a = push_bit s a OR drop_bit (32 - s) a"

definition R1 :: "u32 list \<Rightarrow> u32 \<Rightarrow> u32 \<Rightarrow> u32 \<Rightarrow> u32 \<Rightarrow> nat \<Rightarrow> nat \<Rightarrow> u32" where
  "R1 X a b c d i s = md4_rot s (a + md4_F b c d + X ! i)"

definition R2 :: "u32 list \<Rightarrow> u32 \<Rightarrow> u32 \<Rightarrow> u32 \<Rightarrow> u32 \<Rightarrow> nat \<Rightarrow> nat \<Rightarrow> u32" where
  "R2 X a b c d i s = md4_rot s (a + md4_G b c d + X ! i + 0x5A827999)"

definition R3 :: "u32 list \<Rightarrow> u32 \<Rightarrow> u32 \<Rightarrow> u32 \<Rightarrow> u32 \<Rightarrow> nat \<Rightarrow> nat \<Rightarrow> u32" where
  "R3 X a b c d i s = md4_rot s (a + md4_H b c d + X ! i + 0x6ED9EBA1)"

definition md4_group1 :: "u32 list \<Rightarrow> nat \<Rightarrow> quadruple \<Rightarrow> quadruple" where
  "md4_group1 X i st =
     (case st of (A, B, C, D) \<Rightarrow>
        let A = R1 X A B C D i 3;
            D = R1 X D A B C (i + 1) 7;
            C = R1 X C D A B (i + 2) 11;
            B = R1 X B C D A (i + 3) 19
        in (A, B, C, D))"

definition md4_group2 :: "u32 list \<Rightarrow> nat \<Rightarrow> quadruple \<Rightarrow> quadruple" where
  "md4_group2 X i st =
     (case st of (A, B, C, D) \<Rightarrow>
        let A = R2 X A B C D i 3;
            D = R2 X D A B C (i + 4) 5;
            C = R2 X C D A B (i + 8) 9;
            B = R2 X B C D A (i + 12) 13
        in (A, B, C, D))"

definition md4_group3 :: "u32 list \<Rightarrow> nat \<Rightarrow> quadruple \<Rightarrow> quadruple" where
  "md4_group3 X i st =
     (case st of (A, B, C, D) \<Rightarrow>
        let A = R3 X A B C D i 3;
            D = R3 X D A B C (i + 8) 9;
            C = R3 X C D A B (i + 4) 11;
            B = R3 X B C D A (i + 12) 15
        in (A, B, C, D))"

definition md4_rounds :: "u32 list \<Rightarrow> quadruple \<Rightarrow> quadruple" where
  "md4_rounds X st =
     (let st = md4_group1 X 0 st; st = md4_group1 X 4 st;
          st = md4_group1 X 8 st; st = md4_group1 X 12 st;
          st = md4_group2 X 0 st; st = md4_group2 X 1 st;
          st = md4_group2 X 2 st; st = md4_group2 X 3 st;
          st = md4_group3 X 0 st; st = md4_group3 X 2 st;
          st = md4_group3 X 1 st; st = md4_group3 X 3 st
      in st)"

text \<open>
  A word is collected from its last byte to its first; a \<open>char\<close> is sign-extended and then masked.
\<close>

fun md4_word :: "bytes \<Rightarrow> nat \<Rightarrow> nat \<Rightarrow> u32 \<Rightarrow> u32" where
  "md4_word buf p 0 x = x"
| "md4_word buf p (Suc k) x = md4_word buf p k (push_bit 8 x OR (0x00ff AND scast (buf ! (p + k))))"

definition md4_block :: "bytes \<Rightarrow> quadruple \<times> nat \<Rightarrow> quadruple \<times> nat" where
  "md4_block buf s =
     (case s of ((A, B, C, D), bufptr) \<Rightarrow>
        let X = map (\<lambda>j. md4_word buf (bufptr + 4 * j) 4 0) [0..<16]
        in case md4_rounds X (A, B, C, D) of (A', B', C', D') \<Rightarrow>
             ((A' + A, B' + B, C' + C, D' + D), bufptr + 64))"

definition md4_zeros :: "u64 \<Rightarrow> u64" where
  "md4_zeros tot =
     (let zeros = tot mod BLOCK_LENGTH
      in if zeros \<le> BLOCK_PADDING then BLOCK_PADDING - zeros
         else BLOCK_LENGTH - (zeros - BLOCK_PADDING))"

definition md4_buffer :: "bytes \<Rightarrow> bytes" where
  "md4_buffer input =
     (let len = of_nat (length input) :: u64;
          tot = len + 1;
          zeros = md4_zeros tot;
          tot = tot + zeros + SIZE_FIELD;
          buf = replicate (unat tot) 0;
          buf = input @ drop (length input) buf;
          buf = buf[length input := 0x80]
      in fold (\<lambda>i buf. buf[length input + 1 + unat zeros + i := ucast (drop_bit (8 * i) (len * 8))])
           [0..<8] buf)"

definition md4_append :: "u32 \<Rightarrow> bytes" where
  "md4_append item = map (\<lambda>i. ucast (drop_bit (8 * i) item AND 0x0ff)) [0..<4]"

text \<open>\<open>ok1\<close> and \<open>ok2\<close> say whether the two allocations succeed; \<open>None\<close> is the NULL result.\<close>

definition MD4 :: "bool \<Rightarrow> bool \<Rightarrow> bytes \<Rightarrow> bytes option" where
  "MD4 ok1 ok2 input =
     (if \<not> ok1 then None
      else let buf = md4_buffer input
           in case ((md4_block buf) ^^ (length buf div 64))
                     ((0x67452301, 0xefcdab89, 0x98badcfe, 0x10325476), 0) of
                ((A, B, C, D), _) \<Rightarrow>
                  if \<not> ok2 then None
                  else Some (md4_append A @ md4_append B @ md4_append C @ md4_append D))"

subsection \<open>MD4 as the RFC states it\<close>

definition rfc_pad :: "bytes \<Rightarrow> bytes" where
  "rfc_pad msg = msg @ [0x80] @ replicate ((119 - length msg mod 64) mod 64) 0 @
     le_bytes 8 (8 * length msg)"

definition rfc_table :: "(nat \<times> nat \<times> nat) list" where
  "rfc_table =
     zip (replicate 16 1) (zip [0..<16] (concat (replicate 4 [3, 7, 11, 19]))) @
     zip (replicate 16 2)
       (zip [0,4,8,12, 1,5,9,13, 2,6,10,14, 3,7,11,15] (concat (replicate 4 [3, 5, 9, 13]))) @
     zip (replicate 16 3)
       (zip [0,8,4,12, 2,10,6,14, 1,9,5,13, 3,11,7,15] (concat (replicate 4 [3, 9, 11, 15])))"

definition rfc_value :: "nat \<Rightarrow> u32 \<Rightarrow> u32 \<Rightarrow> u32 \<Rightarrow> u32" where
  "rfc_value r x y z =
     (if r = 1 then (x AND y) OR (NOT x AND z)
      else if r = 2 then (x AND y) OR (x AND z) OR (y AND z)
      else x XOR y XOR z)"

definition rfc_const :: "nat \<Rightarrow> u32" where
  "rfc_const r = (if r = 1 then 0 else if r = 2 then 0x5A827999 else 0x6ED9EBA1)"

definition rfc_step :: "u32 list \<Rightarrow> nat \<times> nat \<times> nat \<Rightarrow> quadruple \<Rightarrow> quadruple" where
  "rfc_step X op st =
     (case op of (r, k, s) \<Rightarrow> case st of (a, b, c, d) \<Rightarrow>
        (d, word_rotl s (a + rfc_value r b c d + X ! k + rfc_const r), b, c))"

definition rfc_compress :: "bytes \<Rightarrow> quadruple \<Rightarrow> quadruple" where
  "rfc_compress block st =
     (let X = map (\<lambda>j. bytes_u32 (take 4 (drop (4 * j) block))) [0..<16]
      in case (st, fold (rfc_step X) rfc_table st) of
           ((a, b, c, d), (a', b', c', d')) \<Rightarrow> (a' + a, b' + b, c' + c, d' + d))"

fun rfc_blocks :: "nat \<Rightarrow> bytes \<Rightarrow> bytes list" where
  "rfc_blocks 0 bs = []"
| "rfc_blocks (Suc n) bs = take 64 bs # rfc_blocks n (drop 64 bs)"

definition rfc_md4 :: "bytes \<Rightarrow> bytes" where
  "rfc_md4 msg =
     (let p = rfc_pad msg
      in case fold rfc_compress (rfc_blocks (length p div 64) p)
               (0x67452301, 0xefcdab89, 0x98badcfe, 0x10325476) of
           (A, B, C, D) \<Rightarrow> u32_bytes A @ u32_bytes B @ u32_bytes C @ u32_bytes D)"

subsection \<open>Equivalence\<close>

lemma md4_rot_rotl: "0 < s \<Longrightarrow> s < 32 \<Longrightarrow> md4_rot s a = word_rotl s a"
proof (rule bit_word_eqI)
  fix n assume s: "0 < s" "s < 32" and n: "n < LENGTH(32)"
  have n32: "n < 32" using n by simp
  have rotl: "bit (word_rotl s a) n \<longleftrightarrow> bit a ((n + (32 - s)) mod 32)"
    using s n32 by (subst bit_word_rotl_iff) simp
  have rot: "bit (md4_rot s a) n \<longleftrightarrow> s \<le> n \<and> bit a (n - s) \<or> bit a (n + (32 - s))"
    using n32 by (simp add: md4_rot_def bit_or_iff bit_push_bit_iff bit_drop_bit_eq add.commute)
  show "bit (md4_rot s a) n = bit (word_rotl s a) n"
  proof (cases "n < s")
    case True
    then have "(n + (32 - s)) mod 32 = n + (32 - s)" using s by simp
    then show ?thesis using True rot rotl by simp
  next
    case False
    then have "n + (32 - s) = (n - s) + 32" using s by simp
    then have "(n + (32 - s)) mod 32 = n - s" using n32 by (simp only: mod_add_self2) simp
    moreover have "\<not> bit a (n + (32 - s))"
      using False s bit_imp_le_length [of a "n + (32 - s)"] by auto
    ultimately show ?thesis using False rot rotl by simp
  qed
qed

lemma byte_of_word: "(ucast (v :: 'a :: len word) :: u8) = of_nat (unat v mod 256)"
  by (rule word_unat_eq_iff [THEN iffD2]) (simp add: unsigned_ucast_eq take_bit_eq_mod unat_of_nat)

lemma unat_drop_bit_div: "unat (drop_bit n (w :: 'a :: len word)) = unat w div 2 ^ n"
  by (simp add: unsigned_drop_bit_eq take_bit_nat_eq_self unsigned_less flip: drop_bit_eq_div)

lemma bit_0xff: "bit (255 :: int) n \<longleftrightarrow> n < 8"
proof -
  have e: "(255 :: int) = mask 8" by (simp add: mask_eq_exp_minus_1)
  show ?thesis unfolding e bit_mask_iff by simp
qed

lemma byte_of_u32: "(ucast (v AND 0xff :: u32) :: u8) = of_nat (unat v mod 256)"
proof -
  have "ucast (v AND 0xff) = (ucast v :: u8)"
    by (rule bit_word_eqI) (simp add: bit_and_iff bit_0xff bit_unsigned_iff)
  then show ?thesis by (simp only: byte_of_word)
qed

lemma le_bytes_map: "le_bytes n x = map (\<lambda>i. of_nat (x div 256 ^ i mod 256)) [0..<n]"
proof (induction n arbitrary: x)
  case (Suc n)
  have "[0..<Suc n] = 0 # map Suc [0..<n]" by (simp add: upt_conv_Cons map_Suc_upt del: upt_Suc)
  then show ?case by (simp add: Suc.IH div_mult2_eq del: upt_Suc)
qed simp

lemma pow256: "(2 :: nat) ^ (8 * i) = 256 ^ i" by (simp add: power_mult)

lemma md4_append_bytes: "md4_append w = u32_bytes w"
  unfolding md4_append_def u32_bytes_def byte_of_u32 le_bytes_map unat_drop_bit_div pow256 ..

lemma groups:
  "md4_group1 X i st = fold (rfc_step X) [(1, i, 3), (1, i + 1, 7), (1, i + 2, 11), (1, i + 3, 19)] st"
  "md4_group2 X i st = fold (rfc_step X) [(2, i, 3), (2, i + 4, 5), (2, i + 8, 9), (2, i + 12, 13)] st"
  "md4_group3 X i st = fold (rfc_step X) [(3, i, 3), (3, i + 8, 9), (3, i + 4, 11), (3, i + 12, 15)] st"
  by (cases st; simp add: md4_group1_def md4_group2_def md4_group3_def rfc_step_def R1_def R2_def R3_def md4_F_def md4_G_def md4_H_def
   Let_def md4_rot_rotl rfc_value_def rfc_const_def)+

lemma rounds: "md4_rounds X st = fold (rfc_step X) rfc_table st"
proof -
  have t: "rfc_table =
    [(1, 0, 3), (1, 0 + 1, 7), (1, 0 + 2, 11), (1, 0 + 3, 19)] @ [(1, 4, 3), (1, 4 + 1, 7), (1, 4 + 2, 11), (1, 4 + 3, 19)] @
    [(1, 8, 3), (1, 8 + 1, 7), (1, 8 + 2, 11), (1, 8 + 3, 19)] @ [(1, 12, 3), (1, 12 + 1, 7), (1, 12 + 2, 11), (1, 12 + 3, 19)] @
    [(2, 0, 3), (2, 0 + 4, 5), (2, 0 + 8, 9), (2, 0 + 12, 13)] @ [(2, 1, 3), (2, 1 + 4, 5), (2, 1 + 8, 9), (2, 1 + 12, 13)] @
    [(2, 2, 3), (2, 2 + 4, 5), (2, 2 + 8, 9), (2, 2 + 12, 13)] @ [(2, 3, 3), (2, 3 + 4, 5), (2, 3 + 8, 9), (2, 3 + 12, 13)] @
    [(3, 0, 3), (3, 0 + 8, 9), (3, 0 + 4, 11), (3, 0 + 12, 15)] @ [(3, 2, 3), (3, 2 + 8, 9), (3, 2 + 4, 11), (3, 2 + 12, 15)] @
    [(3, 1, 3), (3, 1 + 8, 9), (3, 1 + 4, 11), (3, 1 + 12, 15)] @ [(3, 3, 3), (3, 3 + 8, 9), (3, 3 + 4, 11), (3, 3 + 12, 15)]"
    unfolding rfc_table_def by code_simp
  show ?thesis unfolding t fold_append comp_def md4_rounds_def Let_def groups ..
qed


lemma push_or_byte:
  "unat x < 2 ^ 24 \<Longrightarrow>
   unat (push_bit 8 x OR (0x00ff AND scast (b :: u8)) :: u32) = unat b + 256 * unat x"
proof -
  assume x: "unat x < 2 ^ 24"
  have m: "0x00ff AND scast b = (ucast b :: u32)"
  proof (rule bit_word_eqI)
    fix n :: nat
    have "min 7 n = n" if "n < 8" using that by simp
    then show "bit (0xff AND scast b :: u32) n = bit (ucast b :: u32) n"
      using bit_imp_le_length [of b n]
      by (cases "n < 8") (auto simp: bit_and_iff bit_0xff bit_signed_iff bit_unsigned_iff)
  qed
  have "push_bit 8 x OR (ucast b :: u32) = push_bit 8 x + ucast b"
    by (rule disjunctive_add [symmetric]) (auto simp: bit_simps dest: bit_imp_le_length)
  moreover have "unat (push_bit 8 x) = 256 * unat x"
    using x by (simp add: push_bit_eq_mult unat_word_ariths mult.commute)
  moreover have "unat b < 256" using unsigned_less [of b] by simp
  ultimately show ?thesis using x m by (simp add: unat_word_ariths unsigned_ucast_eq take_bit_nat_eq_self)
qed

lemma md4_word_le:
  assumes "p + 4 \<le> length buf"
  shows "md4_word buf p 4 0 = bytes_u32 (take 4 (drop p buf))"
proof -
  obtain a b c d rest where r: "drop p buf = a # b # c # d # rest"
  proof -
    have "length (drop p buf) \<ge> 4" using assms by simp
    then show ?thesis
      using that by (metis Suc_le_length_iff numeral_eq_Suc pred_numeral_simps(2) semiring_norm(26,27) nat_1_add_1 numeral_2_eq_2 eval_nat_numeral(3))
  qed
  have nth: "buf ! (p + 3) = d" "buf ! (p + 2) = c" "buf ! (p + 1) = b" "buf ! p = a"
    using nth_drop [of p buf 3] nth_drop [of p buf 2] nth_drop [of p buf 1] nth_drop [of p buf 0] assms r
    by (simp_all add: )
  define w1 where "w1 = (push_bit 8 0 OR (0x00ff AND scast d) :: u32)"
  define w2 where "w2 = (push_bit 8 w1 OR (0x00ff AND scast c) :: u32)"
  define w3 where "w3 = (push_bit 8 w2 OR (0x00ff AND scast b) :: u32)"
  define w4 where "w4 = (push_bit 8 w3 OR (0x00ff AND scast a) :: u32)"
  have lt: "unat x < 256" for x :: u8 using unsigned_less [of x] by simp
  have 1: "unat w1 = unat d" unfolding w1_def by (subst push_or_byte) simp_all
  have 2: "unat w2 = unat c + 256 * unat d" unfolding w2_def using 1 lt [of d] by (subst push_or_byte) simp_all
  have 3: "unat w3 = unat b + 256 * (unat c + 256 * unat d)"
    unfolding w3_def using 2 lt [of d] lt [of c] by (subst push_or_byte) simp_all
  have 4: "unat w4 = unat a + 256 * (unat b + 256 * (unat c + 256 * unat d))"
    unfolding w4_def using 3 lt [of d] lt [of c] lt [of b] by (subst push_or_byte) simp_all
  have "md4_word buf p 4 0 = w4"
    unfolding w4_def w3_def w2_def w1_def nth [symmetric] by (simp add: numeral_eq_Suc)
  moreover have "of_le (take 4 (drop p buf)) = unat w4" unfolding r 4 by simp
  ultimately show ?thesis unfolding bytes_u32_def by simp
qed

lemma md4_block_rfc:
  assumes "p + 64 \<le> length buf"
  shows "md4_block buf (st, p) = (rfc_compress (take 64 (drop p buf)) st, p + 64)"
proof -
  have X: "map (\<lambda>j. md4_word buf (p + 4 * j) 4 0) [0..<16] =
      map (\<lambda>j. bytes_u32 (take 4 (drop (4 * j) (take 64 (drop p buf))))) [0..<16]"
    using assms by (auto simp: md4_word_le drop_take min_def add.commute)
  show ?thesis
    unfolding md4_block_def rfc_compress_def X [symmetric] Let_def rounds [symmetric]
    by (auto split: prod.splits)
qed

lemma md4_iterate:
  "p + 64 * n \<le> length buf \<Longrightarrow>
   ((md4_block buf) ^^ n) (st, p) = (fold rfc_compress (rfc_blocks n (drop p buf)) st, p + 64 * n)"
proof (induction n arbitrary: st p)
  case (Suc n)
  have "(md4_block buf ^^ Suc n) (st, p) = (md4_block buf ^^ n) (md4_block buf (st, p))"
    by (simp only: funpow_Suc_right comp_apply)
  then show ?case
    using Suc.prems by (simp add: md4_block_rfc Suc.IH add.assoc add.commute del: funpow.simps)
qed simp

lemma md4_zeros_pad:
  assumes "n + 73 < 2 ^ 64"
  shows "unat (md4_zeros (of_nat n + 1)) = (119 - n mod 64) mod 64"
proof -
  have u: "unat ((of_nat n + 1 :: u64) mod 64) = (n + 1) mod 64"
    using assms by (simp add: unat_mod_distrib unat_word_ariths unat_of_nat)
  have "n mod 64 < 64" by simp
  show ?thesis
  proof (cases "n mod 64 = 63")
    case True
    then have "(n + 1) mod 64 = 0" by (simp add: mod_Suc)
    then have "(of_nat n + 1 :: u64) mod 64 = 0" using u by (simp add: unat_eq_0)
    with True show ?thesis by (simp add: md4_zeros_def)
  next
    case False
    then have m: "(n + 1) mod 64 = n mod 64 + 1" by (simp add: mod_Suc)
    define z where "z = (of_nat n + 1 :: u64) mod 64"
    have z: "unat z = n mod 64 + 1" using u m by (simp add: z_def)
    show ?thesis
    proof (cases "z \<le> 56")
      case True
      then have "n mod 64 \<le> 55" using z by (simp add: word_le_nat_alt)
      then have "119 - n mod 64 = (55 - n mod 64) + 64" by simp
      then have "(119 - n mod 64) mod 64 = 55 - n mod 64" by (simp only: mod_add_self2) simp
      then show ?thesis using True z by (simp add: md4_zeros_def z_def [symmetric] unat_sub)
    next
      case F: False
      then have g: "56 < n mod 64 + 1" using z by (simp add: word_le_nat_alt)
      then have 56: "unat (z - 56) = n mod 64 + 1 - 56" using F z by (subst unat_sub) auto
      then have "z - 56 \<le> 64" using \<open>n mod 64 < 64\<close> by (simp add: word_le_nat_alt)
      then have "unat (64 - (z - 56)) = 119 - n mod 64" using 56 g \<open>n mod 64 < 64\<close> by (simp only: unat_sub) simp
      then show ?thesis using F g False \<open>n mod 64 < 64\<close>
        unfolding md4_zeros_def z_def [symmetric] Let_def by simp
    qed
  qed
qed

lemma fold_update_upt:
  "j \<le> length ys \<Longrightarrow>
   fold (\<lambda>i buf. buf[length xs + i := f i]) [0..<j] (xs @ ys) = xs @ map f [0..<j] @ drop j ys"
proof (induction j)
  case (Suc j)
  then have "drop j ys = ys ! j # drop (Suc j) ys" by (simp add: Cons_nth_drop_Suc)
  with Suc show ?case by (simp add: list_update_append)
qed simp

lemma le_bytes_mod: "le_bytes n (x mod 256 ^ n) = le_bytes n x"
  using le_bytes_of_le [of "le_bytes n x"] by (simp add: of_le_le_bytes)

lemma md4_buffer_pad:
  assumes "length input + 73 < 2 ^ 64"
  shows "md4_buffer input = rfc_pad input"
proof -
  define n where "n = length input"
  define zeros :: u64 where "zeros = md4_zeros (of_nat n + 1)"
  define z where "z = unat zeros"
  define f where "f i = (ucast (drop_bit (8 * i) (of_nat n * 8 :: u64)) :: u8)" for i
  have z: "z = (119 - n mod 64) mod 64" using md4_zeros_pad [of n] assms by (simp add: z_def zeros_def n_def)
  then have "z < 64" by simp
  then have tot: "unat (of_nat n + 1 + zeros + 8) = n + 1 + z + 8"
    using assms by (simp add: unat_word_ariths unat_of_nat z_def n_def)
  have buf: "(input @ drop n (replicate (n + 1 + z + 8) 0))[n := 0x80] = (input @ 0x80 # replicate z 0) @ replicate 8 0"
  proof -
    have d: "drop n (replicate (n + 1 + z + 8) 0) = (0 :: u8) # replicate (z + 8) 0"
      unfolding drop_replicate replicate_Suc [symmetric] by simp
    show ?thesis unfolding d replicate_add by (simp add: n_def list_update_append)
  qed
  have f: "map f [0..<8] = le_bytes 8 (8 * n)"
  proof -
    have "unat (of_nat n * 8 :: u64) = (8 * n) mod 256 ^ 8"
      using assms by (simp add: unat_word_ariths unat_of_nat n_def mult.commute)
    then have "map f [0..<8] = le_bytes 8 ((8 * n) mod 256 ^ 8)"
      unfolding f_def byte_of_word unat_drop_bit_div pow256 le_bytes_map by simp
    then show ?thesis by (simp only: le_bytes_mod)
  qed
  have "md4_buffer input =
      fold (\<lambda>i buf. buf[n + 1 + z + i := f i]) [0..<8] ((input @ 0x80 # replicate z 0) @ replicate 8 0)"
    unfolding md4_buffer_def Let_def n_def [symmetric] zeros_def [symmetric] tot z_def [symmetric] f_def [symmetric] buf ..
  also have "\<dots> = (input @ 0x80 # replicate z 0) @ map f [0..<8]"
    using fold_update_upt [of 8 "replicate 8 0" "input @ 0x80 # replicate z 0" f] by (simp add: n_def add.assoc)
  finally show ?thesis unfolding f rfc_pad_def z n_def by simp
qed

lemma rfc_pad_blocks: "64 dvd length (rfc_pad msg)"
proof -
  define k where "k = length msg mod 64"
  have "k < 64" by (simp add: k_def)
  obtain q where q: "length msg = 64 * q + k" using k_def by (metis mult_div_mod_eq)
  have "(k + 9 + (119 - k) mod 64) mod 64 = 0"
  proof (cases "k \<le> 55")
    case True
    then have "119 - k = (55 - k) + 64" by simp
    then have "(119 - k) mod 64 = 55 - k" by (simp only: mod_add_self2) simp
    with True show ?thesis by simp
  qed (use \<open>k < 64\<close> in simp)
  then have "64 dvd k + 9 + (119 - k) mod 64" by (simp add: mod_eq_0_iff_dvd)
  moreover have "length (rfc_pad msg) = 64 * q + (k + 9 + (119 - k) mod 64)"
    using \<open>k < 64\<close> by (simp add: rfc_pad_def q)
  ultimately show ?thesis by simp
qed

text \<open>
  Claim C33. The digest is the MD4 of RFC 1320: for every input whose padded length fits 64 bits the
  function returns exactly the sixteen bytes the RFC's definition gives, unless one of its two
  allocations fails, when it returns \<open>NULL\<close>.
\<close>

theorem MD4_rfc1320:
  assumes "length input + 73 < 2 ^ 64"
  shows "MD4 True True input = Some (rfc_md4 input) \<and> length (rfc_md4 input) = 16 \<and>
    64 dvd length (md4_buffer input) \<and>
    (\<forall>ok1 ok2. \<not> (ok1 \<and> ok2) \<longrightarrow> MD4 ok1 ok2 input = None)"
proof (intro conjI allI impI)
  let ?p = "rfc_pad input"
  have "64 * (length ?p div 64) \<le> length ?p" by simp
  then have it: "(md4_block ?p ^^ (length ?p div 64)) (st, 0) =
      (fold rfc_compress (rfc_blocks (length ?p div 64) ?p) st, 64 * (length ?p div 64))" for st
    using md4_iterate [of 0 "length ?p div 64" ?p st] by simp
  show "MD4 True True input = Some (rfc_md4 input)"
    unfolding MD4_def rfc_md4_def Let_def md4_buffer_pad [OF assms] it md4_append_bytes
    by (simp split: prod.splits)
  show "64 dvd length (md4_buffer input)" by (simp add: md4_buffer_pad [OF assms] rfc_pad_blocks)
  show "length (rfc_md4 input) = 16" by (simp add: rfc_md4_def Let_def split: prod.splits)
  show "MD4 ok1 ok2 input = None" if "\<not> (ok1 \<and> ok2)" for ok1 ok2
    using that by (auto simp: MD4_def Let_def split: prod.splits)
qed

theorem MD4_rfc1320_witness:
  "MD4 True True (str ''abc'') = Some (rfc_md4 (str ''abc'')) \<and> length (rfc_md4 (str ''abc'')) = 16 \<and>
   MD4 True False (str ''abc'') = None"
  using MD4_rfc1320 [of "str ''abc''"] by (simp add: str_def)

end
