(* ===== verification/Packer.thy ===== *)
theory Packer
  imports Extract Md4
begin

text \<open>
  The packer, \<open>src/tools/packer.c\<close>: the parser of description files, the addresses and references taken
  from the target library, the identifier of the patch, and the sections embedded into the container. The
  serialiser of the metadata is in \<open>Ulp_Metadata\<close>, the symbols of a library in \<open>Extract\<close>.

  A description file is the list of its lines, each with the newline it ends in. The record \<open>dsc_env\<close> has the files, the options
  of the command, whether the allocations made for a line succeed, and the bytes a fresh heap block
  holds. An error is a value with the position in the file that the message shows. \<open>DscSegv\<close> is a run of the handler
  that the parser installs for its own crashes; \<open>DscAbort\<close> is any other invalid access.
\<close>

subsection \<open>Description files\<close>

datatype dsc_reason =
    NoDescription | Empty | NoMemory | ContainerNotFound | ContainerIsDirectory | ContainerFormat | BadDependency
  | DuplicateTarget | TargetNotFound | TargetIsDirectory | TargetFormat | NoTarget | NoSymbol bytes | ExpectedColon | ExpectedTarget

datatype dsc_error = DscError nat nat dsc_reason | DscSegv | DscAbort

record dsc_env =
  files :: so_files
  is_directory :: "bytes \<Rightarrow> bool"
  container_override :: "bytes option"
  target_override :: "bytes option"
  line_alloc :: "nat \<Rightarrow> bool"
  heap_byte :: "nat \<Rightarrow> u8"

record dsc =
  d_container :: "bytes option"
  d_deps :: "ulp_dependency list"
  d_ndeps :: u32
  d_target :: "ulp_so_info option"
  d_units :: "ulp_unit list"
  d_nunits :: u32
  d_refs :: "ulp_reference list"
  d_nrefs :: u32
  d_comments :: "bytes option"
  comment_pos :: nat
  comment_size :: nat

definition dsc_init :: dsc where
  "dsc_init = \<lparr>d_container = None, d_deps = [], d_ndeps = 0, d_target = None, d_units = [], d_nunits = 0, d_refs = [], d_nrefs = 0,
     d_comments = None, comment_pos = 0, comment_size = 0\<rparr>"

definition strncpy :: "bytes \<Rightarrow> nat \<Rightarrow> bytes" where
  "strncpy s n = take n (cstr s @ replicate n 0)"

text \<open>
  The buffer is what \<open>comments\<close> points to, up to and with the last NUL that was stored. It grows once, by 128 KiB,
  which may not be enough for a line. The copy is one byte shorter than the position moves.
\<close>

definition read_comment :: "dsc_env \<Rightarrow> bytes \<Rightarrow> dsc \<Rightarrow> dsc_error + dsc" where
  "read_comment env first st =
     (let n = length first; pos = comment_pos st;
          sz = (if pos + (n + 1) \<ge> comment_size st then comment_size st + 128 * 1024 else comment_size st);
          old = (case d_comments st of None \<Rightarrow> [] | Some b \<Rightarrow> b)
      in if pos + n \<ge> sz then Inl DscAbort
         else Inr (st\<lparr>d_comments := Some (take pos old @ strncpy (drop 1 first) (n - 1) @ [heap_byte env (pos + (n - 1))] @ [0]),
                      comment_pos := pos + n, comment_size := sz\<rparr>))"

definition chomp :: "bytes \<Rightarrow> bytes" where
  "chomp l = (if l \<noteq> [] \<and> last l = 10 then cstr (butlast l) else cstr l)"

definition add_dependency :: "(bytes \<Rightarrow> bytes option) \<Rightarrow> bytes \<Rightarrow> dsc \<Rightarrow> dsc option" where
  "add_dependency contents filename st =
     (case contents filename of
        None \<Rightarrow> None
      | Some f \<Rightarrow>
          if length f < 1 then None
          else if f ! 0 \<noteq> 1 then None
          else if length f < 33 then None
          else Some (st\<lparr>d_ndeps := (if d_deps st = [] then 1 else d_ndeps st + 1),
                        d_deps := \<lparr>dep_id = take 32 (drop 1 f), patch_id_check = False\<rparr> # d_deps st\<rparr>))"

text \<open>The first part, up to the line that names the container; the number is that of the last line read.\<close>

fun parse_container :: "dsc_env \<Rightarrow> nat \<Rightarrow> bytes list \<Rightarrow> dsc \<Rightarrow> dsc_error + (dsc \<times> nat \<times> bytes list)" where
  "parse_container env line [] st = Inl (DscError (Suc line) 1 Empty)"
| "parse_container env line (first # ls) st =
     (if hd first = 10 then parse_container env (Suc line) ls st
      else if hd first = 33 then
        (case read_comment env first st of Inl e \<Rightarrow> Inl e | Inr st \<Rightarrow> parse_container env (Suc line) ls st)
      else
        let path = (case container_override env of Some p \<Rightarrow> p | None \<Rightarrow> chomp first)
        in if container_override env = None \<and> \<not> line_alloc env (Suc line) then Inl (DscError (Suc line) 1 NoMemory)
           else if file_contents (files env) path = None then Inl (DscError (Suc line) 1 ContainerNotFound)
           else if is_directory env path then Inl (DscError (Suc line) 1 ContainerIsDirectory)
           else Inr (st\<lparr>d_container := Some path\<rparr>, Suc line, ls))"

fun parse_deps :: "dsc_env \<Rightarrow> nat \<Rightarrow> bytes list \<Rightarrow> dsc \<Rightarrow> dsc_error + (dsc \<times> nat \<times> bytes list)" where
  "parse_deps env line [] st = Inr (st, line, [])"
| "parse_deps env line (first # ls) st =
     (if hd first \<noteq> 42 then Inr (st, line, first # ls)
      else if \<not> line_alloc env (Suc line) then Inl (DscError (Suc line) 1 NoMemory)
      else case add_dependency (file_contents (files env)) (chomp (drop 1 first)) st of
        None \<Rightarrow> Inl (DscError (Suc line) 1 BadDependency)
      | Some st \<Rightarrow> parse_deps env (Suc line) ls st)"

text \<open>\<open>strtol\<close> with base 16: white space, a sign, \<open>0x\<close> before a digit, then digits; saturating.\<close>

definition isspace :: "u8 \<Rightarrow> bool" where
  "isspace c \<longleftrightarrow> c = 32 \<or> (9 \<le> c \<and> c \<le> 13)"

fun hex_digits_val :: "nat \<Rightarrow> bytes \<Rightarrow> nat" where
  "hex_digits_val n [] = n"
| "hex_digits_val n (c # cs) = (case hex_val c of None \<Rightarrow> n | Some d \<Rightarrow> hex_digits_val (16 * n + d) cs)"

definition skip_0x :: "bytes \<Rightarrow> bytes" where
  "skip_0x s = (case s of a # b # c # _ \<Rightarrow> if a = 0x30 \<and> (b = 0x78 \<or> b = 0x58) \<and> hex_val c \<noteq> None then drop 2 s else s | _ \<Rightarrow> s)"

definition strtol16 :: "bytes \<Rightarrow> u64" where
  "strtol16 s =
     (let s = dropWhile isspace s;
          neg = (s \<noteq> [] \<and> hd s = 45);
          s = (if s \<noteq> [] \<and> (hd s = 45 \<or> hd s = 43) then tl s else s);
          n = int (hex_digits_val 0 (skip_0x s))
      in of_int (if neg then max (- (2 ^ 63)) (- n) else min (2 ^ 63 - 1) n))"

definition strchr_colon :: "bytes \<Rightarrow> (bytes \<times> bytes) option" where
  "strchr_colon s = (if colon \<in> set s then Some (takeWhile (\<lambda>c. c \<noteq> colon) s, drop 1 (dropWhile (\<lambda>c. c \<noteq> colon) s)) else None)"

definition push_ref :: "ulp_reference \<Rightarrow> dsc \<Rightarrow> dsc" where
  "push_ref r st = st\<lparr>d_refs := r # d_refs st, d_nrefs := d_nrefs st + 1\<rparr>"

definition parse_reference ::
  "nat \<Rightarrow> ulp_so_info \<Rightarrow> ulp_so_info \<Rightarrow> bytes \<Rightarrow> dsc \<Rightarrow> dsc_error + dsc" where
  "parse_reference line target container first st =
     (let tls_p = (length first > 1 \<and> first ! 1 = 37);
          col = (if tls_p then 3 else 2);
          third = drop (if tls_p then 2 else 1) first
      in case strchr_colon third of
           None \<Rightarrow> Inl DscSegv
         | Some (tname, third) \<Rightarrow>
             (case strchr_colon third of
                None \<Rightarrow>
                  (case get_symbol_with_name (so_symbols target) tname of
                     None \<Rightarrow> Inl (DscError line col (NoSymbol tname))
                   | Some new_sym \<Rightarrow>
                       (case get_symbol_with_name (so_symbols container) third of
                          None \<Rightarrow> Inl (DscError line (col + length tname + 1) (NoSymbol third))
                        | Some old_sym \<Rightarrow>
                            Inr (push_ref \<lparr>target_name = tname, reference_name = third, target_offset = sym_offset new_sym,
                                   patch_offset = sym_offset old_sym, tls = tls_p\<rparr> st)))
              | Some (rname, third) \<Rightarrow>
                  (case strchr_colon third of
                     None \<Rightarrow> Inl DscSegv
                   | Some (toff, poff) \<Rightarrow>
                       Inr (push_ref \<lparr>target_name = tname, reference_name = rname, target_offset = strtol16 toff,
                              patch_offset = strtol16 poff, tls = tls_p\<rparr> st))))"

text \<open>
  A line that names two functions. \<open>strtok\<close> moves \<open>first\<close> behind leading colons; the pointer that is then freed is
  not one that was allocated.
\<close>

definition parse_functions ::
  "bool \<Rightarrow> nat \<Rightarrow> ulp_so_info \<Rightarrow> ulp_so_info \<Rightarrow> bytes \<Rightarrow> dsc \<Rightarrow> dsc_error + dsc" where
  "parse_functions unit_alloc line target container first st =
     (if first = [] then Inl DscAbort
      else if last first = colon then Inl (DscError line (length first) ExpectedTarget)
      else if hd first = colon then Inl DscAbort
      else case strtok colon first of
        (None, _) \<Rightarrow> Inl DscAbort
      | (Some old, rest) \<Rightarrow>
          (case get_symbol_with_name (so_symbols target) old of
             None \<Rightarrow> Inl (DscError line 1 (NoSymbol old))
           | Some _ \<Rightarrow>
               (case strtok colon rest of
                  (None, _) \<Rightarrow> Inl (DscError line 1 ExpectedColon)
                | (Some new, _) \<Rightarrow>
                    let col = length first - length (dropWhile (\<lambda>c. c = colon) rest) + 1
                    in (case get_symbol_with_name (so_symbols container) new of
                       None \<Rightarrow> Inl (DscError line col (NoSymbol new))
                     | Some _ \<Rightarrow>
                         if \<not> unit_alloc then Inl (DscError line col NoMemory)
                         else Inr (st\<lparr>d_units := d_units st @ [\<lparr>old_fname = old, new_fname = new, old_faddr = 0\<rparr>],
                                d_nunits := d_nunits st + 1\<rparr>)))))"

definition parse_target :: "dsc_env \<Rightarrow> nat \<Rightarrow> bytes \<Rightarrow> dsc \<Rightarrow> dsc_error + dsc" where
  "parse_target env line first st =
     (let target_path = (case target_override env of Some p \<Rightarrow> p | None \<Rightarrow> chomp (drop 1 first))
      in if d_target st \<noteq> None then Inl (DscError line 1 DuplicateTarget)
         else if \<not> line_alloc env line then Inl (DscError line 2 NoMemory)
         else if length target_path \<ge> PATH_MAX then Inl DscAbort
         else if file_contents (files env) target_path = None then Inl (DscError line 2 TargetNotFound)
         else if is_directory env target_path then Inl (DscError line 2 TargetIsDirectory)
         else case ulp_so_info_open (files env) target_path of
           None \<Rightarrow> Inl DscAbort
         | Some None \<Rightarrow> Inl (DscError line 2 TargetFormat)
         | Some (Some target) \<Rightarrow> Inr (st\<lparr>d_target := Some target\<rparr>))"

definition parse_line :: "dsc_env \<Rightarrow> ulp_so_info \<Rightarrow> nat \<Rightarrow> bytes \<Rightarrow> dsc \<Rightarrow> dsc_error + dsc" where
  "parse_line env container line first st =
     (if hd first = 10 then Inr st
      else if hd first = 33 then read_comment env first st
      else if hd first = 64 then parse_target env line first st
      else case d_target st of
        None \<Rightarrow> Inl (DscError line 1 NoTarget)
      | Some target \<Rightarrow>
          if hd first = 35 then
            (if \<not> line_alloc env line then Inl (DscError line 2 NoMemory)
             else parse_reference line target container (chomp first) st)
          else parse_functions (line_alloc env line) line target container (chomp first) st)"

fun parse_lines :: "dsc_env \<Rightarrow> ulp_so_info \<Rightarrow> nat \<Rightarrow> bytes list \<Rightarrow> dsc \<Rightarrow> dsc_error + dsc" where
  "parse_lines env container line [] st = Inr st"
| "parse_lines env container line (first # ls) st =
     (case parse_line env container (Suc line) first st of
        Inl e \<Rightarrow> Inl e
      | Inr st \<Rightarrow> parse_lines env container (Suc line) ls st)"

text \<open>The whole parser: \<open>None\<close> as the lines is a file that cannot be opened.\<close>

definition parse_description :: "dsc_env \<Rightarrow> bytes list option \<Rightarrow> dsc_error + dsc" where
  "parse_description env description =
     (case description of
        None \<Rightarrow> Inl (DscError 0 0 NoDescription)
      | Some ls \<Rightarrow>
          (case parse_container env 0 ls dsc_init of
             Inl e \<Rightarrow> Inl e
           | Inr (st, line, ls) \<Rightarrow>
               (case ulp_so_info_open (files env) (the (d_container st)) of
                  None \<Rightarrow> Inl DscAbort
                | Some None \<Rightarrow> Inl (DscError line 1 ContainerFormat)
                | Some (Some container) \<Rightarrow>
                    (case parse_deps env line ls st of
                       Inl e \<Rightarrow> Inl e
                     | Inr (st, line, ls) \<Rightarrow> parse_lines env container line ls st))))"

subsection \<open>The metadata\<close>

fun get_target_addrs :: "ulp_so_info \<Rightarrow> ulp_unit list \<Rightarrow> ulp_unit list option" where
  "get_target_addrs info [] = Some []"
| "get_target_addrs info (u # us) =
     (case get_symbol_with_name (so_symbols info) (old_fname u) of
        None \<Rightarrow> None
      | Some s \<Rightarrow> map_option ((#) (u\<lparr>old_faddr := sym_offset s\<rparr>)) (get_target_addrs info us))"

fun get_target_ref_addrs :: "ulp_so_info \<Rightarrow> ulp_reference list \<Rightarrow> ulp_reference list option" where
  "get_target_ref_addrs info [] = Some []"
| "get_target_ref_addrs info (r # rs) =
     (if target_offset r \<noteq> 0 then map_option ((#) r) (get_target_ref_addrs info rs)
      else case get_symbol_with_name (so_symbols info) (target_name r) of
        None \<Rightarrow> None
      | Some s \<Rightarrow> map_option ((#) (r\<lparr>target_offset := sym_offset s\<rparr>)) (get_target_ref_addrs info rs))"

definition get_ulp_elf_metadata :: "ulp_so_info \<Rightarrow> dsc \<Rightarrow> ulp_metadata option" where
  "get_ulp_elf_metadata info st =
     (case get_target_addrs info (d_units st) of
        None \<Rightarrow> None
      | Some us \<Rightarrow>
          (case get_target_ref_addrs info (d_refs st) of
             None \<Rightarrow> None
           | Some rs \<Rightarrow>
               Some \<lparr>patch_id = replicate 32 0, so_filename = the (d_container st), so_handler = 0,
                 objs = \<lparr>build_id_len = of_nat BUILDID_LEN, build_id_check = False, build_id = take BUILDID_LEN (so_buildid info),
                   obj_name = so_name info, nunits = d_nunits st, units = us\<rparr>,
                 ndeps = d_ndeps st, deps = d_deps st, nrefs = d_nrefs st, refs = rs, ptype = 0\<rparr>))"

text \<open>
  The identifier: the first half of the build id of the container and the digest of the description. \<open>contents\<close> is what is read of
  the description; the inner \<open>None\<close> is an error.
\<close>

definition write_patch_id :: "(bytes \<Rightarrow> elf_section list option) \<Rightarrow> bool \<Rightarrow> bytes option \<Rightarrow> bytes \<Rightarrow> bytes option option" where
  "write_patch_id load md4_ok contents livepatch =
     (case load livepatch of
        None \<Rightarrow> Some None
      | Some elf \<Rightarrow>
          (case get_build_id_note elf of
             None \<Rightarrow> Some None
           | Some note \<Rightarrow> do {
               r \<leftarrow> get_build_id note;
               case r of
                 None \<Rightarrow> Some None
               | Some bid \<Rightarrow>
                   (case contents of
                      None \<Rightarrow> Some None
                    | Some input \<Rightarrow>
                        Some (map_option (\<lambda>digest. take 16 (take 16 bid @ replicate 16 0) @ take 16 digest) (MD4 md4_ok md4_ok input))) }))"

text \<open>
  The command: the exit status and the sections handed to objcopy for the container. \<open>tmp i\<close> says whether the temporary file of the
  i-th section can be made, \<open>embeds\<close> whether \<open>embed_patch_metadata_into_elf\<close> returns 0 for a section (it is modelled in \<open>Tool_Files\<close>). \<open>None\<close> is a crash, or a run that does not end. The result of a
  failed embedding of the comments goes to a variable that hides the exit status.
\<close>

definition run_packer ::
  "dsc_env \<Rightarrow> (nat \<Rightarrow> bool) \<Rightarrow> (string \<Rightarrow> bool) \<Rightarrow> bool \<Rightarrow> bytes list option \<Rightarrow> (int \<times> (string \<times> bytes) list) option" where
  "run_packer env tmp embeds md4_ok description =
     (case parse_description env description of
        Inl DscAbort \<Rightarrow> None
      | Inl _ \<Rightarrow> Some (1, [])
      | Inr st \<Rightarrow> do {
          target \<leftarrow> d_target st;
          case get_ulp_elf_metadata target st of
            None \<Rightarrow> Some (1, [])
          | Some ulp \<Rightarrow> do {
              i \<leftarrow> write_patch_id (load_elf (files env)) md4_ok (map_option concat description) (the (d_container st));
              case i of
                None \<Rightarrow> Some (1, [])
              | Some i \<Rightarrow>
                  let ulp = ulp\<lparr>patch_id := i\<rparr>; meta = (''.ulp'', create_patch_metadata_file ulp) in
                  if \<not> tmp 0 \<or> \<not> embeds ''.ulp'' then Some (1, [])
                  else case (case d_comments st of
                      None \<Rightarrow> Inr []
                    | Some c \<Rightarrow>
                        if \<not> tmp 1 then Inl 1
                        else if \<not> embeds ''.ulp.comments'' then Inl 0
                        else Inr [(''.ulp.comments'', cstr c @ [0])]) of
                    Inl ret \<Rightarrow> Some (ret, [meta])
                  | Inr comments \<Rightarrow>
                      if \<not> tmp 2 \<or> \<not> embeds ''.ulp.rev'' then Some (1, meta # comments)
                      else Some (0, meta # comments @ [(''.ulp.rev'', write_reverse_patch ulp)]) } })"

subsection \<open>The parser's records\<close>

text \<open>What holds of everything the parser builds: the counters are the lengths, and names hold no NUL.\<close>

definition dsc_inv :: "dsc \<Rightarrow> bool" where
  "dsc_inv st \<longleftrightarrow> d_ndeps st = of_nat (length (d_deps st)) \<and> (\<forall>d \<in> set (d_deps st). length (dep_id d) = 32) \<and>
     d_nunits st = of_nat (length (d_units st)) \<and> d_nrefs st = of_nat (length (d_refs st)) \<and>
     (\<forall>u \<in> set (d_units st). no_nul (old_fname u) \<and> no_nul (new_fname u))"

named_theorems dsc_keeps \<open>steps of the parser that keep the invariant\<close>

lemma dsc_inv_init [dsc_keeps]: "dsc_inv dsc_init"
  by (simp add: dsc_inv_def dsc_init_def)

lemma no_nul_sub: "no_nul s \<Longrightarrow> set t \<subseteq> set s \<Longrightarrow> no_nul t"
  by (auto simp: no_nul_def)

lemma no_nul_chomp: "no_nul (chomp l)"
  by (simp add: chomp_def)

lemma strtok_sub: "strtok d s = (Some t, r) \<Longrightarrow> set t \<subseteq> set s \<and> set r \<subseteq> set s"
  by (auto simp: strtok_def Let_def split: if_splits dest!: set_takeWhileD set_dropWhileD in_set_dropD)

lemma read_comment_inv [dsc_keeps]: "read_comment env first st = Inr st' \<Longrightarrow> dsc_inv st \<Longrightarrow> dsc_inv st'"
  by (auto simp: read_comment_def Let_def dsc_inv_def split: if_splits)

lemma add_dependency_inv [dsc_keeps]: "add_dependency contents f st = Some st' \<Longrightarrow> dsc_inv st \<Longrightarrow> dsc_inv st'"
  by (auto simp: add_dependency_def dsc_inv_def split: option.splits if_splits)

lemma parse_container_inv [dsc_keeps]:
  "parse_container env line ls st = Inr (st', r) \<Longrightarrow> dsc_inv st \<Longrightarrow> dsc_inv st'"
proof (induction env line ls st rule: parse_container.induct)
  case (2 env line first ls st)
  then show ?case
    by (auto simp: Let_def split: if_splits sum.splits option.splits dest: read_comment_inv) (auto simp: dsc_inv_def)
qed simp

lemma parse_deps_inv [dsc_keeps]: "parse_deps env line ls st = Inr (st', r) \<Longrightarrow> dsc_inv st \<Longrightarrow> dsc_inv st'"
  by (induction env line ls st rule: parse_deps.induct) (auto split: if_splits option.splits dest: add_dependency_inv)

lemma push_ref_inv: "dsc_inv st \<Longrightarrow> dsc_inv (push_ref r st)"
  by (simp add: dsc_inv_def push_ref_def)

lemma parse_reference_inv [dsc_keeps]: "parse_reference line t c first st = Inr st' \<Longrightarrow> dsc_inv st \<Longrightarrow> dsc_inv st'"
  by (auto simp: parse_reference_def Let_def push_ref_inv split: option.splits prod.splits)

lemma parse_functions_adds:
  assumes "parse_functions a line t c first st = Inr st'" "no_nul first"
  shows "\<exists>old new. st' = st\<lparr>d_units := d_units st @ [\<lparr>old_fname = old, new_fname = new, old_faddr = 0\<rparr>], d_nunits := d_nunits st + 1\<rparr> \<and>
    no_nul old \<and> no_nul new"
proof -
  obtain old rest new rest' where t: "strtok colon first = (Some old, rest)" "strtok colon rest = (Some new, rest')"
    and st': "st' = st\<lparr>d_units := d_units st @ [\<lparr>old_fname = old, new_fname = new, old_faddr = 0\<rparr>], d_nunits := d_nunits st + 1\<rparr>"
    using assms(1) by (auto simp: parse_functions_def Let_def split: if_splits option.splits prod.splits)
  have "set old \<subseteq> set first" "set rest \<subseteq> set first" "set new \<subseteq> set rest" using strtok_sub t by blast+
  then show ?thesis using st' no_nul_sub [OF assms(2)] by blast
qed

lemma parse_functions_inv [dsc_keeps]:
  "parse_functions a line t c first st = Inr st' \<Longrightarrow> no_nul first \<Longrightarrow> dsc_inv st \<Longrightarrow> dsc_inv st'"
  by (drule (1) parse_functions_adds) (auto simp: dsc_inv_def)

lemma parse_target_inv [dsc_keeps]: "parse_target env line first st = Inr st' \<Longrightarrow> dsc_inv st \<Longrightarrow> dsc_inv st'"
  by (auto simp: parse_target_def Let_def dsc_inv_def split: if_splits option.splits)

lemma parse_line_inv: "parse_line env c line first st = Inr st' \<Longrightarrow> dsc_inv st \<Longrightarrow> dsc_inv st'"
  unfolding parse_line_def
  by (auto split: if_splits option.splits intro: dsc_keeps no_nul_chomp)

lemma parse_lines_inv [dsc_keeps]: "parse_lines env c line ls st = Inr st' \<Longrightarrow> dsc_inv st \<Longrightarrow> dsc_inv st'"
  by (induction env c line ls st rule: parse_lines.induct) (auto split: sum.splits dest: parse_line_inv)

lemma parse_description_inv: "parse_description env desc = Inr st \<Longrightarrow> dsc_inv st"
  unfolding parse_description_def
  by (auto split: option.splits sum.splits prod.splits dest!: parse_container_inv [OF _ dsc_inv_init] dest: parse_deps_inv parse_lines_inv)

text \<open>
  Claim C39. What the parser builds is well formed: the counters it keeps in 32 bits are the lengths of its lists, the
  identifiers of the dependencies have 32 bytes, and the names of functions hold no NUL.
\<close>

theorem parse_description_wf:
  assumes "parse_description env desc = Inr st"
  shows "d_ndeps st = of_nat (length (d_deps st)) \<and> (\<forall>d \<in> set (d_deps st). length (dep_id d) = 32) \<and>
    d_nunits st = of_nat (length (d_units st)) \<and> d_nrefs st = of_nat (length (d_refs st)) \<and>
    (\<forall>u \<in> set (d_units st). no_nul (old_fname u) \<and> no_nul (new_fname u))"
  using parse_description_inv [OF assms] by (simp add: dsc_inv_def)

subsection \<open>From the description to libpulp\<close>

lemma get_target_addrs_spec:
  "get_target_addrs info us = Some us' \<Longrightarrow> length us' = length us \<and>
     (\<forall>i < length us. old_fname (us' ! i) = old_fname (us ! i) \<and> new_fname (us' ! i) = new_fname (us ! i) \<and>
       (\<exists>s. get_symbol_with_name (so_symbols info) (old_fname (us ! i)) = Some s \<and> old_faddr (us' ! i) = sym_offset s))"
proof (induction us arbitrary: us')
  case (Cons u us)
  then obtain s us1 where "get_symbol_with_name (so_symbols info) (old_fname u) = Some s" "get_target_addrs info us = Some us1"
    "us' = u\<lparr>old_faddr := sym_offset s\<rparr> # us1" by (auto split: option.splits)
  with Cons.IH [of us1] show ?case by (auto simp: nth_Cons split: nat.split)
qed simp

lemma get_target_ref_addrs_length: "get_target_ref_addrs info rs = Some rs' \<Longrightarrow> length rs' = length rs"
proof (induction rs arbitrary: rs')
  case (Cons r rs)
  then show ?case by (auto split: option.splits if_splits)
qed simp

lemma write_patch_id_length: "write_patch_id load ok contents lp = Some (Some i) \<Longrightarrow> length i = 32"
  by (auto simp: write_patch_id_def MD4_def md4_append_def Let_def split: option.splits Option.bind_splits if_splits prod.splits)

lemma run_packer_meta:
  assumes "run_packer env tmp embeds ok desc = Some (r, secs)" "(''.ulp'', bs) \<in> set secs"
  obtains st target md i where "parse_description env desc = Inr st" "d_target st = Some target"
    "get_ulp_elf_metadata target st = Some md" "length i = 32" "bs = create_patch_metadata_file (md\<lparr>patch_id := i\<rparr>)"
proof -
  obtain st where st: "parse_description env desc = Inr st"
    using assms by (auto simp: run_packer_def split: sum.splits dsc_error.splits)
  obtain target where t: "d_target st = Some target" using assms(1) st by (cases "d_target st") (auto simp: run_packer_def)
  obtain md where md: "get_ulp_elf_metadata target st = Some md"
    using assms st t by (cases "get_ulp_elf_metadata target st") (auto simp: run_packer_def)
  obtain i where i: "write_patch_id (load_elf (files env)) ok (map_option concat desc) (the (d_container st)) = Some (Some i)"
    using assms st t md
    by (cases "write_patch_id (load_elf (files env)) ok (map_option concat desc) (the (d_container st))")
       (auto simp: run_packer_def split: option.splits)
  have "bs = create_patch_metadata_file (md\<lparr>patch_id := i\<rparr>)"
    using assms st t md i by (auto simp: run_packer_def Let_def split: if_splits option.splits)
  then show ?thesis using that st t md write_patch_id_length [OF i] by blast
qed

lemma length_concat_member: "x \<in> set xs \<Longrightarrow> length (f x) \<le> length (concat (map f xs))"
  by (induction xs) auto

lemma length_concat_count: "\<forall>x \<in> set xs. f x \<noteq> [] \<Longrightarrow> length xs \<le> length (concat (map f xs))"
proof (induction xs)
  case (Cons x xs)
  then have "1 \<le> length (f x)" by (simp add: Suc_le_eq)
  with Cons show ?case by simp
qed simp

lemma small_metadata_wf:
  assumes "get_ulp_elf_metadata target st = Some md" "dsc_inv st" "length i = 32" "length (so_buildid target) = BUILDID_LEN"
    and "length (create_patch_metadata_file (md\<lparr>patch_id := i\<rparr>)) < 2 ^ 31"
  shows "wf_metadata (md\<lparr>patch_id := i\<rparr>)"
proof -
  obtain us rs where us: "get_target_addrs target (d_units st) = Some us" "get_target_ref_addrs target (d_refs st) = Some rs"
    and md: "md = \<lparr>patch_id = replicate 32 0, so_filename = the (d_container st), so_handler = 0,
                 objs = \<lparr>build_id_len = of_nat BUILDID_LEN, build_id_check = False, build_id = take BUILDID_LEN (so_buildid target),
                   obj_name = so_name target, nunits = d_nunits st, units = us\<rparr>,
                 ndeps = d_ndeps st, deps = d_deps st, nrefs = d_nrefs st, refs = rs, ptype = 0\<rparr>"
    using assms(1) by (auto simp: get_ulp_elf_metadata_def split: option.splits)
  have n: "length us = length (d_units st)" "length rs = length (d_refs st)"
    using get_target_addrs_spec [OF us(1)] get_target_ref_addrs_length [OF us(2)] by auto
  have inv: "\<forall>d \<in> set (d_deps st). dep_id d \<noteq> []" using assms(2) by (auto simp: dsc_inv_def)
  have size: "length (cstr (so_name target)) + length (concat (map put_unit us)) + length (concat (map dep_id (d_deps st))) +
      length (concat (map put_ref rs)) < 2 ^ 31"
    using assms(5) unfolding md by (simp add: create_patch_metadata_file_def put_str_def)
  have ne: "put_unit u \<noteq> []" "put_ref r \<noteq> []" for u r by (simp_all add: put_unit_def put_ref_def put_str_def)
  have counts: "length us < 2 ^ 31" "length (d_deps st) < 2 ^ 31" "length rs < 2 ^ 31"
    using length_concat_count [of us put_unit] length_concat_count [of "d_deps st" dep_id] length_concat_count [of rs put_ref] inv ne size
    by auto
  have "name_ok (old_fname u) \<and> name_ok (new_fname u)" if "u \<in> set us" for u
    using length_concat_member [OF that, of put_unit] size by (simp add: name_ok_def put_unit_def put_str_def)
  moreover have "name_ok (target_name r) \<and> name_ok (reference_name r)" if "r \<in> set rs" for r
    using length_concat_member [OF that, of put_ref] size by (simp add: name_ok_def put_ref_def put_str_def)
  moreover have "name_ok (so_name target)" using size by (simp add: name_ok_def)
  ultimately show ?thesis
    using assms(2-4) counts n unfolding md by (simp add: wf_metadata_def dsc_inv_def BUILDID_LEN_def)
qed


text \<open>
  A lost comment section is a success: when objcopy fails to add the comments, the packer returns 0 although it has
  neither the comments nor the section for the reversal in the container; every other failure of an embedding gives 1.
\<close>

theorem packer_comments_failure:
  assumes "run_packer env tmp (\<lambda>_. True) ok desc = Some (0, secs)" "\<forall>n. tmp n"
    and "parse_description env desc = Inr d" "d_comments d = Some comments"
  shows "run_packer env tmp (\<lambda>s. s \<noteq> ''.ulp.comments'') ok desc = Some (0, [hd secs]) \<and> fst (hd secs) = ''.ulp'' \<and>
    ''.ulp.rev'' \<in> fst ` set secs \<and> (s \<noteq> ''.ulp.comments'' \<and> s \<in> fst ` set secs \<longrightarrow>
      (\<exists>secs'. run_packer env tmp (\<lambda>x. x \<noteq> s) ok desc = Some (1, secs')))"
proof -
  obtain target where t: "d_target d = Some target" using assms(1,3) by (cases "d_target d") (auto simp: run_packer_def)
  obtain md where md: "get_ulp_elf_metadata target d = Some md"
    using assms(1,3) t by (cases "get_ulp_elf_metadata target d") (auto simp: run_packer_def)
  obtain i where i: "write_patch_id (load_elf (files env)) ok (map_option concat desc) (the (d_container d)) = Some (Some i)"
    using assms(1,3) t md
    by (cases "write_patch_id (load_elf (files env)) ok (map_option concat desc) (the (d_container d))")
       (auto simp: run_packer_def split: option.splits)
  note run = run_packer_def [of env tmp _ ok desc, unfolded assms(3) sum.case t md i bind.bind_lunit option.case assms(4) Let_def]
  show ?thesis using assms(1,2) unfolding run by auto
qed

subsection \<open>Descriptions as they are written\<close>

text \<open>A name without colon, newline and NUL; the lines of a description, and what they stand for.\<close>

definition plain :: "bytes \<Rightarrow> bool" where
  "plain s \<longleftrightarrow> s \<noteq> [] \<and> colon \<notin> set s \<and> 10 \<notin> set s \<and> no_nul s"

datatype dsc_item = DUnit bytes bytes | DRef bool bytes bytes

fun item_line :: "dsc_item \<Rightarrow> bytes" where
  "item_line (DUnit old new) = old @ colon # new @ [10]"
| "item_line (DRef t a b) = 35 # (if t then [37] else []) @ a @ colon # b @ [10]"

fun item_ok :: "ulp_so_info \<Rightarrow> ulp_so_info \<Rightarrow> dsc_item \<Rightarrow> bool" where
  "item_ok target container (DUnit old new) \<longleftrightarrow> plain old \<and> plain new \<and> hd old \<notin> {33, 35, 64} \<and>
     old \<in> sym_name ` set (so_symbols target) \<and> new \<in> sym_name ` set (so_symbols container)"
| "item_ok target container (DRef t a b) \<longleftrightarrow> plain a \<and> plain b \<and> (t \<or> hd a \<noteq> 37) \<and>
     a \<in> sym_name ` set (so_symbols target) \<and> b \<in> sym_name ` set (so_symbols container)"

definition offset_of :: "ulp_so_info \<Rightarrow> bytes \<Rightarrow> u64" where
  "offset_of info n = sym_offset (the (get_symbol_with_name (so_symbols info) n))"

definition item_units :: "dsc_item list \<Rightarrow> ulp_unit list" where
  "item_units is = [\<lparr>old_fname = old, new_fname = new, old_faddr = 0\<rparr>. DUnit old new \<leftarrow> is]"

definition item_refs :: "ulp_so_info \<Rightarrow> ulp_so_info \<Rightarrow> dsc_item list \<Rightarrow> ulp_reference list" where
  "item_refs target container is = [\<lparr>target_name = a, reference_name = b, target_offset = offset_of target a,
     patch_offset = offset_of container b, tls = t\<rparr>. DRef t a b \<leftarrow> is]"

lemma get_symbol_known: "n \<in> sym_name ` set ss \<Longrightarrow> \<exists>s. get_symbol_with_name ss n = Some s"
  by (induction ss) auto

lemma chomp_line: "no_nul s \<Longrightarrow> chomp (s @ [10]) = s"
  by (simp add: chomp_def)

lemma while_plain:
  "c \<notin> set a \<Longrightarrow> takeWhile (\<lambda>x. x \<noteq> c) (a @ t) = a @ takeWhile (\<lambda>x. x \<noteq> c) t"
  "c \<notin> set a \<Longrightarrow> dropWhile (\<lambda>x. x \<noteq> c) (a @ t) = dropWhile (\<lambda>x. x \<noteq> c) t"
  by (induction a) auto

lemma plain_ends: "plain s \<Longrightarrow> hd s \<noteq> 10 \<and> hd s \<noteq> colon \<and> last s \<noteq> colon"
  unfolding plain_def by (metis last_in_set list.set_sel(1))

lemma strtok_plain:
  assumes "plain a"
  shows "strtok colon (a @ colon # s) = (Some a, s)" "strtok colon a = (Some a, [])"
proof -
  have n: "colon \<notin> set a" "a \<noteq> []" using assms by (simp_all add: plain_def)
  then have "dropWhile (\<lambda>c. c = colon) (a @ t) = a @ t" for t by (cases a) auto
  from this [of "colon # s"] this [of "[]"] show "strtok colon (a @ colon # s) = (Some a, s)" "strtok colon a = (Some a, [])"
    using n while_plain [OF n(1), of "colon # s"] while_plain [OF n(1), of "[]"] by (simp_all only: strtok_def Let_def append_Nil2, simp_all)
qed

lemma strchr_plain: "plain a \<Longrightarrow> strchr_colon (a @ colon # s) = Some (a, s)" "plain a \<Longrightarrow> strchr_colon a = None"
  using while_plain [of colon a "colon # s"] by (simp_all add: strchr_colon_def plain_def)

lemma parse_unit_line:
  assumes "item_ok target container (DUnit old new)" "d_target st = Some target" "line_alloc env line"
  shows "parse_line env container line (item_line (DUnit old new)) st =
    Inr (st\<lparr>d_units := d_units st @ [\<lparr>old_fname = old, new_fname = new, old_faddr = 0\<rparr>], d_nunits := d_nunits st + 1\<rparr>)"
proof -
  have p: "plain old" "plain new" "hd old \<notin> {33, 35, 64}" using assms(1) by simp_all
  obtain s1 s2 where sy: "get_symbol_with_name (so_symbols target) old = Some s1" "get_symbol_with_name (so_symbols container) new = Some s2"
    using assms(1) get_symbol_known unfolding item_ok.simps by metis
  have hd: "hd (item_line (DUnit old new)) = hd old" "hd old \<noteq> 10" "hd (old @ colon # new) \<noteq> colon" "last (old @ colon # new) \<noteq> colon"
    "old @ colon # new \<noteq> []"
    using p plain_ends [OF p(1)] plain_ends [OF p(2)] by (simp_all add: plain_def)
  have "chomp (item_line (DUnit old new)) = old @ colon # new"
    using chomp_line [of "old @ colon # new"] p by (simp add: plain_def no_nul_def)
  then show ?thesis
    using p hd assms(2,3) sy strtok_plain [OF p(1)] strtok_plain [OF p(2)]
    by (simp add: parse_line_def parse_functions_def del: item_line.simps)
qed

lemma parse_ref_line:
  assumes "item_ok target container (DRef t a b)" "d_target st = Some target" "line_alloc env line"
  shows "parse_line env container line (item_line (DRef t a b)) st =
    Inr (push_ref \<lparr>target_name = a, reference_name = b, target_offset = offset_of target a, patch_offset = offset_of container b, tls = t\<rparr> st)"
proof -
  have p: "plain a" "plain b" "t \<or> hd a \<noteq> 37" using assms(1) by simp_all
  obtain s1 s2 where sy: "get_symbol_with_name (so_symbols target) a = Some s1" "get_symbol_with_name (so_symbols container) b = Some s2"
    using assms(1) get_symbol_known unfolding item_ok.simps by metis
  let ?l = "35 # (if t then [37] else []) @ a @ colon # b"
  have "no_nul ?l" using p by (simp add: plain_def no_nul_def)
  from chomp_line [OF this] have c: "chomp (item_line (DRef t a b)) = ?l" by simp
  have t: "(length ?l > 1 \<and> ?l ! 1 = 37) \<longleftrightarrow> t" using p by (cases a) (auto simp: plain_def)
  have d: "drop (if t then 2 else 1) ?l = a @ colon # b" by simp
  show ?thesis
    using assms(2,3) sy strchr_plain [OF p(1)] strchr_plain [OF p(2)]
    unfolding parse_line_def c parse_reference_def Let_def t d by (simp add: offset_of_def)
qed

lemma parse_item_lines:
  assumes "\<forall>i \<in> set is. item_ok target container i" "d_target st = Some target" "\<forall>n. line_alloc env n"
  shows "parse_lines env container line (map item_line is) st =
    Inr (st\<lparr>d_units := d_units st @ item_units is, d_nunits := d_nunits st + of_nat (length (item_units is)),
            d_refs := rev (item_refs target container is) @ d_refs st, d_nrefs := d_nrefs st + of_nat (length (item_refs target container is))\<rparr>)"
  using assms(1,2)
proof (induction "is" arbitrary: st line)
  case (Cons i "is")
  show ?case
  proof (cases i)
    case (DUnit old new)
    then show ?thesis
      using Cons parse_unit_line [of target container old new st env "Suc line"] assms(3) by (simp add: item_units_def item_refs_def)
  next
    case (DRef t a b)
    then show ?thesis
      using Cons parse_ref_line [of target container t a b st env "Suc line"] assms(3)
      by (simp add: item_units_def item_refs_def push_ref_def)
  qed
qed (simp add: item_units_def item_refs_def)



subsection \<open>Comments\<close>

text \<open>The comment buffer as the bytes up to the position, and the NUL behind them.\<close>

definition comments_are :: "dsc \<Rightarrow> bytes \<Rightarrow> bool" where
  "comments_are st b \<longleftrightarrow> comment_pos st = length b \<and>
     (b = [] \<and> d_comments st = None \<and> comment_size st = 0 \<or> d_comments st = Some (b @ [0]) \<and> comment_size st = 128 * 1024)"

lemma strncpy_all: "no_nul s \<Longrightarrow> n = length s \<Longrightarrow> strncpy s n = s"
  by (simp add: strncpy_def)

lemma read_comment_appends:
  assumes "comments_are st b" "no_nul l" "l \<noteq> []" "length b + length l + 1 < 128 * 1024"
  shows "\<exists>st'. read_comment env l st = Inr st' \<and> comments_are st' (b @ tl l @ [heap_byte env (length b + length (tl l))]) \<and>
    d_container st' = d_container st"
proof -
  have "strncpy (drop 1 l) (length l - 1) = tl l" using assms(2) by (cases l) (simp_all add: strncpy_all no_nul_def)
  then show ?thesis using assms by (auto simp: comments_are_def read_comment_def Let_def)
qed

lemma parse_container_comments:
  assumes "\<forall>l \<in> set cs. l \<noteq> [] \<and> hd l = 33 \<and> no_nul l" "heap_byte env = (\<lambda>_. 0)"
  shows "comments_are st b \<Longrightarrow> length b + length (concat cs) + 1 < 128 * 1024 \<Longrightarrow>
    \<exists>st'. parse_container env line (cs @ ls) st = parse_container env (line + length cs) ls st' \<and>
      comments_are st' (b @ concat (map (\<lambda>l. tl l @ [0]) cs))"
  using assms(1)
proof (induction cs arbitrary: st b line)
  case (Cons l cs)
  then obtain st' where st': "read_comment env l st = Inr st'" "comments_are st' (b @ tl l @ [0])"
    using read_comment_appends [of st b l env] assms(2) by auto
  have "length (tl l) = length l - 1" "l \<noteq> []" using Cons.prems(3) by simp_all
  then have "length (b @ tl l @ [0]) + length (concat cs) + 1 < 128 * 1024" using Cons.prems(2) by (cases l) auto
  from Cons.IH [OF st'(2) this, of "Suc line"] show ?case using st'(1) Cons.prems(3) by simp
qed auto

text \<open>
  Only the first comment survives: in memory that is zero when it is allocated, as blocks of this size are, the byte that the
  copy leaves out ends the string behind the first comment line. Of all comment lines before the container's name, the section
  \<open>.ulp.comments\<close> holds the first one only.
\<close>

theorem first_comment_only:
  assumes "heap_byte env = (\<lambda>_. 0)" "cs \<noteq> []" "\<forall>l \<in> set cs. l \<noteq> [] \<and> hd l = 33 \<and> no_nul l" "length (concat cs) + 1 < 128 * 1024"
    and "container_override env = None" "\<forall>n. line_alloc env n" "plain cpath" "hd cpath \<noteq> 33"
      "file_contents (files env) cpath \<noteq> None" "\<not> is_directory env cpath"
  shows "\<exists>st n c. parse_container env 0 (cs @ (cpath @ [10]) # ls) dsc_init = Inr (st, n, ls) \<and> d_container st = Some cpath \<and>
    d_comments st = Some c \<and> cstr c @ [0] = tl (hd cs) @ [0]"
proof -
  have "comments_are dsc_init []" by (simp add: comments_are_def dsc_init_def)
  from parse_container_comments [OF assms(3,1) this, of 0 "(cpath @ [10]) # ls"]
  obtain st where st: "parse_container env 0 (cs @ (cpath @ [10]) # ls) dsc_init = parse_container env (length cs) ((cpath @ [10]) # ls) st"
    "comments_are st (concat (map (\<lambda>l. tl l @ [0]) cs))" using assms(4) by auto
  obtain l cs' where cs: "cs = l # cs'" using assms(2) by (cases cs) auto
  have c: "d_comments st = Some (tl l @ 0 # concat (map (\<lambda>l. tl l @ [0]) cs') @ [0])" using st(2) cs by (simp add: comments_are_def)
  have "no_nul (tl l)" using assms(3) cs by (cases l) (auto simp: no_nul_def)
  then have "cstr (tl l @ 0 # concat (map (\<lambda>l. tl l @ [0]) cs') @ [0]) = tl l" by simp
  moreover have "hd (cpath @ [10]) = hd cpath" "hd cpath \<noteq> 10" "chomp (cpath @ [10]) = cpath"
    using assms(7) plain_ends by (simp_all add: plain_def chomp_line)
  ultimately show ?thesis using st(1) c cs assms(5-10) by simp
qed

subsection \<open>Runs\<close>

definition demo_note :: elf_section where
  "demo_note = \<lparr>sec_name = str ''.note.gnu.build-id'', sec_type = SHT_OTHER, sec_data_ok = True, sec_syms = [],
     note_at = (\<lambda>n. if n = 0 then Some \<lparr>n_type = 3, n_desc = replicate 20 5\<rparr> else None)\<rparr>"

definition demo_syms :: "bytes \<Rightarrow> u64 \<Rightarrow> elf_section" where
  "demo_syms n a = \<lparr>sec_name = str ''.dynsym'', sec_type = SHT_DYNSYM, sec_data_ok = True,
     sec_syms = [\<lparr>sym_name = n, sym_offset = a, sym_size = 16, sym_info = 0x12, sym_other = 0\<rparr>], note_at = (\<lambda>_. None)\<rparr>"

definition demo_files :: so_files where
  "demo_files = \<lparr>file_contents = (\<lambda>p. if p \<in> {str ''lp.so'', str ''libx.so''} then Some [127, 0x45, 0x4c, 0x46, 2] else None),
     load_elf = (\<lambda>p. if p = str ''lp.so'' then Some [demo_note, demo_syms (str ''f_lp'') 0x10] else Some [demo_note, demo_syms (str ''f'') 0x1000]),
     so_alloc = True, json_lib = demo_jsonc\<rparr>"

definition demo_dsc_env :: dsc_env where
  "demo_dsc_env = \<lparr>files = demo_files, is_directory = (\<lambda>_. False), container_override = None, target_override = None,
     line_alloc = (\<lambda>_. True), heap_byte = (\<lambda>_. 0)\<rparr>"

definition demo_target :: ulp_so_info where
  "demo_target = \<lparr>so_name = str ''libx.so'', so_buildid = replicate 20 5,
     so_symbols = [\<lparr>sym_name = str ''f'', sym_offset = 0x1000, sym_size = 16, sym_info = 0x12, sym_other = 0\<rparr>]\<rparr>"

definition demo_container :: ulp_so_info where
  "demo_container = \<lparr>so_name = str ''lp.so'', so_buildid = replicate 20 5,
     so_symbols = [\<lparr>sym_name = str ''f_lp'', sym_offset = 0x10, sym_size = 16, sym_info = 0x12, sym_other = 0\<rparr>]\<rparr>"

lemma demo_open:
  "ulp_so_info_open demo_files (str ''lp.so'') = Some (Some demo_container)"
  "ulp_so_info_open demo_files (str ''libx.so'') = Some (Some demo_target)"
  by (simp_all add: ulp_so_info_open_def demo_files_def parse_so_elf_def get_elf_buildid_def get_build_id_note_def get_build_id_def
      find_build_id_note_def demo_note_def demo_syms_def build_symbols_list_def list_section_def get_dynsym_def get_symtab_def
      demo_container_def demo_target_def BUILDID_LEN_def get_basename_def str_def)


definition demo_lines :: "bytes list" where
  "demo_lines = [str ''!bsc#1'' @ [10], str ''lp.so'' @ [10], 64 # str ''libx.so'' @ [10], str ''f:f_lp'' @ [10]]"

definition demo_dsc :: dsc where
  "demo_dsc = dsc_init\<lparr>d_container := Some (str ''lp.so''), d_target := Some demo_target,
     d_units := [\<lparr>old_fname = str ''f'', new_fname = str ''f_lp'', old_faddr = 0\<rparr>], d_nunits := 1,
     d_comments := Some (str ''bsc#1'' @ [10, 0, 0]), comment_pos := 7, comment_size := 128 * 1024\<rparr>"

lemma demo_parse: "parse_description demo_dsc_env (Some demo_lines) = Inr demo_dsc"
proof -
  have f: "files demo_dsc_env = demo_files" "line_alloc demo_dsc_env n" "container_override demo_dsc_env = None"
    "target_override demo_dsc_env = None" "\<not> is_directory demo_dsc_env p" "heap_byte demo_dsc_env n = 0" for n p by (simp_all add: demo_dsc_env_def)
  have c: "file_contents demo_files (str ''lp.so'') = Some [127, 0x45, 0x4c, 0x46, 2]"
    "file_contents demo_files (str ''libx.so'') = Some [127, 0x45, 0x4c, 0x46, 2]" by (simp_all add: demo_files_def)
  have rc: "read_comment demo_dsc_env (str ''!bsc#1'' @ [10]) dsc_init = Inr (dsc_init\<lparr>
     d_comments := Some (str ''bsc#1'' @ [10, 0, 0]), comment_pos := 7, comment_size := 128 * 1024\<rparr>)"
    by (simp add: read_comment_def dsc_init_def f str_def strncpy_def cstr_def)
  have ch: "chomp (str ''lp.so'' @ [10]) = str ''lp.so''" "chomp (str ''libx.so'' @ [10]) = str ''libx.so''"
    by (rule chomp_line, simp add: str_def no_nul_def)+
  have hds: "hd (str ''!bsc#1'' @ [10]) = 33" "hd (str ''lp.so'' @ [10]) = 108" by (simp_all add: str_def)
  let ?st = "dsc_init\<lparr>d_container := Some (str ''lp.so''), d_comments := Some (str ''bsc#1'' @ [10, 0, 0]), comment_pos := 7, comment_size := 128 * 1024\<rparr>"
  have 1: "parse_container demo_dsc_env 0 demo_lines dsc_init = Inr (?st, 2, [64 # str ''libx.so'' @ [10], str ''f:f_lp'' @ [10]])"
    by (simp add: demo_lines_def rc f c ch hds)
  have "length (str ''libx.so'') < PATH_MAX" by (simp add: str_def PATH_MAX_def)
  then have 2: "parse_line demo_dsc_env demo_container 3 (64 # str ''libx.so'' @ [10]) ?st = Inr (?st\<lparr>d_target := Some demo_target\<rparr>)"
    by (simp add: parse_line_def parse_target_def f c ch demo_open dsc_init_def)
  have p: "plain (str ''f'')" "plain (str ''f_lp'')" by (simp_all add: plain_def str_def no_nul_def)
  have 3: "item_ok demo_target demo_container (DUnit (str ''f'') (str ''f_lp''))"
    using p by (simp add: demo_target_def demo_container_def) (simp add: str_def)
  have "item_line (DUnit (str ''f'') (str ''f_lp'')) = str ''f:f_lp'' @ [10]" by (simp add: str_def)
  with parse_unit_line [OF 3, of "?st\<lparr>d_target := Some demo_target\<rparr>" demo_dsc_env 4] f
  have 4: "parse_line demo_dsc_env demo_container 4 (str ''f:f_lp'' @ [10]) (?st\<lparr>d_target := Some demo_target\<rparr>) = Inr demo_dsc"
    by (simp add: demo_dsc_def dsc_init_def del: item_line.simps)
  show ?thesis
    using 1 2 4 by (simp add: parse_description_def f demo_open)
qed

theorem parse_description_wf_witness:
  "parse_description demo_dsc_env (Some demo_lines) = Inr demo_dsc \<and> d_nunits demo_dsc = of_nat (length (d_units demo_dsc))"
  using parse_description_wf [OF demo_parse] demo_parse by simp

definition demo_md :: ulp_metadata where
  "demo_md = \<lparr>patch_id = replicate 32 0, so_filename = str ''lp.so'', so_handler = 0,
     objs = \<lparr>build_id_len = 20, build_id_check = False, build_id = replicate 20 5, obj_name = str ''libx.so'', nunits = 1,
       units = [\<lparr>old_fname = str ''f'', new_fname = str ''f_lp'', old_faddr = 0x1000\<rparr>]\<rparr>,
     ndeps = 0, deps = [], nrefs = 0, refs = [], ptype = 0\<rparr>"

lemma demo_pack:
  obtains i where "length i = 32" and
    "run_packer demo_dsc_env (\<lambda>_. True) (\<lambda>_. True) True (Some demo_lines) =
       Some (0, [(''.ulp'', create_patch_metadata_file (demo_md\<lparr>patch_id := i\<rparr>)), (''.ulp.comments'', str ''bsc#1'' @ [10, 0]),
         (''.ulp.rev'', write_reverse_patch (demo_md\<lparr>patch_id := i\<rparr>))])"
proof -
  have "MD4 True True (concat demo_lines) \<noteq> None" by (simp add: MD4_def Let_def split: prod.split)
  then obtain digest where dg: "MD4 True True (concat demo_lines) = Some digest" by blast
  let ?i = "take 16 (replicate 20 5 @ replicate 16 0) @ take 16 digest"
  have "get_build_id_note [demo_note, demo_syms (str ''f_lp'') 0x10] = Some demo_note" "get_build_id demo_note = Some (Some (replicate 20 5))"
    by (simp_all add: get_build_id_note_def get_build_id_def find_build_id_note_def demo_note_def)
  then have w: "write_patch_id (load_elf demo_files) True (Some (concat demo_lines)) (str ''lp.so'') = Some (Some ?i)"
    using dg by (simp add: write_patch_id_def demo_files_def)
  have m: "get_ulp_elf_metadata demo_target demo_dsc = Some demo_md"
    by (simp add: get_ulp_elf_metadata_def demo_dsc_def demo_target_def dsc_init_def demo_md_def BUILDID_LEN_def)
  have c: "cstr (str ''bsc#1'' @ [10, 0, 0]) = str ''bsc#1'' @ [10]" by (simp add: str_def cstr_def)
  have d: "d_target demo_dsc = Some demo_target" "the (d_container demo_dsc) = str ''lp.so''"
    "d_comments demo_dsc = Some (str ''bsc#1'' @ [10, 0, 0])" "files demo_dsc_env = demo_files"
    by (simp_all add: demo_dsc_def demo_dsc_env_def)
  show ?thesis
    by (rule that [of ?i], rule write_patch_id_length [OF w]) (simp add: run_packer_def demo_parse d m w c Let_def)
qed


theorem packer_comments_failure_witness:
  "\<exists>bs. run_packer demo_dsc_env (\<lambda>_. True) (\<lambda>s. s \<noteq> ''.ulp.comments'') True (Some demo_lines) = Some (0, [(''.ulp'', bs)])"
proof -
  obtain i where run: "run_packer demo_dsc_env (\<lambda>_. True) (\<lambda>_. True) True (Some demo_lines) =
      Some (0, [(''.ulp'', create_patch_metadata_file (demo_md\<lparr>patch_id := i\<rparr>)), (''.ulp.comments'', str ''bsc#1'' @ [10, 0]),
        (''.ulp.rev'', write_reverse_patch (demo_md\<lparr>patch_id := i\<rparr>))])"
    using demo_pack by blast
  have "d_comments demo_dsc = Some (str ''bsc#1'' @ [10, 0, 0])" by (simp add: demo_dsc_def)
  from packer_comments_failure [OF run _ demo_parse this] show ?thesis by simp
qed

theorem first_comment_only_witness:
  "\<exists>st n c. parse_container demo_dsc_env 0 [str ''!bsc#1'' @ [10], str ''!bsc#2'' @ [10], str ''lp.so'' @ [10]] dsc_init = Inr (st, n, []) \<and>
     d_comments st = Some c \<and> cstr c = str ''bsc#1'' @ [10]"
proof -
  have "\<forall>l \<in> set [str ''!bsc#1'' @ [10], str ''!bsc#2'' @ [10]]. l \<noteq> [] \<and> hd l = 33 \<and> no_nul l" "plain (str ''lp.so'')" "hd (str ''lp.so'') \<noteq> 33"
    "length (concat [str ''!bsc#1'' @ [10], str ''!bsc#2'' @ [10]]) + 1 < 128 * 1024" "tl (str ''!bsc#1'' @ [10]) = str ''bsc#1'' @ [10]"
    by (simp_all add: str_def no_nul_def plain_def)
  then show ?thesis
    using first_comment_only [of demo_dsc_env "[str ''!bsc#1'' @ [10], str ''!bsc#2'' @ [10]]" "str ''lp.so''" "[]"]
    by (auto simp: demo_dsc_env_def demo_files_def)
qed

end
