(* ===== verification/Gdb_Interface.thy ===== *)
theory Gdb_Interface
  imports Ulp_Api
begin

text \<open>
  The way without the tool, \<open>src/lib/gdb_interface.c\<close>: a debugger calls \<open>gdb_ulp_apply\<close> inside the process. The metadata come from
  the container through the small ELF reader of \<open>src/lib/minielf.c\<close>, the path is put into them by \<open>inject_lp_path\<close>, and
  the queue is carried out by \<open>insnq_interpret_from_lib\<close> of \<open>src/lib/insn_queue.c\<close>, which makes pages writable while it writes.

  A file is its bytes. Memory that a function reads without having written it is a parameter. \<open>None\<close> is an access outside an array.
\<close>

subsection \<open>Sections of a file\<close>

definition STRTBL_SIZE_MAX :: nat where
  "STRTBL_SIZE_MAX = 0x500"

record elf_ehdr =
  e_shoff :: u64
  e_shentsize :: nat
  e_shnum :: nat
  e_shstrndx :: nat

record elf_shdr =
  eh_name :: u32
  eh_offset :: u64
  eh_size :: u64

text \<open>\<open>lseek\<close> and \<open>read\<close>: at most \<open>n\<close> bytes from an offset; an offset that is negative as a signed number is refused, and reading goes on at \<open>pos\<close>.\<close>

definition read_at :: "bytes \<Rightarrow> nat \<Rightarrow> nat \<Rightarrow> bytes" where
  "read_at file off n = take n (drop off file)"

definition lseek :: "u64 \<Rightarrow> nat \<Rightarrow> nat" where
  "lseek off pos = (if off < 2 ^ 63 then unat off else pos)"

definition u16_at :: "bytes \<Rightarrow> nat \<Rightarrow> nat" where
  "u16_at bs off = of_le (take 2 (drop off bs))"

definition u32_at :: "bytes \<Rightarrow> nat \<Rightarrow> u32" where
  "u32_at bs off = bytes_u32 (take 4 (drop off bs))"

definition u64_at :: "bytes \<Rightarrow> nat \<Rightarrow> u64" where
  "u64_at bs off = bytes_u64 (take 8 (drop off bs))"

definition Elf_Parse_Ehdr :: "bytes \<Rightarrow> elf_ehdr option" where
  "Elf_Parse_Ehdr file =
     (let h = read_at file 0 64
      in if length h \<noteq> 64 then None
         else if take 4 h \<noteq> [0x7f, 0x45, 0x4c, 0x46] then None
         else Some \<lparr>e_shoff = u64_at h 40, e_shentsize = u16_at h 58, e_shnum = u16_at h 60, e_shstrndx = u16_at h 62\<rparr>)"

definition shdr_of :: "bytes \<Rightarrow> elf_shdr" where
  "shdr_of h = \<lparr>eh_name = u32_at h 0, eh_offset = u64_at h 24, eh_size = u64_at h 32\<rparr>"

text \<open>
  The loops over the section headers; \<open>n\<close> headers are left, the next is read at \<open>pos\<close> into the 64 bytes of \<open>hb\<close>. The assertion that an entry
  has 64 bytes is not fatal: it sets the error state, a shorter entry leaves the rest of \<open>hb\<close> as it was, and a longer one is read over its end.
\<close>

fun shdr_by_name :: "bytes \<Rightarrow> nat \<Rightarrow> bytes \<Rightarrow> bytes \<Rightarrow> nat \<Rightarrow> bytes \<Rightarrow> nat \<Rightarrow> (elf_shdr option \<times> nat) option" where
  "shdr_by_name file entsize name strtbl 0 hb pos = Some (None, pos)"
| "shdr_by_name file entsize name strtbl (Suc n) hb pos =
     (let h = read_at file pos entsize; hb = h @ drop (length h) hb; pos = pos + length h
      in if length h \<noteq> entsize then Some (None, pos)
         else let sh = shdr_of hb; i = unat (eh_name sh)
              in if i \<ge> length strtbl \<or> 0 \<notin> set (drop i strtbl) then None
                 else if name = cstr (drop i strtbl) then Some (Some sh, pos)
                 else shdr_by_name file entsize name strtbl n hb pos)"

definition Elf_Get_Shdr_By_Name ::
  "bytes \<Rightarrow> bytes \<Rightarrow> elf_ehdr \<Rightarrow> bytes \<Rightarrow> bytes \<Rightarrow> nat \<times> ulp_error \<Rightarrow> (elf_shdr option \<times> nat \<times> ulp_error) option" where
  "Elf_Get_Shdr_By_Name hb file ehdr name strtbl = (\<lambda>(pos, e).
     let e = libpulp_assert_func (e_shentsize ehdr = 64) e
     in if e_shentsize ehdr > 64 then None
        else map_option (\<lambda>(r, pos). (r, pos, e))
          (shdr_by_name file (e_shentsize ehdr) name strtbl (e_shnum ehdr) hb (lseek (e_shoff ehdr) pos)))"

fun shdr_by_index :: "bytes \<Rightarrow> nat \<Rightarrow> nat \<Rightarrow> nat \<Rightarrow> nat \<Rightarrow> bytes \<Rightarrow> nat \<Rightarrow> elf_shdr option \<times> nat" where
  "shdr_by_index file entsize ix i 0 hb pos = (None, pos)"
| "shdr_by_index file entsize ix i (Suc n) hb pos =
     (let h = read_at file pos entsize; hb = h @ drop (length h) hb; pos = pos + length h
      in if length h \<noteq> entsize then (None, pos)
         else if ix = i then (Some (shdr_of hb), pos)
         else shdr_by_index file entsize ix (Suc i) n hb pos)"

definition Elf_Get_Shdr ::
  "bytes \<Rightarrow> bytes \<Rightarrow> elf_ehdr \<Rightarrow> nat \<Rightarrow> nat \<times> ulp_error \<Rightarrow> (elf_shdr option \<times> nat \<times> ulp_error) option" where
  "Elf_Get_Shdr hb file ehdr ix = (\<lambda>(pos, e).
     let e = libpulp_assert_func (e_shentsize ehdr = 64) e
     in if e_shentsize ehdr > 64 then None
        else case shdr_by_index file (e_shentsize ehdr) ix 0 (e_shnum ehdr) hb (lseek (e_shoff ehdr) pos) of
          (r, pos) \<Rightarrow> Some (r, pos, e))"

text \<open>
  A load of a section into a buffer: the bytes read, and the new contents. The string table is a buffer on the stack; its contents stay what they are
  when the table cannot be loaded, and the result, 0 then, is not used by the caller.
\<close>

definition Elf_Load_Section :: "bytes \<Rightarrow> nat \<Rightarrow> elf_shdr \<Rightarrow> bytes \<Rightarrow> nat \<Rightarrow> nat \<times> bytes \<times> nat" where
  "Elf_Load_Section file dest_size sh dest pos =
     (if unat (eh_size sh) > dest_size then (0, dest, pos)
      else let pos = lseek (eh_offset sh) pos; bs = read_at file pos (unat (eh_size sh)); dest = bs @ drop (length bs) dest
           in (if length bs \<noteq> unat (eh_size sh) then 0 else unat (eh_size sh), dest, pos + length bs))"

definition Elf_Load_Strtbl ::
  "bytes \<Rightarrow> bytes \<Rightarrow> elf_ehdr \<Rightarrow> bytes \<Rightarrow> nat \<times> ulp_error \<Rightarrow> (nat \<times> bytes \<times> nat \<times> ulp_error) option" where
  "Elf_Load_Strtbl hb file ehdr strtbl = (\<lambda>(pos, e).
     let e = libpulp_assert_func (e_shentsize ehdr = 64) e
     in case Elf_Get_Shdr hb file ehdr (e_shstrndx ehdr) (pos, e) of
          None \<Rightarrow> None
        | Some (None, pos, e) \<Rightarrow> Some (0, strtbl, pos, e)
        | Some (Some sh, pos, e) \<Rightarrow>
            (case Elf_Load_Section file STRTBL_SIZE_MAX sh strtbl pos of (n, strtbl, pos) \<Rightarrow> Some (n, strtbl, pos, e)))"

text \<open>\<open>None\<close> as the file is one that cannot be opened. The results are the length or a negative error, the buffer and the error state.\<close>

record minielf_stack =
  hdr_bytes :: bytes
  tbl_bytes :: bytes

definition Get_Elf_Section ::
  "minielf_stack \<Rightarrow> nat \<Rightarrow> bytes \<Rightarrow> bytes \<Rightarrow> bytes option \<Rightarrow> ulp_error \<Rightarrow> (int \<times> bytes \<times> ulp_error) option" where
  "Get_Elf_Section stack dest_size dest section_name file e =
     (case file of
        None \<Rightarrow> Some (- ENOENT, dest, e)
      | Some file \<Rightarrow>
          (case Elf_Parse_Ehdr file of
             None \<Rightarrow> Some (- EINVAL, dest, e)
           | Some ehdr \<Rightarrow>
               (case Elf_Load_Strtbl (hdr_bytes stack) file ehdr (tbl_bytes stack) (64, e) of
                  None \<Rightarrow> None
                | Some (_, strtbl, pos, e) \<Rightarrow>
                    (case Elf_Get_Shdr_By_Name (hdr_bytes stack) file ehdr section_name strtbl (pos, e) of
                       None \<Rightarrow> None
                     | Some (None, pos, e) \<Rightarrow> Some (- EINVAL, dest, e)
                     | Some (Some sh, pos, e) \<Rightarrow>
                         (case Elf_Load_Section file dest_size sh dest pos of (len, dest, pos) \<Rightarrow>
                            if len = 0 then Some (- EINVAL, dest, e) else Some (int len, dest, e))))))"

definition Get_ULP_Section :: "minielf_stack \<Rightarrow> nat \<Rightarrow> bytes \<Rightarrow> bytes option \<Rightarrow> ulp_error \<Rightarrow> (int \<times> bytes \<times> ulp_error) option" where
  "Get_ULP_Section stack dest_size dest file e = Get_Elf_Section stack dest_size dest (str ''.ulp'') file e"

definition Get_ULP_REV_Section :: "minielf_stack \<Rightarrow> nat \<Rightarrow> bytes \<Rightarrow> bytes option \<Rightarrow> ulp_error \<Rightarrow> (int \<times> bytes \<times> ulp_error) option" where
  "Get_ULP_REV_Section stack dest_size dest file e = Get_Elf_Section stack dest_size dest (str ''.ulp.rev'') file e"

subsection \<open>The path of the container\<close>

text \<open>A section shorter than type and identifier makes the length of the move negative, that is, huge.\<close>

definition inject_lp_path :: "bytes \<Rightarrow> int \<Rightarrow> bytes \<Rightarrow> (int \<times> bytes) option" where
  "inject_lp_path path metadata_size buf =
     (let path_size = length path + 1; path_object_size = 4 + path_size
      in if metadata_size + int path_object_size > int ULP_METADATA_BUF_LEN then Some (ENOMEM, buf)
         else if metadata_size < 33 then None
         else let right = take (nat metadata_size - 33) (drop 33 buf);
                  new = take 33 buf @ u32_bytes (of_nat path_size) @ path @ [0] @ right
              in Some (0, new @ drop (length new) buf))"

subsection \<open>Writing inside the process\<close>

text \<open>
  What \<open>read\<close> yields on \<open>/proc/self/maps\<close>, byte by byte: a byte, a failure that is tried again (\<open>EINTR\<close>, \<open>EAGAIN\<close>), or another failure. The end
  of the list is the end of the file.
\<close>

datatype rd = Byte u8 | Retry | Fail

definition LINE_MAX :: nat where
  "LINE_MAX = 2048"

text \<open>The result is the return value, the contents of the buffer and what is left to read; the newline is stored but not counted.\<close>

fun read_line :: "rd list \<Rightarrow> nat \<Rightarrow> nat \<Rightarrow> bytes \<Rightarrow> int \<times> bytes \<times> rd list" where
  "read_line [] off len buf = (if off < len then (int off, buf, []) else (-1, buf, []))"
| "read_line (r # s) off len buf =
     (if \<not> off < len then (-1, buf, r # s)
      else case r of
        Retry \<Rightarrow> read_line s off len buf
      | Fail \<Rightarrow> (-1, buf, s)
      | Byte c \<Rightarrow> let buf = buf[off := c] in if c = 10 then (int off, buf, s) else read_line s (Suc off) len buf)"

lemma read_line_shorter:
  "read_line s off len buf = (r, buf', s') \<Longrightarrow> length s' \<le> length s \<and> (int off < r \<longrightarrow> length s' < length s)"
proof (induction s arbitrary: off buf)
  case (Cons x s)
  show ?case
  proof (cases x)
    case (Byte c)
    then show ?thesis using Cons.IH [of "Suc off" "buf[off := c]"] Cons.prems by (auto simp: Let_def split: if_splits)
  next
    case Retry
    then show ?thesis using Cons.IH [of off buf] Cons.prems by (auto split: if_splits)
  next
    case Fail
    then show ?thesis using Cons.prems by (auto split: if_splits)
  qed
qed (auto split: if_splits)

definition PROT_READ :: nat where "PROT_READ = 1"
definition PROT_WRITE :: nat where "PROT_WRITE = 2"
definition PROT_EXEC :: nat where "PROT_EXEC = 4"

text \<open>
  The address range and the protection in a line. The byte behind the first number is skipped, whatever it is. The line buffer keeps
  what earlier lines left in it.
\<close>

definition parse_range :: "bytes \<Rightarrow> u64 \<times> u64 \<times> bytes" where
  "parse_range line =
     (case strtoul16 0 line of (addr1, rest) \<Rightarrow> case strtoul16 0 (drop 1 rest) of (addr2, rest) \<Rightarrow> (addr1, addr2, rest))"

definition prot_bits :: "bytes \<Rightarrow> nat" where
  "prot_bits rest = (if rest ! 1 = 0x72 then PROT_READ else 0) + (if rest ! 2 = 0x77 then PROT_WRITE else 0) + (if rest ! 3 = 0x78 then PROT_EXEC else 0)"

function protection_loop :: "u64 \<Rightarrow> rd list \<Rightarrow> bytes \<Rightarrow> nat option" where
  "protection_loop addr s line =
     (case read_line s 0 LINE_MAX line of (retcode, line, s) \<Rightarrow>
        if retcode \<le> 0 then None
        else case parse_range line of (addr1, addr2, rest) \<Rightarrow>
          if addr < addr1 \<or> addr \<ge> addr2 then protection_loop addr s line else Some (prot_bits rest))"
  by pat_completeness auto
termination
  by (relation "measure (\<lambda>(addr, s, line). length s)") (auto dest: read_line_shorter [OF sym])

declare protection_loop.simps [simp del]

text \<open>\<open>None\<close> for the file is a failed \<open>open\<close>, \<open>None\<close> as the result is \<open>-1\<close>.\<close>

definition memory_protection_get :: "bytes \<Rightarrow> rd list option \<Rightarrow> u64 \<Rightarrow> nat option" where
  "memory_protection_get line maps addr = (case maps of None \<Rightarrow> None | Some s \<Rightarrow> protection_loop addr s line)"

text \<open>
  The process: its memory and the protection of its pages. \<open>self_maps\<close> is what the kernel shows of the pages in \<open>/proc/self/maps\<close>, \<open>may_protect\<close> whether
  a change of protection is allowed, \<open>err\<close> the value of \<open>errno\<close> when one of the calls fails, which may be 0 when a page is not in the file.
\<close>

record lib_world =
  lmem :: mem
  prots :: "(u64 \<times> nat) list"

record lib_os =
  page_size :: u64
  self_maps :: "(u64 \<times> nat) list \<Rightarrow> rd list option"
  may_protect :: "u64 \<Rightarrow> nat \<Rightarrow> bool"
  err :: int
  line_bytes :: bytes

definition mprotect :: "lib_os \<Rightarrow> u64 \<Rightarrow> nat \<Rightarrow> lib_world \<Rightarrow> bool \<times> lib_world" where
  "mprotect os page p w =
     (if map_of (prots w) page = None \<or> \<not> may_protect os page p then (False, w)
      else (True, w\<lparr>prots := map (\<lambda>(q, x). (q, if q = page then p else x)) (prots w)\<rparr>))"

fun get_protections :: "lib_os \<Rightarrow> (u64 \<times> nat) list \<Rightarrow> u64 list \<Rightarrow> nat list option" where
  "get_protections os ps [] = Some []"
| "get_protections os ps (page # pages) =
     (case memory_protection_get (line_bytes os) (self_maps os ps) page of
        None \<Rightarrow> None
      | Some p \<Rightarrow> map_option ((#) p) (get_protections os ps pages))"

fun set_protections :: "lib_os \<Rightarrow> (u64 \<times> nat) list \<Rightarrow> lib_world \<Rightarrow> bool \<times> lib_world" where
  "set_protections os [] w = (True, w)"
| "set_protections os ((page, p) # pps) w =
     (case mprotect os page p w of (ok, w) \<Rightarrow> if ok then set_protections os pps w else (False, w))"

text \<open>The pages from the one of the first byte to the one behind the last byte.\<close>

definition pages_of :: "u64 \<Rightarrow> u64 \<Rightarrow> nat \<Rightarrow> u64 list" where
  "pages_of ps addr n =
     (let page_mask = NOT (ps - 1); page1 = addr AND page_mask; pagen = (addr + of_nat n) AND page_mask;
          num_pages = 1 + unat ((pagen - page1) div ps)
      in map (\<lambda>i. page1 + of_nat i * ps) [0..<num_pages])"

definition lib_insn_interpret_write :: "lib_os \<Rightarrow> lib_world write_fn" where
  "lib_insn_interpret_write os addr bs n w =
     (let pages = pages_of (page_size os) addr (length bs)
      in case get_protections os (prots w) pages of
           None \<Rightarrow> (err os, w)
         | Some prot \<Rightarrow>
             (case set_protections os (zip pages (map (\<lambda>p. p OR PROT_WRITE) prot)) w of (ok, w) \<Rightarrow>
                if \<not> ok then (err os, w)
                else case set_protections os (zip pages prot) (w\<lparr>lmem := mem_write (lmem w) addr bs\<rparr>) of (ok, w) \<Rightarrow>
                  if \<not> ok then (err os, w) else (n, w)))"

definition insnq_interpret_from_lib :: "lib_os \<Rightarrow> insn_queue \<Rightarrow> lib_world \<Rightarrow> (ulp_error \<times> insn_queue \<times> lib_world) option" where
  "insnq_interpret_from_lib os q w =
     (case insnq_interpret (\<lambda>_ w. w) (lib_insn_interpret_write os) q w of
        None \<Rightarrow> None
      | Some (ret, w) \<Rightarrow> Some (ret, q\<lparr>buffer := buf_write (buffer q) 0 (replicate INSN_BUFFER_MAX 0), num_insns := 0, qsize := 0\<rparr>, w))"

subsection \<open>The entry points of a debugger\<close>

record gdb_world =
  lib_state :: ulp_state
  process :: lib_world

definition gdb_run ::
  "lib_os \<Rightarrow> (mem \<Rightarrow> ulp_env) \<Rightarrow> (ulp_error \<Rightarrow> (int \<times> bytes \<times> ulp_error) option) \<Rightarrow> bytes \<Rightarrow> gdb_world \<Rightarrow> (int \<times> gdb_world) option" where
  "gdb_run os env get_section path g =
     (case get_section (error_state (lib_state g)) of
        None \<Rightarrow> None
      | Some (len, buf, e) \<Rightarrow>
          let g = g\<lparr>lib_state := (lib_state g)\<lparr>metadata_buffer := buf, error_state := e\<rparr>\<rparr> in
          if len < 0 then Some (- len, g)
          else case inject_lp_path path len buf of
            None \<Rightarrow> None
          | Some (r, buf) \<Rightarrow>
              let g = g\<lparr>lib_state := (lib_state g)\<lparr>metadata_buffer := buf\<rparr>\<rparr> in
              if r \<noteq> 0 then Some (EINVALIDULP, g)
              else case ulp_apply_patch (env (lmem (process g))) (lib_state g) of
                None \<Rightarrow> None
              | Some (ret, s) \<Rightarrow>
                  if ret \<noteq> 0 then Some (ret, g\<lparr>lib_state := s\<rparr>)
                  else case insnq_interpret_from_lib os (queue s) (process g) of
                    None \<Rightarrow> None
                  | Some (ret, q, w) \<Rightarrow> Some (ret, \<lparr>lib_state = s\<lparr>queue := q\<rparr>, process = w\<rparr>))"

definition gdb_ulp_apply ::
  "lib_os \<Rightarrow> (mem \<Rightarrow> ulp_env) \<Rightarrow> minielf_stack \<Rightarrow> (bytes \<Rightarrow> bytes option) \<Rightarrow> bytes \<Rightarrow> gdb_world \<Rightarrow> (int \<times> gdb_world) option" where
  "gdb_ulp_apply os env stack files path =
     gdb_run os env (Get_ULP_Section stack ULP_METADATA_BUF_LEN (replicate ULP_METADATA_BUF_LEN 0) (files path)) path"

definition gdb_ulp_revert ::
  "lib_os \<Rightarrow> (mem \<Rightarrow> ulp_env) \<Rightarrow> minielf_stack \<Rightarrow> (bytes \<Rightarrow> bytes option) \<Rightarrow> bytes \<Rightarrow> gdb_world \<Rightarrow> (int \<times> gdb_world) option" where
  "gdb_ulp_revert os env stack files path =
     gdb_run os env (Get_ULP_REV_Section stack ULP_METADATA_BUF_LEN (replicate ULP_METADATA_BUF_LEN 0) (files path)) path"

subsection \<open>Reading the protections\<close>

text \<open>A line of \<open>/proc/self/maps\<close> as \<open>proc(5)\<close> describes it.\<close>

record region =
  r_start :: u64
  r_end :: u64
  r_prot :: nat
  r_tail :: bytes

fun hex_str :: "nat \<Rightarrow> bytes" where
  "hex_str n = (if n < 16 then [hex_digit n] else hex_str (n div 16) @ [hex_digit (n mod 16)])"

declare hex_str.simps [simp del]

definition region_line :: "region \<Rightarrow> bytes" where
  "region_line r = hex_str (unat (r_start r)) @ [45] @ hex_str (unat (r_end r)) @ [32] @
     [if odd (r_prot r) then 0x72 else 45, if odd (r_prot r div 2) then 0x77 else 45, if odd (r_prot r div 4) then 0x78 else 45] @ r_tail r @ [10]"

definition region_ok :: "region \<Rightarrow> bool" where
  "region_ok r \<longleftrightarrow> r_prot r < 8 \<and> 10 \<notin> set (r_tail r) \<and> length (region_line r) \<le> LINE_MAX"

definition in_region :: "u64 \<Rightarrow> region \<Rightarrow> bool" where
  "in_region a r \<longleftrightarrow> r_start r \<le> a \<and> a < r_end r"

lemma hex_val_hex_digit: "d < 16 \<Longrightarrow> hex_val (hex_digit d) = Some d"
proof -
  assume d: "d < 16"
  have "unat (of_nat n :: u8) = n" if "n < 256" for n using that by (simp add: unat_of_nat take_bit_nat_eq_self)
  then have "unat (hex_digit d) = (if d < 10 then 0x30 + d else 0x57 + d)"
    using d unfolding hex_digit_def by (simp del: of_nat_add)
  then show ?thesis using d by (simp add: hex_val_def Let_def)
qed

lemma strtoul16_hex_str_append:
  "strtoul16 m (hex_str n @ s) = strtoul16 (of_nat (16 ^ length (hex_str n)) * m + of_nat n) s"
proof (induction n arbitrary: m s rule: hex_str.induct)
  case (1 n)
  show ?case
  proof (cases "n < 16")
    case True
    then show ?thesis using hex_val_hex_digit [of n] by (simp add: hex_str.simps [of n])
  next
    case False
    let ?h = "hex_str (n div 16)"
    have "hex_val (hex_digit (n mod 16)) = Some (n mod 16)" by (rule hex_val_hex_digit) simp
    then have 1: "strtoul16 m (hex_str n @ s) = strtoul16 (16 * (of_nat (16 ^ length ?h) * m + of_nat (n div 16)) + of_nat (n mod 16)) s"
      using False "1.IH" [OF False, of m "hex_digit (n mod 16) # s"] by (simp add: hex_str.simps [of n])
    have "n = 16 * (n div 16) + n mod 16" by simp
    then have 2: "(of_nat n :: u64) = 16 * of_nat (n div 16) + of_nat (n mod 16)"
      by (metis of_nat_add of_nat_mult of_nat_numeral)
    show ?thesis unfolding 1 2 using False by (simp add: hex_str.simps [of n] algebra_simps)
  qed
qed

lemma strtoul16_hex_str:
  assumes "rest = [] \<or> hex_val (hd rest) = None"
  shows "strtoul16 m (hex_str n @ rest) = (of_nat (16 ^ length (hex_str n)) * m + of_nat n, rest)"
  using assms strtoul16_hex_str_append [of m n rest] by (cases rest) auto

lemma hex_digit_not_newline: "d < 16 \<Longrightarrow> hex_digit d \<noteq> 10"
  using hex_val_hex_digit [of d] by (auto simp: hex_val_def Let_def)

lemma hex_str_not_newline: "10 \<notin> set (hex_str n)"
  by (induction n rule: hex_str.induct) (subst hex_str.simps, auto simp: hex_digit_not_newline dest: sym)

lemma read_line_bytes:
  assumes "10 \<notin> set l" "off + length l < len" "len \<le> length buf"
  shows "read_line (map Byte (l @ 10 # s)) off len buf =
    (int (off + length l), take off buf @ l @ 10 # drop (off + length l + 1) buf, map Byte s)"
  using assms
proof (induction l arbitrary: off buf)
  case Nil
  then show ?case by (simp add: upd_conv_take_nth_drop)
next
  case (Cons c l)
  have "take (Suc off) (buf[off := c]) = take off buf @ [c]" using Cons.prems by (simp add: take_Suc_conv_app_nth)
  then show ?case using Cons.IH [of "Suc off" "buf[off := c]"] Cons.prems by (simp add: drop_update_cancel)
qed

lemma parse_region_line:
  "parse_range (butlast (region_line r) @ t) =
     (r_start r, r_end r, 32 # drop (length (hex_str (unat (r_start r))) + length (hex_str (unat (r_end r))) + 2) (butlast (region_line r)) @ t)"
proof -
  have "hex_val 45 = None" "hex_val 32 = None" by (simp_all add: hex_val_def)
  then show ?thesis by (simp add: parse_range_def region_line_def strtoul16_hex_str butlast_append)
qed

lemma prot_region_line:
  assumes "r_prot r < 8"
  shows "prot_bits (32 # drop (length (hex_str (unat (r_start r))) + length (hex_str (unat (r_end r))) + 2) (butlast (region_line r)) @ t) = r_prot r"
proof -
  have "r_prot r \<in> {0, 1, 2, 3, 4, 5, 6, 7}" using assms by auto
  then show ?thesis
    by (auto simp: prot_bits_def region_line_def butlast_append PROT_READ_def PROT_WRITE_def PROT_EXEC_def)
qed

lemma protection_loop_regions:
  assumes "\<forall>r \<in> set rs. region_ok r"
  shows "length line = LINE_MAX \<Longrightarrow>
    protection_loop a (map Byte (concat (map region_line rs))) line = map_option r_prot (find (in_region a) rs)"
  using assms
proof (induction rs arbitrary: line)
  case Nil
  then show ?case by (subst protection_loop.simps) (simp add: LINE_MAX_def)
next
  case (Cons r rs)
  obtain l where l: "region_line r = l @ [10]" and lb: "butlast (region_line r) = l"
    by (simp add: region_line_def butlast_append)
  have nl: "10 \<notin> set l" using Cons.prems(2) lb
    by (auto simp: region_line_def butlast_append region_ok_def hex_str_not_newline split: if_splits)
  have pos: "0 < length l" using lb by (auto simp: region_line_def butlast_append)
  have len: "length l < LINE_MAX" and p: "r_prot r < 8" using Cons.prems(2) l by (auto simp: region_ok_def)
  let ?line = "l @ 10 # drop (length l + 1) line"
  have rl: "read_line (map Byte (concat (map region_line (r # rs)))) 0 LINE_MAX line =
      (int (length l), ?line, map Byte (concat (map region_line rs)))"
    using read_line_bytes [OF nl, of 0 LINE_MAX line "concat (map region_line rs)"] len Cons.prems(1) l by simp
  have line: "length ?line = LINE_MAX" using len Cons.prems(1) by simp
  have "protection_loop a (map Byte (concat (map region_line (r # rs)))) line =
      (if in_region a r then Some (r_prot r) else protection_loop a (map Byte (concat (map region_line rs))) ?line)"
    using pos parse_region_line [of r "10 # drop (length l + 1) line"] prot_region_line [OF p, of "10 # drop (length l + 1) line"]
    by (subst protection_loop.simps, subst rl) (auto simp: in_region_def lb)
  then show ?case using Cons.IH [OF line] Cons.prems(2) by simp
qed

subsection \<open>A write inside the process\<close>

text \<open>
  What the code relies on: the kernel shows every mapped page with its protection in \<open>/proc/self/maps\<close>, in lines of the documented form,
  and no other page. \<open>pages_ready\<close> says that the pages of a write are mapped and their protection may be changed.
\<close>

definition shows_pages :: "lib_os \<Rightarrow> (u64 \<times> nat) list \<Rightarrow> bool" where
  "shows_pages os ps \<longleftrightarrow> length (line_bytes os) = LINE_MAX \<and>
     (\<exists>rs. self_maps os ps = Some (map Byte (concat (map region_line rs))) \<and> (\<forall>r \<in> set rs. region_ok r) \<and>
       (\<forall>a \<in> {a. a AND (page_size os - 1) = 0}. map_option r_prot (find (in_region a) rs) = map_of ps a))"

definition pages_ready :: "lib_os \<Rightarrow> (u64 \<times> nat) list \<Rightarrow> u64 list \<Rightarrow> bool" where
  "pages_ready os ps pages \<longleftrightarrow> (\<forall>page \<in> set pages. map_of ps page \<noteq> None \<and> (\<forall>p. may_protect os page p))"

lemma map_of_map_val: "map_of (map (\<lambda>(q, x). (q, g q x)) ps) p = map_option (g p) (map_of ps p)"
  by (induction ps) auto

lemma pages_aligned:
  assumes "page_size os = 2 ^ k" "k < 64" "page \<in> set (pages_of (page_size os) a n)"
  shows "page AND (page_size os - 1) = 0"
proof -
  obtain i where i: "page = (a AND NOT (2 ^ k - 1)) + of_nat i * 2 ^ k"
    using assms(3) unfolding pages_of_def Let_def assms(1) set_map image_iff by blast
  have "a AND NOT (mask k) = push_bit k (drop_bit k a)" by (rule bit_eqI) (auto simp: bit_simps)
  then have "page = push_bit k (drop_bit k a + of_nat i)" using i
    by (simp add: mask_eq_exp_minus_1 push_bit_eq_mult algebra_simps)
  then have "take_bit k page = 0" by (simp add: take_bit_push_bit)
  then show ?thesis using assms(1) by (simp add: take_bit_eq_mask mask_eq_exp_minus_1)
qed

lemma get_protections_shown:
  assumes "shows_pages os ps" "\<forall>page \<in> set pages. page AND (page_size os - 1) = 0"
  shows "get_protections os ps pages =
    (if \<forall>page \<in> set pages. map_of ps page \<noteq> None then Some (map (\<lambda>page. the (map_of ps page)) pages) else None)"
  using assms(2)
proof (induction pages)
  case (Cons page pages)
  obtain rs where rs: "self_maps os ps = Some (map Byte (concat (map region_line rs)))" "\<forall>r \<in> set rs. region_ok r"
    "map_option r_prot (find (in_region page) rs) = map_of ps page" and l: "length (line_bytes os) = LINE_MAX"
    using assms(1) Cons.prems by (auto simp: shows_pages_def)
  have "memory_protection_get (line_bytes os) (self_maps os ps) page = map_of ps page"
    using protection_loop_regions [OF rs(2) l, of page] rs by (simp add: memory_protection_get_def)
  then show ?case using Cons by (auto split: option.splits)
qed simp

lemma set_protections_all:
  assumes "pages_ready os (prots w) pages"
  shows "set_protections os (map (\<lambda>page. (page, f page)) pages) w =
    (True, w\<lparr>prots := map (\<lambda>(q, x). (q, if q \<in> set pages then f q else x)) (prots w)\<rparr>)"
  using assms
proof (induction pages arbitrary: w)
  case (Cons page pages)
  let ?w = "w\<lparr>prots := map (\<lambda>(q, x). (q, if q = page then f page else x)) (prots w)\<rparr>"
  have "mprotect os page (f page) w = (True, ?w)" using Cons.prems by (simp add: mprotect_def pages_ready_def)
  moreover have "pages_ready os (prots ?w) pages" using Cons.prems by (auto simp: pages_ready_def map_of_map_val)
  ultimately show ?case using Cons.IH [of ?w] by (auto simp: comp_def split_beta intro!: arg_cong [where f = "\<lambda>x. w\<lparr>prots := x\<rparr>"])
qed (simp add: map_idI)

lemma protections_back:
  assumes "distinct (map fst ps)"
  shows "map (\<lambda>(q, x). (q, if q \<in> S then the (map_of ps q) else x)) (map (\<lambda>(q, x). (q, if q \<in> S then g q else x)) ps) = ps"
  using assms by (auto simp: comp_def intro!: map_idI)

lemma lib_write_done:
  assumes "page_size os = 2 ^ k" "k < 64" "shows_pages os (prots w)" "distinct (map fst (prots w))"
    and "pages_ready os (prots w) (pages_of (page_size os) a (length bs))"
  shows "lib_insn_interpret_write os a bs n w = (n, w\<lparr>lmem := mem_write (lmem w) a bs\<rparr>)"
proof -
  let ?pages = "pages_of (page_size os) a (length bs)" and ?p = "\<lambda>page. the (map_of (prots w) page)"
  let ?w = "w\<lparr>prots := map (\<lambda>(q, x). (q, if q \<in> set ?pages then ?p q OR PROT_WRITE else x)) (prots w)\<rparr>"
  have get: "get_protections os (prots w) ?pages = Some (map ?p ?pages)"
    using get_protections_shown [OF assms(3), of ?pages] pages_aligned [OF assms(1,2)] assms(5) by (auto simp: pages_ready_def)
  have zp: "zip ?pages (map f ?pages) = map (\<lambda>page. (page, f page)) ?pages" for f :: "u64 \<Rightarrow> nat"
    by (simp add: zip_map2 zip_same_conv_map)
  have prot: "map (\<lambda>p. p OR PROT_WRITE) (map ?p ?pages) = map (\<lambda>page. ?p page OR PROT_WRITE) ?pages" by simp
  have fst: "set_protections os (zip ?pages (map (\<lambda>p. p OR PROT_WRITE) (map ?p ?pages))) w = (True, ?w)"
    unfolding prot zp by (rule set_protections_all [OF assms(5)])
  have "pages_ready os (prots (?w\<lparr>lmem := mem_write (lmem ?w) a bs\<rparr>)) ?pages" using assms(5) by (auto simp: pages_ready_def map_of_map_val)
  from set_protections_all [OF this, of ?p] protections_back [OF assms(4), of "set ?pages" "\<lambda>page. ?p page OR PROT_WRITE"]
  have snd: "set_protections os (zip ?pages (map ?p ?pages)) (?w\<lparr>lmem := mem_write (lmem ?w) a bs\<rparr>) = (True, w\<lparr>lmem := mem_write (lmem w) a bs\<rparr>)"
    unfolding zp by (simp del: map_map)
  show ?thesis by (simp only: lib_insn_interpret_write_def Let_def get option.case fst prod.case snd if_False not_True_eq_False)
qed

lemma fold_lib_writes:
  "fold (exec_insn pr (\<lambda>a bs w. w\<lparr>lmem := mem_write (lmem w) a bs\<rparr>)) (writes_insns ws) w = w\<lparr>lmem := apply_writes ws (lmem w)\<rparr>"
  by (induction ws arbitrary: w) auto

lemma lib_flush:
  assumes "page_size os = 2 ^ k" "k < 64" "shows_pages os (prots w)" "distinct (map fst (prots w))"
    and "\<forall>(a, bs) \<in> set ws. pages_ready os (prots w) (pages_of (page_size os) a (length bs))" and "q_pending (q, e) ws"
  shows "insnq_interpret_from_lib os q w =
    Some (ENONE, q\<lparr>buffer := buf_write (buffer q) 0 (replicate INSN_BUFFER_MAX 0), num_insns := 0, qsize := 0\<rparr>,
      w\<lparr>lmem := apply_writes ws (lmem w)\<rparr>)"
proof -
  let ?eff = "\<lambda>a bs (w :: lib_world). w\<lparr>lmem := mem_write (lmem w) a bs\<rparr>"
  have ins: "(a, bs) \<in> set ws" if "IWrite a bs \<in> set (writes_insns ws)" for a bs
    using that by (induction ws) auto
  have "write_ok_on (\<lambda>v. prots v = prots w) (\<lambda>_ w. w) (lib_insn_interpret_write os) ?eff (writes_insns ws)"
    unfolding write_ok_on_def
  proof (intro conjI allI impI)
    fix a bs n and v :: lib_world assume "IWrite a bs \<in> set (writes_insns ws)" "prots v = prots w"
    then show "lib_insn_interpret_write os a bs n v = (n, ?eff a bs v)"
      using assms(1-5) ins [of a bs] by (intro lib_write_done) auto
  next
    fix i and v :: lib_world assume "prots v = prots w"
    then show "prots (exec_insn (\<lambda>_ w. w) ?eff i v) = prots w" by (cases i) auto
  qed
  then have "insnq_interpret (\<lambda>_ w. w) (lib_insn_interpret_write os) q w = Some (ENONE, fold (exec_insn (\<lambda>_ w. w) ?eff) (writes_insns ws) w)"
    using assms(6) by (intro insnq_interpret_keeps [where I = "\<lambda>v. prots v = prots w"]) (auto simp: q_pending_def)
  then show ?thesis by (simp add: insnq_interpret_from_lib_def fold_lib_writes)
qed

subsection \<open>The pages of a write\<close>

lemma unat_2_power: "k < 64 \<Longrightarrow> unat (2 ^ k :: u64) = 2 ^ k"
  by transfer (simp add: take_bit_int_eq_self_iff nat_power_eq)

lemma page_of_nat: "k < 64 \<Longrightarrow> (x :: u64) AND NOT (2 ^ k - 1) = of_nat (unat x div 2 ^ k * 2 ^ k)"
proof -
  assume "k < 64"
  have "x AND NOT (mask k) = push_bit k (drop_bit k x)" by (rule bit_eqI) (auto simp: bit_simps)
  also have "\<dots> = of_nat (unat (drop_bit k x)) * 2 ^ k" by (simp add: push_bit_eq_mult)
  also have "unat (drop_bit k x) = unat x div 2 ^ k" using unat_2_power [OF \<open>k < 64\<close>] by (simp add: drop_bit_eq_div unat_div)
  finally show ?thesis unfolding mask_eq_exp_minus_1 by (simp only: of_nat_mult of_nat_power of_nat_numeral)
qed

lemma pages_of_nat:
  assumes "k < 64" "unat a + n < 2 ^ 64"
  shows "pages_of (2 ^ k) a n = map (\<lambda>i. of_nat ((unat a div 2 ^ k + i) * 2 ^ k)) [0..<1 + ((unat a + n) div 2 ^ k - unat a div 2 ^ k)]"
proof -
  let ?A = "unat a div 2 ^ k" and ?B = "(unat a + n) div 2 ^ k"
  have n: "unat (of_nat n :: u64) = n" using assms(2) by (simp add: unat_of_nat take_bit_nat_eq_self)
  then have an: "unat (a + of_nat n) = unat a + n" using assms(2) by (simp add: unat_word_ariths)
  have AB: "?A \<le> ?B" by (simp add: div_le_mono)
  have "(?B - ?A) * 2 ^ k \<le> ?B * 2 ^ k" "?B * 2 ^ k \<le> unat a + n" by simp_all
  then have small: "(?B - ?A) * 2 ^ k < 2 ^ 64" using assms(2) by linarith
  have "of_nat (?B * 2 ^ k) - of_nat (?A * 2 ^ k) = (of_nat ((?B - ?A) * 2 ^ k) :: u64)"
    using AB by (simp add: of_nat_diff algebra_simps)
  moreover have "unat ((of_nat ((?B - ?A) * 2 ^ k) :: u64) div 2 ^ k) = ?B - ?A"
    using small unat_2_power [OF assms(1)] by (simp add: unat_div unat_of_nat take_bit_nat_eq_self del: of_nat_mult)
  ultimately show ?thesis
    by (simp add: pages_of_def Let_def page_of_nat [OF assms(1)] an algebra_simps del: of_nat_mult upt_Suc) simp
qed

lemma page_of_byte:
  assumes "k < 64" "unat a + n < 2 ^ 64" "i \<le> n"
  shows "(a + of_nat i) AND NOT (2 ^ k - 1) \<in> set (pages_of (2 ^ k) a n)"
proof -
  let ?A = "unat a div 2 ^ k" and ?C = "(unat a + i) div 2 ^ k"
  have "unat (of_nat i :: u64) = i" using assms by (simp add: unat_of_nat take_bit_nat_eq_self)
  then have "unat (a + of_nat i) = unat a + i" using assms by (simp add: unat_word_ariths)
  then have eq: "(a + of_nat i) AND NOT (2 ^ k - 1) = of_nat (?C * 2 ^ k)" by (simp add: page_of_nat [OF assms(1)])
  have "?A \<le> ?C" "?C \<le> (unat a + n) div 2 ^ k" using assms(3) by (simp_all add: div_le_mono)
  then have "?C - ?A \<in> {0..<1 + ((unat a + n) div 2 ^ k - ?A)}" "?A + (?C - ?A) = ?C" by auto
  then show ?thesis unfolding eq pages_of_nat [OF assms(1,2)] set_map set_upt by (intro image_eqI [of _ _ "?C - ?A"]) simp_all
qed

lemma lib_write_refused:
  assumes "page_size os = 2 ^ k" "k < 64" "shows_pages os (prots w)" "unat a + length bs < 2 ^ 64" "i \<le> length bs"
    and "map_of (prots w) ((a + of_nat i) AND NOT (2 ^ k - 1)) = None"
  shows "lib_insn_interpret_write os a bs n w = (err os, w)"
proof -
  let ?pages = "pages_of (page_size os) a (length bs)"
  have "get_protections os (prots w) ?pages = None"
    using get_protections_shown [OF assms(3), of ?pages] pages_aligned [OF assms(1,2)]
      page_of_byte [OF assms(2,4,5)] assms(1,6) by auto
  then show ?thesis by (simp add: lib_insn_interpret_write_def)
qed

subsection \<open>The reader against a plain search\<close>

text \<open>The headers of a file and the contents of its table of names, read without any loop.\<close>

definition sh_table :: "bytes \<Rightarrow> elf_ehdr \<Rightarrow> elf_shdr list" where
  "sh_table file ehdr = map (\<lambda>i. shdr_of (read_at file (unat (e_shoff ehdr) + 64 * i) 64)) [0..<e_shnum ehdr]"

definition sh_content :: "bytes \<Rightarrow> elf_shdr \<Rightarrow> bytes" where
  "sh_content file sh = read_at file (unat (eh_offset sh)) (unat (eh_size sh))"

definition sh_names :: "bytes \<Rightarrow> elf_ehdr \<Rightarrow> bytes" where
  "sh_names file ehdr = sh_content file (sh_table file ehdr ! e_shstrndx ehdr)"

text \<open>
  A file as a linker writes it: the headers are in the file, the table of names is one of the sections, is in the file and has at most
  \<open>STRTBL_SIZE_MAX\<close> bytes, every name ends in it, and no offset is negative.
\<close>

definition elf_readable :: "bytes \<Rightarrow> elf_ehdr \<Rightarrow> bool" where
  "elf_readable file ehdr \<longleftrightarrow>
     Elf_Parse_Ehdr file = Some ehdr \<and> e_shentsize ehdr = 64 \<and> e_shoff ehdr < 2 ^ 63 \<and>
     unat (e_shoff ehdr) + 64 * e_shnum ehdr \<le> length file \<and> e_shstrndx ehdr < e_shnum ehdr \<and>
     (let names = sh_table file ehdr ! e_shstrndx ehdr
      in unat (eh_size names) \<le> STRTBL_SIZE_MAX \<and> unat (eh_offset names) + unat (eh_size names) \<le> length file) \<and>
     list_all (\<lambda>sh. eh_offset sh < 2 ^ 63 \<and> 0 \<in> set (drop (unat (eh_name sh)) (sh_names file ehdr))) (sh_table file ehdr)"

definition has_name :: "bytes \<Rightarrow> bytes \<Rightarrow> elf_shdr \<Rightarrow> bool" where
  "has_name names name sh \<longleftrightarrow> cstr (drop (unat (eh_name sh)) names) = name"

lemma shdr_of_append: "length h = 64 \<Longrightarrow> shdr_of (h @ x) = shdr_of h"
  by (simp add: shdr_of_def u32_at_def u64_at_def)

lemma cstr_append_in: "0 \<in> set s \<Longrightarrow> cstr (s @ t) = cstr s"
  using takeWhile_append1 [of 0 s "\<lambda>b. b \<noteq> 0" t] by (simp add: cstr_def)

lemma read_at_length: "off + n \<le> length file \<Longrightarrow> length (read_at file off n) = n"
  by (simp add: read_at_def)

lemma upt_shift: "map f [0..<Suc n] = f 0 # map (\<lambda>i. f (Suc i)) [0..<n]"
  by (simp add: map_upt_Suc del: upt_Suc)

lemma shdr_by_index_table:
  assumes "i \<le> ix" "ix < i + n" "pos + 64 * n \<le> length file"
  shows "\<exists>p. shdr_by_index file 64 ix i n hb pos = (Some (shdr_of (read_at file (pos + 64 * (ix - i)) 64)), p)"
  using assms
proof (induction n arbitrary: i pos hb)
  case (Suc n)
  have len: "length (read_at file pos 64) = 64" using Suc.prems by (simp add: read_at_length)
  show ?case
  proof (cases "ix = i")
    case True
    then show ?thesis using len by (simp add: Let_def shdr_of_append)
  next
    case False
    then have "pos + 64 + 64 * (ix - Suc i) = pos + 64 * (ix - i)" using Suc.prems(1) by simp
    then show ?thesis using Suc.IH [of "Suc i" "pos + 64" "read_at file pos 64 @ drop 64 hb"] Suc.prems False len
      by (simp add: Let_def algebra_simps)
  qed
qed simp

lemma shdr_by_name_table:
  assumes "pos + 64 * n \<le> length file"
    and "\<forall>sh \<in> set (map (\<lambda>i. shdr_of (read_at file (pos + 64 * i) 64)) [0..<n]). 0 \<in> set (drop (unat (eh_name sh)) names)"
  shows "\<exists>p. shdr_by_name file 64 name (names @ rest) n hb pos =
    Some (find (has_name names name) (map (\<lambda>i. shdr_of (read_at file (pos + 64 * i) 64)) [0..<n]), p)"
  using assms
proof (induction n arbitrary: pos hb)
  case (Suc n)
  let ?sh = "shdr_of (read_at file pos 64)" and ?hb = "read_at file pos 64 @ drop 64 hb"
  have len: "length (read_at file pos 64) = 64" using Suc.prems by (simp add: read_at_length)
  have tbl: "map (\<lambda>i. shdr_of (read_at file (pos + 64 * i) 64)) [0..<Suc n] =
      ?sh # map (\<lambda>i. shdr_of (read_at file (pos + 64 + 64 * i) 64)) [0..<n]"
    by (subst upt_shift) (simp add: algebra_simps)
  note prems = Suc.prems(2) [unfolded tbl]
  obtain p where p: "shdr_by_name file 64 name (names @ rest) n ?hb (pos + 64) =
      Some (find (has_name names name) (map (\<lambda>i. shdr_of (read_at file (pos + 64 + 64 * i) 64)) [0..<n]), p)"
    using Suc.IH [of "pos + 64" ?hb] Suc.prems(1) prems by (auto simp: algebra_simps)
  have nul: "0 \<in> set (drop (unat (eh_name ?sh)) names)" using prems by simp
  then have "unat (eh_name ?sh) < length names" by (rule_tac ccontr) simp
  then have "cstr (drop (unat (eh_name ?sh)) (names @ rest)) = cstr (drop (unat (eh_name ?sh)) names)"
    "0 \<in> set (drop (unat (eh_name ?sh)) (names @ rest))" "\<not> length (names @ rest) \<le> unat (eh_name ?sh)"
    using nul cstr_append_in by auto
  then show ?case unfolding tbl using len p by (auto simp: Let_def shdr_of_append has_name_def [of names name ?sh])
qed simp

lemma Elf_Load_Section_at:
  assumes "eh_offset sh < 2 ^ 63"
  shows "\<exists>p. Elf_Load_Section file n sh dest pos =
    (if unat (eh_size sh) > n then 0 else length (sh_content file sh) * of_bool (length (sh_content file sh) = unat (eh_size sh)),
     if unat (eh_size sh) > n then dest else sh_content file sh @ drop (length (sh_content file sh)) dest, p)"
  using assms by (auto simp: Elf_Load_Section_def lseek_def sh_content_def Let_def)

lemma Get_Elf_Section_search:
  assumes "elf_readable file ehdr"
  shows "Get_Elf_Section stack n dest name (Some file) e = Some
    (case find (has_name (sh_names file ehdr) name) (sh_table file ehdr) of
       None \<Rightarrow> (- EINVAL, dest, e)
     | Some sh \<Rightarrow>
         if unat (eh_size sh) > n then (- EINVAL, dest, e)
         else let c = sh_content file sh; dest = c @ drop (length c) dest
              in if length c \<noteq> unat (eh_size sh) \<or> c = [] then (- EINVAL, dest, e) else (int (length c), dest, e))"
proof -
  let ?base = "unat (e_shoff ehdr)" and ?names = "sh_names file ehdr"
  have r: "Elf_Parse_Ehdr file = Some ehdr" "e_shentsize ehdr = 64" "e_shoff ehdr < 2 ^ 63"
    "?base + 64 * e_shnum ehdr \<le> length file" "e_shstrndx ehdr < e_shnum ehdr"
    "\<forall>sh \<in> set (sh_table file ehdr). eh_offset sh < 2 ^ 63 \<and> 0 \<in> set (drop (unat (eh_name sh)) ?names)"
    using assms by (auto simp: elf_readable_def list_all_iff)
  let ?nsh = "sh_table file ehdr ! e_shstrndx ehdr"
  have sz: "unat (eh_size ?nsh) \<le> STRTBL_SIZE_MAX" "unat (eh_offset ?nsh) + unat (eh_size ?nsh) \<le> length file"
    using assms by (auto simp: elf_readable_def Let_def)
  have nth: "?nsh = shdr_of (read_at file (?base + 64 * e_shstrndx ehdr) 64)" using r(5) by (simp add: sh_table_def)
  have "?nsh \<in> set (sh_table file ehdr)" using r(5) by (simp add: sh_table_def)
  with r(6) have noff: "eh_offset ?nsh < 2 ^ 63" by blast
  have pos: "lseek (e_shoff ehdr) p = ?base" for p using r(3) by (simp add: lseek_def)
  obtain p1 where p1: "shdr_by_index file 64 (e_shstrndx ehdr) 0 (e_shnum ehdr) (hdr_bytes stack) ?base = (Some ?nsh, p1)"
    using shdr_by_index_table [where i = 0 and ix = "e_shstrndx ehdr" and n = "e_shnum ehdr" and pos = ?base and hb = "hdr_bytes stack"] r(4,5) nth by auto
  have "length ?names = unat (eh_size ?nsh)" using sz(2) by (simp add: sh_names_def sh_content_def read_at_length)
  then obtain p2 where p2: "Elf_Load_Section file STRTBL_SIZE_MAX ?nsh (tbl_bytes stack) p1 =
      (length ?names, ?names @ drop (length ?names) (tbl_bytes stack), p2)"
    using Elf_Load_Section_at [OF noff, of "file" STRTBL_SIZE_MAX "tbl_bytes stack" p1] sz(1) by (auto simp: sh_names_def)
  obtain p3 where p3: "shdr_by_name file 64 name (?names @ drop (length ?names) (tbl_bytes stack)) (e_shnum ehdr) (hdr_bytes stack) ?base =
      Some (find (has_name ?names name) (sh_table file ehdr), p3)"
    using shdr_by_name_table [of ?base "e_shnum ehdr" "file" ?names name] r(4,6) unfolding sh_table_def by blast
  have run: "Get_Elf_Section stack n dest name (Some file) e =
      (case find (has_name ?names name) (sh_table file ehdr) of
         None \<Rightarrow> Some (- EINVAL, dest, e)
       | Some sh \<Rightarrow> (case Elf_Load_Section file n sh dest p3 of (len, dest, pos) \<Rightarrow>
           if len = 0 then Some (- EINVAL, dest, e) else Some (int len, dest, e)))"
    using r(1,2) p1 p2 p3 pos
    by (simp add: Get_Elf_Section_def Elf_Load_Strtbl_def Elf_Get_Shdr_def Elf_Get_Shdr_By_Name_def libpulp_assert_func_def Let_def
        split: option.splits)
  show ?thesis
  proof (cases "find (has_name ?names name) (sh_table file ehdr)")
    case None
    with run show ?thesis by simp
  next
    case (Some sh)
    then have "eh_offset sh < 2 ^ 63" using r(6) by (auto simp: find_Some_iff)
    from Elf_Load_Section_at [OF this, of "file" n dest p3] run Some show ?thesis by (auto simp: Let_def)
  qed
qed

text \<open>
  Claim C20. The ELF reader that libpulp carries for the debugger finds what a plain search of the section headers finds. On a
  readable file the result is decided by the first section with the given name: no such section, one of length 0, one that does not
  fit the buffer and one that the file cuts off are all \<open>EINVAL\<close>, negated; otherwise its length is returned and its contents stand at
  the start of the buffer. The contents of the uninitialised stack buffers never matter and the error state is left alone.
\<close>

theorem Get_Elf_Section_finds:
  assumes "elf_readable file ehdr"
  shows "Get_Elf_Section stack n dest name (Some file) e = Some
    (case find (has_name (sh_names file ehdr) name) (sh_table file ehdr) of
       None \<Rightarrow> (- EINVAL, dest, e)
     | Some sh \<Rightarrow>
         if unat (eh_size sh) > n then (- EINVAL, dest, e)
         else let c = sh_content file sh; dest = c @ drop (length c) dest
              in if length c \<noteq> unat (eh_size sh) \<or> c = [] then (- EINVAL, dest, e) else (int (length c), dest, e))"
  by (rule Get_Elf_Section_search [OF assms])

text \<open>The buffer that \<open>inject_lp_path\<close> leaves is the metadata the tool would send, followed by zeros.\<close>

lemma inject_lp_path_extracted:
  assumes "extract_ulp_from_so_to_mem sect None path = Extracted md"
  shows "inject_lp_path path (int (length sect)) (sect @ replicate (ULP_METADATA_BUF_LEN - length sect) 0) =
    Some (0, md @ replicate (ULP_METADATA_BUF_LEN - length md) 0)"
proof -
  have md: "md = take 33 sect @ u32_bytes (of_nat (length path + 1)) @ path @ [0] @ drop 33 sect" "33 \<le> length sect"
    "length sect + (length path + 1) + 4 < ULP_METADATA_BUF_LEN"
    using assms by (auto simp: extract_ulp_from_so_to_mem_def Let_def split: if_splits)
  have len: "length md = length sect + (length path + 1) + 4" using md by simp
  have "take 33 (sect @ z) = take 33 sect" "take (length sect - 33) (drop 33 (sect @ z)) = drop 33 sect" for z
    using md(2) by simp_all
  moreover have "drop (length md) (sect @ replicate (ULP_METADATA_BUF_LEN - length sect) 0) = replicate (ULP_METADATA_BUF_LEN - length md) 0"
    using len md(3) by simp
  ultimately show ?thesis using md len
    by (simp add: inject_lp_path_def Let_def nat_diff_distrib add.commute [of 1] del: drop_append take_append)
qed


subsubsection \<open>A container and a process\<close>

definition demo_container :: bytes where
  "demo_container =
     [0x7f, 0x45, 0x4c, 0x46] @ replicate 36 0 @ u64_bytes 64 @ replicate 10 0 @ [64, 0, 2, 0, 0, 0] @
     u32_bytes 0 @ replicate 20 0 @ u64_bytes 192 @ u64_bytes 10 @ replicate 24 0 @
     u32_bytes 1 @ replicate 20 0 @ u64_bytes 202 @ u64_bytes 70 @ replicate 24 0 @
     [0] @ str ''.ulp.rev'' @ [0] @ write_reverse_patch demo_metadata"

definition demo_container_ehdr :: elf_ehdr where
  "demo_container_ehdr = \<lparr>e_shoff = 64, e_shentsize = 64, e_shnum = 2, e_shstrndx = 0\<rparr>"

lemma demo_container_table:
  "Elf_Parse_Ehdr demo_container = Some demo_container_ehdr"
  "sh_table demo_container demo_container_ehdr = [\<lparr>eh_name = 0, eh_offset = 192, eh_size = 10\<rparr>, \<lparr>eh_name = 1, eh_offset = 202, eh_size = 70\<rparr>]"
  "sh_content demo_container \<lparr>eh_name = 0, eh_offset = 192, eh_size = 10\<rparr> = [0] @ str ''.ulp.rev'' @ [0]"
  "sh_content demo_container \<lparr>eh_name = 1, eh_offset = 202, eh_size = 70\<rparr> = write_reverse_patch demo_metadata"
  "length demo_container = 272"
  by code_simp+

lemma demo_container_readable: "elf_readable demo_container demo_container_ehdr"
  using demo_container_table
  by (simp add: elf_readable_def demo_container_ehdr_def sh_names_def STRTBL_SIZE_MAX_def Let_def)

lemma demo_reverse_length: "length (write_reverse_patch demo_metadata) = 70"
  by code_simp

lemma demo_section_found:
  "find (has_name (sh_names demo_container demo_container_ehdr) (str ''.ulp.rev'')) (sh_table demo_container demo_container_ehdr) =
     Some \<lparr>eh_name = 1, eh_offset = 202, eh_size = 70\<rparr>"
  using demo_container_table
  by (simp add: sh_names_def demo_container_ehdr_def has_name_def) (simp add: str_def cstr_def)

lemma demo_section:
  "Get_ULP_REV_Section stack ULP_METADATA_BUF_LEN (replicate ULP_METADATA_BUF_LEN 0) (Some demo_container) e =
     Some (int (length (write_reverse_patch demo_metadata)),
       write_reverse_patch demo_metadata @ replicate (ULP_METADATA_BUF_LEN - length (write_reverse_patch demo_metadata)) 0, e)"
proof -
  have "\<not> ULP_METADATA_BUF_LEN < 70" "write_reverse_patch demo_metadata \<noteq> []"
    using demo_reverse_length by (auto simp: ULP_METADATA_BUF_LEN_def)
  then show ?thesis
    unfolding Get_ULP_REV_Section_def Get_Elf_Section_search [OF demo_container_readable] demo_section_found option.case
    by (simp add: demo_container_table(4) demo_reverse_length)
qed

definition demo_lib_os :: lib_os where
  "demo_lib_os = \<lparr>page_size = 0x1000,
     self_maps = (\<lambda>ps. Some (map Byte (concat (map (\<lambda>(q, x). region_line \<lparr>r_start = q, r_end = q + 0x1000, r_prot = x, r_tail = str ''p 00000''\<rparr>) ps)))),
     may_protect = (\<lambda>_ _. True), err = 12, line_bytes = replicate LINE_MAX 0\<rparr>"

lemma demo_os_shows: "shows_pages demo_lib_os [(0x1000, 5)]"
proof -
  let ?r = "\<lparr>r_start = 0x1000, r_end = 0x2000, r_prot = 5, r_tail = str ''p 00000''\<rparr>"
  have line: "length (region_line ?r) \<le> 40" "10 \<notin> set (str ''p 00000'')"
    by (simp_all add: region_line_def hex_str.simps str_def)
  have "a = 0x1000" if "a AND 0xFFF = 0" "0x1000 \<le> a" "a < 0x2000" for a :: u64
  proof -
    have "take_bit 12 a = 0" using that(1) take_bit_eq_mask [of 12 a] by (simp add: mask_eq_exp_minus_1)
    then have "take_bit 12 (unat a) = 0" using unsigned_take_bit_eq [of 12 a, where 'a = nat] by simp
    then have "4096 dvd unat a" by (simp add: take_bit_eq_mod mod_eq_0_iff_dvd)
    moreover have "4096 \<le> unat a" "unat a < 8192" using that(2,3) by (simp_all add: word_le_nat_alt word_less_nat_alt)
    ultimately have "unat a = unat (0x1000 :: u64)" by (auto elim!: dvdE)
    then show ?thesis by (simp only: word_unat_eq_iff)
  qed
  then have "map_option r_prot (find (in_region a) [?r]) = map_of [(0x1000, 5)] a" if "a AND 0xFFF = 0" for a :: u64
    using that by (auto simp: in_region_def)
  with line show ?thesis unfolding shows_pages_def
    by (intro conjI exI [of _ "[?r]"]) (auto simp: demo_lib_os_def region_ok_def LINE_MAX_def)
qed

text \<open>Running the library on the reverse metadata: the patch of \<^const>\<open>demo_patched\<close> is taken back by one write of two bytes.\<close>

lemma demo_reverted:
  assumes "extract_ulp_from_so_to_mem (write_reverse_patch demo_metadata) None (str ''/p.so'') = Extracted md"
  shows "\<exists>s. ulp_apply_patch demo_env (demo_patched\<lparr>error_state := 0, metadata_buffer := md @ pad\<rparr>) = Some (0, s) \<and>
    patches s = [] \<and> q_pending (queue s, error_state s) [(0x1000, [0x66, 0x90])]"
proof -
  let ?s = "demo_patched\<lparr>error_state := 0, metadata_buffer := md @ pad\<rparr>"
  obtain f where f: "extract_ulp_from_so_to_mem (create_patch_metadata_file demo_metadata) None (str ''/p.so'') = Extracted f"
    by (simp add: extract_ulp_from_so_to_mem_def create_patch_metadata_file_def demo_metadata_def put_str_def put_unit_def str_def cstr_def
        PATH_MAX_def ULP_METADATA_BUF_LEN_def)
  have "no_nul (str ''/p.so'')" "str ''/p.so'' \<noteq> []" by (simp_all add: str_def no_nul_def)
  with parse_extracted [OF demo_metadata_wf _ _ _ f assms, of "\<lambda>_. True" pad 0 1]
  obtain st where parse: "parse_metadata_from_mem (md @ pad) (\<lambda>_. True) \<lparr>cur = 0, cvar = 0, nalloc = 1\<rparr> =
      Inr (stored_reverse demo_metadata (str ''/p.so''), st)" by (auto simp: pstart_def)
  have en: "entry demo_func 0x1000 = 0x1000" "patchable demo_func 0x1000"
    by (simp_all add: patchable_def entry_def insn_endbr64_def demo_func_def mem_read_4)
  have env: "pmem demo_env = demo_func" "alloc_ok demo_env = (\<lambda>_. True)" "garbage demo_env = 0" "asunsafe_busy demo_env = False"
    by (simp_all add: demo_env_def)
  obtain q where q: "memwrite 0x1000 [0x66, 0x90] (insnq_init, ENONE) = (True, q, ENONE)"
    by (simp add: memwrite_def insnq_insert_write_eq insnq_init_def align_to_def INSN_BUFFER_MAX_def del: iencode.simps)
  have "q_pending (insnq_init, ENONE) []" by (simp add: q_pending_def queue_repr_Nil insnq_init_def)
  from insnq.mwrite_queued [OF this q] have pend: "q_pending (q, ENONE) [(0x1000, [0x66, 0x90])]" by simp
  have load: "load_metadata demo_env ?s = Some (0, Some (stored_reverse demo_metadata (str ''/p.so'')),
      ?s\<lparr>allocs := nalloc st, metadata_buffer := replicate ULP_METADATA_BUF_LEN 0,
        metadata_ref := Some (stored_reverse demo_metadata (str ''/p.so''))\<rparr>)"
    using parse by (simp add: load_metadata_def parse_metadata_def alloc_def env demo_patched_def ulp_init_def stored_reverse_def)
  have "\<exists>s. ulp_apply_patch demo_env ?s = Some (0, s) \<and> patches s = [] \<and> queue s = q \<and> error_state s = ENONE"
    using load q en
    by (simp add: ulp_apply_patch_def entry_guard_def load_patch_def env stored_reverse_def demo_metadata_def demo_patched_def ulp_init_def
        libpulp_is_in_error_state_def insnq_ensure_emptiness_def insnq_init_def ulp_can_revert_patch_def ulp_get_applied_patch_def
        ulp_revert_patch_def ulp_revert_all_units_def ulp_state_remove_def unload_metadata_def Let_def ulp_patch_addr_eq)
  with pend show ?thesis by metis
qed

definition demo_stack :: minielf_stack where
  "demo_stack = \<lparr>hdr_bytes = replicate 64 0xA5, tbl_bytes = replicate STRTBL_SIZE_MAX 0xA5\<rparr>"

theorem Get_Elf_Section_finds_witness:
  "Get_Elf_Section demo_stack 100 (replicate 100 9) (str ''.ulp.rev'') (Some demo_container) 0 =
     Some (70, write_reverse_patch demo_metadata @ replicate 30 9, 0) \<and>
   Get_Elf_Section demo_stack 50 (replicate 100 9) (str ''.ulp.rev'') (Some demo_container) 0 = Some (- EINVAL, replicate 100 9, 0)"
proof -
  have "write_reverse_patch demo_metadata \<noteq> []" using demo_reverse_length by auto
  then show ?thesis
    using Get_Elf_Section_finds [OF demo_container_readable, of demo_stack _ "replicate 100 9" "str ''.ulp.rev''" 0]
    by (simp add: demo_section_found demo_container_table(4) demo_reverse_length)
qed


text \<open>Every byte of a write lies on a page that is writable while the bytes are copied.\<close>

lemma mprotect_writable:
  assumes "mprotect os page p w = (True, w')" "bit p 1"
  shows "(\<exists>x. map_of (prots w') page = Some x \<and> bit x 1) \<and>
    ((\<exists>x. map_of (prots w) q = Some x \<and> bit x 1) \<longrightarrow> (\<exists>x. map_of (prots w') q = Some x \<and> bit x 1))"
  using assms by (auto simp: mprotect_def map_of_map_val split: if_splits)

lemma set_protections_writable:
  assumes "set_protections os pps w = (True, w')" "\<forall>(page, p) \<in> set pps. bit p 1"
    and "q \<in> fst ` set pps \<or> (\<exists>x. map_of (prots w) q = Some x \<and> bit x 1)"
  shows "\<exists>x. map_of (prots w') q = Some x \<and> bit x 1"
  using assms
proof (induction pps arbitrary: w)
  case (Cons pp pps)
  obtain page p where pp: "pp = (page, p)" by fastforce
  obtain v where v: "mprotect os page p w = (True, v)" "set_protections os pps v = (True, w')"
    using Cons.prems(1) pp by (auto split: prod.splits if_splits)
  have "bit p 1" using Cons.prems(2) pp by simp
  note m = mprotect_writable [OF v(1) this, of q]
  show ?case using Cons.IH [OF v(2)] Cons.prems(2,3) m pp by auto
qed simp

lemma lib_write_pages_writable:
  assumes "k < 64" "unat a + length bs < 2 ^ 64" "i < length bs"
    and "set_protections os (zip (pages_of (2 ^ k) a (length bs)) (map (\<lambda>p. p OR PROT_WRITE) prot)) w = (True, w')"
    and "length prot = length (pages_of (2 ^ k) a (length bs))"
  shows "\<exists>p. map_of (prots w') ((a + of_nat i) AND NOT (2 ^ k - 1)) = Some p \<and> bit p 1"
proof (rule set_protections_writable [OF assms(4)])
  have "bit (p OR PROT_WRITE) 1" for p by (simp only: bit_or_iff) (simp add: PROT_WRITE_def bit_iff_odd)
  then show "\<forall>(page, p) \<in> set (zip (pages_of (2 ^ k) a (length bs)) (map (\<lambda>p. p OR PROT_WRITE) prot)). bit p 1"
    by (auto dest!: set_zip_rightD)
  have "fst ` set (zip (pages_of (2 ^ k) a (length bs)) (map (\<lambda>p. p OR PROT_WRITE) prot)) = set (pages_of (2 ^ k) a (length bs))"
    using assms(5) by (simp flip: set_map)
  then show "(a + of_nat i) AND NOT (2 ^ k - 1) \<in> fst ` set (zip (pages_of (2 ^ k) a (length bs)) (map (\<lambda>p. p OR PROT_WRITE) prot)) \<or>
      (\<exists>x. map_of (prots w) ((a + of_nat i) AND NOT (2 ^ k - 1)) = Some x \<and> bit x 1)"
    using page_of_byte [OF assms(1,2), of i] assms(3) by simp
qed

text \<open>
  The last page of a write is computed from the address behind its last byte. A write that ends exactly at the end of a mapped page is
  therefore refused, with nothing written, when the next page is not mapped, although all its bytes could be written.
\<close>

theorem lib_write_needs_page_behind:
  assumes "page_size os = 2 ^ k" "k < 64" "shows_pages os (prots w)" "unat a + length bs < 2 ^ 64" "2 ^ k dvd unat a + length bs"
    and "map_of (prots w) (a + of_nat (length bs)) = None"
  shows "lib_insn_interpret_write os a bs n w = (err os, w)"
proof (rule lib_write_refused [OF assms(1-4) order_refl])
  have "unat (of_nat (length bs) :: u64) = length bs" using assms(4) by (simp add: unat_of_nat take_bit_nat_eq_self)
  then have "unat (a + of_nat (length bs)) = unat a + length bs" using assms(4) by (simp add: unat_word_ariths)
  then have "(a + of_nat (length bs)) AND NOT (2 ^ k - 1) = of_nat (unat (a + of_nat (length bs)))"
    using page_of_nat [OF assms(2), of "a + of_nat (length bs)"] assms(5) by (simp only: dvd_div_mult_self)
  then show "map_of (prots w) ((a + of_nat (length bs)) AND NOT (2 ^ k - 1)) = None" using assms(6) by simp
qed

theorem lib_write_needs_page_behind_witness:
  "lib_insn_interpret_write demo_lib_os 0x1FFE [0x66, 0x90] 24 \<lparr>lmem = demo_func, prots = [(0x1000, 5)]\<rparr> =
     (12, \<lparr>lmem = demo_func, prots = [(0x1000, 5)]\<rparr>)"
proof -
  have "page_size demo_lib_os = 2 ^ 12" "err demo_lib_os = 12" by (simp_all add: demo_lib_os_def)
  then show ?thesis
    using lib_write_needs_page_behind [where os = demo_lib_os and k = 12 and a = "0x1FFE" and bs = "[0x66, 0x90]" and n = 24 and w = "\<lparr>lmem = demo_func, prots = [(0x1000, 5)]\<rparr>"]
      demo_os_shows
    by simp
qed

end
