(* ===== verification/Arch_Ppc.thy ===== *)
theory Arch_Ppc
  imports Ulp_Redirect Ptrace "HOL-Library.Monad_Syntax"
begin

text \<open>
  Redirection of a function on powerpc64le, \<open>src/lib/arch/powerpc64le/patch.c\<close> with the template of \<open>ulp_prologue.S\<close>, and the
  stack on which the trampoline keeps the TOC and link registers of redirected calls. The interface is that of the x86_64 port: memory is read directly
  and written through \<open>memwrite\<close>. The names end in \<open>_ppc\<close> where the other port has the same ones.

  What the bytes do is said by an interpreter for the instructions of the template, \<open>ppc_step\<close>, which is not part of the program.
\<close>

subsection \<open>Patching\<close>

definition INSN_SIZE :: nat where
  "INSN_SIZE = 4"

definition PRE_NOPS_LEN_ppc :: nat where
  "PRE_NOPS_LEN_ppc = 13"

definition gNop :: bytes where
  "gNop = [0x00, 0x00, 0x00, 0x60]"

text \<open>
  The template as it is assembled: \<open>tramp\<close> is the address of \<open>trampoline_routine\<close>, whose four parts the linker puts into the \<open>lis\<close> and \<open>ori\<close>
  instructions. The last eight bytes are \<open>ulp_prologue_new_function_addr\<close>.
\<close>

definition half :: "u64 \<Rightarrow> nat \<Rightarrow> u32" where
  "half w i = ucast (take_bit 16 (drop_bit (16 * i) w))"

definition ulp_prologue_insns :: "u64 \<Rightarrow> u32 list" where
  "ulp_prologue_insns tramp =
     [0xF8A1FFF8, 0xF8C1FFF0,
      0x3CA00000 + half tramp 3, 0x60A50000 + half tramp 2, 0x3D800000 + half tramp 1, 0x618C0000 + half tramp 0,
      0x78AC000E, 0x7D8903A6, 0x7CA802A6, 0x48000005, 0x4E800420]"

definition ulp_prologue_ppc :: "u64 \<Rightarrow> bytes" where
  "ulp_prologue_ppc tramp = concat (map u32_bytes (ulp_prologue_insns tramp)) @ replicate 8 0"

definition ulp_prologue_size :: nat where
  "ulp_prologue_size = 52"

definition ulp_prologue_new_function_offset :: nat where
  "ulp_prologue_new_function_offset = 44"

definition generate_branch_to_prologue :: "u32 \<Rightarrow> u32" where
  "generate_branch_to_prologue offset = (offset AND 0x00FFFFFF) OR push_bit 24 0x4B"

definition with_offset :: "nat \<Rightarrow> u32" where
  "with_offset offset = - of_nat (INSN_SIZE * PRE_NOPS_LEN_ppc + offset)"

definition ulp_patch_prologue_layout_ppc ::
  "u64 \<Rightarrow> u64 \<Rightarrow> bytes \<Rightarrow> insn_queue \<times> ulp_error \<Rightarrow> insn_queue \<times> ulp_error" where
  "ulp_patch_prologue_layout_ppc old_fentry new_fentry prologue s =
     (let prolog = take ulp_prologue_size prologue;
          prolog = take ulp_prologue_new_function_offset prolog @ u64_bytes new_fentry @ drop (ulp_prologue_new_function_offset + 8) prolog;
          fentry_prologue = old_fentry - of_nat (INSN_SIZE * PRE_NOPS_LEN_ppc)
      in snd (memwrite fentry_prologue (take (INSN_SIZE * PRE_NOPS_LEN_ppc) prolog) s))"

text \<open>The loop over \<open>valid_offsets\<close>; \<open>None\<close> is \<open>-INT_MAX\<close>, which the callers test for by its sign.\<close>

fun branch_offset_loop :: "mem \<Rightarrow> u64 \<Rightarrow> nat list \<Rightarrow> nat option" where
  "branch_offset_loop m fentry [] = None"
| "branch_offset_loop m fentry (offset # offsets) =
     (let code = mem_read m (fentry + of_nat offset) 4
      in if code = gNop \<or> code = u32_bytes (generate_branch_to_prologue (with_offset offset)) then Some offset
         else branch_offset_loop m fentry offsets)"

definition get_branch_offset :: "mem \<Rightarrow> u64 \<Rightarrow> nat option" where
  "get_branch_offset m fentry = branch_offset_loop m fentry [0, 8]"

definition ulp_skip_prologue_ppc :: "mem \<Rightarrow> u64 \<Rightarrow> insn_queue \<times> ulp_error \<Rightarrow> ulp_error \<times> insn_queue \<times> ulp_error" where
  "ulp_skip_prologue_ppc m fentry s =
     (case get_branch_offset m fentry of
        None \<Rightarrow> (ENOPATCHABLE, s)
      | Some offset \<Rightarrow> (0, snd (memwrite (fentry + of_nat offset) gNop s)))"

definition ulp_patch_addr_trampoline :: "mem \<Rightarrow> u64 \<Rightarrow> insn_queue \<times> ulp_error \<Rightarrow> ulp_error \<times> insn_queue \<times> ulp_error" where
  "ulp_patch_addr_trampoline m old_fentry s =
     (case get_branch_offset m old_fentry of
        None \<Rightarrow> (ENOPATCHABLE, s)
      | Some offset \<Rightarrow>
          (0, snd (memwrite (old_fentry + of_nat offset) (u32_bytes (generate_branch_to_prologue (with_offset offset))) s)))"

definition ulp_patch_addr_ppc ::
  "u64 \<Rightarrow> mem \<Rightarrow> u64 \<Rightarrow> u64 \<Rightarrow> bool \<Rightarrow> insn_queue \<times> ulp_error \<Rightarrow> ulp_error \<times> insn_queue \<times> ulp_error" where
  "ulp_patch_addr_ppc tramp m old new enable s =
     (if enable then
        ulp_patch_addr_trampoline m old (ulp_patch_prologue_layout_ppc old new (ulp_prologue_ppc tramp) s)
      else ulp_skip_prologue_ppc m old s)"

lemma length_template: "length (ulp_prologue_ppc tramp) = ulp_prologue_size"
  by (simp add: ulp_prologue_ppc_def ulp_prologue_insns_def ulp_prologue_size_def)

definition redirect_bytes_ppc :: "u64 \<Rightarrow> u64 \<Rightarrow> bytes" where
  "redirect_bytes_ppc tramp new = concat (map u32_bytes (ulp_prologue_insns tramp)) @ u64_bytes new"

lemma length_redirect_ppc: "length (redirect_bytes_ppc tramp new) = 52"
  by (simp add: redirect_bytes_ppc_def ulp_prologue_insns_def)

lemma layout_eq:
  "ulp_patch_prologue_layout_ppc old new (ulp_prologue_ppc tramp) s = snd (memwrite (old - 52) (redirect_bytes_ppc tramp new) s)"
proof -
  have "length (concat (map u32_bytes (ulp_prologue_insns tramp))) = 44" by (simp add: ulp_prologue_insns_def)
  then show ?thesis
    by (simp add: ulp_patch_prologue_layout_ppc_def Let_def ulp_prologue_size_def ulp_prologue_new_function_offset_def
        ulp_prologue_ppc_def INSN_SIZE_def PRE_NOPS_LEN_ppc_def redirect_bytes_ppc_def)
qed

lemma branch_words:
  "generate_branch_to_prologue (with_offset 0) = 0x4BFFFFCC" "generate_branch_to_prologue (with_offset 8) = 0x4BFFFFC4"
  by code_simp+

lemma get_branch_offset_cases:
  assumes "get_branch_offset m a = Some off"
  shows "off = 0 \<or> off = 8"
  using assms by (auto simp: get_branch_offset_def Let_def split: if_splits)

subsection \<open>What the processor does with these bytes\<close>

record ppc =
  nip :: u64
  lr :: u64
  ctr :: u64
  gpr :: "nat \<Rightarrow> u64"
  pmemory :: mem

text \<open>
  The instructions of the template, by the fields of the instruction word: \<open>std\<close>, \<open>lis\<close>, \<open>ori\<close> (whose form with registers 0 and value 0 is the nop),
  \<open>rldimi\<close> with shift 32 and mask 0, \<open>mtctr\<close>, \<open>mflr\<close>, \<open>b\<close> and \<open>bl\<close>, and \<open>bctr\<close>.
\<close>

definition ppc_exec :: "u32 \<Rightarrow> ppc \<Rightarrow> ppc option" where
  "ppc_exec w p =
     (let n = unat w; op = n div 2 ^ 26; rt = n div 2 ^ 21 mod 32; ra = n div 2 ^ 16 mod 32; imm = n mod 2 ^ 16;
          simm = scast (of_nat imm :: 16 word) :: u64; p' = p\<lparr>nip := nip p + 4\<rparr>
      in if op = 62 \<and> ra \<noteq> 0 \<and> imm mod 4 = 0 then Some (p'\<lparr>pmemory := mem_write (pmemory p) (gpr p ra + simm) (u64_bytes (gpr p rt))\<rparr>)
         else if op = 15 \<and> ra = 0 then Some (p'\<lparr>gpr := (gpr p)(rt := push_bit 16 simm)\<rparr>)
         else if op = 24 then Some (p'\<lparr>gpr := (gpr p)(ra := gpr p rt OR of_nat imm)\<rparr>)
         else if op = 30 \<and> imm = 0xE then Some (p'\<lparr>gpr := (gpr p)(ra := push_bit 32 (gpr p rt) OR take_bit 32 (gpr p ra))\<rparr>)
         else if op = 31 \<and> n mod 2 ^ 21 = 0x903A6 then Some (p'\<lparr>ctr := gpr p rt\<rparr>)
         else if op = 31 \<and> n mod 2 ^ 21 = 0x802A6 then Some (p'\<lparr>gpr := (gpr p)(rt := lr p)\<rparr>)
         else if op = 18 \<and> n div 2 mod 2 = 0 then
           let li = n mod 2 ^ 26 div 4 * 4; target = nip p + of_nat li - (if li < 2 ^ 25 then 0 else 2 ^ 26)
           in Some (p\<lparr>nip := target, lr := (if odd n then nip p + 4 else lr p)\<rparr>)
         else if n = 0x4E800420 then Some (p\<lparr>nip := ctr p\<rparr>)
         else None)"

definition ppc_step :: "ppc \<Rightarrow> ppc option" where
  "ppc_step p = ppc_exec (bytes_u32 (mem_read (pmemory p) (nip p) 4)) p"

fun ppc_run :: "nat \<Rightarrow> ppc \<Rightarrow> ppc option" where
  "ppc_run 0 p = Some p"
| "ppc_run (Suc n) p = (case ppc_step p of None \<Rightarrow> None | Some q \<Rightarrow> ppc_run n q)"

lemma unat_half: "unat (half w i) < 65536"
proof -
  have "half w i = take_bit 16 (half w i)" unfolding half_def by (rule bit_eqI) (auto simp: bit_simps)
  then have "unat (half w i) = take_bit 16 (unat (half w i))" by (metis unsigned_take_bit_eq)
  then show ?thesis using take_bit_nat_less_exp [of 16 "unat (half w i)"] by simp
qed

lemma halves_join:
  "(push_bit 48 (scast (ucast (half w 3) :: 16 word)) OR push_bit 32 (ucast (half w 2))) OR
     take_bit 32 (push_bit 16 (scast (ucast (half w 1) :: 16 word))) OR take_bit 32 (ucast (half w 0)) = (w :: u64)"
  (is "?l = w")
proof (rule bit_eqI)
  fix n assume "possible_bit TYPE(u64) n"
  then have "n < 64" by simp
  then consider "n = 63" | "48 \<le> n \<and> n < 63" | "32 \<le> n \<and> n < 48" | "n = 31" | "16 \<le> n \<and> n < 31" | "n < 16" by force
  then show "bit ?l n \<longleftrightarrow> bit w n" unfolding half_def by cases (auto simp: bit_simps min_def)
qed

lemma scast_imm: "scast (65528 :: 16 word) = (- 8 :: u64)" "scast (65520 :: 16 word) = (- 16 :: u64)"
  by code_simp+

lemma exec_std:
  "ppc_exec 0xF8A1FFF8 p = Some (p\<lparr>nip := nip p + 4, pmemory := mem_write (pmemory p) (gpr p 1 - 8) (u64_bytes (gpr p 5))\<rparr>)"
  "ppc_exec 0xF8C1FFF0 p = Some (p\<lparr>nip := nip p + 4, pmemory := mem_write (pmemory p) (gpr p 1 - 16) (u64_bytes (gpr p 6))\<rparr>)"
  by (simp_all add: ppc_exec_def scast_imm)

lemma imm_fields:
  assumes "k < 65536"
  shows "(c * 65536 + k) div 67108864 = c div 1024" "(c * 65536 + k) div 2097152 = c div 32" "(c * 65536 + k) div 65536 = c"
    "(c * 65536 + k) mod 65536 = (k :: nat)"
  using assms by auto

lemma exec_lis:
  assumes "unat w = c * 65536 + k" "k < 65536" "c div 1024 = 15" "c mod 32 = 0"
  shows "ppc_exec w p = Some (p\<lparr>nip := nip p + 4, gpr := (gpr p)(c div 32 mod 32 := push_bit 16 (scast (of_nat k :: 16 word)))\<rparr>)"
  using assms(2-4) by (simp add: ppc_exec_def assms(1) imm_fields [OF assms(2)])

lemma exec_ori:
  assumes "unat w = c * 65536 + k" "k < 65536" "c div 1024 = 24"
  shows "ppc_exec w p = Some (p\<lparr>nip := nip p + 4, gpr := (gpr p)(c mod 32 := gpr p (c div 32 mod 32) OR of_nat k)\<rparr>)"
  using assms(2,3) by (simp add: ppc_exec_def assms(1) imm_fields [OF assms(2)])

lemma exec_rest:
  "ppc_exec 0x78AC000E p = Some (p\<lparr>nip := nip p + 4, gpr := (gpr p)(12 := push_bit 32 (gpr p 5) OR take_bit 32 (gpr p 12))\<rparr>)"
  "ppc_exec 0x7D8903A6 p = Some (p\<lparr>nip := nip p + 4, ctr := gpr p 12\<rparr>)"
  "ppc_exec 0x7CA802A6 p = Some (p\<lparr>nip := nip p + 4, gpr := (gpr p)(5 := lr p)\<rparr>)"
  "ppc_exec 0x48000005 p = Some (p\<lparr>nip := nip p + 4, lr := nip p + 4\<rparr>)"
  "ppc_exec 0x4E800420 p = Some (p\<lparr>nip := ctr p\<rparr>)"
  "ppc_exec 0x4BFFFFCC p = Some (p\<lparr>nip := nip p - 52\<rparr>)"
  "ppc_exec 0x4BFFFFC4 p = Some (p\<lparr>nip := nip p - 60\<rparr>)"
  "ppc_exec 0x60000000 p = Some (p\<lparr>nip := nip p + 4\<rparr>)"
  by (simp_all add: ppc_exec_def)

lemma ppc_run_add: "ppc_run (k + n) p = (case ppc_run k p of None \<Rightarrow> None | Some q \<Rightarrow> ppc_run n q)"
  by (induction k arbitrary: p) (auto split: option.splits)

text \<open>The code of a redirected function: the template over the nops before the entry, and the branch to it.\<close>

definition redirected_ppc :: "mem \<Rightarrow> u64 \<Rightarrow> u64 \<Rightarrow> nat \<Rightarrow> u64 \<Rightarrow> bool" where
  "redirected_ppc m tramp old off new \<longleftrightarrow>
     mem_read m (old - 52) 52 = redirect_bytes_ppc tramp new \<and>
     mem_read m (old + of_nat off) 4 = u32_bytes (generate_branch_to_prologue (with_offset off))"

lemma concat_words_nth:
  "i < length ws \<Longrightarrow> take 4 (drop (4 * i) (concat (map u32_bytes ws) @ x)) = u32_bytes (ws ! i)"
proof (induction ws arbitrary: i)
  case (Cons w ws)
  then show ?case by (cases i) (simp_all add: algebra_simps)
qed simp

lemma mem_read_part: "i + n \<le> k \<Longrightarrow> mem_read m (a + of_nat i) n = take n (drop i (mem_read m a k))"
  by (rule nth_equalityI) (auto simp: algebra_simps)

lemma template_fetch:
  assumes "mem_read m a 52 = redirect_bytes_ppc tramp new" "i < 11"
  shows "bytes_u32 (mem_read m (a + of_nat (4 * i)) 4) = ulp_prologue_insns tramp ! i"
proof -
  have "mem_read m (a + of_nat (4 * i)) 4 = take 4 (drop (4 * i) (redirect_bytes_ppc tramp new))"
    using mem_read_part [of "4 * i" 4 52 m a] assms by simp
  also have "\<dots> = u32_bytes (ulp_prologue_insns tramp ! i)" unfolding redirect_bytes_ppc_def
    using assms(2) by (intro concat_words_nth) (simp add: ulp_prologue_insns_def)
  finally show ?thesis by simp
qed

lemma template_address:
  assumes "mem_read m a 52 = redirect_bytes_ppc tramp new"
  shows "bytes_u64 (mem_read m (a + 44) 8) = new"
proof -
  have "mem_read m (a + of_nat 44) 8 = take 8 (drop 44 (redirect_bytes_ppc tramp new))"
    using mem_read_part [of 44 8 52 m a] assms by simp
  also have "\<dots> = u64_bytes new"
    by (simp add: redirect_bytes_ppc_def ulp_prologue_insns_def)
  finally show ?thesis by simp
qed

lemma run_template:
  assumes code: "mem_read (pmemory p) a 52 = redirect_bytes_ppc tramp new" and "nip p = a"
    and stack: "apart (gpr p 1 - 16) 16 a 52"
  shows "ppc_run 11 p = Some (p\<lparr>
    pmemory := mem_write (mem_write (pmemory p) (gpr p 1 - 8) (u64_bytes (gpr p 5))) (gpr p 1 - 16) (u64_bytes (gpr p 6)),
    ctr := tramp, gpr := (gpr p)(5 := lr p, 12 := tramp), lr := 40 + a, nip := tramp\<rparr>)"
proof -
  let ?m1 = "mem_write (pmemory p) (gpr p 1 - 8) (u64_bytes (gpr p 5))"
  let ?m2 = "mem_write ?m1 (gpr p 1 - 16) (u64_bytes (gpr p 6))"
  have ap: "apart (gpr p 1 - 8) 8 a 52" "apart (gpr p 1 - 16) 8 a 52"
    using apart_part [OF stack, of 8 8] apart_part [OF stack, of 0 8] by simp_all
  have m1: "mem_read ?m1 a 52 = redirect_bytes_ppc tramp new" and m2: "mem_read ?m2 a 52 = redirect_bytes_ppc tramp new"
    using code ap by (simp_all add: mem_read_write_apart)
  have lis: "unat (0x3CA00000 + half tramp 3) = 0x3CA0 * 65536 + unat (half tramp 3)"
    "unat (0x60A50000 + half tramp 2) = 0x60A5 * 65536 + unat (half tramp 2)"
    "unat (0x3D800000 + half tramp 1) = 0x3D80 * 65536 + unat (half tramp 1)"
    "unat (0x618C0000 + half tramp 0) = 0x618C * 65536 + unat (half tramp 0)"
    using unat_half [of tramp 3] unat_half [of tramp 2] unat_half [of tramp 1] unat_half [of tramp 0]
    by (simp_all add: unat_word_ariths)
  note imm = exec_lis [OF lis(1) unat_half] exec_ori [OF lis(2) unat_half] exec_lis [OF lis(3) unat_half] exec_ori [OF lis(4) unat_half]
  have f: "bytes_u32 (mem_read (pmemory p) a 4) = 0xF8A1FFF8" "bytes_u32 (mem_read ?m1 (a + 4) 4) = 0xF8C1FFF0"
    "bytes_u32 (mem_read ?m2 (8 + a) 4) = 0x3CA00000 + half tramp 3" "bytes_u32 (mem_read ?m2 (12 + a) 4) = 0x60A50000 + half tramp 2"
    "bytes_u32 (mem_read ?m2 (16 + a) 4) = 0x3D800000 + half tramp 1" "bytes_u32 (mem_read ?m2 (20 + a) 4) = 0x618C0000 + half tramp 0"
    "bytes_u32 (mem_read ?m2 (24 + a) 4) = 0x78AC000E" "bytes_u32 (mem_read ?m2 (28 + a) 4) = 0x7D8903A6"
    "bytes_u32 (mem_read ?m2 (32 + a) 4) = 0x7CA802A6" "bytes_u32 (mem_read ?m2 (36 + a) 4) = 0x48000005"
    "bytes_u32 (mem_read ?m2 (40 + a) 4) = 0x4E800420"
    using template_fetch [OF code, of 0] template_fetch [OF m1, of 1] template_fetch [OF m2, of 2] template_fetch [OF m2, of 3]
      template_fetch [OF m2, of 4] template_fetch [OF m2, of 5] template_fetch [OF m2, of 6] template_fetch [OF m2, of 7]
      template_fetch [OF m2, of 8] template_fetch [OF m2, of 9] template_fetch [OF m2, of 10]
    by (simp_all add: ulp_prologue_insns_def add.commute)
  have "(11 :: nat) = Suc (Suc (Suc (Suc (Suc (Suc (Suc (Suc (Suc (Suc (Suc 0))))))))))" by simp
  then show ?thesis
    using assms(2) halves_join [of tramp]
    by (simp only:) (insert f, simp add: ppc_step_def exec_std exec_rest imm fun_upd_twist del: One_nat_def)
qed
lemma memwrite_room_ppc:
  assumes "q_pending s ws" "qsize (fst s) + align_to (16 + int (length bs)) 8 \<le> int INSN_BUFFER_MAX"
  shows "\<exists>s'. memwrite a bs s = (True, s') \<and> snd s' = snd s \<and> q_pending s' (ws @ [(a, bs)]) \<and>
    qsize (fst s') = qsize (fst s) + align_to (16 + int (length bs)) 8"
proof -
  obtain q e where s: "s = (q, e)" by (cases s)
  obtain s' where "memwrite a bs s = (True, s')" "snd s' = snd s" "qsize (fst s') = qsize (fst s) + align_to (16 + int (length bs)) 8"
    using assms(2) s by (auto simp: memwrite_def insnq_insert_write_eq split: if_splits)
  with insnq.mwrite_queued [OF assms(1) this(1)] show ?thesis by blast
qed

lemma align_52: "align_to 68 8 = 72" "align_to 20 8 = 24"
  by code_simp+

lemma patch_addr_ppc_flush:
  assumes "q_pending s ws" "get_branch_offset m old = Some off" "qsize (fst s) + 96 \<le> int INSN_BUFFER_MAX"
  shows "\<exists>s'. ulp_patch_addr_ppc tramp m old new True s = (0, s') \<and> snd s' = snd s \<and>
    q_pending s' (ws @ [(old - 52, redirect_bytes_ppc tramp new), (old + of_nat off, u32_bytes (generate_branch_to_prologue (with_offset off)))])"
proof -
  let ?br = "u32_bytes (generate_branch_to_prologue (with_offset off))"
  obtain s1 where s1: "memwrite (old - 52) (redirect_bytes_ppc tramp new) s = (True, s1)" "snd s1 = snd s"
    "q_pending s1 (ws @ [(old - 52, redirect_bytes_ppc tramp new)])" "qsize (fst s1) = qsize (fst s) + 72"
    using memwrite_room_ppc [OF assms(1), of "redirect_bytes_ppc tramp new" "old - 52"] assms(3) by (auto simp: length_redirect_ppc align_52)
  obtain s2 where "memwrite (old + of_nat off) ?br s1 = (True, s2)" "snd s2 = snd s1"
    "q_pending s2 ((ws @ [(old - 52, redirect_bytes_ppc tramp new)]) @ [(old + of_nat off, ?br)])"
    using memwrite_room_ppc [OF s1(3), of ?br "old + of_nat off"] assms(3) s1(4) by (auto simp: align_52)
  with s1 show ?thesis
    by (simp add: ulp_patch_addr_ppc_def layout_eq ulp_patch_addr_trampoline_def assms(2))
qed

lemma run_redirected:
  assumes "redirected_ppc (pmemory p) tramp old off new" "nip p = old + of_nat off" "off = 0 \<or> off = 8"
    and "apart (gpr p 1 - 16) 16 (old - 52) 52"
  shows "ppc_run 12 p = Some (p\<lparr>
    pmemory := mem_write (mem_write (pmemory p) (gpr p 1 - 8) (u64_bytes (gpr p 5))) (gpr p 1 - 16) (u64_bytes (gpr p 6)),
    ctr := tramp, gpr := (gpr p)(5 := lr p, 12 := tramp), lr := 40 + (old - 52), nip := tramp\<rparr>)"
proof -
  let ?p = "p\<lparr>nip := old - 52\<rparr>"
  have step: "ppc_step p = Some ?p"
    using assms(1-3) by (auto simp: ppc_step_def redirected_ppc_def branch_words exec_rest)
  have run: "ppc_run 11 ?p = Some (?p\<lparr>
      pmemory := mem_write (mem_write (pmemory p) (gpr p 1 - 8) (u64_bytes (gpr p 5))) (gpr p 1 - 16) (u64_bytes (gpr p 6)),
      ctr := tramp, gpr := (gpr p)(5 := lr p, 12 := tramp), lr := 40 + (old - 52), nip := tramp\<rparr>)"
    using run_template [of ?p "old - 52" tramp new] assms(1,4) by (simp add: redirected_ppc_def)
  have "ppc_run 12 p = ppc_run 11 ?p" using ppc_run_add [of 1 11 p] step by simp
  then show ?thesis using run by simp
qed

text \<open>
  Claim C14. Redirection on powerpc64le. For a function whose entry, or whose local entry 8 bytes behind it, is a nop or already the branch, and with room in
  the queue, the call returns 0 and leaves the error state alone; once the queue is carried out, a processor that
  comes to that place with the code out of its stack's way runs into \<open>trampoline_routine\<close>: register 12 holds its address, register 5 the return address of the caller, the
  new function's address is found 4 bytes behind the link register, the values of registers 5 and 6 are saved under the stack pointer,
  and every other register is untouched. Outside the 52 bytes before the entry and the branch no byte of memory changes.
\<close>

theorem ulp_patch_addr_ppc_redirects:
  assumes "q_pending s ws" "get_branch_offset m old = Some off" "qsize (fst s) + 96 \<le> int INSN_BUFFER_MAX"
  shows "\<exists>s' m'. ulp_patch_addr_ppc tramp m old new True s = (0, s') \<and> snd s' = snd s \<and> q_flush s' m = Some m' \<and>
    (\<forall>b. 52 \<le> unat (b - (old - 52)) \<longrightarrow> 4 \<le> unat (b - (old + of_nat off)) \<longrightarrow> m' b = apply_writes ws m b) \<and>
    (\<forall>p. nip p = old + of_nat off \<longrightarrow> pmemory p = m' \<longrightarrow> apart (gpr p 1 - 16) 16 (old - 52) 52 \<longrightarrow>
      (\<exists>q. ppc_run 12 p = Some q \<and> nip q = tramp \<and> gpr q 12 = tramp \<and> gpr q 5 = lr p \<and>
        bytes_u64 (mem_read (pmemory q) (lr q + 4) 8) = new \<and>
        mem_read (pmemory q) (gpr p 1 - 8) 8 = u64_bytes (gpr p 5) \<and> mem_read (pmemory q) (gpr p 1 - 16) 8 = u64_bytes (gpr p 6) \<and>
        (\<forall>i. i \<noteq> 5 \<longrightarrow> i \<noteq> 12 \<longrightarrow> gpr q i = gpr p i)))"
proof -
  let ?br = "u32_bytes (generate_branch_to_prologue (with_offset off))" and ?t = "redirect_bytes_ppc tramp new"
  let ?m = "mem_write (mem_write (apply_writes ws m) (old - 52) ?t) (old + of_nat off) ?br"
  obtain s' where s': "ulp_patch_addr_ppc tramp m old new True s = (0, s')" "snd s' = snd s"
    "q_pending s' (ws @ [(old - 52, ?t), (old + of_nat off, ?br)])"
    using patch_addr_ppc_flush [OF assms] by blast
  have flush: "q_flush s' m = Some ?m" using insnq.flush_pending [OF s'(3), of m] by simp
  have off: "off = 0 \<or> off = 8" by (rule get_branch_offset_cases [OF assms(2)])
  have "apart (old + of_nat off) (length ?br) (old - 52) 52" using off by (auto simp: apart_def)
  then have red: "redirected_ppc ?m tramp old off new"
    using mem_read_write_same [of ?t _ "old - 52"] mem_read_write_same [of ?br _ "old + of_nat off"]
    by (simp add: redirected_ppc_def mem_read_write_apart length_redirect_ppc)
  have "\<exists>q. ppc_run 12 p = Some q \<and> nip q = tramp \<and> gpr q 12 = tramp \<and> gpr q 5 = lr p \<and>
        bytes_u64 (mem_read (pmemory q) (lr q + 4) 8) = new \<and>
        mem_read (pmemory q) (gpr p 1 - 8) 8 = u64_bytes (gpr p 5) \<and> mem_read (pmemory q) (gpr p 1 - 16) 8 = u64_bytes (gpr p 6) \<and>
        (\<forall>i. i \<noteq> 5 \<longrightarrow> i \<noteq> 12 \<longrightarrow> gpr q i = gpr p i)"
    if p: "nip p = old + of_nat off" "pmemory p = ?m" "apart (gpr p 1 - 16) 16 (old - 52) 52" for p
  proof -
    let ?m2 = "mem_write (mem_write ?m (gpr p 1 - 8) (u64_bytes (gpr p 5))) (gpr p 1 - 16) (u64_bytes (gpr p 6))"
    have ap: "apart (gpr p 1 - 8) 8 (old - 52) 52" "apart (gpr p 1 - 16) 8 (old - 52) 52"
      using apart_part [OF p(3), of 8 8] apart_part [OF p(3), of 0 8] by simp_all
    have "mem_read ?m2 (old - 52) 52 = ?t" using red ap by (simp add: redirected_ppc_def mem_read_write_apart)
    from template_address [OF this] have new: "bytes_u64 (mem_read ?m2 (40 + (old - 52) + 4) 8) = new" by simp
    have "apart (gpr p 1 - 16) 8 (gpr p 1 - 8) 8" by (simp add: apart_def)
    then have saved: "mem_read ?m2 (gpr p 1 - 8) 8 = u64_bytes (gpr p 5)" "mem_read ?m2 (gpr p 1 - 16) 8 = u64_bytes (gpr p 6)"
      using mem_read_write_same [of "u64_bytes (gpr p 5)" ?m "gpr p 1 - 8"] mem_read_write_same [of "u64_bytes (gpr p 6)" _ "gpr p 1 - 16"]
      by (simp_all add: mem_read_write_apart)
    show ?thesis using run_redirected [of p tramp old off new] red p off new saved by simp
  qed
  moreover have "?m b = apply_writes ws m b" if "52 \<le> unat (b - (old - 52))" "4 \<le> unat (b - (old + of_nat off))" for b
    using that by (simp add: mem_write_apply length_redirect_ppc)
  ultimately show ?thesis using s'(1,2) flush by blast
qed

text \<open>
  On powerpc64le the template is queued before the entry is looked at. For a function that has neither a nop nor the
  branch at one of the two places, enabling returns \<open>ENOPATCHABLE\<close>, yet the write of the 52 bytes before the function stays in the queue, and the
  tool carries the queue out also after an error: the end of the function before it is overwritten. Disabling such a function queues nothing.
\<close>

theorem ulp_patch_addr_ppc_refusal_writes:
  assumes "q_pending s ws" "get_branch_offset m old = None" "qsize (fst s) + 72 \<le> int INSN_BUFFER_MAX"
  shows "\<exists>s' m'. ulp_patch_addr_ppc tramp m old new True s = (ENOPATCHABLE, s') \<and> snd s' = snd s \<and>
    q_flush s' m = Some m' \<and> mem_read m' (old - 52) 52 = redirect_bytes_ppc tramp new \<and>
    ulp_patch_addr_ppc tramp m old new False s = (ENOPATCHABLE, s)"
proof -
  let ?t = "redirect_bytes_ppc tramp new"
  obtain s' where s': "memwrite (old - 52) ?t s = (True, s')" "snd s' = snd s" "q_pending s' (ws @ [(old - 52, ?t)])"
    using memwrite_room_ppc [OF assms(1), of ?t "old - 52"] assms(3) by (auto simp: length_redirect_ppc align_52)
  have "q_flush s' m = Some (mem_write (apply_writes ws m) (old - 52) ?t)" using insnq.flush_pending [OF s'(3), of m] by simp
  moreover have "mem_read (mem_write (apply_writes ws m) (old - 52) ?t) (old - 52) 52 = ?t"
    using mem_read_write_same [of ?t _ "old - 52"] by (simp add: length_redirect_ppc)
  ultimately show ?thesis using s' assms(2)
    by (simp add: ulp_patch_addr_ppc_def layout_eq ulp_patch_addr_trampoline_def ulp_skip_prologue_ppc_def)
qed

text \<open>A function with a global entry: the nop is the third instruction.\<close>

definition demo_func_ppc :: mem where
  "demo_func_ppc = (\<lambda>a. if a = 0x100B then 0x60 else 0)"

lemma demo_room: "q_pending (insnq_init, ENONE) []" "qsize (fst (insnq_init, ENONE :: ulp_error)) + 96 \<le> int INSN_BUFFER_MAX"
  by (simp_all add: q_pending_def queue_repr_Nil insnq_init_def INSN_BUFFER_MAX_def)

lemma le_bytes_4: "le_bytes 4 x = [of_nat (x mod 256), of_nat (x div 256 mod 256), of_nat (x div 256 div 256 mod 256), of_nat (x div 256 div 256 div 256 mod 256)]"
proof -
  have "(4 :: nat) = Suc (Suc (Suc (Suc 0)))" by simp
  then show ?thesis by (simp only: le_bytes.simps)
qed

lemma branch_bytes: "u32_bytes 0x4BFFFFCC = [0xCC, 0xFF, 0xFF, 0x4B]" "u32_bytes 0x4BFFFFC4 = [0xC4, 0xFF, 0xFF, 0x4B]"
  by (simp_all add: u32_bytes_def le_bytes_4)

lemma demo_branch_offset: "get_branch_offset demo_func_ppc 0x1000 = Some 8" "get_branch_offset (\<lambda>_. 0) 0x1000 = None"
  by (simp_all add: get_branch_offset_def mem_read_4 gNop_def branch_words branch_bytes demo_func_ppc_def)

theorem ulp_patch_addr_ppc_redirects_witness:
  "\<exists>s' m'. ulp_patch_addr_ppc 0xA5B6C7D8E9F0 demo_func_ppc 0x1000 0x7000 True (insnq_init, ENONE) = (0, s') \<and>
     q_flush s' demo_func_ppc = Some m' \<and>
     (\<exists>q. ppc_run 12 \<lparr>nip = 0x1008, lr = 0x42, ctr = 0, gpr = (\<lambda>_. 0x80000), pmemory = m'\<rparr> = Some q \<and>
       nip q = 0xA5B6C7D8E9F0 \<and> gpr q 5 = 0x42 \<and> bytes_u64 (mem_read (pmemory q) (lr q + 4) 8) = 0x7000)"
proof -
  let ?p = "\<lambda>m'. \<lparr>nip = 0x1008, lr = 0x42, ctr = 0, gpr = (\<lambda>_. 0x80000), pmemory = m'\<rparr>"
  have ap: "apart (0x80000 - 16) 16 (0x1000 - 52) 52" by (simp add: apart_def)
  from ulp_patch_addr_ppc_redirects [OF demo_room(1) demo_branch_offset(1) demo_room(2), of "0xA5B6C7D8E9F0" "0x7000"]
  obtain s' m' where h: "ulp_patch_addr_ppc 0xA5B6C7D8E9F0 demo_func_ppc 0x1000 0x7000 True (insnq_init, ENONE) = (0, s')"
    "q_flush s' demo_func_ppc = Some m'" and
    run: "\<forall>p. nip p = 0x1000 + of_nat 8 \<longrightarrow> pmemory p = m' \<longrightarrow> apart (gpr p 1 - 16) 16 (0x1000 - 52) 52 \<longrightarrow>
      (\<exists>q. ppc_run 12 p = Some q \<and> nip q = 0xA5B6C7D8E9F0 \<and> gpr q 12 = 0xA5B6C7D8E9F0 \<and> gpr q 5 = lr p \<and>
        bytes_u64 (mem_read (pmemory q) (lr q + 4) 8) = 0x7000 \<and>
        mem_read (pmemory q) (gpr p 1 - 8) 8 = u64_bytes (gpr p 5) \<and> mem_read (pmemory q) (gpr p 1 - 16) 8 = u64_bytes (gpr p 6) \<and>
        (\<forall>i. i \<noteq> 5 \<longrightarrow> i \<noteq> 12 \<longrightarrow> gpr q i = gpr p i))"
    by blast
  from run [rule_format, of "?p m'"] ap h show ?thesis by auto
qed

theorem ulp_patch_addr_ppc_refusal_writes_witness:
  "\<exists>s' m'. ulp_patch_addr_ppc 0x5000 (\<lambda>_. 0) 0x1000 0x7000 True (insnq_init, ENONE) = (ENOPATCHABLE, s') \<and>
     q_flush s' (\<lambda>_. 0) = Some m' \<and> mem_read m' 0xFCC 52 = redirect_bytes_ppc 0x5000 0x7000"
proof -
  have "qsize (fst (insnq_init, ENONE :: ulp_error)) + 72 \<le> int INSN_BUFFER_MAX" using demo_room(2) by simp
  from ulp_patch_addr_ppc_refusal_writes [OF demo_room(1) demo_branch_offset(2) this, of "0x5000" "0x7000"] show ?thesis by auto
qed

text \<open>
  The tool's check of an entry on this port (\<open>src/tools/arch/powerpc64le/post-arch.c\<close>) looks for a nop only: what it accepts the library accepts, and an entry that is
  redirected at the moment is reported as not livepatchable.
\<close>

definition check_preamble_ppc :: "kernel \<Rightarrow> u64 \<Rightarrow> mem \<Rightarrow> bool option" where
  "check_preamble_ppc k sym_address m = do {
     (r, bs) \<leftarrow> read_memory k 12 sym_address m (replicate 12 0);
     Some (r = 0 \<and> (take 4 bs = gNop \<or> take 4 (drop 8 bs) = gNop)) }"

lemma check_preamble_ppc_sound:
  assumes "vm_atomic k" and "check_preamble_ppc k a m = Some True"
  shows "get_branch_offset m a \<noteq> None"
proof -
  have "mem_read m (a + of_nat 0) 4 = gNop \<or> mem_read m (a + of_nat 8) 4 = gNop"
    using assms(2) mem_read_part [of 0 4 12 m a] mem_read_part [of 8 4 12 m a]
    by (auto simp: check_preamble_ppc_def read_memory_atomic [OF assms(1)] split: if_splits)
  then show ?thesis by (auto simp: get_branch_offset_def Let_def)
qed

subsection \<open>The stack of the trampoline\<close>

text \<open>
  \<open>ulp_stack\<close> is thread-local; the memory it points to comes from \<open>mmap\<close>. The state is the thread's stack object, the memory, the live mappings with their sizes,
  and whether the key of the destructor was created. The answers of the system are parameters; \<open>mmap\<close> answers \<open>-1\<close> on failure.
\<close>

record ulp_stack =
  real_size :: u64
  used_size :: u64
  stack_ptr :: u64

record ppc_thread =
  ustack :: ulp_stack
  tmemory :: mem
  mappings :: "(u64 \<times> u64) list"
  once :: bool

record ppc_os =
  sc_pagesize :: u64
  mmap_at :: "(u64 \<times> u64) list \<Rightarrow> u64 \<Rightarrow> u64"
  key_create :: int

definition ulp_stack_cleanup :: "ppc_thread \<Rightarrow> ulp_error \<Rightarrow> ppc_thread \<times> ulp_error" where
  "ulp_stack_cleanup t e =
     (let st = ustack t
      in if stack_ptr st \<noteq> 0 then
           let ok = ((stack_ptr st, real_size st) \<in> set (mappings t));
               e = libpulp_assert_func ok e
           in (t\<lparr>ustack := \<lparr>real_size = 0, used_size = 0, stack_ptr = 0\<rparr>, mappings := remove1 (stack_ptr st, real_size st) (mappings t)\<rparr>, e)
         else (t, e))"

definition ulp_pthread_key_init :: "ppc_os \<Rightarrow> ulp_error \<Rightarrow> ulp_error" where
  "ulp_pthread_key_init os e = libpulp_assert_func (key_create os = 0) e"

fun copy_bytes :: "mem \<Rightarrow> u64 \<Rightarrow> u64 \<Rightarrow> nat \<Rightarrow> mem" where
  "copy_bytes m oldp newp 0 = m"
| "copy_bytes m oldp newp (Suc s) = copy_bytes (m(newp := m oldp)) (oldp + 1) (newp + 1) s"

text \<open>\<open>None\<close> is the end of the process in \<open>libpulp_crash\<close>.\<close>

definition ulp_stack_helper :: "ppc_os \<Rightarrow> ppc_thread \<Rightarrow> ulp_error \<Rightarrow> (ppc_thread \<times> ulp_error) option" where
  "ulp_stack_helper os t e =
     (let st = ustack t;
          e = libpulp_assert_func (real_size st \<le> used_size st) e;
          old_size = real_size st;
          size' = (real_size st + sc_pagesize os) * 2;
          old = stack_ptr st;
          new = mmap_at os (mappings t) size'
      in if new = - 1 then None
         else let t = t\<lparr>mappings := (new, size') # mappings t\<rparr>;
                  t = (if old \<noteq> 0 then t\<lparr>tmemory := copy_bytes (tmemory t) old new (unat old_size), mappings := remove1 (old, old_size) (mappings t)\<rparr> else t);
                  e = libpulp_assert_func (new \<noteq> 0) e;
                  e = (if once t then e else ulp_pthread_key_init os e)
              in Some (t\<lparr>ustack := st\<lparr>real_size := size', stack_ptr := new\<rparr>, once := True\<rparr>, e))"

text \<open>
  The two parts of \<open>trampoline_routine\<close> that use the stack, around the call of the new function: the TOC and the link register are pushed, after the stack was
  expanded when the signed comparison of the sizes says so, and popped.
\<close>

definition trampoline_push :: "ppc_os \<Rightarrow> u64 \<Rightarrow> u64 \<Rightarrow> ppc_thread \<Rightarrow> ulp_error \<Rightarrow> (ppc_thread \<times> ulp_error) option" where
  "trampoline_push os toc link t e =
     (case (if real_size (ustack t) \<le>s used_size (ustack t) then ulp_stack_helper os t e else Some (t, e)) of
        None \<Rightarrow> None
      | Some (t, e) \<Rightarrow>
          let used = used_size (ustack t) + 16; top = stack_ptr (ustack t) + used
          in Some (t\<lparr>ustack := (ustack t)\<lparr>used_size := used\<rparr>,
               tmemory := mem_write (mem_write (tmemory t) (top - 16) (u64_bytes toc)) (top - 8) (u64_bytes link)\<rparr>, e))"

definition trampoline_pop :: "ppc_thread \<Rightarrow> u64 \<times> u64 \<times> ppc_thread" where
  "trampoline_pop t =
     (let used = used_size (ustack t) - 16; top = stack_ptr (ustack t) + used
      in (bytes_u64 (mem_read (tmemory t) top 8), bytes_u64 (mem_read (tmemory t) (top + 8) 8), t\<lparr>ustack := (ustack t)\<lparr>used_size := used\<rparr>\<rparr>))"

text \<open>A stack that holds a list of pairs, and what \<open>mmap\<close> promises: memory that no live mapping has.\<close>

definition pair_bytes :: "u64 \<times> u64 \<Rightarrow> bytes" where
  "pair_bytes x = u64_bytes (fst x) @ u64_bytes (snd x)"

definition ustack_repr :: "ppc_thread \<Rightarrow> (u64 \<times> u64) list \<Rightarrow> bool" where
  "ustack_repr t xs \<longleftrightarrow>
     (let st = ustack t
      in unat (used_size st) = 16 * length xs \<and> 16 * length xs \<le> unat (real_size st) \<and> 16 dvd unat (real_size st) \<and>
         mem_read (tmemory t) (stack_ptr st) (16 * length xs) = concat (map pair_bytes xs) \<and>
         (if real_size st = 0 then stack_ptr st = 0 else stack_ptr st \<noteq> 0 \<and> (stack_ptr st, real_size st) \<in> set (mappings t)))"

definition mmap_fresh :: "ppc_os \<Rightarrow> bool" where
  "mmap_fresh os \<longleftrightarrow>
     (\<forall>maps size. mmap_at os maps size \<noteq> - 1 \<longrightarrow> mmap_at os maps size \<noteq> 0 \<and>
        (\<forall>(b, s) \<in> set maps. apart b (unat s) (mmap_at os maps size) (unat size)))"

lemma length_pairs [simp]: "length (concat (map pair_bytes xs)) = 16 * length xs"
  by (induction xs) (simp_all add: pair_bytes_def)

lemma copy_bytes_eq:
  assumes "apart old n new n" "n \<le> 2 ^ 64"
  shows "copy_bytes m old new n = mem_write m new (mem_read m old n)"
  using assms
proof (induction n arbitrary: m old new)
  case 0
  then show ?case by (simp add: mem_read_def)
next
  case (Suc n)
  show ?case
  proof (cases "n = 0")
    case True
    then show ?thesis by (simp add: mem_read_def)
  next
    case False
    have 1: "apart (old + 1) n (new + 1) n"
      using apart_part [OF apart_part [OF Suc.prems(1), of 1 n, unfolded apart_sym [of "old + of_nat 1"]], of 1 n] False by (simp add: apart_sym)
    have "apart new 1 (old + 1) n"
      using apart_part [OF apart_part [OF Suc.prems(1), of 1 n, unfolded apart_sym [of "old + of_nat 1"]], of 0 1] False by simp
    then have 2: "mem_read (m(new := m old)) (old + 1) n = mem_read m (old + 1) n"
      using mem_read_write_apart [of new "[m old]" "old + 1" n m] by simp
    have "copy_bytes (m(new := m old)) (old + 1) (new + 1) n = mem_write (m(new := m old)) (new + 1) (mem_read (m(new := m old)) (old + 1) n)"
      using Suc.prems(2) by (intro Suc.IH 1) simp
    then show ?thesis unfolding 2 by (simp add: mem_read_Suc)
  qed
qed

lemma mem_write_2:
  "mem_write (mem_write m a (u64_bytes x)) (a + 8) (u64_bytes y) = mem_write m a (pair_bytes (x, y))"
  using mem_write_append [of m a "u64_bytes x" "u64_bytes y"] by (simp add: pair_bytes_def)

lemma apart_behind: "n + k \<le> 2 ^ 64 \<Longrightarrow> 0 < n \<Longrightarrow> 0 < k \<Longrightarrow> apart (a + of_nat n) k a n"
proof -
  assume a: "n + k \<le> 2 ^ 64" "0 < n" "0 < k"
  have "of_nat (2 ^ 64 - n) = (- of_nat n :: u64)" using a by (simp add: of_nat_diff)
  moreover have "unat (of_nat (2 ^ 64 - n) :: u64) = 2 ^ 64 - n" "unat (of_nat n :: u64) = n"
    using a by (simp_all add: unat_of_nat take_bit_nat_eq_self del: of_nat_diff)
  ultimately show ?thesis using a by (simp add: apart_def)
qed

lemma push_bytes:
  assumes "mem_read m a (16 * length xs) = concat (map pair_bytes xs)" "16 * length xs < 2 ^ 63"
  shows "mem_read (mem_write m (a + of_nat (16 * length xs)) (pair_bytes x)) a (16 * length (xs @ [x])) = concat (map pair_bytes (xs @ [x]))"
proof -
  let ?n = "16 * length xs"
  let ?m = "mem_write m (a + of_nat ?n) (pair_bytes x)"
  have l: "length (pair_bytes x) = 16" by (simp add: pair_bytes_def)
  have "mem_read ?m a ?n = mem_read m a ?n"
  proof (cases "xs = []")
    case False
    then have "apart (a + of_nat ?n) 16 a ?n" using assms(2) by (intro apart_behind) simp_all
    then show ?thesis using l by (intro mem_read_write_apart) simp_all
  qed (simp add: mem_read_def)
  moreover have "mem_read ?m (a + of_nat ?n) 16 = pair_bytes x"
    using mem_read_write_same [of "pair_bytes x" m "a + of_nat ?n"] l by simp
  ultimately show ?thesis using mem_read_append [of ?m a ?n 16] assms(1) by (simp add: algebra_simps)
qed

definition room :: "ppc_os \<Rightarrow> ppc_thread \<Rightarrow> bool" where
  "room os t \<longleftrightarrow> 16 dvd unat (sc_pagesize os) \<and> 0 < sc_pagesize os \<and> unat (sc_pagesize os) < 2 ^ 60 \<and> unat (real_size (ustack t)) < 2 ^ 60"

lemma helper_expands:
  assumes repr: "ustack_repr t xs" and full: "real_size (ustack t) \<le> used_size (ustack t)" and "room os t" and fresh: "mmap_fresh os" and key: "key_create os = 0"
    and new: "mmap_at os (mappings t) ((real_size (ustack t) + sc_pagesize os) * 2) \<noteq> - 1"
  shows "\<exists>t'. ulp_stack_helper os t e = Some (t', e) \<and> ustack_repr t' xs \<and> used_size (ustack t') = used_size (ustack t) \<and>
    unat (real_size (ustack t')) = 2 * (unat (real_size (ustack t)) + unat (sc_pagesize os))"
proof -
  define st where "st = ustack t"
  define size' where "size' = (real_size st + sc_pagesize os) * 2"
  define a where "a = mmap_at os (mappings t) size'"
  let ?n = "unat (real_size st)"
  have sz: "unat size' = 2 * (?n + unat (sc_pagesize os))" and ps: "16 dvd unat (sc_pagesize os)" "0 < unat (sc_pagesize os)"
    using \<open>room os t\<close> by (simp_all add: room_def unat_word_ariths size'_def st_def word_less_nat_alt)
  have r: "unat (used_size st) = 16 * length xs" "16 * length xs \<le> ?n" "16 dvd ?n"
    "mem_read (tmemory t) (stack_ptr st) (16 * length xs) = concat (map pair_bytes xs)"
    "if real_size st = 0 then stack_ptr st = 0 else stack_ptr st \<noteq> 0 \<and> (stack_ptr st, real_size st) \<in> set (mappings t)"
    using repr by (auto simp: ustack_repr_def Let_def st_def)
  have len: "?n = 16 * length xs" using r full by (simp add: word_le_nat_alt st_def)
  have "a \<noteq> - 1" using new by (simp only: a_def size'_def st_def not_False_eq_True)
  then have a: "a \<noteq> - 1" "a \<noteq> 0" "\<forall>(b, s) \<in> set (mappings t). apart b (unat s) a (unat size')"
    using fresh unfolding mmap_fresh_def a_def by blast+
  have nz: "size' \<noteq> 0" using sz ps by auto
  define m where "m = (if stack_ptr st \<noteq> 0 then copy_bytes (tmemory t) (stack_ptr st) a ?n else tmemory t)"
  define maps where "maps = (if stack_ptr st \<noteq> 0 then remove1 (stack_ptr st, real_size st) ((a, size') # mappings t) else (a, size') # mappings t)"
  have run: "ulp_stack_helper os t e = Some (t\<lparr>ustack := st\<lparr>real_size := size', stack_ptr := a\<rparr>, tmemory := m, mappings := maps, once := True\<rparr>, e)"
    using full a(1,2) key unfolding ulp_stack_helper_def Let_def st_def [symmetric] size'_def [symmetric] a_def [symmetric]
    by (simp add: libpulp_assert_func_def ulp_pthread_key_init_def m_def maps_def)
  have mem: "mem_read m a (16 * length xs) = concat (map pair_bytes xs)"
  proof (cases "real_size st = 0")
    case False
    then have "(stack_ptr st, real_size st) \<in> set (mappings t)" and p: "stack_ptr st \<noteq> 0" using r(5) by auto
    then have "apart (stack_ptr st) ?n a (unat size')" using a(3) by blast
    then have "apart (stack_ptr st) ?n a ?n" using sz by (simp add: apart_def)
    then have "m = mem_write (tmemory t) a (concat (map pair_bytes xs))"
      using copy_bytes_eq [of "stack_ptr st" ?n a "tmemory t"] r(4) len p unsigned_less [of "real_size st", where 'a = nat] by (simp add: m_def)
    then show ?thesis
      using mem_read_write_same [of "concat (map pair_bytes xs)" "tmemory t" a] len unsigned_less [of "real_size st", where 'a = nat] by simp
  qed (use len in \<open>simp add: mem_read_def\<close>)
  have "(a, size') \<noteq> (stack_ptr st, real_size st)" using sz ps by auto
  then have "(a, size') \<in> set maps" by (auto simp: maps_def)
  then have "ustack_repr (t\<lparr>ustack := st\<lparr>real_size := size', stack_ptr := a\<rparr>, tmemory := m, mappings := maps, once := True\<rparr>) xs"
    using r(1-3) mem a(2) nz sz ps by (simp add: ustack_repr_def)
  with run sz show ?thesis by (simp add: st_def)
qed

lemma push_onto:
  assumes "ustack_repr t xs" "16 * length xs < unat (real_size (ustack t))" "unat (real_size (ustack t)) < 2 ^ 62"
  shows "ustack_repr (t\<lparr>ustack := (ustack t)\<lparr>used_size := used_size (ustack t) + 16\<rparr>,
      tmemory := mem_write (mem_write (tmemory t) (stack_ptr (ustack t) + (used_size (ustack t) + 16) - 16) (u64_bytes toc))
        (stack_ptr (ustack t) + (used_size (ustack t) + 16) - 8) (u64_bytes link)\<rparr>) (xs @ [(toc, link)])"
proof -
  let ?st = "ustack t"
  have r: "unat (used_size ?st) = 16 * length xs" "16 dvd unat (real_size ?st)"
    "mem_read (tmemory t) (stack_ptr ?st) (16 * length xs) = concat (map pair_bytes xs)"
    using assms(1) by (auto simp: ustack_repr_def Let_def)
  have used: "used_size ?st = of_nat (16 * length xs)" using r(1) by (metis of_nat_unat ucast_id)
  have "unat (used_size ?st + 16) = 16 * length xs + 16" using r(1) assms(2,3) by (simp add: unat_word_ariths)
  moreover have "16 * length xs + 16 \<le> unat (real_size ?st)" using assms(2) r(2) by (auto elim!: dvdE)
  moreover have "mem_write (mem_write (tmemory t) (stack_ptr ?st + (used_size ?st + 16) - 16) (u64_bytes toc))
      (stack_ptr ?st + (used_size ?st + 16) - 8) (u64_bytes link) =
      mem_write (tmemory t) (stack_ptr ?st + of_nat (16 * length xs)) (pair_bytes (toc, link))"
    unfolding used mem_write_2 [symmetric] by (simp add: algebra_simps)
  moreover have "16 * length xs < 2 ^ 63" using assms(2,3) by simp
  ultimately show ?thesis
    using push_bytes [OF r(3), of "(toc, link)"] r(2) assms(1) by (simp add: ustack_repr_def Let_def)
qed

lemma signed_le: "unat x < 2 ^ 63 \<Longrightarrow> unat y < 2 ^ 63 \<Longrightarrow> (x :: u64) \<le>s y \<longleftrightarrow> x \<le> y"
proof -
  assume *: "unat x < 2 ^ 63" "unat y < 2 ^ 63"
  have "sint z = uint z" if "unat z < 2 ^ 63" for z :: u64
  proof -
    have "int (unat z) < int (2 ^ 63)" using that by (simp only: of_nat_less_iff)
    then have "uint z < 2 ^ 63" by simp
    moreover have "- (2 ^ 63) \<le> uint z" by (rule order_trans [of _ 0]) simp_all
    ultimately have "signed_take_bit 63 (uint z) = uint z" by (simp add: signed_take_bit_int_eq_self)
    then show ?thesis by (simp add: sint_uint)
  qed
  then show ?thesis using * by (simp add: word_sle_eq word_le_def)
qed

lemma trampoline_push_holds:
  assumes repr: "ustack_repr t xs" and room: "room os t" and fresh: "mmap_fresh os" "key_create os = 0"
    and "mmap_at os (mappings t) ((real_size (ustack t) + sc_pagesize os) * 2) \<noteq> - 1"
  shows "\<exists>t'. trampoline_push os toc link t e = Some (t', e) \<and> ustack_repr t' (xs @ [(toc, link)])"
proof -
  let ?st = "ustack t"
  have r: "unat (used_size ?st) = 16 * length xs" "16 * length xs \<le> unat (real_size ?st)"
    using repr by (auto simp: ustack_repr_def Let_def)
  have small: "unat (real_size ?st) < 2 ^ 60" "unat (sc_pagesize os) < 2 ^ 60" "0 < unat (sc_pagesize os)"
    using room by (auto simp: room_def word_less_nat_alt)
  then have cmp: "real_size ?st \<le>s used_size ?st \<longleftrightarrow> real_size ?st \<le> used_size ?st" using r by (intro signed_le) simp_all
  obtain t1 where t1: "(if real_size ?st \<le>s used_size ?st then ulp_stack_helper os t e else Some (t, e)) = Some (t1, e)"
    "ustack_repr t1 xs" "16 * length xs < unat (real_size (ustack t1))" "unat (real_size (ustack t1)) < 2 ^ 62"
  proof (cases "real_size ?st \<le> used_size ?st")
    case True
    obtain t1 where "ulp_stack_helper os t e = Some (t1, e)" "ustack_repr t1 xs"
      "unat (real_size (ustack t1)) = 2 * (unat (real_size ?st) + unat (sc_pagesize os))"
      using helper_expands [OF repr True room fresh assms(5)] by blast
    with that [of t1] show ?thesis using True cmp small r by simp
  next
    case False
    with that [of t] show ?thesis using cmp small r repr by (simp add: word_le_nat_alt)
  qed
  from push_onto [OF t1(2-4), of toc link] show ?thesis unfolding trampoline_push_def t1(1) by simp
qed

lemma trampoline_pop_holds:
  assumes "ustack_repr t (xs @ [(toc, link)])"
  shows "\<exists>t'. trampoline_pop t = (toc, link, t') \<and> ustack_repr t' xs"
proof -
  let ?st = "ustack t" and ?n = "16 * length xs"
  have r: "unat (used_size ?st) = ?n + 16" "?n + 16 \<le> unat (real_size ?st)" "16 dvd unat (real_size ?st)"
    "mem_read (tmemory t) (stack_ptr ?st) (?n + 16) = concat (map pair_bytes xs) @ u64_bytes toc @ u64_bytes link"
    using assms by (auto simp: ustack_repr_def Let_def pair_bytes_def algebra_simps)
  have used: "used_size ?st - 16 = of_nat ?n" using r(1) by (metis add_diff_cancel_right' of_nat_add of_nat_numeral of_nat_unat ucast_id)
  have n: "unat (of_nat ?n :: u64) = ?n" using r(2) unsigned_less [of "real_size ?st", where 'a = nat] by (simp add: unat_of_nat take_bit_nat_eq_self del: of_nat_mult)
  have xs: "mem_read (tmemory t) (stack_ptr ?st) ?n = concat (map pair_bytes xs)"
    "mem_read (tmemory t) (stack_ptr ?st + of_nat ?n) 16 = u64_bytes toc @ u64_bytes link"
    using r(4) mem_read_append [of "tmemory t" "stack_ptr ?st" ?n 16] by simp_all
  have "mem_read (tmemory t) (stack_ptr ?st + of_nat ?n) 8 = u64_bytes toc"
    "mem_read (tmemory t) (stack_ptr ?st + of_nat ?n + 8) 8 = u64_bytes link"
    using xs(2) mem_read_append [of "tmemory t" "stack_ptr ?st + of_nat ?n" 8 8] by simp_all
  moreover have "ustack_repr (t\<lparr>ustack := ?st\<lparr>used_size := of_nat ?n\<rparr>\<rparr>) xs"
    using xs(1) r(2,3) n assms by (auto simp: ustack_repr_def Let_def)
  ultimately show ?thesis unfolding trampoline_pop_def Let_def used by simp
qed

text \<open>
  Claim C15. The stack of the trampoline is a stack. Whatever pairs of TOC and link register it holds, and whether or not it has to
  be expanded first, a push with memory available leaves the error state alone and puts its pair on top of the old ones, which the
  expansion has copied to the new memory; the pop that follows the call of the new function gets exactly this pair back and leaves the old ones.
  The pushed bytes lie inside the mapping. When no memory is available the process ends.
\<close>

theorem ulp_stack_lifo:
  assumes "ustack_repr t xs" "room os t" "mmap_fresh os" "key_create os = 0"
  shows "if mmap_at os (mappings t) ((real_size (ustack t) + sc_pagesize os) * 2) \<noteq> - 1
    then \<exists>t' t''. trampoline_push os toc link t e = Some (t', e) \<and> ustack_repr t' (xs @ [(toc, link)]) \<and>
      unat (used_size (ustack t')) \<le> unat (real_size (ustack t')) \<and>
      trampoline_pop t' = (toc, link, t'') \<and> ustack_repr t'' xs
    else real_size (ustack t) = used_size (ustack t) \<longrightarrow> trampoline_push os toc link t e = None"
proof (cases "mmap_at os (mappings t) ((real_size (ustack t) + sc_pagesize os) * 2) = - 1")
  case False
  obtain t' where t': "trampoline_push os toc link t e = Some (t', e)" "ustack_repr t' (xs @ [(toc, link)])"
    using trampoline_push_holds [OF assms False] by blast
  then have "unat (used_size (ustack t')) \<le> unat (real_size (ustack t'))" by (auto simp: ustack_repr_def Let_def)
  with t' trampoline_pop_holds [OF t'(2)] False show ?thesis by auto
next
  case True
  then show ?thesis by (simp only: trampoline_push_def ulp_stack_helper_def Let_def) simp
qed

definition demo_ppc_os :: ppc_os where
  "demo_ppc_os = \<lparr>sc_pagesize = 0x1000, mmap_at = (\<lambda>maps sz. if maps = [] then 0x10000 else - 1), key_create = 0\<rparr>"

definition demo_ppc_thread :: ppc_thread where
  "demo_ppc_thread = \<lparr>ustack = \<lparr>real_size = 0, used_size = 0, stack_ptr = 0\<rparr>, tmemory = (\<lambda>_. 0), mappings = [], once = False\<rparr>"

theorem ulp_stack_lifo_witness:
  "\<exists>t' t''. trampoline_push demo_ppc_os 0x8000 0x4242 demo_ppc_thread ENONE = Some (t', ENONE) \<and>
     trampoline_pop t' = (0x8000, 0x4242, t'') \<and> ustack_repr t'' []"
proof -
  have r: "ustack_repr demo_ppc_thread []" "room demo_ppc_os demo_ppc_thread" "mmap_fresh demo_ppc_os" "key_create demo_ppc_os = 0"
    by (simp_all add: ustack_repr_def demo_ppc_thread_def demo_ppc_os_def room_def mmap_fresh_def mem_read_def)
  have "mmap_at demo_ppc_os (mappings demo_ppc_thread) sz \<noteq> - 1" for sz by (simp add: demo_ppc_os_def demo_ppc_thread_def)
  with ulp_stack_lifo [OF r, of "0x8000" "0x4242" ENONE] show ?thesis by auto
qed

end
