(* ===== verification/Commands.thy ===== *)
theory Commands
  imports Trigger Patches Msg_Queue Gdb_Interface
begin

text \<open>
  The remaining commands of the tool: \<open>set_patchable\<close>, \<open>check\<close>, \<open>messages\<close>, \<open>livepatchable\<close>, \<open>dump\<close> (\<open>src/tools/set_patchable.c\<close>, \<open>check.c\<close>,
  \<open>messages.c\<close>, \<open>livepatchable.c\<close>, \<open>dump.c\<close>), and of \<open>trigger\<close> the summary it prints and its entry point (\<open>src/tools/trigger.c\<close>). They are
  compositions of the critical section (\<open>Hijack\<close>), the introspection (\<open>Process_Image\<close>), the checks of \<open>Trigger\<close> and the metadata parser.

  The outer option of a result is an access through \<open>NULL\<close> or outside an array, or the end of a loop that has none.
\<close>

subsection \<open>A process from its image\<close>

definition process_of :: "int \<Rightarrow> libpulp_exports \<Rightarrow> ulp_process" where
  "process_of t x = \<lparr>pid = t, all_threads_hijacked = False, threads = [], main_thread = None,
     dynobj_libpulp = libpulp_syms.truncate x, global_universe = 0\<rparr>"

subsection \<open>Enabling and disabling\<close>

definition run_enable_disable_patching :: "os \<Rightarrow> int \<Rightarrow> u64 \<Rightarrow> ulp_process \<Rightarrow> world \<Rightarrow> (int \<times> world) option" where
  "run_enable_disable_patching os timeout routine p w = do {
     thread \<leftarrow> main_thread p;
     (ret, ctx, w) \<leftarrow> run_and_redirect os timeout (tid thread) (tcontext thread) routine w;
     Some (if ret \<noteq> 0 then ret else int_of_reg (rax ctx), w) }"

text \<open>The loop; \<open>None\<close> as the value of \<open>ret\<close> is the uninitialised variable.\<close>

fun enable_loop ::
  "os \<Rightarrow> procfs \<Rightarrow> int \<Rightarrow> u64 \<Rightarrow> nat \<Rightarrow> int option \<Rightarrow> ulp_process \<Rightarrow> world \<Rightarrow> (int option \<times> ulp_process \<times> world) option" where
  "enable_loop os fs timeout routine 0 ret p w = Some (ret, p, w)"
| "enable_loop os fs timeout routine (Suc n) ret p w = do {
     (r, p, w) \<leftarrow> hijack_threads os fs p w;
     if r \<noteq> 0 then Some (ret, p, w)
     else do {
       (ret, w) \<leftarrow> run_enable_disable_patching os timeout routine p w;
       (r, p, w) \<leftarrow> restore_threads os p w;
       if r \<noteq> 0 \<or> ret \<noteq> EAGAIN then Some (Some ret, p, w)
       else enable_loop os fs timeout routine n (Some ret) p w }}"

datatype change = Changed bool | Unable "int option"

definition report_change :: "bool \<Rightarrow> int option \<Rightarrow> change" where
  "report_change enable ret =
     (if (ret = Some ENONE \<and> enable) \<or> (ret = Some EUSRBLOCKED \<and> \<not> enable) then Changed enable else Unable ret)"

text \<open>The result is the code, what is printed, and the state.\<close>

definition enable_or_disable_patching ::
  "os \<Rightarrow> procfs \<Rightarrow> int \<Rightarrow> int \<Rightarrow> libpulp_exports option \<Rightarrow> bool \<Rightarrow> nat \<Rightarrow> world \<Rightarrow> (int \<times> change option \<times> world) option" where
  "enable_or_disable_patching os fs timeout t dyn enable retries w = do {
     state \<leftarrow> get_libpulp_error_state_remote (mem_access os) (tmem w) (map_option (\<lambda>x. (error_state_addr x, trigger x)) dyn);
     if (state = ENONE \<and> \<not> enable) \<or> (state = EUSRBLOCKED \<and> enable) then do {
       x \<leftarrow> dyn;
       (ret, p, w) \<leftarrow> enable_loop os fs timeout (enable_disable_addr x) retries None (process_of t x) w;
       Some (ENONE, Some (report_change enable ret), w) }
     else Some (state, None, w) }"

fun to_lower :: "u8 \<Rightarrow> u8" where
  "to_lower c = (if 0x41 \<le> c \<and> c \<le> 0x5a then c + 0x20 else c)"

fun set_patchable_all ::
  "os \<Rightarrow> procfs \<Rightarrow> int \<Rightarrow> bool \<Rightarrow> nat \<Rightarrow> (int \<times> libpulp_exports option \<times> world) list \<Rightarrow> (change option \<times> world) list option" where
  "set_patchable_all os fs timeout enable retries [] = Some []"
| "set_patchable_all os fs timeout enable retries ((t, dyn, w) # ps) = do {
     (_, c, w) \<leftarrow> enable_or_disable_patching os fs timeout t dyn enable retries w;
     rest \<leftarrow> set_patchable_all os fs timeout enable retries ps;
     Some ((c, w) # rest) }"

definition run_set_patchable ::
  "os \<Rightarrow> procfs \<Rightarrow> int \<Rightarrow> bytes \<Rightarrow> nat \<Rightarrow> (int \<times> libpulp_exports option \<times> world) list \<Rightarrow> (int \<times> (change option \<times> world) list) option" where
  "run_set_patchable os fs timeout arg retries ps =
     (if map to_lower arg = str ''enable'' then map_option (Pair 0) (set_patchable_all os fs timeout True retries ps)
      else if arg = str ''disable'' then map_option (Pair 0) (set_patchable_all os fs timeout False retries ps)
      else Some (1, []))"

subsection \<open>Is a patch applied?\<close>

definition run_check ::
  "trigger_env \<Rightarrow> intro_env \<Rightarrow> image \<Rightarrow> bytes \<Rightarrow> bytes option \<Rightarrow> world \<Rightarrow> (int \<times> world) option" where
  "run_check env ienv blank container process_wildcard w =
     (case so_section env container False of
        None \<Rightarrow> Some (1, w)
      | Some sec \<Rightarrow>
          (case extract_ulp_from_so_to_mem sec None (case real_path env container of None \<Rightarrow> container | Some rp \<Rightarrow> rp) of
             TooLarge \<Rightarrow> Some (1, w)
           | OutOfBounds \<Rightarrow> None
           | Extracted livepatch \<Rightarrow>
               (case parse_metadata_from_mem livepatch (parse_alloc env) (pstart 0 0) of
                  Inl (PErr e) \<Rightarrow> Some (1, w)
                | Inl POverflow \<Rightarrow> None
                | Inr (ulp, _) \<Rightarrow>
                    if \<not> isnumber process_wildcard then Some (-1, w)
                    else let os = kernel_os env; t = atoi_digits (the process_wildcard) in do {
                      (ret, target, w) \<leftarrow> initialize_data_structures os ienv t blank w;
                      if ret \<noteq> 0 then Some (-1, w)
                      else if Trigger.check_patch_sanity env ulp (map ulp_dynobj.truncate (Patches.dynobjs target)) None \<noteq> 0 then Some (-1, w)
                      else do {
                        x \<leftarrow> dynobj_libpulp_of target;
                        (ret, p, w) \<leftarrow> hijack_threads os (kernel_fs env) (process_of t x) w;
                        if ret = ETHRDDETTACH \<or> ret > 0 then Some (-1, w)
                        else do {
                          (chk, result, w) \<leftarrow> patch_applied os (rr_timeout env) p (patch_id ulp) w;
                          (ret, p, w) \<leftarrow> restore_threads os p w;
                          if ret \<noteq> 0 then Some (-1, w)
                          else if chk \<noteq> 0 then Some (-1, w)
                          else do { r \<leftarrow> result; Some (r, w) } } } })))"

subsection \<open>The messages of libpulp.so\<close>

definition get_msgq_address :: "libpulp_exports option \<Rightarrow> u64" where
  "get_msgq_address dyn = (case dyn of None \<Rightarrow> 0 | Some x \<Rightarrow> msg_queue_addr x)"

definition msgq_debug :: "msg_queue \<Rightarrow> bytes" where
  "msgq_debug q =
     map (\<lambda>i. if mbuf q i = 0 then 0x2e else mbuf q i) [0..<MSGQ_BUFFER_MAX] @ [10] @
     map (\<lambda>i. if bottom q = i then 0x42 else if mtop q = i then 0x54 else 0x20) [0..<MSGQ_BUFFER_MAX] @ [10]"

text \<open>\<open>struct msg_queue\<close> in memory: the buffer, then \<open>top\<close>, \<open>bottom\<close> and \<open>distance\<close> as \<open>int\<close>s.\<close>

definition msg_queue_size :: nat where
  "msg_queue_size = MSGQ_BUFFER_MAX + 12"

definition msg_queue_of :: "bytes \<Rightarrow> int \<times> int \<times> int" where
  "msg_queue_of bs =
     (u32_int (take 4 (drop MSGQ_BUFFER_MAX bs)), u32_int (take 4 (drop (MSGQ_BUFFER_MAX + 4) bs)), u32_int (take 4 (drop (MSGQ_BUFFER_MAX + 8) bs)))"

definition print_queue :: "bytes \<Rightarrow> bool \<Rightarrow> bytes option" where
  "print_queue bs debug =
     (case msg_queue_of bs of (tp, bt, dist) \<Rightarrow>
        let q = \<lparr>mbuf = (\<lambda>i. bs ! i), mtop = nat tp, bottom = nat bt, distance = dist\<rparr>
        in if debug then Some (msgq_debug q)
           else if dist > 0 \<and> (bt < 0 \<or> bt \<ge> int MSGQ_BUFFER_MAX) then None
           else Some (msgq_print q))"

definition print_message_buffer :: "os \<Rightarrow> int \<Rightarrow> libpulp_exports option \<Rightarrow> bool \<Rightarrow> world \<Rightarrow> (int \<times> bytes \<times> world) option" where
  "print_message_buffer os t dyn debug w =
     (let addr = get_msgq_address dyn
      in if addr = 0 then Some (1, [], w)
         else do {
           (r, w) \<leftarrow> attach os t w;
           if r \<noteq> 0 then Some (1, [], w)
           else do {
             (ret, bs) \<leftarrow> read_memory (mem_access os) msg_queue_size addr (tmem w) (replicate msg_queue_size 0);
             (r, w) \<leftarrow> detach os t w;
             if r \<noteq> 0 \<or> ret > 0 then Some (1, [], w)
             else do { out \<leftarrow> print_queue bs debug; Some (ret, out, w) } } })"

definition run_messages :: "os \<Rightarrow> intro_env \<Rightarrow> image \<Rightarrow> bytes option \<Rightarrow> world \<Rightarrow> (int \<times> bytes \<times> world) option" where
  "run_messages os ienv blank process_wildcard w =
     (if \<not> isnumber process_wildcard then Some (1, [], w)
      else let t = atoi_digits (the process_wildcard) in do {
        (ret, target, w) \<leftarrow> initialize_data_structures os ienv t blank w;
        if ret \<noteq> 0 then Some (1, [], w)
        else do {
          (ret, out, w) \<leftarrow> print_message_buffer os t (dynobj_libpulp_of target) False w;
          Some (if ret > 0 then 1 else ret, out, w) } })"

subsection \<open>Is a library livepatchable?\<close>

text \<open>A file that cannot be opened ends the tool with \<open>EXIT_FAILURE\<close>.\<close>

definition run_livepatchable :: "elf_file option \<Rightarrow> int option" where
  "run_livepatchable elf =
     (case elf of
        None \<Rightarrow> Some 1
      | Some elf \<Rightarrow> do {
          scn \<leftarrow> find_section_by_name elf patchable_function_entries;
          Some (if scn = None then 1 else 0) })"

subsection \<open>The contents of a metadata section\<close>

definition line :: "string \<Rightarrow> bytes \<Rightarrow> bytes" where
  "line label s = str label @ s @ [10]"

definition pointer_str :: "u64 \<Rightarrow> bytes" where
  "pointer_str a = (if a = 0 then str ''(nil)'' else str ''0x'' @ hex_str (unat a))"

definition dump_unit :: "ulp_unit \<Rightarrow> bytes" where
  "dump_unit u = [10] @ line ''** old_fname: '' (cstr (old_fname u)) @ line ''** new_fname: '' (cstr (new_fname u)) @
     line ''** old_faddr: '' (pointer_str (old_faddr u))"

definition dump_ref :: "ulp_reference \<Rightarrow> bytes" where
  "dump_ref r = line ''*** ref_name: '' (cstr (reference_name r)) @ line ''*** target_offset: '' (hex_str (unat (target_offset r))) @
     line ''*** patch_offset: '' (hex_str (unat (target_offset r))) @ line ''*** tls variable: '' (if tls r then str ''yes'' else str ''no'') @ [10]"

text \<open>Both identifiers are printed by \<open>buildid_to_string\<close>, which takes \<open>BUILDID_LEN\<close> bytes. The counts are printed as signed numbers.\<close>

definition dump_metadata :: "ulp_metadata \<Rightarrow> bool \<Rightarrow> bytes" where
  "dump_metadata ulp buildid_only =
     (let obj = objs ulp; bid = buildid_to_string (take BUILDID_LEN (build_id obj))
      in (if \<not> buildid_only then line ''patch id: '' (buildid_to_string (take BUILDID_LEN (patch_id ulp))) @ line ''so filename: '' (cstr (so_filename ulp)) else []) @
         (if \<not> buildid_only then [10] @ line ''* build id: '' bid else bid @ [10]) @
         (if \<not> buildid_only then line ''* name: '' (cstr (obj_name obj)) @ line ''* units: '' (int_dec (sint (nunits obj))) @ concat (map dump_unit (units obj)) else []) @
         [10] @ line ''static references: '' (int_dec (sint (nrefs ulp))) @ concat (map dump_ref (refs ulp)))"

definition dump_ulp_comments :: "report_env \<Rightarrow> bytes \<Rightarrow> bytes" where
  "dump_ulp_comments renv lib =
     (case extract_ulp_comment_to_mem renv lib of
        None \<Rightarrow> []
      | Some out \<Rightarrow> str ''* comments: '' @ [10] @ cstr out @ [10])"

definition run_dump :: "trigger_env \<Rightarrow> report_env \<Rightarrow> bytes \<Rightarrow> bool \<Rightarrow> bool \<Rightarrow> (int \<times> bytes) option" where
  "run_dump env renv container rvt buildid =
     (case so_section env container rvt of
        None \<Rightarrow> Some (1, [])
      | Some sec \<Rightarrow>
          (case extract_ulp_from_so_to_mem sec None (case real_path env container of None \<Rightarrow> container | Some rp \<Rightarrow> rp) of
             TooLarge \<Rightarrow> Some (1, [])
           | OutOfBounds \<Rightarrow> None
           | Extracted livepatch \<Rightarrow>
               (case parse_metadata_from_mem livepatch (parse_alloc env) (pstart 0 0) of
                  Inl (PErr e) \<Rightarrow> Some (1, [])
                | Inl POverflow \<Rightarrow> None
                | Inr (ulp, _) \<Rightarrow> Some (0, dump_metadata ulp buildid @ dump_ulp_comments renv container))))"

subsection \<open>The summary of a trigger\<close>

text \<open>What is printed of a process: nothing, one line, or one line for each result.\<close>

datatype mark = SKIPPED | FAILED | SUCCESS

datatype summary = Silent | One mark "bytes option" int | Each "(mark \<times> bytes \<times> int) list"

definition minor_error :: "int \<Rightarrow> bool" where
  "minor_error er \<longleftrightarrow> er = EBUILDID \<or> er = ENOTARGETLIB"

fun summary_error :: "(bytes \<times> int) list \<Rightarrow> int \<Rightarrow> bool \<Rightarrow> int \<times> bool" where
  "summary_error [] er hide = (er, hide)"
| "summary_error ((nm, e) # rs) er hide =
     (if e = 0 \<or> (e \<noteq> EBUILDID \<and> e \<noteq> ENOTARGETLIB) then summary_error rs e True else summary_error rs er hide)"

fun summarize_loop :: "int \<Rightarrow> bool \<Rightarrow> (bytes \<times> int) list \<Rightarrow> bool \<Rightarrow> (bytes \<times> int) option \<Rightarrow> bool \<times> (bytes \<times> int) option" where
  "summarize_loop er hide [] summarized sr = (summarized, sr)"
| "summarize_loop er hide ((nm, e) # rs) summarized sr =
     (if hide \<and> minor_error e then summarize_loop er hide rs summarized sr
      else if e \<noteq> er then summarize_loop er hide rs False sr
      else if \<not> minor_error e then
        (case sr of None \<Rightarrow> summarize_loop er hide rs summarized (Some (nm, e)) | Some _ \<Rightarrow> summarize_loop er hide rs False sr)
      else summarize_loop er hide rs summarized sr)"

fun listed :: "bool \<Rightarrow> (bytes \<times> int) list \<Rightarrow> (mark \<times> bytes \<times> int) list" where
  "listed hide [] = []"
| "listed hide ((nm, e) # rs) =
     (if minor_error e then (if hide then listed hide rs else (SKIPPED, nm, e) # listed hide rs)
      else if e \<noteq> 0 then (FAILED, nm, e) # listed hide rs
      else (SUCCESS, nm, e) # listed hide rs)"

definition print_patched_unpatched :: "(bytes \<times> int) list \<Rightarrow> bool \<Rightarrow> summary" where
  "print_patched_unpatched rs summarize =
     (case summary_error rs (case rs of [] \<Rightarrow> EUNKNOWN | (_, e) # _ \<Rightarrow> e) False of (er, hide) \<Rightarrow>
      case summarize_loop er hide rs True None of (summarized, sr) \<Rightarrow>
        if sr = None \<and> summarized then Silent
        else if summarize \<and> summarized then
          (if skippable_error er then One SKIPPED None er
           else if er \<noteq> 0 then One FAILED (map_option fst sr) er
           else One SUCCESS (map_option fst sr) er)
        else Each (listed (summarize \<and> hide) rs))"

subsection \<open>The entry point of the trigger command\<close>

text \<open>
  \<open>check_sys_admin\<close> on the lines of \<open>/proc/self/status\<close> (\<open>None\<close>: cannot be opened). \<open>sscanf\<close> with \<open>%lx\<close> needs a hexadecimal digit. A blank line makes
  \<open>strtok\<close> return \<open>NULL\<close>.
\<close>

definition is_blank :: "u8 \<Rightarrow> bool" where
  "is_blank c \<longleftrightarrow> c = 0x20 \<or> c = 9 \<or> c = 10"

definition blank_token :: "bytes \<Rightarrow> (bytes \<times> bytes) option" where
  "blank_token s =
     (case dropWhile is_blank s of [] \<Rightarrow> None
      | c # cs \<Rightarrow> Some (takeWhile (\<lambda>c. \<not> is_blank c) (c # cs), dropWhile (\<lambda>c. \<not> is_blank c) (c # cs)))"

fun sys_admin_loop :: "bytes list \<Rightarrow> bool option" where
  "sys_admin_loop [] = Some False"
| "sys_admin_loop (l # ls) = do {
     (token, rest) \<leftarrow> blank_token l;
     if token = str ''CapPrm:'' then do {
       (value_str, _) \<leftarrow> blank_token rest;
       Some (hex_val (hd value_str) \<noteq> None \<and> fst (strtoul16 0 value_str) AND push_bit 21 1 \<noteq> 0) }
     else sys_admin_loop ls }"

definition check_sys_admin :: "bytes list option \<Rightarrow> bool option" where
  "check_sys_admin status = (case status of None \<Rightarrow> Some False | Some ls \<Rightarrow> sys_admin_loop ls)"

text \<open>The command, after the arguments were taken over: the code, the counts, and the processes. The processes are those of the wildcard.\<close>

definition no_counts :: trigger_counts where
  "no_counts = \<lparr>successes = 0, skippes = 0, failures = 0\<rparr>"

definition run_trigger ::
  "trigger_env \<Rightarrow> bytes list option \<Rightarrow> trigger_args \<Rightarrow> bytes option \<Rightarrow> bytes \<Rightarrow> bytes \<Rightarrow> bytes option \<Rightarrow> (ulp_target \<times> world) list \<Rightarrow>
     (int \<times> trigger_counts \<times> (ulp_target \<times> world) list) option" where
  "run_trigger env status ar user_wild folder wild path ts =
     (if user_wild \<noteq> None then Some (ENOSYS, no_counts, ts)
      else do {
        admin \<leftarrow> (if arg_seccomp ar then check_sys_admin status else Some True);
        if \<not> admin then Some (EPERM, no_counts, ts)
        else trigger_many_processes env ar folder wild path ts 0 no_counts })"

subsection \<open>What the summary shows\<close>

definition important :: "(bytes \<times> int) list \<Rightarrow> (bytes \<times> int) list" where
  "important rs = filter (\<lambda>(nm, e). \<not> minor_error e) rs"

lemma important_simps [simp]:
  "important [] = []" "important ((nm, e) # rs) = (if minor_error e then important rs else (nm, e) # important rs)"
  by (simp_all add: important_def)

lemma summary_error_eq:
  "summary_error rs er hide = (if important rs = [] then (er, hide) else (snd (last (important rs)), True))"
  by (induction rs er hide rule: summary_error.induct) (auto simp: minor_error_def)

lemma summarize_minor:
  "important rs = [] \<Longrightarrow> summarize_loop er False rs s sr = (s \<and> (\<forall>x \<in> set rs. snd x = er), sr)"
proof (induction rs arbitrary: s)
  case (Cons x rs)
  then show ?case by (cases x) (auto split: if_splits)
qed simp

lemma summarize_hide:
  "summarize_loop er True rs s sr =
    (s \<and> (\<forall>x \<in> set (important rs). snd x = er) \<and> (if sr = None then length (important rs) \<le> 1 \<or> \<not> (\<forall>x \<in> set (important rs). snd x = er) else \<forall>x \<in> set (important rs). snd x \<noteq> er),
     if sr = None then find (\<lambda>x. snd x = er) (important rs) else sr)"
proof (induction rs arbitrary: s sr)
  case (Cons x rs)
  obtain nm e where x: "x = (nm, e)" by fastforce
  show ?case
  proof (cases "minor_error e")
    case True
    then show ?thesis using Cons.IH x by simp
  next
    case False
    then show ?thesis using x Cons.IH [of s "Some (nm, e)"] Cons.IH [of False sr]
      by (cases sr; cases "e = er"; cases "important rs") auto
  qed
qed simp


text \<open>The offset of a reference in the patch is not in the dump: the offset in the target is printed twice.\<close>

lemma dump_patch_offset_lost:
  "dump_metadata (ulp\<lparr>refs := map (\<lambda>r. r\<lparr>patch_offset := f r\<rparr>) (refs ulp)\<rparr>) b = dump_metadata ulp b"
proof -
  have "dump_ref (r\<lparr>patch_offset := x\<rparr>) = dump_ref r" for r x by (simp add: dump_ref_def)
  then show ?thesis by (simp add: dump_metadata_def comp_def)
qed

text \<open>A process whose threads cannot be stopped: the variable that is reported was never set, and the call returns success.\<close>

lemma set_patchable_uninitialised:
  assumes "get_libpulp_error_state_remote (mem_access os) (tmem w) (Some (error_state_addr x, trigger x)) = Some st"
    and "st = (if enable then EUSRBLOCKED else ENONE)" "0 < retries"
    and "hijack_threads os fs (process_of t x) w = Some (r, p, w1)" "r \<noteq> 0"
  shows "enable_or_disable_patching os fs timeout t (Some x) enable retries w = Some (ENONE, Some (Unable None), w1)"
proof -
  obtain n where "retries = Suc n" using assms(3) by (cases retries) auto
  then show ?thesis using assms by (auto simp: enable_or_disable_patching_def report_change_def)
qed

text \<open>
  When the threads are stopped and restored, the report says what the routine of libpulp.so answered last: the new state, or the reason why not. Only \<open>EAGAIN\<close>, the answer of a
  library whose locks are taken, is asked again.
\<close>

lemma enable_loop_once:
  assumes "hijack_threads os fs p w = Some (0, p1, w1)" "run_enable_disable_patching os timeout routine p1 w1 = Some (ret, w2)"
    and "restore_threads os p1 w2 = Some (e, p3, w3)" "0 < n" "ret \<noteq> EAGAIN"
  shows "enable_loop os fs timeout routine n r p w = Some (Some ret, p3, w3)"
  using assms by (cases n) auto

lemma to_lower_enable: "run_set_patchable os fs timeout (str ''ENABLE'') retries [] = Some (0, [])"
  "run_set_patchable os fs timeout (str ''DISABLE'') retries [] = Some (1, [])"
  by (simp_all add: run_set_patchable_def str_def)

subsection \<open>The messages in the process\<close>

definition msg_queue_bytes :: "msg_queue \<Rightarrow> bytes" where
  "msg_queue_bytes q = map (mbuf q) [0..<MSGQ_BUFFER_MAX] @ u32_bytes (of_nat (mtop q)) @ u32_bytes (of_nat (bottom q)) @ u32_bytes (of_int (distance q))"

lemma length_msg_queue_bytes: "length (msg_queue_bytes q) = msg_queue_size"
  by (simp add: msg_queue_bytes_def msg_queue_size_def)

lemma u32_int_of: "0 \<le> i \<Longrightarrow> i < 2 ^ 31 \<Longrightarrow> u32_int (u32_bytes (of_int i)) = i"
  by (simp add: u32_int_def signed_of_int signed_take_bit_int_eq_self)

lemma print_loop_cong:
  "bt < MSGQ_BUFFER_MAX \<Longrightarrow> \<forall>i < MSGQ_BUFFER_MAX. b i = c i \<Longrightarrow> msgq_print_loop b bt n = msgq_print_loop c bt n"
proof (induction n arbitrary: bt)
  case (Suc n)
  have "(bt + 1) mod MSGQ_BUFFER_MAX < MSGQ_BUFFER_MAX" by (rule mod_less_divisor) (simp add: MSGQ_BUFFER_MAX_def)
  with Suc show ?case by simp
qed simp

lemma print_queue_bytes:
  assumes "bottom q < MSGQ_BUFFER_MAX" "0 \<le> distance q" "distance q \<le> int MSGQ_BUFFER_MAX"
  shows "print_queue (msg_queue_bytes q) False = Some (msgq_print q)"
proof -
  let ?b = "map (mbuf q) [0..<MSGQ_BUFFER_MAX]" and ?M = "MSGQ_BUFFER_MAX"
  have len: "length ?b = ?M" by simp
  have big: "int ?M < 2 ^ 31" by (simp add: MSGQ_BUFFER_MAX_def)
  have d: "drop ?M (msg_queue_bytes q) = u32_bytes (of_nat (mtop q)) @ u32_bytes (of_nat (bottom q)) @ u32_bytes (of_int (distance q))"
    unfolding msg_queue_bytes_def using len by (metis append_eq_conv_conj)
  have "drop (?M + 4) (msg_queue_bytes q) = u32_bytes (of_nat (bottom q)) @ u32_bytes (of_int (distance q))"
    "drop (?M + 8) (msg_queue_bytes q) = u32_bytes (of_int (distance q))"
    using d by (simp_all add: drop_drop [symmetric] add.commute [of ?M] del: drop_drop)
  moreover have "u32_int (u32_bytes (of_nat (bottom q))) = int (bottom q)" using u32_int_of [of "int (bottom q)"] assms(1) big by simp
  moreover have "u32_int (u32_bytes (of_int (distance q))) = distance q" using u32_int_of [of "distance q"] assms(2,3) big by simp
  ultimately have mq: "\<exists>tp. msg_queue_of (msg_queue_bytes q) = (tp, int (bottom q), distance q)"
    by (simp add: msg_queue_of_def)
  have "\<forall>i < ?M. msg_queue_bytes q ! i = mbuf q i" unfolding msg_queue_bytes_def by (simp add: nth_append)
  then have "msgq_print_loop ((!) (msg_queue_bytes q)) (bottom q) n = msgq_print_loop (mbuf q) (bottom q) n" for n
    using assms(1) by (intro print_loop_cong) auto
  with mq assms show ?thesis by (auto simp: print_queue_def msgq_print_def)
qed

text \<open>
  Claim C27. The \<open>messages\<close> command prints what libpulp.so logged. If the message queue lies in the process's memory where its symbol says and the memory can be
  read, then the output is exactly the text between the bottom and the top of the ring, around its end, byte for byte, and the command succeeds.
\<close>

theorem print_message_buffer_faithful:
  assumes "vm_atomic (mem_access os)" "attach os t w = Some (0, w1)" "detach os t w1 = Some (0, w2)"
    and "msg_queue_addr x \<noteq> 0" "0 \<le> vm_readv (mem_access os) (msg_queue_addr x) msg_queue_size 0"
    and "mem_read (tmem w1) (msg_queue_addr x) msg_queue_size = msg_queue_bytes q"
    and "bottom q < MSGQ_BUFFER_MAX" "0 \<le> distance q" "distance q \<le> int MSGQ_BUFFER_MAX"
  shows "print_message_buffer os t (Some x) False w = Some (0, msgq_print q, w2)"
  using assms(2-6) print_queue_bytes [OF assms(7-9)] read_memory_atomic [OF assms(1), of "replicate msg_queue_size 0" msg_queue_size]
  by (simp add: print_message_buffer_def get_msgq_address_def Let_def)

subsection \<open>The capability\<close>

text \<open>
  The line of \<open>/proc/self/status\<close> for the permitted capabilities, sixteen digits in the kernel's format, among other lines that begin with
  another field: the answer is bit 21 of the value.
\<close>

lemma strtoul16_zeros: "strtoul16 0 (replicate k 0x30 @ s) = strtoul16 0 s"
  by (induction k) (simp_all add: hex_val_def)

lemma hex_str_digits: "c \<in> set (hex_str n) \<Longrightarrow> hex_val c \<noteq> None"
proof (induction n rule: hex_str.induct)
  case (1 n)
  show ?case
  proof (cases "n < 16")
    case True
    then show ?thesis using 1(2) hex_val_hex_digit [of n] by (auto simp: hex_str.simps [of n])
  next
    case False
    then have "c \<in> set (hex_str (n div 16)) \<or> c = hex_digit (n mod 16)" using 1(2) by (auto simp: hex_str.simps [of n])
    then show ?thesis using 1(1) [OF False] hex_val_hex_digit [of "n mod 16"] by auto
  qed
qed

definition cap_line :: "nat \<Rightarrow> u64 \<Rightarrow> bytes" where
  "cap_line k v = str ''CapPrm:'' @ [9] @ replicate k 0x30 @ hex_str (unat v) @ [10]"

lemma check_sys_admin_iff:
  assumes "\<forall>l \<in> set ls. \<exists>tok rest. blank_token l = Some (tok, rest) \<and> tok \<noteq> str ''CapPrm:''"
  shows "check_sys_admin (Some (ls @ cap_line k v # ls')) = Some (bit v 21)"
proof -
  let ?ds = "replicate k 0x30 @ hex_str (unat v)"
  have digit: "hex_val c \<noteq> None" if "c \<in> set ?ds" for c using that hex_str_digits by (auto simp: hex_val_def)
  have nb: "\<not> is_blank c" if "c \<in> set ?ds" for c using digit [OF that] by (auto simp: is_blank_def hex_val_def)
  have ne: "?ds \<noteq> []" by (subst hex_str.simps) simp
  have nb': "\<forall>c \<in> set (str ''CapPrm:''). \<not> is_blank c" by (simp add: str_def is_blank_def)
  have tw: "takeWhile (\<lambda>c. \<not> is_blank c) (xs @ y # ys) = xs" "dropWhile (\<lambda>c. \<not> is_blank c) (xs @ y # ys) = y # ys"
    if "\<forall>c \<in> set xs. \<not> is_blank c" "is_blank y" for xs y ys
    using that by (induction xs) auto
  have tok: "blank_token (xs @ y # ys) = Some (xs, y # ys)" if "xs \<noteq> []" "\<forall>c \<in> set xs. \<not> is_blank c" "is_blank y" for xs y ys
    using that tw [OF that(2,3), of ys] by (cases xs) (auto simp: blank_token_def)
  have t1: "blank_token (cap_line k v) = Some (str ''CapPrm:'', 9 # ?ds @ [10])"
    using tok [of "str ''CapPrm:''" 9 "?ds @ [10]"] nb' by (simp add: cap_line_def is_blank_def str_def)
  have t2: "blank_token (9 # ?ds @ [10]) = Some (?ds, [10])"
    using tok [of ?ds 10 "[]"] ne nb by (simp add: blank_token_def is_blank_def)
  have "hex_val (hd ?ds) \<noteq> None" using digit ne by (meson hd_in_set)
  moreover have "fst (strtoul16 0 ?ds) = v"
    using strtoul16_zeros [of k "hex_str (unat v)"] strtoul16_hex_str [of "[]" 0 "unat v"] by simp
  moreover have "v AND push_bit 21 1 \<noteq> 0 \<longleftrightarrow> bit v 21" using and_exp_eq_0_iff_not_bit [of v 21] by simp
  ultimately have cap: "sys_admin_loop (cap_line k v # ls') = Some (bit v 21)" using t1 t2 by simp
  have "sys_admin_loop (ls @ cap_line k v # ls') = Some (bit v 21)" using assms cap
  proof (induction ls)
    case (Cons l ls)
    then show ?case by (cases "blank_token l") auto
  qed simp
  then show ?thesis by (simp add: check_sys_admin_def)
qed

subsection \<open>Runs\<close>

definition demo_log :: msg_queue where
  "demo_log = \<lparr>mbuf = (\<lambda>i. if i = 0 then 0x41 else 0), mtop = 2, bottom = 0, distance = 2\<rparr>"

definition demo_exports :: libpulp_exports where
  "demo_exports = libpulp_syms.extend (dynobj_libpulp (demo_process 0))
     \<lparr>state_addr = 0, msg_queue_addr = 0xC000, error_state_addr = 0xB000, enable_disable_addr = 0x9400, libpulp_version = 0\<rparr>"

theorem print_message_buffer_faithful_witness:
  "\<exists>w2. print_message_buffer (demo_os demo_routine) 7 (Some demo_exports) False
      (demo_world\<lparr>syscalls := 2, tmem := mem_write (\<lambda>_. 0) 0xC000 (msg_queue_bytes demo_log)\<rparr>) = Some (0, [0x41, 0], w2)"
proof -
  let ?m = "mem_write (\<lambda>_. 0) 0xC000 (msg_queue_bytes demo_log)"
  let ?w = "demo_world\<lparr>syscalls := 2, tmem := ?m\<rparr>"
  let ?w1 = "?w\<lparr>syscalls := 4, traced := (\<lambda>_. False)(7 := True)\<rparr>"
  have at: "attach (demo_os demo_routine) 7 ?w = Some (0, ?w1)"
    by (simp add: attach_def ulp_ptrace_ok attach_wait_stopped demo_defs syscall_def)
  obtain w2 where dt: "detach (demo_os demo_routine) 7 ?w1 = Some (0, w2)"
    by (simp add: detach_def ulp_ptrace_ok demo_defs syscall_def)
  have k: "vm_atomic (mem_access (demo_os demo_routine))" "0 \<le> vm_readv (mem_access (demo_os demo_routine)) a n 0" for a n
    by (simp_all add: demo_os_def all_ok_def vm_atomic_def)
  have x: "msg_queue_addr demo_exports = 0xC000" by (simp add: demo_exports_def libpulp_syms.defs)
  have "msg_queue_size \<le> 2 ^ 64" by (simp add: msg_queue_size_def MSGQ_BUFFER_MAX_def)
  then have m: "mem_read (tmem ?w1) (msg_queue_addr demo_exports) msg_queue_size = msg_queue_bytes demo_log"
    using mem_read_write_same [of "msg_queue_bytes demo_log" "\<lambda>_. 0" "0xC000"] x by (simp add: length_msg_queue_bytes)
  have q: "bottom demo_log < MSGQ_BUFFER_MAX" "0 \<le> distance demo_log" "distance demo_log \<le> int MSGQ_BUFFER_MAX"
    by (simp_all add: demo_log_def MSGQ_BUFFER_MAX_def)
  have "msgq_print demo_log = [0x41, 0]" by (simp add: msgq_print_def demo_log_def numeral_2_eq_2 MSGQ_BUFFER_MAX_def)
  moreover have "msg_queue_addr demo_exports \<noteq> 0" using x by simp
  ultimately show ?thesis using print_message_buffer_faithful [OF k(1) at dt _ k(2) m q] by simp
qed

end
