(* ===== verification/Command_Line.thy ===== *)
theory Command_Line
  imports Ulp_Common Ulp_Core
begin

text \<open>
  The command line of the tool, \<open>src/tools/ulp.c\<close>, with the option tables at the end of each command's file. The C library's \<open>argp\<close> is not modelled:
  it turns the words of the command line into a sequence of calls of \<open>parser\<close>, one for each option of the table and one for each other word, with the
  number of such words so far, and one at the end. This sequence is an argument here. \<open>argp_error\<close> ends the program.
\<close>

subsection \<open>Commands and options\<close>

datatype command =
  ULP_NONE | ULP_PATCHES | ULP_CHECK | ULP_DUMP | ULP_PACKER | ULP_TRIGGER | ULP_POST | ULP_MESSAGES | ULP_LIVEPATCHABLE | ULP_EXTRACT | ULP_SET_PATCHABLE

datatype opt_key =
  Short char | ULP_OP_REVERT_ALL | ULP_OP_REVERT | ULP_OP_COLOR | ULP_OP_TIMEOUT | ULP_OP_DISABLE_THREADING | ULP_OP_RECURSIVE |
  ULP_OP_DISABLE_SUMMARIZATION | ULP_OP_ONLY_LIVEPATCHED | ULP_OP_DISABLE_SECCOMP

text \<open>An option: its long name, its key, and whether it takes an argument.\<close>

type_synonym argp_option = "string \<times> opt_key \<times> bool"

definition get_command_option_patches :: "argp_option list" where
  "get_command_option_patches = [(''verbose'', Short CHR ''v'', False), (''quiet'', Short CHR ''q'', False), (''process'', Short CHR ''p'', True), (''user'', Short CHR ''u'', True), (''disable-threading'', ULP_OP_DISABLE_THREADING, False), (''buildid'', Short CHR ''b'', False), (''only-livepatched'', ULP_OP_ONLY_LIVEPATCHED, False), (''color'', ULP_OP_COLOR, True)]"

definition get_command_option_check :: "argp_option list" where
  "get_command_option_check = [(''verbose'', Short CHR ''v'', False), (''quiet'', Short CHR ''q'', False), (''process'', Short CHR ''p'', True)]"

definition get_command_option_dump :: "argp_option list" where
  "get_command_option_dump = [(''verbose'', Short CHR ''v'', False), (''quiet'', Short CHR ''q'', False), (''buildid'', Short CHR ''b'', False), (''revert'', ULP_OP_REVERT, False)]"

definition get_command_option_packer :: "argp_option list" where
  "get_command_option_packer = [(''verbose'', Short CHR ''v'', False), (''quiet'', Short CHR ''q'', False), (''output'', Short CHR ''o'', True), (''livepatch'', Short CHR ''l'', True), (''target'', Short CHR ''t'', True)]"

definition get_command_option_trigger :: "bool \<Rightarrow> argp_option list" where
  "get_command_option_trigger stack_check = [(''verbose'', Short CHR ''v'', False), (''quiet'', Short CHR ''q'', False), (''process'', Short CHR ''p'', True), (''user'', Short CHR ''u'', True), (''disable-threading'', ULP_OP_DISABLE_THREADING, False), (''revert-all'', ULP_OP_REVERT_ALL, True), (''timeout'', ULP_OP_TIMEOUT, True), (''disable-summarization'', ULP_OP_DISABLE_SUMMARIZATION, False), (''recursive'', ULP_OP_RECURSIVE, False), (''root'', Short CHR ''R'', True), (''disable-seccomp'', ULP_OP_DISABLE_SECCOMP, False)] @
     (if stack_check then [(''check-stack'', Short CHR ''c'', False)] else []) @
     [(''retries'', Short CHR ''r'', True), (''revert'', ULP_OP_REVERT, False), (''color'', ULP_OP_COLOR, True)]"

definition get_command_option_post :: "argp_option list" where
  "get_command_option_post = [(''verbose'', Short CHR ''v'', False), (''quiet'', Short CHR ''q'', False)]"

definition get_command_option_messages :: "argp_option list" where
  "get_command_option_messages = [(''verbose'', Short CHR ''v'', False), (''quiet'', Short CHR ''q'', False), (''process'', Short CHR ''p'', True)]"

definition get_command_option_livepatchable :: "argp_option list" where
  "get_command_option_livepatchable = [(''verbose'', Short CHR ''v'', False), (''quiet'', Short CHR ''q'', False)]"

definition get_command_option_extract :: "argp_option list" where
  "get_command_option_extract = [(''verbose'', Short CHR ''v'', False), (''quiet'', Short CHR ''q'', False), (''output'', Short CHR ''o'', True), (''with-debuginfo'', Short CHR ''d'', True)]"

definition get_command_option_set_patchable :: "argp_option list" where
  "get_command_option_set_patchable = [(''verbose'', Short CHR ''v'', False), (''quiet'', Short CHR ''q'', False), (''process'', Short CHR ''p'', True), (''user'', Short CHR ''u'', True), (''disable-threading'', ULP_OP_DISABLE_THREADING, False), (''retries'', Short CHR ''r'', True)]"

definition get_command_option :: "bool \<Rightarrow> command \<Rightarrow> argp_option list" where
  "get_command_option stack_check cmd =
     (case cmd of
        ULP_NONE \<Rightarrow> []
      | ULP_PATCHES \<Rightarrow> get_command_option_patches
      | ULP_CHECK \<Rightarrow> get_command_option_check
      | ULP_DUMP \<Rightarrow> get_command_option_dump
      | ULP_PACKER \<Rightarrow> get_command_option_packer
      | ULP_TRIGGER \<Rightarrow> get_command_option_trigger stack_check
      | ULP_POST \<Rightarrow> get_command_option_post
      | ULP_MESSAGES \<Rightarrow> get_command_option_messages
      | ULP_LIVEPATCHABLE \<Rightarrow> get_command_option_livepatchable
      | ULP_EXTRACT \<Rightarrow> get_command_option_extract
      | ULP_SET_PATCHABLE \<Rightarrow> get_command_option_set_patchable)"

definition command_entries :: "(string \<times> command) list" where
  "command_entries =
     [(''patches'', ULP_PATCHES), (''check'', ULP_CHECK), (''dump'', ULP_DUMP), (''packer'', ULP_PACKER), (''trigger'', ULP_TRIGGER), (''post'', ULP_POST),
      (''messages'', ULP_MESSAGES), (''livepatchable'', ULP_LIVEPATCHABLE), (''extract'', ULP_EXTRACT), (''set_patchable'', ULP_SET_PATCHABLE)]"

definition command_from_string :: "bytes \<Rightarrow> command" where
  "command_from_string s = (case find (\<lambda>(nm, c). str nm = s) command_entries of None \<Rightarrow> ULP_NONE | Some (_, c) \<Rightarrow> c)"

fun get_command_from_args :: "bytes list \<Rightarrow> command" where
  "get_command_from_args [] = ULP_NONE"
| "get_command_from_args (a # as) = (let ret = command_from_string a in if ret \<noteq> ULP_NONE then ret else get_command_from_args as)"

subsection \<open>Parsing\<close>

record arguments =
  arg1 :: "bytes option"
  livepatch :: "bytes option"
  library :: "bytes option"
  metadata :: "bytes option"
  process_wild :: "bytes option"
  user_wild :: "bytes option"
  prefix :: "bytes option"
  with_debuginfo :: "bytes option"
  cmd :: command
  retries :: int
  quiet :: bool
  verbose :: bool
  buildid :: bool
  revert :: bool
  disable_threads :: bool
  recursive :: bool
  no_summarization :: bool
  only_livepatched :: bool
  disable_seccomp :: bool
  check_stack :: bool

text \<open>Beside the arguments the parser sets the colour flag and the time limit of \<open>run_and_redirect\<close>.\<close>

record tool_state = arguments +
  colorless :: bool
  rr_limit :: int

text \<open>Outcomes of a call: \<open>ARGP_ERR_UNKNOWN\<close>, \<open>argp_error\<close>, an access through \<open>NULL\<close>, or the new state.\<close>

datatype outcome = Unknown | Usage | Fault | Fine tool_state

text \<open>\<open>atoi\<close>: white space, a sign, digits; \<open>strtol\<close> saturates and the value is cut to 32 bits.\<close>

definition is_space :: "u8 \<Rightarrow> bool" where
  "is_space c \<longleftrightarrow> c = 0x20 \<or> 9 \<le> c \<and> c \<le> 13"

definition strtol10 :: "bytes \<Rightarrow> int" where
  "strtol10 s =
     (let s = dropWhile is_space s; neg = (s \<noteq> [] \<and> hd s = 0x2d);
          s = (if s \<noteq> [] \<and> (hd s = 0x2d \<or> hd s = 0x2b) then tl s else s);
          n = int (digits_val 0 (takeWhile isdigit s))
      in if neg then max (- n) (- (2 ^ 63)) else min n (2 ^ 63 - 1))"

definition atoi :: "bytes \<Rightarrow> int" where
  "atoi s = sint (of_int (strtol10 s) :: u32)"

record terminal =
  env_no_color :: bool
  is_tty :: bool
  env_term :: "bytes option"

definition check_color_available :: "terminal \<Rightarrow> bool" where
  "check_color_available tm =
     (if env_no_color tm then False
      else is_tty tm \<and> (case env_term tm of None \<Rightarrow> False | Some term \<Rightarrow> term \<noteq> str ''dumb''))"

definition with_arg :: "bytes option \<Rightarrow> (bytes \<Rightarrow> outcome) \<Rightarrow> outcome" where
  "with_arg arg f = (case arg of None \<Rightarrow> Fault | Some a \<Rightarrow> f a)"

definition parser :: "bool \<Rightarrow> terminal \<Rightarrow> opt_key \<Rightarrow> bytes option \<Rightarrow> tool_state \<Rightarrow> outcome" where
  "parser stack_check tm key arg s =
     (case key of
        Short c \<Rightarrow>
          if c = CHR ''v'' then Fine (s\<lparr>verbose := True\<rparr>)
          else if c = CHR ''q'' then Fine (s\<lparr>quiet := True\<rparr>)
          else if c = CHR ''p'' then Fine (s\<lparr>process_wild := arg\<rparr>)
          else if c = CHR ''b'' then Fine (s\<lparr>buildid := True\<rparr>)
          else if c = CHR ''o'' then Fine (s\<lparr>metadata := arg\<rparr>)
          else if c = CHR ''l'' then Fine (s\<lparr>livepatch := arg\<rparr>)
          else if c = CHR ''t'' then Fine (s\<lparr>library := arg\<rparr>)
          else if c = CHR ''r'' then with_arg arg (\<lambda>a. if atoi a < 1 then Usage else Fine (s\<lparr>retries := atoi a\<rparr>))
          else if c = CHR ''R'' then Fine (s\<lparr>prefix := arg\<rparr>)
          else if c = CHR ''d'' then Fine (s\<lparr>with_debuginfo := arg\<rparr>)
          else if c = CHR ''u'' then Fine (s\<lparr>user_wild := arg\<rparr>)
          else if c = CHR ''c'' \<and> stack_check then Fine (s\<lparr>check_stack := True\<rparr>)
          else Unknown
      | ULP_OP_REVERT_ALL \<Rightarrow> with_arg arg (\<lambda>a. Fine (s\<lparr>library := Some (get_basename a)\<rparr>))
      | ULP_OP_REVERT \<Rightarrow> Fine (s\<lparr>revert := True\<rparr>)
      | ULP_OP_DISABLE_THREADING \<Rightarrow> Fine (s\<lparr>disable_threads := True\<rparr>)
      | ULP_OP_RECURSIVE \<Rightarrow> Fine (s\<lparr>recursive := True\<rparr>)
      | ULP_OP_DISABLE_SUMMARIZATION \<Rightarrow> Fine (s\<lparr>no_summarization := True\<rparr>)
      | ULP_OP_ONLY_LIVEPATCHED \<Rightarrow> Fine (s\<lparr>only_livepatched := True\<rparr>)
      | ULP_OP_DISABLE_SECCOMP \<Rightarrow> Fine (s\<lparr>disable_seccomp := True\<rparr>)
      | ULP_OP_COLOR \<Rightarrow> with_arg arg (\<lambda>a.
          Fine (s\<lparr>colorless := (if a = str ''no'' \<or> a = str ''n'' then True else if a = str ''auto'' then \<not> check_color_available tm else False)\<rparr>))
      | ULP_OP_TIMEOUT \<Rightarrow>
          (if isnumber arg then with_arg arg (\<lambda>a. if strtol10 a < 0 then Usage else Fine (s\<lparr>rr_limit := strtol10 a\<rparr>)) else Usage))"

text \<open>A word that is no option; \<open>arg_num\<close> words came before it.\<close>

definition parser_arg :: "nat \<Rightarrow> bytes \<Rightarrow> tool_state \<Rightarrow> outcome" where
  "parser_arg arg_num a s =
     (if arg_num = 0 then
        (if command_from_string a = ULP_NONE then Usage else Fine (s\<lparr>cmd := command_from_string a\<rparr>))
      else if arg_num \<le> 1 then Fine (s\<lparr>arg1 := Some a\<rparr>)
      else Usage)"

definition too_long :: "bytes option \<Rightarrow> bool" where
  "too_long a = (case a of None \<Rightarrow> False | Some s \<Rightarrow> length s > ULP_PATH_LEN)"

definition handle_end_of_arguments :: "nat \<Rightarrow> tool_state \<Rightarrow> bool" where
  "handle_end_of_arguments arg_num a \<longleftrightarrow>
     \<not> arg_num < 1 \<and> \<not> (quiet a \<and> verbose a) \<and>
     (case cmd a of
        ULP_NONE \<Rightarrow> False
      | ULP_PATCHES \<Rightarrow> \<not> arg_num > 1
      | ULP_EXTRACT \<Rightarrow> \<not> arg_num < 2
      | ULP_PACKER \<Rightarrow> \<not> arg_num < 2
      | ULP_CHECK \<Rightarrow> \<not> arg_num < 2
      | ULP_TRIGGER \<Rightarrow>
          (if library a \<noteq> None then \<not> revert a \<and> \<not> arg_num < 1 \<and> \<not> too_long (library a) else \<not> arg_num < 2) \<and>
          (arg_num \<ge> 2 \<longrightarrow> \<not> too_long (arg1 a))
      | ULP_POST \<Rightarrow> \<not> arg_num < 2 \<and> \<not> too_long (arg1 a)
      | ULP_DUMP \<Rightarrow> \<not> arg_num < 2 \<and> \<not> too_long (arg1 a)
      | ULP_MESSAGES \<Rightarrow> process_wild a \<noteq> None
      | ULP_SET_PATCHABLE \<Rightarrow> \<not> arg_num < 2
      | ULP_LIVEPATCHABLE \<Rightarrow> \<not> arg_num < 2)"

datatype event = Opt opt_key "bytes option" | Word bytes

text \<open>The calls in their order. A call that answers \<open>ARGP_ERR_UNKNOWN\<close> makes \<open>argp\<close> refuse the option. The result is \<open>Inl True\<close> for an access through \<open>NULL\<close>, \<open>Inl False\<close> for a usage error.\<close>

fun argp_run :: "bool \<Rightarrow> terminal \<Rightarrow> event list \<Rightarrow> nat \<Rightarrow> tool_state \<Rightarrow> bool + tool_state" where
  "argp_run sc tm [] n s = (if handle_end_of_arguments n s then Inr s else Inl False)"
| "argp_run sc tm (Opt k a # evs) n s =
     (case parser sc tm k a s of Fine s \<Rightarrow> argp_run sc tm evs n s | Fault \<Rightarrow> Inl True | _ \<Rightarrow> Inl False)"
| "argp_run sc tm (Word w # evs) n s =
     (case parser_arg n w s of Fine s \<Rightarrow> argp_run sc tm evs (Suc n) s | Fault \<Rightarrow> Inl True | _ \<Rightarrow> Inl False)"

subsection \<open>The main program\<close>

definition requires_ptrace :: "command \<Rightarrow> bool" where
  "requires_ptrace c = (case c of
     ULP_NONE \<Rightarrow> False | ULP_DUMP \<Rightarrow> False | ULP_POST \<Rightarrow> False | ULP_EXTRACT \<Rightarrow> False | ULP_PACKER \<Rightarrow> False | ULP_LIVEPATCHABLE \<Rightarrow> False
   | ULP_PATCHES \<Rightarrow> True | ULP_TRIGGER \<Rightarrow> True | ULP_CHECK \<Rightarrow> True | ULP_MESSAGES \<Rightarrow> True | ULP_SET_PATCHABLE \<Rightarrow> True)"

text \<open>\<open>check_ptrace_scope\<close> on the contents of the file, \<open>None\<close> when it cannot be opened; the result is \<open>None\<close> when the assertion fails.\<close>

definition check_ptrace_scope :: "bool \<Rightarrow> bytes option \<Rightarrow> bool option" where
  "check_ptrace_scope root scope =
     (if root then Some True
      else case scope of None \<Rightarrow> Some True | Some f \<Rightarrow> if length (take 4 f) = 2 then Some (hd f = 0x30) else None)"

datatype run_result = Exit int | Abort | Run tool_state

definition no_arguments :: "terminal \<Rightarrow> tool_state" where
  "no_arguments tm = \<lparr>arg1 = None, livepatch = None, library = None, metadata = None, process_wild = None, user_wild = None, prefix = None,
     with_debuginfo = None, cmd = ULP_NONE, retries = 1, quiet = False, verbose = False, buildid = False, revert = False, disable_threads = False,
     recursive = False, no_summarization = False, only_livepatched = False, disable_seccomp = False, check_stack = False,
     colorless = \<not> check_color_available tm, rr_limit = 200\<rparr>"

text \<open>
  \<open>argp\<close> is \<open>events\<close>: the calls for the words of the command line under a table of options. \<open>Run\<close> stands for the call of the command's function;
  64 is the exit status of \<open>argp_error\<close>.
\<close>

definition main ::
  "bool \<Rightarrow> terminal \<Rightarrow> bool \<Rightarrow> bytes option \<Rightarrow> (argp_option list \<Rightarrow> bytes list \<Rightarrow> event list) \<Rightarrow> bytes list \<Rightarrow> run_result" where
  "main sc tm root scope events argv =
     (case argp_run sc tm (events (get_command_option sc (get_command_from_args argv)) argv) 0 (no_arguments tm) of
        Inl fault \<Rightarrow> if fault then Abort else Exit 64
      | Inr s \<Rightarrow>
          if requires_ptrace (cmd s) then
            (case check_ptrace_scope root scope of None \<Rightarrow> Abort | Some ok \<Rightarrow> if ok then Run s else Exit EPERM)
          else if cmd s = ULP_NONE then Exit 1 else Run s)"

subsection \<open>What reaches a command\<close>

lemma parser_keeps:
  assumes "parser sc tm k a s = Fine s'"
  shows "cmd s' = cmd s" and "arg1 s' = arg1 s" and "1 \<le> retries s \<Longrightarrow> 1 \<le> retries s'"
  using assms
  by (auto simp: parser_def with_arg_def split: opt_key.splits if_splits option.splits)

text \<open>The arguments after \<open>n\<close> words that are no options.\<close>

definition parsed_words :: "nat \<Rightarrow> tool_state \<Rightarrow> bool" where
  "parsed_words n s \<longleftrightarrow> (1 \<le> n \<longrightarrow> cmd s \<noteq> ULP_NONE) \<and> (arg1 s \<noteq> None \<longleftrightarrow> 2 \<le> n) \<and> n \<le> 2 \<and> 1 \<le> retries s"

lemma parsed_words_start: "parsed_words 0 (no_arguments tm)"
  by (simp add: parsed_words_def no_arguments_def)

lemma parser_parsed_words:
  "parser sc tm k a s = Fine s' \<Longrightarrow> parsed_words n s \<Longrightarrow> parsed_words n s'"
  by (auto simp: parsed_words_def parser_keeps)

lemma parser_arg_parsed_words:
  "parser_arg n w s = Fine s' \<Longrightarrow> parsed_words n s \<Longrightarrow> parsed_words (Suc n) s'"
  by (auto simp: parsed_words_def parser_arg_def split: if_splits)

lemma argp_run_accepts:
  "argp_run sc tm evs n s = Inr s' \<Longrightarrow> parsed_words n s \<Longrightarrow> \<exists>m. parsed_words m s' \<and> handle_end_of_arguments m s'"
  by (induction sc tm evs n s rule: argp_run.induct)
    (auto split: outcome.splits if_splits dest: parser_parsed_words parser_arg_parsed_words)

text \<open>What the functions of the commands rely on without a check of their own.\<close>

definition command_ready :: "tool_state \<Rightarrow> bool" where
  "command_ready s \<longleftrightarrow>
     1 \<le> retries s \<and> \<not> (quiet s \<and> verbose s) \<and>
     (case cmd s of
        ULP_NONE \<Rightarrow> False
      | ULP_PATCHES \<Rightarrow> arg1 s = None
      | ULP_MESSAGES \<Rightarrow> process_wild s \<noteq> None
      | ULP_TRIGGER \<Rightarrow>
          (library s = None \<longrightarrow> arg1 s \<noteq> None) \<and> \<not> (library s \<noteq> None \<and> revert s) \<and> \<not> too_long (library s) \<and> \<not> too_long (arg1 s)
      | ULP_POST \<Rightarrow> arg1 s \<noteq> None \<and> \<not> too_long (arg1 s)
      | ULP_DUMP \<Rightarrow> arg1 s \<noteq> None \<and> \<not> too_long (arg1 s)
      | _ \<Rightarrow> arg1 s \<noteq> None)"

lemma accepted_ready:
  assumes "parsed_words m s" and "handle_end_of_arguments m s"
  shows "command_ready s"
proof -
  have "too_long None = False" by (simp add: too_long_def)
  then show ?thesis
    using assms
    by (cases "cmd s"; cases "arg1 s"; cases "library s")
      (simp_all add: parsed_words_def handle_end_of_arguments_def command_ready_def)
qed

text \<open>An option that \<open>argp\<close> finds in the table of the command comes with an argument exactly when the table says so.\<close>

fun fits :: "argp_option list \<Rightarrow> event \<Rightarrow> bool" where
  "fits opts (Opt k a) \<longleftrightarrow> (\<exists>nm. (nm, k, a \<noteq> None) \<in> set opts)"
| "fits opts (Word w) \<longleftrightarrow> True"

lemmas option_tables =
  get_command_option_def get_command_option_patches_def get_command_option_check_def get_command_option_dump_def get_command_option_packer_def
  get_command_option_trigger_def get_command_option_post_def get_command_option_messages_def get_command_option_livepatchable_def
  get_command_option_extract_def get_command_option_set_patchable_def

lemma options_handled:
  assumes "(nm, k, a \<noteq> None) \<in> set (get_command_option sc c)"
  shows "parser sc tm k a s \<noteq> Unknown \<and> parser sc tm k a s \<noteq> Fault"
  using assms
  by (cases c) (auto simp: option_tables parser_def with_arg_def split: if_splits option.splits)

lemma argp_run_no_fault:
  "\<forall>e \<in> set evs. fits (get_command_option sc c) e \<Longrightarrow> argp_run sc tm evs n s \<noteq> Inl True"
proof (induction sc tm evs n s rule: argp_run.induct)
  case (2 sc tm k a evs n s)
  then show ?case using options_handled [of _ k a sc c tm s] by (auto split: outcome.splits)
next
  case (3 sc tm w evs n s)
  then show ?case by (auto simp: parser_arg_def split: outcome.splits if_splits)
qed simp

text \<open>
  Claim C29. The main program calls the function of a command only with arguments that the function may rely on without a check of its own: a retry count of at
  least one, not both of quiet and verbose, a first argument for every command that reads one, a process for \<open>messages\<close>, a container or a library but
  not a contradiction of the two for \<open>trigger\<close>, and paths of at most \<open>ULP_PATH_LEN\<close> bytes where they are checked. When the calls that
  \<open>argp\<close> makes fit the option table it was given, no option leads to an access through \<open>NULL\<close>: only the assertion on
  \<open>ptrace_scope\<close> can abort, and not for root.
\<close>

theorem main_dispatch_safe:
  assumes "\<forall>e \<in> set (events (get_command_option sc (get_command_from_args argv)) argv). fits (get_command_option sc (get_command_from_args argv)) e"
  shows "(main sc tm root scope events argv = Run s \<longrightarrow> command_ready s) \<and>
    (root \<longrightarrow> main sc tm root scope events argv \<noteq> Abort)"
proof -
  define evs where "evs = events (get_command_option sc (get_command_from_args argv)) argv"
  have nofault: "argp_run sc tm evs 0 (no_arguments tm) \<noteq> Inl True"
    using argp_run_no_fault [of evs sc "get_command_from_args argv"] assms by (simp add: evs_def)
  have ready: "command_ready s" if "argp_run sc tm evs 0 (no_arguments tm) = Inr s" for s
    using argp_run_accepts [OF that parsed_words_start] accepted_ready by blast
  show ?thesis
    using nofault ready
    by (auto simp: main_def evs_def [symmetric] check_ptrace_scope_def split: sum.splits if_splits option.splits)
qed

text \<open>The command line \<open>ulp trigger -r 3 x.so\<close> as \<open>argp\<close> presents it.\<close>

definition demo_terminal :: terminal where
  "demo_terminal = \<lparr>env_no_color = True, is_tty = False, env_term = None\<rparr>"

definition demo_argv :: "bytes list" where
  "demo_argv = map str [''ulp'', ''trigger'', ''-r'', ''3'', ''x.so'']"

definition demo_events :: "argp_option list \<Rightarrow> bytes list \<Rightarrow> event list" where
  "demo_events opts argv = [Word (str ''trigger''), Opt (Short CHR ''r'') (Some (str ''3'')), Word (str ''x.so'')]"

lemma demo_command: "get_command_from_args demo_argv = ULP_TRIGGER"
  by (simp add: demo_argv_def command_from_string_def command_entries_def str_def)

lemma demo_fits: "\<forall>e \<in> set (demo_events (get_command_option False c) argv). fits (get_command_option False ULP_TRIGGER) e"
  by (simp add: demo_events_def option_tables)

definition demo_parsed :: tool_state where
  "demo_parsed = (no_arguments demo_terminal)\<lparr>cmd := ULP_TRIGGER, retries := 3, arg1 := Some (str ''x.so'')\<rparr>"

lemma demo_command_line: "main False demo_terminal True None demo_events demo_argv = Run demo_parsed"
  by (simp add: main_def demo_command demo_events_def parser_arg_def parser_def with_arg_def command_from_string_def command_entries_def str_def atoi_def
      strtol10_def is_space_def isdigit_def handle_end_of_arguments_def no_arguments_def too_long_def ULP_PATH_LEN_def requires_ptrace_def
      check_ptrace_scope_def demo_parsed_def)

theorem main_dispatch_safe_witness:
  "main False demo_terminal True None demo_events demo_argv = Run demo_parsed \<and> command_ready demo_parsed"
  using main_dispatch_safe [of demo_events False demo_argv demo_terminal True None demo_parsed] demo_command_line demo_fits demo_command by simp

text \<open>
  The table of options is that of the first word that names a command, the value of an option included. Here the process is called \<open>check\<close>, so the
  options of \<open>trigger\<close> are parsed with the table of \<open>check\<close>, which lacks \<open>--retries\<close>.
\<close>

lemma option_value_selects_table:
  "get_command_from_args (map str [''ulp'', ''-p'', ''check'', ''trigger'', ''-r'', ''3'', ''x.so'']) = ULP_CHECK"
  "(''retries'', Short CHR ''r'', True) \<in> set (get_command_option sc ULP_TRIGGER)"
  "(''retries'', Short CHR ''r'', True) \<notin> set (get_command_option sc ULP_CHECK)"
  by (simp_all add: command_from_string_def command_entries_def str_def option_tables)

text \<open>A path of exactly \<open>ULP_PATH_LEN\<close> bytes passes, although the message asks for a shorter one.\<close>

lemma path_of_limit_passes: "\<not> too_long (Some (replicate ULP_PATH_LEN c))"
  by (simp add: too_long_def)

end
