(* ===== verification/Release.thy ===== *)
theory Release
  imports Ulp_Prelude "HOL-Library.Monad_Syntax"
begin

text \<open>
  The release of the tool's data structures (\<open>src/tools/introspection.c\<close>, \<open>src/tools/extract.c\<close>, \<open>src/common/common.c\<close>). Elsewhere the linked
  structures are lists; here they are blocks on the heap, linked by their addresses, because the question is whether every block is freed exactly once
  and none is used afterwards. \<open>None\<close> as a result is an access to a block that is not allocated, a second \<open>free\<close> of a block, or a loop that does not end.

  \<open>FREE_AND_NULLIFY\<close> also clears the pointer. Where the pointer is a field of a block that is freed next, and not read before, the clearing is left out.
\<close>

subsection \<open>The heap\<close>

datatype block =
  Chars
| Unit_Block (old_fname_ptr: u64) (new_fname_ptr: u64) (unit_next: u64)
| Object_Block (build_id_ptr: u64) (name_ptr: u64) (units_ptr: u64)
| Dependency_Block (dep_next: u64)
| Reference_Block (target_name_ptr: u64) (reference_name_ptr: u64) (ref_next: u64)
| Thread_Block (thread_next: u64)
| Dynobj_Block (filename_ptr: u64) (thread_states_ptr: u64) (dynobj_next: u64)
| Results_Block (patch_name_ptr: u64) (results_next: u64)
| Process_Block (threads_ptr: u64) (main_ptr: u64) (targets_ptr: u64) (patches_ptr: u64) (results_ptr: u64) (process_next: u64)
| Applied_Block (lib_name_ptr: u64) (container_name_ptr: u64) (applied_next: u64)
| Symbol_Block (sym_name_ptr: u64) (symbol_next: u64)
| So_Info_Block (so_name_ptr: u64) (symbols_ptr: u64)

type_synonym blocks = "u64 \<rightharpoonup> block"

definition free :: "u64 \<Rightarrow> blocks \<Rightarrow> blocks option" where
  "free p h = (if p = 0 then Some h else if h p = None then None else Some (h(p := None)))"

text \<open>An access to a field of a structure: the block has to be there.\<close>

definition field :: "(block \<Rightarrow> 'a option) \<Rightarrow> u64 \<Rightarrow> blocks \<Rightarrow> 'a option" where
  "field f p h = Option.bind (h p) f"

fun as_unit :: "block \<Rightarrow> (u64 \<times> u64 \<times> u64) option" where
  "as_unit (Unit_Block a b n) = Some (a, b, n)"
| "as_unit _ = None"

fun as_object :: "block \<Rightarrow> (u64 \<times> u64 \<times> u64) option" where
  "as_object (Object_Block a b us) = Some (a, b, us)"
| "as_object _ = None"

fun as_dependency :: "block \<Rightarrow> u64 option" where
  "as_dependency (Dependency_Block n) = Some n"
| "as_dependency _ = None"

fun as_reference :: "block \<Rightarrow> (u64 \<times> u64 \<times> u64) option" where
  "as_reference (Reference_Block a b n) = Some (a, b, n)"
| "as_reference _ = None"

fun as_thread :: "block \<Rightarrow> u64 option" where
  "as_thread (Thread_Block n) = Some n"
| "as_thread _ = None"

fun as_dynobj :: "block \<Rightarrow> (u64 \<times> u64 \<times> u64) option" where
  "as_dynobj (Dynobj_Block a b n) = Some (a, b, n)"
| "as_dynobj _ = None"

fun as_results :: "block \<Rightarrow> (u64 \<times> u64) option" where
  "as_results (Results_Block a n) = Some (a, n)"
| "as_results _ = None"

fun as_process :: "block \<Rightarrow> (u64 \<times> u64 \<times> u64 \<times> u64 \<times> u64 \<times> u64) option" where
  "as_process (Process_Block t m g q r n) = Some (t, m, g, q, r, n)"
| "as_process _ = None"

fun as_applied :: "block \<Rightarrow> (u64 \<times> u64 \<times> u64) option" where
  "as_applied (Applied_Block a b n) = Some (a, b, n)"
| "as_applied _ = None"

fun as_symbol :: "block \<Rightarrow> (u64 \<times> u64) option" where
  "as_symbol (Symbol_Block a n) = Some (a, n)"
| "as_symbol _ = None"

fun as_so_info :: "block \<Rightarrow> (u64 \<times> u64) option" where
  "as_so_info (So_Info_Block a s) = Some (a, s)"
| "as_so_info _ = None"

subsection \<open>The functions\<close>

partial_function (option) release_ulp_thread :: "u64 \<Rightarrow> blocks \<Rightarrow> blocks option" where
  "release_ulp_thread t h =
     (if t = 0 then Some h
      else do { nextt \<leftarrow> field as_thread t h; h \<leftarrow> free t h; release_ulp_thread nextt h })"

partial_function (option) release_ulp_dynobj :: "u64 \<Rightarrow> blocks \<Rightarrow> blocks option" where
  "release_ulp_dynobj obj h =
     (if obj = 0 then Some h
      else do {
        (filename, thread_states, nexto) \<leftarrow> field as_dynobj obj h;
        h \<leftarrow> free filename h; h \<leftarrow> free thread_states h; h \<leftarrow> free obj h;
        release_ulp_dynobj nexto h })"

partial_function (option) release_trigger_results :: "u64 \<Rightarrow> blocks \<Rightarrow> blocks option" where
  "release_trigger_results list h =
     (if list = 0 then Some h
      else do {
        (_, nxt) \<leftarrow> field as_results list h;
        h \<leftarrow> release_trigger_results nxt h;
        (patch_name, _) \<leftarrow> field as_results list h;
        h \<leftarrow> free patch_name h;
        free list h })"

partial_function (option) release_ulp_process :: "u64 \<Rightarrow> blocks \<Rightarrow> blocks option" where
  "release_ulp_process p h =
     (if p = 0 then Some h
      else do {
        (threads, dynobj_main, dynobj_targets, dynobj_patches, results, nextp) \<leftarrow> field as_process p h;
        h \<leftarrow> release_ulp_thread threads h;
        h \<leftarrow> release_ulp_dynobj dynobj_main h;
        h \<leftarrow> release_ulp_dynobj dynobj_targets h;
        h \<leftarrow> release_ulp_dynobj dynobj_patches h;
        h \<leftarrow> release_trigger_results results h;
        h \<leftarrow> free p h;
        release_ulp_process nextp h })"

partial_function (option) release_ulp_unit :: "u64 \<Rightarrow> blocks \<Rightarrow> blocks option" where
  "release_ulp_unit unit h =
     (if unit = 0 then Some h
      else do {
        (old_fname, new_fname, nxt) \<leftarrow> field as_unit unit h;
        h \<leftarrow> free old_fname h; h \<leftarrow> free new_fname h;
        h \<leftarrow> release_ulp_unit nxt h;
        free unit h })"

definition release_ulp_object :: "u64 \<Rightarrow> blocks \<Rightarrow> blocks option" where
  "release_ulp_object obj h =
     (if obj = 0 then Some h
      else do {
        (build_id, name, units) \<leftarrow> field as_object obj h;
        h \<leftarrow> free build_id h; h \<leftarrow> free name h;
        h \<leftarrow> release_ulp_unit units h;
        free obj h })"

partial_function (option) release_ulp_dependency :: "u64 \<Rightarrow> blocks \<Rightarrow> blocks option" where
  "release_ulp_dependency dep h =
     (if dep = 0 then Some h
      else do { nxt \<leftarrow> field as_dependency dep h; h \<leftarrow> release_ulp_dependency nxt h; free dep h })"

partial_function (option) release_ulp_reference :: "u64 \<Rightarrow> blocks \<Rightarrow> blocks option" where
  "release_ulp_reference ref h =
     (if ref = 0 then Some h
      else do {
        (_, _, nxt) \<leftarrow> field as_reference ref h;
        h \<leftarrow> release_ulp_reference nxt h;
        (target_name, reference_name, _) \<leftarrow> field as_reference ref h;
        h \<leftarrow> free target_name h; h \<leftarrow> free reference_name h;
        free ref h })"

text \<open>The pointers of the global \<open>ulp_metadata\<close>, which is not on the heap.\<close>

record metadata_ptrs =
  so_filename_ptr :: u64
  objs_ptr :: u64
  deps_ptr :: u64
  refs_ptr :: u64
  comments_ptr :: u64

definition no_metadata :: metadata_ptrs where
  "no_metadata = \<lparr>so_filename_ptr = 0, objs_ptr = 0, deps_ptr = 0, refs_ptr = 0, comments_ptr = 0\<rparr>"

definition release_ulp_global_metadata :: "metadata_ptrs \<Rightarrow> blocks \<Rightarrow> (metadata_ptrs \<times> blocks) option" where
  "release_ulp_global_metadata meta h = do {
     h \<leftarrow> free (so_filename_ptr meta) h;
     h \<leftarrow> release_ulp_object (objs_ptr meta) h;
     h \<leftarrow> release_ulp_dependency (deps_ptr meta) h;
     h \<leftarrow> release_ulp_reference (refs_ptr meta) h;
     Some (no_metadata, h) }"

partial_function (option) release_ulp_applied_patch :: "u64 \<Rightarrow> blocks \<Rightarrow> blocks option" where
  "release_ulp_applied_patch p h =
     (if p = 0 then Some h
      else do {
        (_, _, nxt) \<leftarrow> field as_applied p h;
        h \<leftarrow> release_ulp_applied_patch nxt h;
        (lib_name, container_name, _) \<leftarrow> field as_applied p h;
        h \<leftarrow> free lib_name h; h \<leftarrow> free container_name h;
        free p h })"

partial_function (option) release_symbol :: "u64 \<Rightarrow> blocks \<Rightarrow> blocks option" where
  "release_symbol symbol h =
     (if symbol = 0 then Some h
      else do {
        (name, nxt) \<leftarrow> field as_symbol symbol h;
        h \<leftarrow> free name h; h \<leftarrow> free symbol h;
        release_symbol nxt h })"

definition release_so_info :: "u64 \<Rightarrow> blocks \<Rightarrow> blocks option" where
  "release_so_info info h =
     (if info = 0 then Some h
      else do {
        (name, symbols) \<leftarrow> field as_so_info info h;
        h \<leftarrow> free name h;
        h \<leftarrow> release_symbol symbols h;
        free info h })"

text \<open>\<open>free_metadata\<close> of \<open>src/common/common.c\<close>, with its loops over references and units.\<close>

partial_function (option) free_refs :: "u64 \<Rightarrow> blocks \<Rightarrow> blocks option" where
  "free_refs ref h =
     (if ref = 0 then Some h
      else do {
        (target_name, reference_name, next_ref) \<leftarrow> field as_reference ref h;
        h \<leftarrow> free target_name h; h \<leftarrow> free reference_name h; h \<leftarrow> free ref h;
        free_refs next_ref h })"

partial_function (option) free_units :: "u64 \<Rightarrow> blocks \<Rightarrow> blocks option" where
  "free_units unit h =
     (if unit = 0 then Some h
      else do {
        (old_fname, new_fname, next_unit) \<leftarrow> field as_unit unit h;
        h \<leftarrow> free old_fname h; h \<leftarrow> free new_fname h; h \<leftarrow> free unit h;
        free_units next_unit h })"

definition free_metadata :: "metadata_ptrs \<Rightarrow> blocks \<Rightarrow> (metadata_ptrs \<times> blocks) option" where
  "free_metadata ulp h = do {
     h \<leftarrow> free (so_filename_ptr ulp) h;
     h \<leftarrow> free (comments_ptr ulp) h;
     h \<leftarrow> free_refs (refs_ptr ulp) h;
     h \<leftarrow> (if objs_ptr ulp \<noteq> 0 then do {
           (_, _, units) \<leftarrow> field as_object (objs_ptr ulp) h;
           h \<leftarrow> free_units units h;
           (build_id, name, _) \<leftarrow> field as_object (objs_ptr ulp) h;
           h \<leftarrow> free name h; h \<leftarrow> free build_id h;
           free (objs_ptr ulp) h }
         else Some h);
     Some (ulp\<lparr>comments_ptr := 0, refs_ptr := 0\<rparr>, h) }"

subsection \<open>Blocks of a structure\<close>

text \<open>Pointers of which those that are not null are distinct allocated blocks, the set \<open>C\<close>.\<close>

definition owned :: "u64 list \<Rightarrow> blocks \<Rightarrow> u64 set \<Rightarrow> bool" where
  "owned ps h C \<longleftrightarrow> (\<forall>q \<in> set ps. q = 0 \<or> h q \<noteq> None) \<and> distinct (filter (\<lambda>q. q \<noteq> 0) ps) \<and> C = set ps - {0}"

definition without :: "blocks \<Rightarrow> u64 set \<Rightarrow> blocks" where
  "without h A = h |` (- A)"

definition same_on :: "u64 set \<Rightarrow> blocks \<Rightarrow> blocks \<Rightarrow> bool" where
  "same_on A h h' \<longleftrightarrow> (\<forall>a \<in> A. h' a = h a)"

lemma same_on_refl [simp]: "same_on A h h"
  by (simp add: same_on_def)

lemma same_on_without [simp]: "A \<inter> B = {} \<Longrightarrow> same_on A h (without h B)"
  by (auto simp: same_on_def without_def restrict_map_def)

lemma same_on_Un [simp]: "same_on (A \<union> B) h h' \<longleftrightarrow> same_on A h h' \<and> same_on B h h'"
  by (auto simp: same_on_def)

lemma same_on_insert [simp]: "same_on (insert a A) h h' \<longleftrightarrow> h' a = h a \<and> same_on A h h'"
  by (auto simp: same_on_def)

lemma without_without [simp]: "without (without h A) B = without h (A \<union> B)"
  by (simp add: without_def Int_commute)

lemma without_empty [simp]: "without h {} = h"
  by (simp add: without_def restrict_map_def)

lemma without_apply [simp]: "a \<notin> A \<Longrightarrow> without h A a = h a"
  by (simp add: without_def restrict_map_def)

lemma owned_same: "owned ps h C \<Longrightarrow> same_on C h h' \<Longrightarrow> owned ps h' C"
  unfolding owned_def same_on_def by (metis DiffI empty_iff insert_iff)

lemma free_owned: "owned [p] h C \<Longrightarrow> free p h = Some (without h C)"
  by (auto simp: owned_def free_def without_def restrict_map_def fun_eq_iff)

lemma owned_Cons:
  "owned (p # ps) h C \<longleftrightarrow> (\<exists>A B. owned [p] h A \<and> owned ps h B \<and> A \<inter> B = {} \<and> C = A \<union> B)"
  by (auto simp: owned_def)

lemma owned_Nil [simp]: "owned [] h C \<longleftrightarrow> C = {}"
  by (simp add: owned_def)

text \<open>A computation that frees the blocks \<open>A\<close>, which are as in \<open>h\<close>, and nothing else. In a sequence the order does not matter.\<close>

definition clears :: "(blocks \<Rightarrow> blocks option) \<Rightarrow> u64 set \<Rightarrow> blocks \<Rightarrow> bool" where
  "clears f A h \<longleftrightarrow> (\<forall>h'. same_on A h h' \<longrightarrow> f h' = Some (without h' A))"

lemma clearsD: "clears f A h \<Longrightarrow> f h = Some (without h A)"
  by (simp add: clears_def)

lemma clears_free: "owned [p] h A \<Longrightarrow> clears (free p) A h"
  by (auto simp: clears_def intro: free_owned owned_same)

lemma clears_free_block: "p \<noteq> 0 \<Longrightarrow> h p \<noteq> None \<Longrightarrow> clears (free p) {p} h"
  by (rule clears_free) (simp add: owned_def)

lemma clears_none: "clears Some {} h"
  by (simp add: clears_def)

lemma clears_bind:
  assumes "clears f A h" "clears g B h" "A \<inter> B = {}" "C = A \<union> B"
  shows "clears (\<lambda>h. Option.bind (f h) g) C h"
proof -
  have "same_on B h (without h' A)" if "same_on B h h'" for h'
    using that same_on_without [of B A h'] assms(3) by (auto simp: same_on_def Int_commute)
  then show ?thesis using assms by (simp add: clears_def)
qed

lemmas clears_bind_Un = clears_bind [OF _ _ _ refl]

lemma clears_cong: "clears f A h \<Longrightarrow> (\<And>h'. same_on A h h' \<Longrightarrow> g h' = f h') \<Longrightarrow> clears g A h"
  by (simp add: clears_def)

lemma clears_pair:
  assumes "owned [p, q] h C" "clears f B h" "C \<inter> B = {}" "D = C \<union> B"
  shows "clears (\<lambda>h. Option.bind (free p h) (\<lambda>h. Option.bind (free q h) f)) D h"
proof -
  from assms(1) obtain X Y where xy: "owned [p] h X" "owned [q] h Y" "X \<inter> Y = {}" "C = X \<union> Y"
    unfolding owned_Cons [of p "[q]"] by blast
  have sets: "Y \<inter> B = {}" "X \<inter> (Y \<union> B) = {}" "D = X \<union> (Y \<union> B)" using xy(3,4) assms(3,4) by blast+
  have "clears (\<lambda>h. Option.bind (free q h) f) (Y \<union> B) h"
    by (rule clears_bind [OF clears_free [OF xy(2)] assms(2) sets(1) refl])
  then show ?thesis by (rule clears_bind [OF clears_free [OF xy(1)] _ sets(2,3)])
qed

text \<open>A linked list: \<open>link\<close> is the pointer to the next node, \<open>own\<close> what a node owns beside itself.\<close>

inductive chain :: "(block \<Rightarrow> u64 option) \<Rightarrow> (block \<Rightarrow> blocks \<Rightarrow> u64 set \<Rightarrow> bool) \<Rightarrow> blocks \<Rightarrow> u64 \<Rightarrow> u64 set \<Rightarrow> bool" for link own h where
  chain_end: "chain link own h 0 {}"
| chain_node: "p \<noteq> 0 \<Longrightarrow> h p = Some b \<Longrightarrow> link b = Some n \<Longrightarrow> own b h C \<Longrightarrow> chain link own h n B \<Longrightarrow> p \<notin> C \<Longrightarrow> p \<notin> B \<Longrightarrow> C \<inter> B = {} \<Longrightarrow>
    chain link own h p (insert p (C \<union> B))"

text \<open>The contract of a function that releases a linked list: it releases a node and what the node owns, together with the rest, if it releases the rest.\<close>

locale list_release =
  fixes link :: "block \<Rightarrow> u64 option"
    and own :: "block \<Rightarrow> blocks \<Rightarrow> u64 set \<Rightarrow> bool"
    and release :: "u64 \<Rightarrow> blocks \<Rightarrow> blocks option"
  assumes release_null: "release 0 h = Some h"
    and release_node: "p \<noteq> 0 \<Longrightarrow> h p = Some b \<Longrightarrow> link b = Some n \<Longrightarrow> own b h C \<Longrightarrow> p \<notin> C \<Longrightarrow> p \<notin> B \<Longrightarrow> C \<inter> B = {} \<Longrightarrow>
      clears (release n) B h \<Longrightarrow> clears (release p) (insert p (C \<union> B)) h"
begin

lemma releases: "chain link own h p A \<Longrightarrow> clears (release p) A h"
  by (induction rule: chain.induct) (auto intro: release_node clears_cong [OF clears_none] simp: release_null)

end

subsection \<open>The lists of the tool\<close>

text \<open>What a node with two strings owns, and its link. The others have one string or none.\<close>

definition two_strings :: "(block \<Rightarrow> (u64 \<times> u64 \<times> u64) option) \<Rightarrow> block \<Rightarrow> blocks \<Rightarrow> u64 set \<Rightarrow> bool" where
  "two_strings f b h C = (case f b of None \<Rightarrow> False | Some (x, y, n) \<Rightarrow> owned [x, y] h C)"

definition two_link :: "(block \<Rightarrow> (u64 \<times> u64 \<times> u64) option) \<Rightarrow> block \<Rightarrow> u64 option" where
  "two_link f b = map_option (snd \<circ> snd) (f b)"

definition one_string :: "(block \<Rightarrow> (u64 \<times> u64) option) \<Rightarrow> block \<Rightarrow> blocks \<Rightarrow> u64 set \<Rightarrow> bool" where
  "one_string f b h C = (case f b of None \<Rightarrow> False | Some (x, n) \<Rightarrow> owned [x] h C)"

definition one_link :: "(block \<Rightarrow> (u64 \<times> u64) option) \<Rightarrow> block \<Rightarrow> u64 option" where
  "one_link f b = map_option snd (f b)"

definition no_string :: "block \<Rightarrow> blocks \<Rightarrow> u64 set \<Rightarrow> bool" where
  "no_string b h C \<longleftrightarrow> C = {}"

lemma two_stringsE:
  assumes "two_link f b = Some n" "two_strings f b h C"
  obtains x y where "f b = Some (x, y, n)" "owned [x, y] h C"
  using assms by (auto simp: two_link_def two_strings_def split: option.splits)

lemma one_stringE:
  assumes "one_link f b = Some n" "one_string f b h C"
  obtains x where "f b = Some (x, n)" "owned [x] h C"
  using assms by (auto simp: one_link_def one_string_def split: option.splits)

text \<open>The orders that occur, for a node \<open>p\<close> with two strings and the rest \<open>r\<close>.\<close>

lemma clears_strings_node:
  assumes "owned [x, y] h C" "p \<noteq> 0" "h p = Some b" "p \<notin> C"
  shows "clears (\<lambda>h. Option.bind (free x h) (\<lambda>h. Option.bind (free y h) (free p))) (insert p C) h"
  using assms by (intro clears_pair [OF assms(1) clears_free_block [of p]]) auto

lemma clears_strings_node_rest:
  assumes "owned [x, y] h C" "p \<noteq> 0" "h p = Some b" "p \<notin> C" "p \<notin> B" "C \<inter> B = {}" "clears r B h"
  shows "clears (\<lambda>h. Option.bind (free x h) (\<lambda>h. Option.bind (free y h) (\<lambda>h. Option.bind (free p h) r))) (insert p (C \<union> B)) h"
proof -
  have "clears (\<lambda>h. Option.bind (free p h) r) (insert p B) h"
    using assms by (intro clears_bind [OF clears_free_block [of p] assms(7)]) auto
  then show ?thesis by (rule clears_pair [OF assms(1)]) (use assms(4,6) in auto)
qed

lemma clears_strings_rest_node:
  assumes "owned [x, y] h C" "p \<noteq> 0" "h p = Some b" "p \<notin> C" "p \<notin> B" "C \<inter> B = {}" "clears r B h"
  shows "clears (\<lambda>h. Option.bind (free x h) (\<lambda>h. Option.bind (free y h) (\<lambda>h. Option.bind (r h) (free p)))) (insert p (C \<union> B)) h"
proof -
  have "clears (\<lambda>h. Option.bind (r h) (free p)) (insert p B) h"
    using assms by (intro clears_bind [OF assms(7) clears_free_block [of p]]) auto
  then show ?thesis by (rule clears_pair [OF assms(1)]) (use assms(4,6) in auto)
qed

lemma clears_rest_again:
  assumes "clears r B h" "clears f (insert p C) h" "p \<notin> B" "C \<inter> B = {}"
    and "\<And>h'. h' p = h p \<Longrightarrow> g h' = f h'"
  shows "clears (\<lambda>h. Option.bind (r h) g) (insert p (C \<union> B)) h"
proof -
  have "clears g (insert p C) h" using assms(2,5) by (auto intro: clears_cong)
  then show ?thesis using assms by (intro clears_bind [OF assms(1)]) auto
qed

text \<open>Two of these orders are that of several functions.\<close>

lemma list_release_node_first:
  assumes null: "\<And>h. release 0 h = Some h"
    and node: "\<And>p h b x y n. p \<noteq> 0 \<Longrightarrow> h p = Some b \<Longrightarrow> f b = Some (x, y, n) \<Longrightarrow>
      release p h = Option.bind (free x h) (\<lambda>h. Option.bind (free y h) (\<lambda>h. Option.bind (free p h) (release n)))"
  shows "list_release (two_link f) (two_strings f) release"
proof (unfold_locales, rule null)
  fix p h b n C B
  assume *: "p \<noteq> 0" "h p = Some b" "two_link f b = Some n" "two_strings f b h C" "p \<notin> C" "p \<notin> B" "C \<inter> B = {}" "clears (release n) B h"
  from *(3,4) obtain x y where b: "f b = Some (x, y, n)" "owned [x, y] h C" by (rule two_stringsE)
  from clears_strings_node_rest [OF b(2) *(1,2,5-8)] show "clears (release p) (insert p (C \<union> B)) h"
    by (rule clears_cong) (simp add: node [OF *(1) _ b(1)] *(2))
qed

lemma list_release_rest_first:
  assumes null: "\<And>h. release 0 h = Some h"
    and node: "\<And>p h b x y n. p \<noteq> 0 \<Longrightarrow> h p = Some b \<Longrightarrow> f b = Some (x, y, n) \<Longrightarrow>
      release p h = Option.bind (release n h) (\<lambda>h. Option.bind (field f p h) (\<lambda>(x, y, _). Option.bind (free x h) (\<lambda>h. Option.bind (free y h) (free p))))"
  shows "list_release (two_link f) (two_strings f) release"
proof (unfold_locales, rule null)
  fix p h b n C B
  assume *: "p \<noteq> 0" "h p = Some b" "two_link f b = Some n" "two_strings f b h C" "p \<notin> C" "p \<notin> B" "C \<inter> B = {}" "clears (release n) B h"
  from *(3,4) obtain x y where b: "f b = Some (x, y, n)" "owned [x, y] h C" by (rule two_stringsE)
  have "clears (\<lambda>h. Option.bind (release n h) (\<lambda>h. Option.bind (field f p h) (\<lambda>(x, y, _). Option.bind (free x h) (\<lambda>h. Option.bind (free y h) (free p)))))
      (insert p (C \<union> B)) h"
    by (rule clears_rest_again [OF *(8) clears_strings_node [OF b(2) *(1,2,5)] *(6,7)]) (simp add: field_def *(2) b(1))
  then show "clears (release p) (insert p (C \<union> B)) h"
    by (rule clears_cong) (simp add: node [OF *(1) _ b(1)] *(2))
qed

interpretation threads: list_release as_thread no_string release_ulp_thread
proof (unfold_locales, simp add: release_ulp_thread.simps)
  fix p :: u64 and h b n C B
  assume "p \<noteq> 0" "h p = Some b" "as_thread b = Some n" "no_string b h C" "p \<notin> B" "clears (release_ulp_thread n) B h"
  then have "clears (\<lambda>h. Option.bind (free p h) (release_ulp_thread n)) (insert p (C \<union> B)) h" "C = {}"
    by (auto simp: no_string_def intro: clears_bind [OF clears_free_block [of p]])
  then show "clears (release_ulp_thread p) (insert p (C \<union> B)) h"
    by (rule_tac clears_cong) (simp_all add: release_ulp_thread.simps [of p] field_def \<open>p \<noteq> 0\<close> \<open>h p = Some b\<close> \<open>as_thread b = Some n\<close>)
qed

interpretation dynobjs: list_release "two_link as_dynobj" "two_strings as_dynobj" release_ulp_dynobj
  by (rule list_release_node_first) (subst release_ulp_dynobj.simps, simp add: field_def)+

interpretation units: list_release "two_link as_unit" "two_strings as_unit" release_ulp_unit
proof (unfold_locales, simp add: release_ulp_unit.simps)
  fix p h b n C B
  assume *: "p \<noteq> 0" "h p = Some b" "two_link as_unit b = Some n" "two_strings as_unit b h C" "p \<notin> C" "p \<notin> B" "C \<inter> B = {}"
    "clears (release_ulp_unit n) B h"
  from *(3,4) obtain x y where b: "as_unit b = Some (x, y, n)" "owned [x, y] h C" by (rule two_stringsE)
  from clears_strings_rest_node [OF b(2) *(1,2,5-8)] show "clears (release_ulp_unit p) (insert p (C \<union> B)) h"
    by (rule clears_cong) (simp add: release_ulp_unit.simps [of p] field_def * b)
qed

interpretation freed_units: list_release "two_link as_unit" "two_strings as_unit" free_units
  by (rule list_release_node_first) (subst free_units.simps, simp add: field_def)+

interpretation freed_refs: list_release "two_link as_reference" "two_strings as_reference" free_refs
  by (rule list_release_node_first) (subst free_refs.simps, simp add: field_def)+

interpretation refs: list_release "two_link as_reference" "two_strings as_reference" release_ulp_reference
  by (rule list_release_rest_first) (subst release_ulp_reference.simps, simp add: field_def)+

interpretation applied_patches: list_release "two_link as_applied" "two_strings as_applied" release_ulp_applied_patch
  by (rule list_release_rest_first) (subst release_ulp_applied_patch.simps, simp add: field_def)+

interpretation results: list_release "one_link as_results" "one_string as_results" release_trigger_results
proof (unfold_locales, simp add: release_trigger_results.simps)
  fix p h b n C B
  assume *: "p \<noteq> 0" "h p = Some b" "one_link as_results b = Some n" "one_string as_results b h C" "p \<notin> C" "p \<notin> B" "C \<inter> B = {}"
    "clears (release_trigger_results n) B h"
  from *(3,4) obtain x where b: "as_results b = Some (x, n)" "owned [x] h C" by (rule one_stringE)
  have "clears (\<lambda>h. Option.bind (free x h) (free p)) (insert p C) h"
    by (rule clears_bind [OF clears_free [OF b(2)] clears_free_block [of p]]) (use * in auto)
  from clears_rest_again [OF *(8) this *(6,7), of "\<lambda>h. Option.bind (field as_results p h) (\<lambda>(x, _). Option.bind (free x h) (free p))"]
  show "clears (release_trigger_results p) (insert p (C \<union> B)) h"
    by (rule_tac clears_cong) (simp_all add: release_trigger_results.simps [of p] field_def * b)
qed

interpretation symbols: list_release "one_link as_symbol" "one_string as_symbol" release_symbol
proof (unfold_locales, simp add: release_symbol.simps)
  fix p h b n C B
  assume *: "p \<noteq> 0" "h p = Some b" "one_link as_symbol b = Some n" "one_string as_symbol b h C" "p \<notin> C" "p \<notin> B" "C \<inter> B = {}"
    "clears (release_symbol n) B h"
  from *(3,4) obtain x where b: "as_symbol b = Some (x, n)" "owned [x] h C" by (rule one_stringE)
  have "clears (\<lambda>h. Option.bind (free p h) (release_symbol n)) (insert p B) h"
    by (rule clears_bind [OF clears_free_block [of p] *(8)]) (use * in auto)
  then have "clears (\<lambda>h. Option.bind (free x h) (\<lambda>h. Option.bind (free p h) (release_symbol n))) (insert p (C \<union> B)) h"
    by (rule clears_bind [OF clears_free [OF b(2)]]) (use * in auto)
  then show "clears (release_symbol p) (insert p (C \<union> B)) h"
    by (rule clears_cong) (simp add: release_symbol.simps [of p] field_def * b)
qed

interpretation dependencies: list_release as_dependency no_string release_ulp_dependency
proof (unfold_locales, simp add: release_ulp_dependency.simps)
  fix p :: u64 and h b n C B
  assume *: "p \<noteq> 0" "h p = Some b" "as_dependency b = Some n" "no_string b h C" "p \<notin> B" "clears (release_ulp_dependency n) B h"
  then have "clears (\<lambda>h. Option.bind (release_ulp_dependency n h) (free p)) (insert p (C \<union> B)) h" "C = {}"
    by (auto simp: no_string_def intro: clears_bind [OF *(6) clears_free_block [of p]])
  then show "clears (release_ulp_dependency p) (insert p (C \<union> B)) h"
    by (rule_tac clears_cong) (simp_all add: release_ulp_dependency.simps [of p] field_def *(1-3))
qed

subsection \<open>Processes, objects and the metadata\<close>

text \<open>The lists that a process owns have no block in common.\<close>

abbreviation "thread_list \<equiv> chain as_thread no_string"
abbreviation "dynobj_list \<equiv> chain (two_link as_dynobj) (two_strings as_dynobj)"
abbreviation "results_list \<equiv> chain (one_link as_results) (one_string as_results)"
abbreviation "unit_list \<equiv> chain (two_link as_unit) (two_strings as_unit)"
abbreviation "reference_list \<equiv> chain (two_link as_reference) (two_strings as_reference)"
abbreviation "dependency_list \<equiv> chain as_dependency no_string"
abbreviation "symbol_list \<equiv> chain (one_link as_symbol) (one_string as_symbol)"

definition process_own :: "block \<Rightarrow> blocks \<Rightarrow> u64 set \<Rightarrow> bool" where
  "process_own b h C \<longleftrightarrow> (\<exists>t m g q r n T M G Q R. as_process b = Some (t, m, g, q, r, n) \<and>
     thread_list h t T \<and> dynobj_list h m M \<and> dynobj_list h g G \<and> dynobj_list h q Q \<and> results_list h r R \<and>
     Q \<inter> R = {} \<and> G \<inter> (Q \<union> R) = {} \<and> M \<inter> (G \<union> (Q \<union> R)) = {} \<and> T \<inter> (M \<union> (G \<union> (Q \<union> R))) = {} \<and>
     C = T \<union> (M \<union> (G \<union> (Q \<union> R))))"

definition process_link :: "block \<Rightarrow> u64 option" where
  "process_link b = map_option (\<lambda>(t, m, g, q, r, n). n) (as_process b)"

interpretation processes: list_release process_link process_own release_ulp_process
proof (unfold_locales, simp add: release_ulp_process.simps)
  fix p h b n C B
  assume *: "p \<noteq> 0" "h p = Some b" "process_link b = Some n" "process_own b h C" "p \<notin> C" "p \<notin> B" "C \<inter> B = {}"
    "clears (release_ulp_process n) B h"
  from *(3,4) obtain t m g q r T M G Q R where b: "as_process b = Some (t, m, g, q, r, n)"
    and l: "thread_list h t T" "dynobj_list h m M" "dynobj_list h g G" "dynobj_list h q Q" "results_list h r R"
    and d: "Q \<inter> R = {}" "G \<inter> (Q \<union> R) = {}" "M \<inter> (G \<union> (Q \<union> R)) = {}" "T \<inter> (M \<union> (G \<union> (Q \<union> R))) = {}"
    and C: "C = T \<union> (M \<union> (G \<union> (Q \<union> R)))"
    by (auto simp: process_own_def process_link_def)
  have rest: "clears (\<lambda>h. Option.bind (free p h) (release_ulp_process n)) (insert p B) h"
    by (rule clears_bind [OF clears_free_block [of p] *(8)]) (use * in auto)
  have "clears (\<lambda>h. Option.bind (release_ulp_thread t h) (\<lambda>h. Option.bind (release_ulp_dynobj m h) (\<lambda>h. Option.bind (release_ulp_dynobj g h)
      (\<lambda>h. Option.bind (release_ulp_dynobj q h) (\<lambda>h. Option.bind (release_trigger_results r h) (\<lambda>h. Option.bind (free p h) (release_ulp_process n)))))))
      (T \<union> (M \<union> (G \<union> (Q \<union> (R \<union> insert p B))))) h"
    by (rule clears_bind_Un [OF threads.releases [OF l(1)] clears_bind_Un [OF dynobjs.releases [OF l(2)] clears_bind_Un [OF dynobjs.releases [OF l(3)]
        clears_bind_Un [OF dynobjs.releases [OF l(4)] clears_bind_Un [OF results.releases [OF l(5)] rest]]]]])
      (use *(5-7) d C in auto)
  moreover have "T \<union> (M \<union> (G \<union> (Q \<union> (R \<union> insert p B)))) = insert p (C \<union> B)" using C by auto
  ultimately show "clears (release_ulp_process p) (insert p (C \<union> B)) h"
    by (rule_tac clears_cong) (simp_all add: release_ulp_process.simps [of p] field_def *(1,2) b)
qed

definition object_own :: "blocks \<Rightarrow> u64 \<Rightarrow> u64 set \<Rightarrow> bool" where
  "object_own h p A \<longleftrightarrow> p = 0 \<and> A = {} \<or>
     p \<noteq> 0 \<and> (\<exists>x y us C B. h p = Some (Object_Block x y us) \<and> owned [x, y] h C \<and> unit_list h us B \<and> p \<notin> C \<and> p \<notin> B \<and> C \<inter> B = {} \<and> A = insert p (C \<union> B))"

lemma release_ulp_object_clears:
  assumes "object_own h p A"
  shows "clears (release_ulp_object p) A h"
proof (cases "p = 0")
  case True
  then show ?thesis using assms by (auto simp: object_own_def clears_def release_ulp_object_def)
next
  case False
  with assms obtain x y us C B where *: "h p = Some (Object_Block x y us)" "owned [x, y] h C" "unit_list h us B" "p \<notin> C" "p \<notin> B" "C \<inter> B = {}"
    and A: "A = insert p (C \<union> B)" by (auto simp: object_own_def)
  from clears_strings_rest_node [OF *(2) False *(1,4-6) units.releases [OF *(3)]] show ?thesis
    unfolding A by (rule clears_cong) (simp add: release_ulp_object_def field_def False *(1))
qed

text \<open>The object in \<open>free_metadata\<close>: the units first, then the two strings in the other order, read again.\<close>

lemma free_object_clears:
  assumes "object_own h p A"
  shows "clears (\<lambda>h. if p \<noteq> 0 then Option.bind (field as_object p h) (\<lambda>(_, _, us). Option.bind (free_units us h)
      (\<lambda>h. Option.bind (field as_object p h) (\<lambda>(x, y, _). Option.bind (free y h) (\<lambda>h. Option.bind (free x h) (free p))))) else Some h) A h"
proof (cases "p = 0")
  case True
  then show ?thesis using assms by (auto simp: object_own_def clears_def)
next
  case False
  with assms obtain x y us C B where *: "h p = Some (Object_Block x y us)" "owned [x, y] h C" "unit_list h us B" "p \<notin> C" "p \<notin> B" "C \<inter> B = {}"
    and A: "A = insert p (C \<union> B)" by (auto simp: object_own_def)
  have yx: "owned [y, x] h C" using *(2) by (auto simp: owned_def)
  have "clears (\<lambda>h. Option.bind (free_units us h)
      (\<lambda>h. Option.bind (field as_object p h) (\<lambda>(x, y, _). Option.bind (free y h) (\<lambda>h. Option.bind (free x h) (free p))))) (insert p (C \<union> B)) h"
    by (rule clears_rest_again [OF freed_units.releases [OF *(3)] clears_strings_node [OF yx False *(1,4)] *(5,6)]) (simp add: field_def *(1))
  then show ?thesis unfolding A by (rule clears_cong) (simp add: field_def False *(1))
qed

text \<open>
  The metadata own the blocks of the file name, the object with its units, the dependencies, the references and the comments, each block once.
\<close>

definition metadata_own :: "metadata_ptrs \<Rightarrow> blocks \<Rightarrow> u64 set \<Rightarrow> u64 set \<Rightarrow> u64 set \<Rightarrow> u64 set \<Rightarrow> u64 set \<Rightarrow> bool" where
  "metadata_own m h S J D R K \<longleftrightarrow>
     owned [so_filename_ptr m] h S \<and> object_own h (objs_ptr m) J \<and> dependency_list h (deps_ptr m) D \<and> reference_list h (refs_ptr m) R \<and>
     owned [comments_ptr m] h K \<and>
     R \<inter> K = {} \<and> D \<inter> (R \<union> K) = {} \<and> J \<inter> (D \<union> (R \<union> K)) = {} \<and> S \<inter> (J \<union> (D \<union> (R \<union> K))) = {}"


text \<open>Metadata with one unit, one dependency, one reference and comments.\<close>

definition demo_blocks :: blocks where
  "demo_blocks = [1 \<mapsto> Chars, 2 \<mapsto> Object_Block 3 4 5, 3 \<mapsto> Chars, 4 \<mapsto> Chars, 5 \<mapsto> Unit_Block 6 7 0, 6 \<mapsto> Chars, 7 \<mapsto> Chars,
     8 \<mapsto> Dependency_Block 0, 9 \<mapsto> Reference_Block 10 11 0, 10 \<mapsto> Chars, 11 \<mapsto> Chars, 12 \<mapsto> Chars]"

definition demo_ptrs :: metadata_ptrs where
  "demo_ptrs = \<lparr>so_filename_ptr = 1, objs_ptr = 2, deps_ptr = 8, refs_ptr = 9, comments_ptr = 12\<rparr>"

lemma demo_unit_blocks: "unit_list demo_blocks 5 {5, 6, 7}"
  using chain_node [of 5 demo_blocks "Unit_Block 6 7 0" "two_link as_unit" 0 "two_strings as_unit" "{6, 7}" "{}", OF _ _ _ _ chain_end]
  by (simp add: demo_blocks_def two_link_def two_strings_def owned_def)

lemma demo_refs: "reference_list demo_blocks 9 {9, 10, 11}"
  using chain_node [of 9 demo_blocks "Reference_Block 10 11 0" "two_link as_reference" 0 "two_strings as_reference" "{10, 11}" "{}", OF _ _ _ _ chain_end]
  by (simp add: demo_blocks_def two_link_def two_strings_def owned_def)

lemma demo_deps: "dependency_list demo_blocks 8 {8}"
  using chain_node [of 8 demo_blocks "Dependency_Block 0" as_dependency 0 no_string "{}" "{}", OF _ _ _ _ chain_end]
  by (simp add: demo_blocks_def no_string_def)

lemma demo_object: "object_own demo_blocks 2 {2, 3, 4, 5, 6, 7}"
  unfolding object_own_def
  by (intro disjI2 conjI exI [where x = 3] exI [where x = 4] exI [where x = 5] exI [where x = "{3, 4}"] exI [where x = "{5, 6, 7}"] demo_unit_blocks)
    (auto simp: demo_blocks_def owned_def)

lemma demo_own: "metadata_own demo_ptrs demo_blocks {1} {2, 3, 4, 5, 6, 7} {8} {9, 10, 11} {12}"
  using demo_object demo_refs demo_deps by (simp add: metadata_own_def demo_ptrs_def owned_def, simp add: demo_blocks_def)


text \<open>A list of processes, each with its threads, objects and results, and a description of a library are released in the same sense.\<close>

lemma release_ulp_process_complete: "chain process_link process_own h p A \<Longrightarrow> release_ulp_process p h = Some (without h A)"
  by (rule clearsD [OF processes.releases])

lemma release_ulp_applied_patch_complete:
  "chain (two_link as_applied) (two_strings as_applied) h p A \<Longrightarrow> release_ulp_applied_patch p h = Some (without h A)"
  by (rule clearsD [OF applied_patches.releases])

lemma release_so_info_complete:
  assumes "p \<noteq> 0" "h p = Some (So_Info_Block x s)" "owned [x] h C" "symbol_list h s B" "p \<notin> C" "p \<notin> B" "C \<inter> B = {}"
  shows "release_so_info p h = Some (without h (insert p (C \<union> B)))"
proof -
  have "clears (\<lambda>h. Option.bind (free x h) (\<lambda>h. Option.bind (release_symbol s h) (free p))) (C \<union> (B \<union> {p})) h"
    by (rule clears_bind_Un [OF clears_free clears_bind_Un [OF symbols.releases clears_free_block]]) (use assms in auto)
  from clearsD [OF this] show ?thesis using assms(1,2) by (simp add: release_so_info_def field_def bind_eq_Some_conv)
qed

end
