(* ===== verification/Tool_Files.thy ===== *)
theory Tool_Files
  imports Packer Process_Image
begin

text \<open>
  Functions of the tool that work on files: the metadata in a temporary file (\<open>extract_ulp_from_so_to_disk\<close> and \<open>load_patch_info_from_disk\<close> of
  \<open>src/tools/introspection.c\<close>), the lookup of a symbol in the file of a library, the call of objcopy (\<open>src/tools/elf-extra.c\<close>), the test for a
  root directory in \<open>/proc\<close>, and the reading loop \<open>read_data\<close> of \<open>src/lib/ulp.c\<close>.
\<close>

subsection \<open>The metadata on disk\<close>

text \<open>
  \<open>load_patch_info_from_disk\<close> is an older copy of \<open>parse_metadata_from_mem\<close>. \<open>fread\<close> of one object of four bytes fails on fewer, where the parser in memory
  accepts a single byte; references are not read; the name of the container may be empty.
\<close>

definition disk_unit :: "bytes \<Rightarrow> (nat \<Rightarrow> bool) \<Rightarrow> ulp_unit parser" where
  "disk_unit src aok =
     pbind (calloc aok ENOMEM) (\<lambda>_.
     pbind (read_str src aok 4 1 EINVALIDULP) (\<lambda>old_fn.
     pbind (read_str src aok 4 1 EINVALIDULP) (\<lambda>new_fn.
     pbind (read_field src 8 8 EINVALIDULP) (\<lambda>addr.
       preturn \<lparr>old_fname = old_fn, new_fname = new_fn, old_faddr = bytes_u64 addr\<rparr>))))"

definition disk_object :: "bytes \<Rightarrow> (nat \<Rightarrow> bool) \<Rightarrow> ulp_object parser" where
  "disk_object src aok =
     pbind (calloc aok ENOMEM) (\<lambda>_.
     pbind (read_str src aok 4 0 EINVALIDULP) (\<lambda>bid.
     pbind (read_str src aok 4 1 EINVALIDULP) (\<lambda>name.
       preturn \<lparr>build_id_len = of_nat (length bid), build_id_check = False, build_id = bid,
                obj_name = name, nunits = 0, units = []\<rparr>)))"

definition disk_header :: "bytes \<Rightarrow> (nat \<Rightarrow> bool) \<Rightarrow> ulp_metadata \<Rightarrow> ulp_metadata parser" where
  "disk_header src aok ulp =
     pbind (read_field src 1 1 EINVALIDULP) (\<lambda>t.
     pbind (read_field src 32 32 EINVALIDULP) (\<lambda>pid.
     pbind (read_str src aok 4 1 EINVALIDULP) (\<lambda>so.
     pbind (disk_object src aok) (\<lambda>obj.
       preturn (ulp\<lparr>patch_id := pid, so_filename := so, objs := obj, ptype := hd t\<rparr>)))))"

definition disk_units :: "bytes \<Rightarrow> (nat \<Rightarrow> bool) \<Rightarrow> ulp_metadata \<Rightarrow> (ulp_metadata \<times> u32) parser" where
  "disk_units src aok ulp =
     pbind (read_field src 4 4 1) (\<lambda>n.
     pbind (parse_list (unat (bytes_u32 n)) (disk_unit src aok)) (\<lambda>us.
     pbind (read_c src 4) (\<lambda>c.
       preturn (ulp\<lparr>objs := (objs ulp)\<lparr>nunits := bytes_u32 n, units := us\<rparr>\<rparr>, c))))"

text \<open>
  \<open>ulp\<close> is the global record the function fills; its dependencies are not cleared. When there are some, the first new one is linked behind the null pointer
  \<open>prev_dep\<close>: the outer \<open>None\<close>.
\<close>

definition load_patch_info_from_disk ::
  "bytes option \<Rightarrow> (nat \<Rightarrow> bool) \<Rightarrow> ulp_metadata \<Rightarrow> pstate \<Rightarrow> (perr + ulp_metadata \<times> pstate) option" where
  "load_patch_info_from_disk file aok ulp st =
     (case file of
        None \<Rightarrow> Some (Inl (PErr ENOENT))
      | Some src \<Rightarrow>
          (case disk_header src aok ulp st of
             Inl e \<Rightarrow> Some (Inl e)
           | Inr (ulp, st) \<Rightarrow>
               if ptype ulp = 2 then Some (Inr (ulp, st))
               else case disk_units src aok ulp st of
                 Inl e \<Rightarrow> Some (Inl e)
               | Inr ((ulp, c), st) \<Rightarrow>
                   if deps ulp \<noteq> [] \<and> c \<noteq> 0 then (case parse_dep src aok st of Inl e \<Rightarrow> Some (Inl e) | Inr _ \<Rightarrow> None)
                   else case parse_list (unat c) (parse_dep src aok) st of
                     Inl e \<Rightarrow> Some (Inl e)
                   | Inr (ds, st) \<Rightarrow> Some (Inr (ulp\<lparr>deps := deps ulp @ ds\<rparr>, st))))"

text \<open>
  The section goes to a new file: its path and contents. \<open>opens\<close> and \<open>written\<close> are the answers of \<open>fopen\<close> and \<open>fwrite\<close>. The inner \<open>None\<close> is the null result,
  the outer one a null pointer passed to \<open>strdup\<close> or a search for a path that does not end.
\<close>

definition extract_ulp_from_so_to_disk ::
  "(nat \<Rightarrow> u32 option) \<Rightarrow> (bytes \<Rightarrow> bool) \<Rightarrow> (bytes \<Rightarrow> bool) \<Rightarrow> (bytes \<Rightarrow> nat \<Rightarrow> nat) \<Rightarrow> extracted \<Rightarrow> (bytes \<times> bytes) option option" where
  "extract_ulp_from_so_to_disk getrandom exists opens written section =
     (case section of
        OutOfBounds \<Rightarrow> None
      | TooLarge \<Rightarrow> Some None
      | Extracted buf \<Rightarrow>
          if buf = [] then Some None
          else (case create_path_to_tmp_file getrandom exists of
             None \<Rightarrow> None
           | Some None \<Rightarrow> None
           | Some (Some path) \<Rightarrow>
               if \<not> opens path then Some None
               else if written path (length buf) \<noteq> length buf then Some None
               else Some (Some (path, buf))))"

subsection \<open>Symbols in the file of a library\<close>

text \<open>
  The file as libelf shows it, \<open>None\<close> when it cannot be opened or is no ELF file. The table is sought by its name, its symbols in their order; a table whose data
  cannot be read is dereferenced, the \<open>None\<close> as a result.
\<close>

fun symbol_value :: "symbol list \<Rightarrow> bytes \<Rightarrow> u64" where
  "symbol_value [] nm = 0"
| "symbol_value (s # ss) nm = (if sym_name s = nm then sym_offset s else symbol_value ss nm)"

definition get_loaded_symbol_addr_from_disk :: "elf_section list option \<Rightarrow> loaded_obj \<Rightarrow> bytes \<Rightarrow> u64 option" where
  "get_loaded_symbol_addr_from_disk elf obj nm =
     (case elf of
        None \<Rightarrow> Some 0
      | Some secs \<Rightarrow>
          (case get_elfscn_by_name secs (str ''.symtab'') of
             None \<Rightarrow> Some 0
           | Some scn \<Rightarrow>
               if sec_syms scn \<noteq> [] \<and> \<not> sec_data_ok scn then None
               else let ptr = symbol_value (sec_syms scn) nm in Some (if ptr = 0 then 0 else ptr + l_addr (lmap obj))))"

subsection \<open>Sections added by objcopy\<close>

text \<open>
  The result is the return value and the arguments objcopy was started with. \<open>wi\<close> is its exit status, \<open>None\<close> when it was killed. The status is taken from
  \<open>ret\<close>, not from \<open>wi\<close>.
\<close>

definition WEXITSTATUS :: "int \<Rightarrow> int" where
  "WEXITSTATUS w = (w div 256) mod 256"

definition embed_patch_metadata_into_elf ::
  "bool \<Rightarrow> elf_section list option \<Rightarrow> int option \<Rightarrow> bytes \<Rightarrow> bytes \<Rightarrow> bytes \<Rightarrow> int \<times> bytes list" where
  "embed_patch_metadata_into_elf objcopy_found elf wi elf_path metadata section_name =
     (if \<not> objcopy_found then (ENOENT, [])
      else case elf of
        None \<Rightarrow> (EINVAL, [])
      | Some secs \<Rightarrow>
          let ulp_section_exists = (get_elfscn_by_name secs section_name \<noteq> None);
              ulp_eq_filename = section_name @ [0x3d] @ metadata
          in if length ulp_eq_filename \<ge> 120 then (EOVERFLOW, [])
             else let ret = 0;
                      argv = [str ''/usr/bin/objcopy'', if ulp_section_exists then str ''--update-section'' else str ''--add-section'',
                              ulp_eq_filename, elf_path, elf_path]
                  in (case wi of None \<Rightarrow> ret | Some w \<Rightarrow> WEXITSTATUS ret, argv))"

definition get_object_metadata :: "bool \<Rightarrow> elf_section list \<Rightarrow> ulp_object \<Rightarrow> (int \<times> ulp_object) option" where
  "get_object_metadata alloc elf obj =
     (if \<not> alloc then Some (1, obj)
      else do {
        r \<leftarrow> get_elf_buildid elf;
        Some (case r of
                None \<Rightarrow> (1, obj\<lparr>build_id := replicate BUILDID_LEN 0\<rparr>)
              | Some b \<Rightarrow> (0, obj\<lparr>build_id := b, build_id_len := of_nat (length b)\<rparr>)) })"

subsection \<open>The root directory of a process\<close>

record stat_buf =
  st_dev :: u64
  st_ino :: u64
  st_blocks :: int

definition is_proc_chroot :: "(bytes \<Rightarrow> stat_buf option) \<Rightarrow> nat \<Rightarrow> bool" where
  "is_proc_chroot stat t =
     (case (stat (str ''/proc/'' @ dec t @ str ''/root''), stat (str ''/proc'')) of
        (Some stat1, Some stat2) \<Rightarrow> st_dev stat1 = st_dev stat2 \<and> st_ino stat1 = st_ino stat2 \<and> st_blocks stat1 = st_blocks stat2
      | _ \<Rightarrow> False)"

subsection \<open>Reading in pieces\<close>

text \<open>
  \<open>read_data\<close> of libpulp: the answers of \<open>read\<close>, of which a piece never has more bytes than were asked for; the end of the list is the end of the file. The result
  is the return value and the bytes stored.
\<close>

datatype read_answer = Piece bytes | Interrupted | Failed

fun read_data :: "read_answer list \<Rightarrow> nat \<Rightarrow> bytes \<Rightarrow> int \<times> bytes" where
  "read_data [] count done = (if length done \<noteq> count then (1, done) else (0, done))"
| "read_data (a # as) count done =
     (case a of
        Piece bs \<Rightarrow>
          if bs = [] then (if length done \<noteq> count then (1, done) else (0, done))
          else if length (done @ bs) = count then (0, done @ bs)
          else read_data as count (done @ bs)
      | Interrupted \<Rightarrow> read_data as count done
      | Failed \<Rightarrow> (1, done))"

subsection \<open>The two readers agree\<close>

text \<open>\<open>q\<close> accepts whatever \<open>p\<close> accepts, with the same result.\<close>

definition extends :: "'a parser \<Rightarrow> 'a parser \<Rightarrow> bool" where
  "extends q p \<longleftrightarrow> (\<forall>st r. p st = Inr r \<longrightarrow> q st = Inr r)"

named_theorems extends_intros \<open>parsers that accept more than others\<close>

lemma extends_refl [extends_intros]: "extends p p"
  by (simp add: extends_def)

lemma extendsD: "extends q p \<Longrightarrow> p st = Inr r \<Longrightarrow> q st = Inr r"
  by (cases r) (simp add: extends_def)

lemma extends_bind [extends_intros]: "extends q p \<Longrightarrow> (\<And>x. extends (g x) (f x)) \<Longrightarrow> extends (pbind q g) (pbind p f)"
  unfolding extends_def pbind_def by (auto split: sum.splits)

lemma extends_list [extends_intros]: "extends q p \<Longrightarrow> extends (parse_list n q) (parse_list n p)"
  by (induction n) (auto intro: extends_intros)

lemma extends_read_field [extends_intros]: "k \<le> n \<Longrightarrow> extends (read_field src m k e) (read_field src m n d)"
  unfolding read_field_def by (rule extends_bind [OF extends_refl]) (auto simp: extends_def pfail_def preturn_def split: if_splits)

lemma extends_read_c [extends_intros]: "k \<le> n \<Longrightarrow> extends (read_c src k) (read_c src n)"
  unfolding read_c_def by (rule extends_bind [OF extends_refl]) (auto simp: extends_def split: if_splits)

lemma extends_read_str [extends_intros]: "k \<le> n \<Longrightarrow> extends (read_str src aok k x e) (read_str src aok n x e)"
  unfolding read_str_def by (intro extends_intros)

lemma extends_unit [extends_intros]: "extends (parse_unit src aok) (disk_unit src aok)"
  unfolding parse_unit_def disk_unit_def by (intro extends_intros) simp_all

lemma extends_object [extends_intros]: "extends (parse_object src aok) (disk_object src aok)"
  unfolding parse_object_def disk_object_def by (intro extends_intros) simp_all

text \<open>A record in which only the fields that the parser never sets are left.\<close>

definition blank_metadata :: "ulp_metadata \<Rightarrow> bool" where
  "blank_metadata ulp \<longleftrightarrow> so_handler ulp = 0 \<and> ndeps ulp = 0 \<and> deps ulp = [] \<and> nrefs ulp = 0 \<and> refs ulp = []"

definition parse_refs :: "bytes \<Rightarrow> (nat \<Rightarrow> bool) \<Rightarrow> ulp_metadata \<Rightarrow> ulp_metadata parser" where
  "parse_refs src aok ulp =
     pbind (read_field src 4 4 EINVALIDULP) (\<lambda>nr.
     pbind (parse_list (unat (bytes_u32 nr)) (parse_ref src aok)) (\<lambda>rs.
       preturn (ulp\<lparr>nrefs := bytes_u32 nr, refs := rs\<rparr>)))"

lemma disk_header_parsed:
  assumes "disk_header src aok ulp0 st = Inr (ulp, st')" "blank_metadata ulp0" "cstr (so_filename ulp) \<noteq> []"
  shows "parse_header src aok st = Inr (ulp, st')" "blank_metadata ulp"
proof -
  from assms(1) obtain t s1 i s2 so s3 obj
    where t: "read_field src 1 1 EINVALIDULP st = Inr (t, s1)" and i: "read_field src 32 32 EINVALIDULP s1 = Inr (i, s2)"
      and so: "read_str src aok 4 1 EINVALIDULP s2 = Inr (so, s3)" and obj: "disk_object src aok s3 = Inr (obj, st')"
      and ulp: "ulp = ulp0\<lparr>patch_id := i, so_filename := so, objs := obj, ptype := hd t\<rparr>"
    by (auto simp: disk_header_def pbind_def preturn_def split: sum.splits)
  have "read_str src aok 1 1 EINVALIDULP s2 = Inr (so, s3)" "parse_object src aok s3 = Inr (obj, st')"
    using extendsD [OF extends_read_str so] extendsD [OF extends_object obj] by simp_all
  then show "parse_header src aok st = Inr (ulp, st')"
    using assms(2,3) t i ulp by (simp add: parse_header_def pbind_def preturn_def blank_metadata_def)
  show "blank_metadata ulp" using assms(2) ulp by (simp add: blank_metadata_def)
qed

lemma disk_units_parsed:
  assumes "disk_units src aok u1 s1 = Inr ((u2, c), s2)"
  obtains n t1 us t2 where "read_field src 4 1 1 s1 = Inr (n, t1)" "parse_list (unat (bytes_u32 n)) (parse_unit src aok) t1 = Inr (us, t2)"
    "read_c src 1 t2 = Inr (c, s2)" "u2 = u1\<lparr>objs := (objs u1)\<lparr>nunits := bytes_u32 n, units := us\<rparr>\<rparr>"
proof -
  from assms obtain n t1 us t2 where n: "read_field src 4 4 1 s1 = Inr (n, t1)"
    and us: "parse_list (unat (bytes_u32 n)) (disk_unit src aok) t1 = Inr (us, t2)" and c: "read_c src 4 t2 = Inr (c, s2)"
    and u2: "u2 = u1\<lparr>objs := (objs u1)\<lparr>nunits := bytes_u32 n, units := us\<rparr>\<rparr>"
    by (auto simp: disk_units_def pbind_def preturn_def split: sum.splits)
  show thesis
    using that [OF extendsD [OF extends_read_field n, of 1] extendsD [OF extends_list [OF extends_unit] us] extendsD [OF extends_read_c c, of 1] u2] by simp
qed

text \<open>
  Reading the metadata from a file agrees with reading them from memory: whatever the function for files accepts, in a record without old
  dependencies and with a container's name, the parser in memory accepts too, with the same type, identifier, object, units and dependencies at the same
  position; for a patch it then goes on with the references, which the other leaves out. The converse fails, since the parser in memory accepts lengths of which only
  one byte is there. When the record has old dependencies and the file a new one, a null pointer is written through.
\<close>

theorem load_from_disk_agrees:
  assumes "blank_metadata ulp0" "load_patch_info_from_disk (Some src) aok ulp0 st = Some (Inr (ulp, st'))" "cstr (so_filename ulp) \<noteq> []"
  shows "parse_metadata_from_mem src aok st = (if ptype ulp = 2 then Inr (ulp, st') else parse_refs src aok ulp st')"
proof -
  from assms(2) obtain u1 s1 where h: "disk_header src aok ulp0 st = Inr (u1, s1)"
    by (auto simp: load_patch_info_from_disk_def split: sum.splits)
  note head = disk_header_parsed [OF h assms(1)]
  show ?thesis
  proof (cases "ptype u1 = 2")
    case True
    then have "ulp = u1" "st' = s1" using assms(2) h by (simp_all add: load_patch_info_from_disk_def)
    then show ?thesis using True assms(3) head by (simp add: parse_metadata_from_mem_def pbind_def preturn_def)
  next
    case False
    then obtain u2 c s2 ds where u: "disk_units src aok u1 s1 = Inr ((u2, c), s2)" and d: "parse_list (unat c) (parse_dep src aok) s2 = Inr (ds, st')"
      and ulp: "ulp = u2\<lparr>deps := deps u2 @ ds\<rparr>"
      using assms(2) h by (auto simp: load_patch_info_from_disk_def split: sum.splits if_splits)
    from disk_units_parsed [OF u] obtain n t1 us t2 where n: "read_field src 4 1 1 s1 = Inr (n, t1)"
      and us: "parse_list (unat (bytes_u32 n)) (parse_unit src aok) t1 = Inr (us, t2)" and c: "read_c src 1 t2 = Inr (c, s2)"
      and u2: "u2 = u1\<lparr>objs := (objs u1)\<lparr>nunits := bytes_u32 n, units := us\<rparr>\<rparr>" .
    have "cstr (so_filename u1) \<noteq> []" using assms(3) ulp u2 by simp
    note head = head [OF this]
    have "parse_metadata_from_mem src aok st = parse_rest src aok u1 s1"
      using head(1) False by (simp add: parse_metadata_from_mem_def pbind_def)
    also have "\<dots> = parse_refs src aok ulp st'"
      using head(2) n us c d ulp u2 by (simp add: parse_rest_def parse_refs_def pbind_def preturn_def blank_metadata_def)
    finally show ?thesis using False ulp u2 by simp
  qed
qed

text \<open>A file with no unit, no dependency and no reference, byte by byte.\<close>

definition demo_disk :: bytes where
  "demo_disk = [1, 7, 7, 7, 7, 7, 7, 7, 7, 7, 7, 7, 7, 7, 7, 7, 7, 7, 7, 7, 7, 7, 7, 7, 7, 7, 7, 7, 7, 7, 7, 7, 7,
     2, 0, 0, 0, 0x78, 0, 1, 0, 0, 0, 5, 2, 0, 0, 0, 0x6c, 0, 0, 0, 0, 0, 0, 0, 0, 0, 0, 0, 0, 0]"

definition demo_record :: ulp_metadata where
  "demo_record = \<lparr>patch_id = [7, 7, 7, 7, 7, 7, 7, 7, 7, 7, 7, 7, 7, 7, 7, 7, 7, 7, 7, 7, 7, 7, 7, 7, 7, 7, 7, 7, 7, 7, 7, 7], so_filename = [0x78, 0], so_handler = 0,
     objs = \<lparr>build_id_len = 1, build_id_check = False, build_id = [5], obj_name = [0x6c, 0], nunits = 0, units = []\<rparr>,
     ndeps = 0, deps = [], nrefs = 0, refs = [], ptype = 1\<rparr>"

lemma small_u32: "bytes_u32 [0, 0, 0, 0] = 0" "bytes_u32 [1, 0, 0, 0] = 1" "bytes_u32 [2, 0, 0, 0] = 2"
  by (simp_all add: bytes_u32_def of_le_def)

lemma demo_disk_loads: "\<exists>st. load_patch_info_from_disk (Some demo_disk) (\<lambda>_. True) demo_record (pstart 0 0) = Some (Inr (demo_record, st))"
  by (simp add: load_patch_info_from_disk_def disk_header_def disk_units_def disk_object_def read_str_def read_c_def read_field_def read_from_mem_def
      pbind_def preturn_def calloc_def pstart_def demo_disk_def demo_record_def small_u32)

theorem load_from_disk_agrees_witness:
  "\<exists>st. load_patch_info_from_disk (Some demo_disk) (\<lambda>_. True) demo_record (pstart 0 0) = Some (Inr (demo_record, st)) \<and>
     parse_metadata_from_mem demo_disk (\<lambda>_. True) (pstart 0 0) = parse_refs demo_disk (\<lambda>_. True) demo_record st"
proof -
  obtain st where st: "load_patch_info_from_disk (Some demo_disk) (\<lambda>_. True) demo_record (pstart 0 0) = Some (Inr (demo_record, st))"
    using demo_disk_loads by blast
  have "blank_metadata demo_record" "cstr (so_filename demo_record) \<noteq> []" "ptype demo_record \<noteq> 2"
    by (simp_all add: blank_metadata_def demo_record_def cstr_def)
  with load_from_disk_agrees [OF _ st] st show ?thesis by auto
qed

subsection \<open>What the other functions do\<close>

lemma symbol_value_eq: "symbol_value ss nm = (case get_symbol_with_name ss nm of None \<Rightarrow> 0 | Some s \<Rightarrow> sym_offset s)"
  by (induction ss) auto

text \<open>A failure of objcopy is never reported: once it was started the result is 0.\<close>

lemma embed_status_lost:
  "snd (embed_patch_metadata_into_elf found elf wi path md nm) \<noteq> [] \<Longrightarrow> fst (embed_patch_metadata_into_elf found elf wi path md nm) = 0"
  by (auto simp: embed_patch_metadata_into_elf_def WEXITSTATUS_def Let_def split: option.splits if_splits)

text \<open>However the data are cut into pieces and interrupted, success means that exactly the bytes asked for are stored, and enough pieces mean success.\<close>

fun pieces :: "read_answer list \<Rightarrow> bytes" where
  "pieces [] = []"
| "pieces (Piece bs # as) = bs @ pieces as"
| "pieces (_ # as) = pieces as"

lemma read_data_exact:
  "read_data as count bs = (0, r) \<Longrightarrow> length r = count \<and> (\<exists>rest. bs @ pieces as = r @ rest)"
proof (induction as count bs rule: read_data.induct)
  case (2 a as count bs)
  then show ?case by (cases a) (auto split: if_splits)
qed (auto split: if_splits)

lemma read_data_succeeds:
  assumes "Failed \<notin> set as" "Piece [] \<notin> set as" "bs @ pieces as = r" "length r = count" "length bs < count"
  shows "read_data as count bs = (0, r)"
  using assms
proof (induction as count bs rule: read_data.induct)
  case (2 a as count bs)
  then show ?case by (cases a; cases "pieces as = []") auto
qed auto

end
