(* ===== verification/Spec2Isabelle.thy ===== *)
theory Spec2Isabelle
  imports Ulp_Api Interpose Trigger Patches Msg_Queue Packer Gdb_Interface Arch_Ppc Commands Command_Line Release Tool_Files
begin

text \<open>
  A verification development of libpulp, the user-space live patching library of
  \<open>src/\<close>: the shared library \<open>libpulp.so\<close> that lives in the patched process (\<open>src/lib\<close>), the \<open>ulp\<close>
  tool that drives it from outside (\<open>src/tools\<close>) and the code both share (\<open>src/common\<close>,
  \<open>src/include\<close>).

  \<^bold>\<open>The program.\<close> A live patch is a shared object with a \<open>.ulp\<close> section of metadata: which functions of
  which library are replaced by which functions of the container, which data references have to be
  filled in, which patches it depends on. The packer writes the metadata; the tool extracts it,
  copies it into a buffer of the stopped target process and makes the target call an entry point of
  libpulp. libpulp parses it, checks build id and dependencies, records the patch, and for every
  function to be replaced computes the bytes of a new prologue. It does not write code itself but
  queues write instructions; the tool fetches the queue and performs the writes through ptrace.

  \<^bold>\<open>Theories, and what they model.\<close>
  \<^item> \<open>Ulp_Prelude\<close>: words, byte strings, little-endian encodings, the memory of a process, buffers.
  \<^item> \<open>Ulp_Error\<close>: \<open>lib/error.c\<close>, \<open>include/error_common.h\<close>, \<open>libpulp_strerror\<close>; the error state.
  \<^item> \<open>Ulp_Common\<close>: the string helpers of \<open>common/common.c\<close>.
  \<^item> \<open>Insn_Queue\<close>: \<open>lib/insn_queue.c\<close>, \<open>common/insn_queue.c\<close>, \<open>memwrite\<close>; the contract
    \<open>deferred_memory\<close> (a write that is queued and performed at the flush), interpreted on the queue.
  \<^item> \<open>Ptrace\<close>: \<open>tools/ptrace.c\<close> (transfers, strings) and \<open>tools/insn_queue.c\<close>; the kernel's answers
    are a parameter.
  \<^item> \<open>Ptrace_Control\<close>: the rest of \<open>tools/ptrace.c\<close>: the retry wrapper, attach, detach, registers and
    \<open>run_and_redirect\<close>, over the threads of a target as a record \<open>world\<close>.
  \<^item> \<open>Hijack\<close>: the critical section of \<open>tools/introspection.c\<close>, from \<open>hijack_threads\<close> to \<open>restore_threads\<close>
    with the calls of libpulp's routines between them, as a step relation.
  \<^item> \<open>Dynobj\<close>, \<open>Process_Image\<close>: how the tool learns what is loaded in a process (\<open>tools/introspection.c\<close> from
    \<open>dig_main_link_map\<close> to \<open>initialize_data_structures\<close>), read from the memory of the target.
  \<^item> \<open>Remote_State\<close>: \<open>ulp_read_state\<close>, the tool's view of the patches libpulp has applied.
  \<^item> \<open>Trigger\<close>: \<open>tools/trigger.c\<close> with the sanity and stack checks of \<open>tools/introspection.c\<close>.
  \<^item> \<open>Extract\<close>: what the tool knows of a library (\<open>tools/extract.c\<close>, \<open>tools/elf-extra.c\<close>), from ELF and JSON files.
  \<^item> \<open>Packer\<close>: the description parser and the rest of \<open>tools/packer.c\<close>.
  \<^item> \<open>Patches\<close>: the report of the \<open>patches\<close> command (\<open>tools/patches.c\<close>), as the text it prints.
  \<^item> \<open>Post\<close>: \<open>tools/post.c\<close> and \<open>tools/arch/x86_64/post-arch.c\<close>, which prepare a library for patching.
  \<^item> \<open>Arch_X86\<close>: \<open>lib/arch/x86_64/patch.c\<close>, with a decoder for the three instructions a prologue
    executes, so that redirection is a statement about execution and not about bytes.
  \<^item> \<open>Ulp_Metadata\<close>: the serialiser of \<open>tools/packer.c\<close>, \<open>extract_ulp_from_so_to_mem\<close> of
    \<open>tools/introspection.c\<close> and the parser of \<open>common/common.c\<close>, with its short reads, its allocation
    failures and the overflow of its allocation size.
  \<^item> \<open>Symbol_Loader\<close>: \<open>lib/symbol_loader.c\<close> over the objects \<open>dl_iterate_phdr\<close> reports.
  \<^item> \<open>Ulp_Core\<close>: \<open>lib/ulp.c\<close>: the record \<open>ulp_state\<close> of its global variables, one function per
    operation, and the entry points. Allocation, the dynamic loader and the clock are fields of
    the record \<open>ulp_env\<close>.
  \<^item> \<open>Ulp_Invariant\<close>: the state machine of the entry points (\<open>ulp_step\<close>, \<open>ulp_reachable\<close>) and its
    invariant; \<open>Ulp_Redirect\<close>: what applying and reverting do to execution; \<open>Ulp_Api\<close>: the promises of
    the entry points.
  \<^item> \<open>Interpose\<close>: \<open>lib/interpose.c\<close>, the allocation and loader functions libpulp counts so that it never patches
    inside one, and its initialisation; \<open>get_ld_global_locks\<close>.
  \<^item> \<open>Msg_Queue\<close>: \<open>lib/msg_queue.c\<close> and the printer of \<open>tools/messages.c\<close>; the contract \<open>bounded_log\<close>.
  \<^item> \<open>Pcqueue\<close>: \<open>tools/pcqueue.c\<close> as a step relation of a producer and a consumer thread; the contract
    \<open>fifo_channel\<close>. \<open>Process_List\<close>: its client in \<open>tools/patches.c\<close>.
  \<^item> \<open>Md4\<close>: \<open>tools/md4.c\<close> beside the definition of RFC 1320.
  \<^item> \<open>Arch_Ppc\<close>: \<open>lib/arch/powerpc64le/patch.c\<close> with the template and the stack of the trampoline in \<open>ulp_prologue.S\<close>, beside an interpreter
    for the instructions of the template.
  \<^item> \<open>Gdb_Interface\<close>: the way without the tool: \<open>lib/minielf.c\<close>, \<open>lib/gdb_interface.c\<close> and the in-process half of \<open>lib/insn_queue.c\<close>
    with its page protections.
  \<^item> \<open>Commands\<close>: \<open>tools/check.c\<close>, \<open>tools/messages.c\<close>, \<open>tools/dump.c\<close>, \<open>tools/livepatchable.c\<close>, \<open>tools/set_patchable.c\<close> and the summary
    and entry point of \<open>tools/trigger.c\<close>.
  \<^item> \<open>Command_Line\<close>: \<open>tools/ulp.c\<close> and the option tables of the commands; the calls that \<open>argp\<close> makes are an argument.
  \<^item> \<open>Release\<close>: the functions that free the linked structures, on a heap of blocks; the contract \<open>list_release\<close>, interpreted on every list.
  \<^item> \<open>Tool_Files\<close>: the metadata in temporary files, symbols in the file of a library, the call of objcopy, \<open>read_data\<close> of \<open>lib/ulp.c\<close>.
  \<^item> This theory: the properties that span the library and the tool.

  \<^bold>\<open>What is shown.\<close> A patch that is applied redirects every function it names, in both prologue layouts and on both processors;
  reverting gives each function the newest remaining replacement or its own code; the two sets of
  records libpulp keeps agree in every reachable state; a failure half way stops the library for
  good. The queue is a faithful delayed memory on both sides, and the composition below follows a
  patch through a whole session: the threads are stopped, libpulp's routine runs in the main thread, the
  queue it leaves is carried out, and the threads go on with the registers they had, in a memory where the
  function is redirected. The same holds of a patch that a debugger applies inside the process, where every page gets its protection back. The critical section is transparent to every thread. Metadata survives the trip from the packer
  to the parser. The structures of the tool are released completely, each block once. The message queue, the producer-consumer queue and the digest are equal to their
  abstract counterparts. Where the code does not do what it means to (an inverted build id check, two loops
  that do not end, an allocation size that wraps, unchecked results), the theorem states what it
  does.

  \<^bold>\<open>Loops and bounds.\<close> Loops over lists and counters are structural or have a measure. Loops that may not
  end (\<open>create_path_to_tmp_file\<close>, the \<open>process_vm\<close> retry loops, \<open>read_string\<close>, the loop of
  \<open>revert_all_patches_from_lib\<close>, the two loops of \<open>msgq_strpush\<close>) are partial functions with value \<open>None\<close>
  when they do not return; the properties prove that they return, or that they do not. No fuel is
  used. Words keep their width wherever the code can wrap; \<open>int\<close> counters whose bounds are
  invariants are unbounded integers.

  \<^bold>\<open>Not modelled.\<close> The libraries the program calls (\<open>argp\<close>, libelf, json-c, libunwind, the loader and the C library's allocation) are parameters
  with the behaviour their documentation states. The assembly entry points \<open>ulp_interface.S\<close> and the register saves of the
  powerpc64le trampoline are not modelled. Debug dumps, the excerpt in the packer's error messages, the cache of link maps (compiled out) and the fuzzer's input of \<open>tools/ulp.c\<close> are left out.
\<close>

subsection \<open>From the library to the memory of the target\<close>

lemma longs_ok_shorter: "longs_ok acc a n' \<Longrightarrow> n \<le> n' \<Longrightarrow> longs_ok acc a n"
  unfolding longs_ok_def by (meson add_le_mono1 div_le_mono order_less_le_trans)

definition tool_access :: "kernel \<Rightarrow> u64 \<Rightarrow> nat \<Rightarrow> bool" where
  "tool_access k a len \<longleftrightarrow> vm_atomic k \<and> a \<noteq> 0 \<and>
     0 \<le> vm_readv k a 16 0 \<and> 0 \<le> vm_readv k (a + 16) len 0 \<and>
     0 \<le> vm_writev k (a + 8) 4 0 \<and> 0 \<le> vm_writev k (a + 4) 4 0"

definition patch_access :: "kernel \<Rightarrow> ulp_env \<Rightarrow> ulp_metadata \<Rightarrow> bool" where
  "patch_access k env ulp \<longleftrightarrow>
     (\<forall>u \<in> set (units (objs ulp)). longs_ok (peek_ok k) (unit_addr env ulp u - 14) 20) \<and>
     (\<forall>r \<in> set (refs ulp). longs_ok (peek_ok k) (ref_address env ulp r) 16)"

lemma queue_counters_cleared:
  "mem_read (apply_writes (ws @ [(a + 8, u32_bytes 0), (a + 4, u32_bytes 0)]) m) (a + 4) 8 = replicate 8 0"
proof -
  let ?m = "mem_write (apply_writes ws m) (a + 8) (u32_bytes 0)"
  have d: "a + 8 - (a + 4) = 4" "a + 4 - (a + 8) = - 4" by simp_all
  have "apart (a + 4) (length (u32_bytes 0)) (a + 8) 4" unfolding apart_def d by simp
  then have "mem_read (mem_write ?m (a + 4) (u32_bytes 0)) (a + 8) 4 = mem_read ?m (a + 8) 4"
    by (rule mem_read_write_apart) simp
  also have "\<dots> = u32_bytes 0" using mem_read_write_same [of "u32_bytes 0" _ "a + 8"] by simp
  finally have hi: "mem_read (mem_write ?m (a + 4) (u32_bytes 0)) (a + 8) 4 = u32_bytes 0" .
  have lo: "mem_read (mem_write ?m (a + 4) (u32_bytes 0)) (a + 4) 4 = u32_bytes 0"
    using mem_read_write_same [of "u32_bytes 0" ?m "a + 4"] by simp
  have "mem_read (mem_write ?m (a + 4) (u32_bytes 0)) (a + 4) 8 = u32_bytes 0 @ u32_bytes 0"
    using mem_read_append [of "mem_write ?m (a + 4) (u32_bytes 0)" "a + 4" 4 4] lo hi
    by (simp add: add.assoc)
  moreover have "u32_bytes 0 @ u32_bytes 0 = replicate 8 0" by code_simp
  moreover have "apply_writes (ws @ [(a + 8, u32_bytes 0), (a + 4, u32_bytes 0)]) m = mem_write ?m (a + 4) (u32_bytes 0)"
    by (simp only: append_assoc apply_writes_simps)
  ultimately show ?thesis by simp
qed

text \<open>The writes libpulp queued for a patch, interpreted by the tool.\<close>

lemma queued_patch_redirects:
  assumes "ulp_apply_all_units env ulp s = (0, s')" and "wf_roots (roots s)"
    and "queue_repr (queue s) []" and "error_state s' = ENONE" and "no_overlap env ulp"
    and "remote_queue m a (queue s')" and "version (queue s') = INSNQ_CURR_VERSION"
    and "tool_access k a (nat (qsize (queue s')))" and "patch_access k env ulp"
    and "\<forall>u \<in> set (units (objs ulp)). apart (a + 4) 8 (unit_addr env ulp u - 14) 20"
  shows "\<exists>m'. insnq_interpret_from_process k a m = Some (0, m') \<and> mem_read m' (a + 4) 8 = replicate 8 0 \<and>
    (\<forall>u \<in> set (units (objs ulp)). x86_reaches m' (unit_addr env ulp u) (unit_target env ulp u))"
proof -
  let ?done = "[(a + 8, u32_bytes 0), (a + 4, u32_bytes 0)]"
  have q0: "q_pending (queue s, ENONE) []" using assms(3) by (simp add: q_pending_def)
  obtain pb tb ti where p: "q_pending (queue s', ENONE) (map (unit_write env ulp) (units (objs ulp)) @
        map (ref_update env (so_handler ulp) pb tb ti) (refs ulp))" (is "q_pending _ ?ws")
    and pb: "dlinfo env (so_handler ulp) = Some pb"
    using ulp_apply_all_units_queued [OF assms(1,2) q0 assms(4)] by auto
  have acc: "\<forall>(b, bs) \<in> set ?ws. longs_ok (peek_ok k) b (length bs)"
  proof (clarsimp)
    fix b bs
    assume "(b, bs) \<in> unit_write env ulp ` set (units (objs ulp)) \<or>
       (b, bs) \<in> ref_update env (so_handler ulp) pb tb ti ` set (refs ulp)"
    then show "longs_ok (peek_ok k) b (length bs)"
    proof
      assume "(b, bs) \<in> unit_write env ulp ` set (units (objs ulp))"
      then obtain u where u: "u \<in> set (units (objs ulp))" "unit_write env ulp u = (b, bs)" by force
      then have "b = unit_addr env ulp u - 14" "length bs \<le> 20"
        using patch_write_length [of "pmem env" "unit_addr env ulp u" "Some (unit_target env ulp u)"]
        by (auto simp: unit_write_def patch_write_def)
      with u assms(9) show ?thesis by (auto simp: patch_access_def intro: longs_ok_shorter)
    next
      assume "(b, bs) \<in> ref_update env (so_handler ulp) pb tb ti ` set (refs ulp)"
      then obtain r where "r \<in> set (refs ulp)" "b = ref_address env ulp r" "bs = ref_write tb ti r"
        using pb by (auto simp: ref_update_def ref_address_def)
      with ref_write_length [of tb ti r] assms(9) show ?thesis
        by (auto simp: patch_access_def intro: longs_ok_shorter)
    qed
  qed
  have run: "insnq_interpret_from_process k a m = Some (0, apply_writes (?ws @ ?done) m)"
    using insnq_interpret_from_process_ok [OF _ _ assms(6) _ assms(7) _ _ _ _ acc] p assms(8)
    by (simp add: q_pending_def tool_access_def)
  have "off_window (unit_addr env ulp u) w" if "u \<in> set (units (objs ulp))" "w \<in> set ?done" for u w
  proof -
    have ap: "apart (a + 4) 8 (unit_addr env ulp u - 14) 20" using assms(10) that(1) by blast
    show ?thesis
      using that(2) apart_part [OF ap, of 0 4] apart_part [OF ap, of 4 4]
      by (auto intro!: off_window_apart simp: add.commute)
  qed
  then have "x86_reaches (apply_writes (?ws @ ?done) m) (unit_addr env ulp u) (unit_target env ulp u)"
    if "u \<in> set (units (objs ulp))" for u
    using unit_writes_redirect [OF assms(5) pb that, of ?done tb ti m] that by auto
  then show ?thesis using run queue_counters_cleared by blast
qed

text \<open>
  The hook of the target, seen from the tool: whenever the main thread is continued at \<open>routine\<close>, it stops with 0 in
  its return register and with the queue \<open>q\<close> in memory.
\<close>

definition hook_leaves_queue :: "os \<Rightarrow> registers \<Rightarrow> u64 \<Rightarrow> u64 \<Rightarrow> insn_queue \<Rightarrow> bool" where
  "hook_leaves_queue os regs routine a q \<longleftrightarrow>
     (\<forall>n m. case resumes os n (Ptrace_Control.redirected regs routine) m of (regs', m') \<Rightarrow> rax regs' = 0 \<and> remote_queue m' a q)"

text \<open>
  Claim C1. A live patch, from stop to restart. libpulp's trigger routine applies a patch with result 0
  and leaves its queue in memory; the tool can reach the queue, the prologues and the references,
  and the queue's counters lie outside the prologues. When the tool hijacks the process, applies
  the patch and restores the threads, each with result 0, then execution that enters any of the patched functions
  arrives at its replacement, the queue in the target is empty again, every thread has the
  registers it had before, and no thread is left attached.
\<close>

theorem live_patch_session:
  assumes patch: "ulp_apply_all_units env ulp s = (0, s')" "wf_roots (roots s)" "queue_repr (queue s) []"
      "error_state s' = ENONE" "no_overlap env ulp" "version (queue s') = INSNQ_CURR_VERSION"
    and hook: "hook_leaves_queue os (tregs w (pid p)) (trigger (dynobj_libpulp p)) a (queue s')"
      "insn_queue_addr (dynobj_libpulp p) = a"
    and access: "tool_access (mem_access os) a (nat (qsize (queue s')))" "patch_access (mem_access os) env ulp"
      "\<forall>u \<in> set (units (objs ulp)). apart (a + 4) 8 (unit_addr env ulp u - 14) 20"
    and start: "threads p = []" "main_thread p = None" "\<forall>t. \<not> traced w t" "\<not> all_threads_hijacked p"
    and session: "hijack_threads os fs p w = Some (0, p1, w1)" "apply_patch os timeout p1 md d w1 = Some (0, w2)"
      "restore_threads os p1 w2 = Some (0, p3, w3)"
  shows "(\<forall>u \<in> set (units (objs ulp)). x86_reaches (tmem w3) (unit_addr env ulp u) (unit_target env ulp u)) \<and>
    mem_read (tmem w3) (a + 4) 8 = replicate 8 0 \<and> tregs w3 = tregs w \<and> (\<forall>t. \<not> traced w3 t)"
proof -
  have hij: "hijacked fs w p p1 w1" using hijack_threads_result [OF session(1) start(1,3,4)] by simp
  obtain th n m0 ctx m1 q where th: "main_thread p1 = Some th"
    and res: "resumes os n (Ptrace_Control.redirected (tcontext th) (trigger (dynobj_libpulp p1))) m0 = (ctx, m1)"
    and run: "insnq_interpret_from_process (mem_access os) (insn_queue_addr (dynobj_libpulp p1)) m1 = Some (q, tmem w2)"
    using apply_patch_success [OF session(2)] by blast
  have main: "tcontext th = tregs w (pid p)" "dynobj_libpulp p1 = dynobj_libpulp p"
    using hijacked_main [OF hij start(2) th] hij by (simp_all add: hijacked_def)
  then have rq: "remote_queue m1 a (queue s')"
    using hook(1) res by (auto simp: hook_leaves_queue_def dest!: spec [of _ n] spec [of _ m0])
  obtain m' where m': "insnq_interpret_from_process (mem_access os) a m1 = Some (0, m')"
    "mem_read m' (a + 4) 8 = replicate 8 0"
    "\<forall>u \<in> set (units (objs ulp)). x86_reaches m' (unit_addr env ulp u) (unit_target env ulp u)"
    using queued_patch_redirects [OF patch(1-5) rq patch(6) access] by blast
  then have mem: "tmem w3 = m'" using run main(2) hook(2) restore_threads_tmem [OF session(3)] by simp
  have "(section_step os timeout)\<^sup>*\<^sup>* (p1, w1) (p1, w2)" using Hijack.step_apply [OF session(2)] by blast
  from critical_section_restores [OF session(1) this session(3) start(1,3,4)] start(2) m' mem
  show ?thesis by simp
qed

definition queue_image :: "insn_queue \<Rightarrow> bytes" where
  "queue_image q = u32_bytes (of_int (version q)) @ u32_bytes (of_int (num_insns q)) @
     u32_bytes (of_int (qsize q)) @ u32_bytes 0 @ buf_read (buffer q) 0 (nat (qsize q))"

lemma remote_queue_image:
  assumes "qsize q \<le> int INSN_BUFFER_MAX"
  shows "remote_queue (mem_write m a (queue_image q)) a q"
proof -
  have len: "length (queue_image q) \<le> 2 ^ 64"
    using assms by (simp add: queue_image_def INSN_BUFFER_MAX_def nat_le_iff)
  let ?v = "u32_bytes (of_int (version q))" and ?n = "u32_bytes (of_int (num_insns q))"
    and ?s = "u32_bytes (of_int (qsize q))" and ?b = "buf_read (buffer q) 0 (nat (qsize q))"
  have mid: "queue_image q = xs @ ys @ zs \<Longrightarrow> b = a + of_nat (length xs) \<Longrightarrow> k = length ys \<Longrightarrow>
      mem_read (mem_write m a (queue_image q)) b k = ys" for xs ys zs b k
    using mem_read_write_mid [of xs ys zs b a k m] len by simp
  show ?thesis
    unfolding remote_queue_def
    using mid [of "[]" ?v "?n @ ?s @ u32_bytes 0 @ ?b"] mid [of ?v ?n "?s @ u32_bytes 0 @ ?b"]
      mid [of "?v @ ?n" ?s "u32_bytes 0 @ ?b"] mid [of "?v @ ?n @ ?s @ u32_bytes 0" ?b "[]"]
    by (simp add: queue_image_def)
qed

lemma demo_units:
  "units (objs demo_ulp) = [\<lparr>old_fname = str ''f'', new_fname = str ''f_lp'', old_faddr = 0xC00\<rparr>]"
  "unit_addr demo_env demo_ulp \<lparr>old_fname = str ''f'', new_fname = str ''f_lp'', old_faddr = 0xC00\<rparr> = 0x1000"
  "unit_target demo_env demo_ulp \<lparr>old_fname = str ''f'', new_fname = str ''f_lp'', old_faddr = 0xC00\<rparr> = 0x7000"
  by (simp_all add: lookup_addr_def demo_env_def demo_ulp_def demo_names demo_lookup load_so_symbol_def)

text \<open>The trigger routine of the example: 0 in the return register, the queue of the applied patch in memory.\<close>

definition demo_hook :: "insn_queue \<Rightarrow> nat \<Rightarrow> registers \<Rightarrow> mem \<Rightarrow> registers \<times> mem" where
  "demo_hook q n regs m = (regs\<lparr>rax := 0\<rparr>, mem_write m 0x50000 (queue_image q))"

lemma demo_patch:
  obtains s' where "ulp_apply_all_units demo_env demo_ulp ulp_init = (0, s')" "error_state s' = ENONE"
    "version (queue s') = INSNQ_CURR_VERSION" "qsize (queue s') \<le> int INSN_BUFFER_MAX"
    "wf_roots (roots ulp_init)" "queue_repr (queue ulp_init) []" "no_overlap demo_env demo_ulp"
proof -
  obtain s' where s': "ulp_apply_all_units demo_env demo_ulp ulp_init = (0, s')" "error_state s' = ENONE"
    "version (queue s') = INSNQ_CURR_VERSION"
    using demo_apply by blast
  have q: "queue_repr (queue ulp_init) []" "wf_roots (roots ulp_init)"
    by (simp_all add: ulp_init_def queue_repr_Nil insnq_init_def)
  have no: "no_overlap demo_env demo_ulp"
    unfolding no_overlap_def demo_units(1) using demo_units(2)
    by (simp add: demo_ulp_def demo_env_def ref_address_def apart_def)
  obtain ws where "q_pending (queue s', ENONE) ws"
    using ulp_apply_all_units_queued [OF s'(1) q(2) _ s'(2), of "[]"] q(1) unfolding q_pending_def
    by (metis fst_conv list.map(1))
  then have "qsize (queue s') \<le> int INSN_BUFFER_MAX" by (simp add: q_pending_def queue_repr_def)
  with s' q no show ?thesis using that by blast
qed

theorem live_patch_session_witness:
  "\<exists>s' p1 w1 w2 p3 w3. ulp_apply_all_units demo_env demo_ulp ulp_init = (0, s') \<and>
     hijack_threads (demo_os (demo_hook (queue s'))) demo_fs (demo_process 0x50000) demo_world = Some (0, p1, w1) \<and>
     apply_patch (demo_os (demo_hook (queue s'))) 200 p1 [1, 2, 3] False w1 = Some (0, w2) \<and>
     restore_threads (demo_os (demo_hook (queue s'))) p1 w2 = Some (0, p3, w3) \<and>
     x86_reaches (tmem w3) 0x1000 0x7000 \<and> tregs w3 = tregs demo_world"
proof -
  obtain s' where s': "ulp_apply_all_units demo_env demo_ulp ulp_init = (0, s')" "error_state s' = ENONE"
    "version (queue s') = INSNQ_CURR_VERSION" "qsize (queue s') \<le> int INSN_BUFFER_MAX"
    "wf_roots (roots ulp_init)" "queue_repr (queue ulp_init) []" "no_overlap demo_env demo_ulp"
    by (rule demo_patch)
  let ?f = "demo_hook (queue s')"
  have rq: "remote_queue (mem_write m 0x50000 (queue_image (queue s'))) 0x50000 (queue s')" for m
    by (rule remote_queue_image [OF s'(4)])
  then have hook: "hook_leaves_queue (demo_os ?f) (tregs demo_world 7) 0x9000 0x50000 (queue s')"
    by (simp add: hook_leaves_queue_def demo_os_def demo_hook_def)
  have acc: "tool_access all_ok 0x50000 (nat (qsize (queue s')))" "patch_access all_ok demo_env demo_ulp"
    "\<forall>u \<in> set (units (objs demo_ulp)). apart (0x50000 + 4) 8 (unit_addr demo_env demo_ulp u - 14) 20"
    using all_ok_atomic demo_units(2) unfolding demo_units(1)
    by (simp_all add: tool_access_def patch_access_def all_ok_def longs_ok_def apart_def)
  obtain m2 where m2: "insnq_interpret_from_process all_ok 0x50000
      (mem_write (mem_write (\<lambda>_. 0) 0xA000 [1, 2, 3]) 0x50000 (queue_image (queue s'))) = Some (0, m2)"
    using queued_patch_redirects [OF s'(1,5,6,2,7) rq s'(3) acc] by blast
  obtain w2 where ap: "apply_patch (demo_os ?f) 200 (demo_hijacked 0x50000) [1, 2, 3] False demo_stopped = Some (0, w2)"
    using demo_apply_patch [of ?f, OF demo_hook_def _ _ m2] by (auto simp: ULP_METADATA_BUF_LEN_def)
  obtain p3 w3 where re: "restore_threads (demo_os ?f) (demo_hijacked 0x50000) w2 = Some (0, p3, w3)"
    using demo_restore by blast
  have "(\<forall>u \<in> set (units (objs demo_ulp)). x86_reaches (tmem w3) (unit_addr demo_env demo_ulp u) (unit_target demo_env demo_ulp u)) \<and>
    mem_read (tmem w3) (0x50000 + 4) 8 = replicate 8 0 \<and> tregs w3 = tregs demo_world \<and> (\<forall>t. \<not> traced w3 t)"
    by (rule live_patch_session [OF s'(1,5,6,2,7,3) _ _ _ _ acc(3) _ _ _ _ demo_hijack ap re])
       (use hook acc in \<open>simp_all add: demo_process_def demo_world_def demo_os_def\<close>)
  then show ?thesis using demo_units s'(1) demo_hijack [of ?f "0x50000"] ap re by auto
qed

end
